(* ===== verification/Prelude.thy ===== *)
theory Prelude
  imports Main "HOL-Library.Word" "HOL-Library.List_Lexorder" "HOL-Library.Multiset"
begin

unbundle bit_operations_syntax

text \<open>
  What every component theory shares: the machine types, the way a C++ statement with
  side effects and exceptions is modelled, loops, byte strings in host (little-endian)
  order, and \<open>std::map\<close>.

  \<^item> A statement over a state \<open>'s\<close> that yields an \<open>'a\<close> is a function
    \<open>'s \<Rightarrow> (exn + 'a) \<times> 's\<close>: the state survives an exception, because C++ does not undo
    what was written before the \<open>throw\<close>.
  \<^item> \<open>Runtime msg\<close> is \<open>std::runtime_error(msg)\<close>. \<open>Deadlock\<close> is locking a
    \<open>std::mutex\<close> the calling thread already owns. \<open>UB\<close> is undefined behaviour (a read
    outside a buffer, signed overflow), which no caller can rely on, or recursion without end.
    \<open>Exit\<close> is \<open>exit(-1)\<close>.
\<close>

section \<open>Machine types\<close>

type_synonym u8 = "8 word"
type_synonym u32 = "32 word"
type_synonym u64 = "64 word"
type_synonym bytes = "u8 list"

text \<open>\<open>core/common.hpp\<close>: fixed-size byte arrays and the amount type.\<close>

type_synonym wallet = bytes
type_synonym public_key = bytes
type_synonym private_key = bytes
type_synonym signature = bytes
type_synonym hash = bytes
type_synonym amount = u64

definition NULL_SHA256_HASH :: hash where
  "NULL_SHA256_HASH = replicate 32 0"

definition NULL_ADDRESS :: wallet where
  "NULL_ADDRESS = replicate 25 0"

section \<open>Statements with state and exceptions\<close>

datatype exn = Runtime string | Deadlock | Exit | UB

type_synonym ('s, 'a) cpp = "'s \<Rightarrow> (exn + 'a) \<times> 's"

definition ok :: "'a \<Rightarrow> ('s, 'a) cpp" where
  "ok a s = (Inr a, s)"

definition throw :: "exn \<Rightarrow> ('s, 'a) cpp" where
  "throw e s = (Inl e, s)"

definition bindE :: "('s, 'a) cpp \<Rightarrow> ('a \<Rightarrow> ('s, 'b) cpp) \<Rightarrow> ('s, 'b) cpp" where
  "bindE m f s = (case m s of (Inl e, s') \<Rightarrow> (Inl e, s') | (Inr a, s') \<Rightarrow> f a s')"

definition getS :: "('s, 's) cpp" where
  "getS s = (Inr s, s)"

definition modS :: "('s \<Rightarrow> 's) \<Rightarrow> ('s, unit) cpp" where
  "modS f s = (Inr (), f s)"

text \<open>\<open>try { m } catch(...) { h }\<close>: a handler only sees exceptions.\<close>

definition catchE :: "('s, 'a) cpp \<Rightarrow> ('s, 'a) cpp \<Rightarrow> ('s, 'a) cpp" where
  "catchE m h s = (case m s of (Inl (Runtime e), s') \<Rightarrow> h s' | r \<Rightarrow> r)"

text \<open>An operation on a component of the state.\<close>

definition zoom :: "('s \<Rightarrow> 't) \<Rightarrow> ('t \<Rightarrow> 's \<Rightarrow> 's) \<Rightarrow> ('t, 'a) cpp \<Rightarrow> ('s, 'a) cpp" where
  "zoom g p m s = (case m (g s) of (r, t) \<Rightarrow> (r, p t s))"

text \<open>\<open>for (auto x : xs) body\<close>.\<close>

primrec forE :: "'a list \<Rightarrow> ('a \<Rightarrow> ('s, unit) cpp) \<Rightarrow> ('s, unit) cpp" where
  "forE [] f = ok ()"
| "forE (x # xs) f = bindE (f x) (\<lambda>_. forE xs f)"

text \<open>A loop that runs its body \<open>n\<close> times and collects the results.\<close>

primrec timesE :: "nat \<Rightarrow> ('s, 'a) cpp \<Rightarrow> ('s, 'a list) cpp" where
  "timesE 0 m = ok []"
| "timesE (Suc n) m = bindE m (\<lambda>x. bindE (timesE n m) (\<lambda>xs. ok (x # xs)))"

named_theorems cpp_simps \<open>evaluation of statements\<close>

lemma ok_app [cpp_simps, simp]: "ok a s = (Inr a, s)"
  by (simp add: ok_def)

lemma throw_app [cpp_simps, simp]: "throw e s = (Inl e, s)"
  by (simp add: throw_def)

lemma getS_app [cpp_simps, simp]: "getS s = (Inr s, s)"
  by (simp add: getS_def)

lemma modS_app [cpp_simps, simp]: "modS f s = (Inr (), f s)"
  by (simp add: modS_def)

lemma bindE_Inr [cpp_simps]: "m s = (Inr a, s') \<Longrightarrow> bindE m f s = f a s'"
  by (simp add: bindE_def)

lemma bindE_Inl [cpp_simps]: "m s = (Inl e, s') \<Longrightarrow> bindE m f s = (Inl e, s')"
  by (simp add: bindE_def)

lemma bindE_ok [cpp_simps, simp]: "bindE (Pair (Inr a)) f = f a"
  by (simp add: bindE_def fun_eq_iff)

lemma bindE_ok' [cpp_simps, simp]: "bindE (ok a) f = f a" "bindE (throw e) f = throw e"
  by (simp_all add: bindE_def fun_eq_iff)

lemma bindE_throw [cpp_simps, simp]: "bindE (Pair (Inl e)) f = Pair (Inl e)"
  by (simp add: bindE_def fun_eq_iff)

lemma bindE_getS [cpp_simps]: "bindE getS f s = f s s"
  by (simp add: bindE_def)

lemma bindE_modS [cpp_simps]: "bindE (modS g) f s = f () (g s)"
  by (simp add: bindE_def)

lemma bindE_assoc: "bindE (bindE m f) g = bindE m (\<lambda>x. bindE (f x) g)"
  by (auto simp: bindE_def fun_eq_iff split: prod.splits sum.splits)

lemma bindE_eq_Inr:
  "bindE m f s = (Inr b, s'') \<longleftrightarrow> (\<exists>a s'. m s = (Inr a, s') \<and> f a s' = (Inr b, s''))"
  by (auto simp: bindE_def split: prod.splits sum.splits)

lemma bindE_eq_Inl:
  "bindE m f s = (Inl e, s'') \<longleftrightarrow>
     m s = (Inl e, s'') \<or> (\<exists>a s'. m s = (Inr a, s') \<and> f a s' = (Inl e, s''))"
  by (auto simp: bindE_def split: prod.splits sum.splits)

lemma zoom_Inr [cpp_simps]: "m (g s) = (Inr a, t) \<Longrightarrow> zoom g p m s = (Inr a, p t s)"
  by (simp add: zoom_def)

lemma zoom_Inl [cpp_simps]: "m (g s) = (Inl e, t) \<Longrightarrow> zoom g p m s = (Inl e, p t s)"
  by (simp add: zoom_def)

lemma zoom_eq: "zoom g p m s = (r, s') \<longleftrightarrow> (\<exists>t. m (g s) = (r, t) \<and> s' = p t s)"
  by (auto simp: zoom_def split: prod.splits)

lemma zoom_bindE:
  assumes "\<And>t s. g (p t s) = t" and "\<And>t u s. p t (p u s) = p t s"
  shows "zoom g p (bindE m f) s = bindE (zoom g p m) (\<lambda>a. zoom g p (f a)) s"
  using assms by (auto simp: zoom_def bindE_def split: prod.splits sum.splits)

text \<open>
  Invariants of statements: \<open>keeps I m\<close> says that \<open>m\<close>, however it ends, leaves a state with
  \<open>I\<close> if it started in one.
\<close>

definition keeps :: "('s \<Rightarrow> bool) \<Rightarrow> ('s, 'a) cpp \<Rightarrow> bool" where
  "keeps I m \<longleftrightarrow> (\<forall>s. I s \<longrightarrow> I (snd (m s)))"

named_theorems keeping \<open>composition of statements that keep an invariant\<close>

lemma keepsI: "(\<And>s r s'. I s \<Longrightarrow> m s = (r, s') \<Longrightarrow> I s') \<Longrightarrow> keeps I m"
  by (simp add: keeps_def) (metis prod.collapse)

lemma keepsD: "keeps I m \<Longrightarrow> m s = (r, s') \<Longrightarrow> I s \<Longrightarrow> I s'"
  by (metis keeps_def snd_conv)

lemma keepsE: "m s = (r, s') \<Longrightarrow> keeps I m \<Longrightarrow> I s \<Longrightarrow> I s'"
  by (rule keepsD)

lemma keeps_basic [keeping]: "keeps I (ok a)" "keeps I (throw e)" "keeps I getS"
  by (simp_all add: keeps_def)

lemma keeps_modS [keeping]: "(\<And>s. I s \<Longrightarrow> I (f s)) \<Longrightarrow> keeps I (modS f)"
  by (auto simp: keeps_def)

lemma keeps_bind [keeping]: "keeps I m \<Longrightarrow> (\<And>a. keeps I (f a)) \<Longrightarrow> keeps I (bindE m f)"
  by (simp add: keeps_def bindE_def split: prod.split sum.split) (metis snd_conv)

lemma keeps_cases [keeping]:
  "keeps I m \<Longrightarrow> keeps I m' \<Longrightarrow> keeps I (if b then m else m')"
  "keeps I m \<Longrightarrow> (\<And>x. keeps I (f x)) \<Longrightarrow> keeps I (case v of None \<Rightarrow> m | Some x \<Rightarrow> f x)"
  "(\<And>x. keeps I (g x)) \<Longrightarrow> (\<And>y. keeps I (h y)) \<Longrightarrow> keeps I (case w of Inl x \<Rightarrow> g x | Inr y \<Rightarrow> h y)"
  "(\<And>x y. keeps I (k x y)) \<Longrightarrow> keeps I (case q of (x, y) \<Rightarrow> k x y)"
  by (simp_all split: option.split sum.split prod.split)

lemma keeps_catch [keeping]: "keeps I m \<Longrightarrow> keeps I h \<Longrightarrow> keeps I (catchE m h)"
  by (simp add: keeps_def catchE_def split: prod.split sum.split exn.split) (intro allI impI conjI; metis snd_conv)

lemma keeps_forE [keeping]: "(\<And>x. keeps I (f x)) \<Longrightarrow> keeps I (forE xs f)"
  by (induction xs) (auto intro!: keeping)

lemma keeps_zoom:
  "keeps J m \<Longrightarrow> (\<And>s. I s \<Longrightarrow> J (g s)) \<Longrightarrow> (\<And>s t. I s \<Longrightarrow> J t \<Longrightarrow> I (p t s)) \<Longrightarrow> keeps I (zoom g p m)"
  by (simp add: keeps_def zoom_def split: prod.split) (metis snd_conv)

lemma forE_append: "forE (xs @ ys) f = bindE (forE xs f) (\<lambda>_. forE ys f)"
  by (induction xs) (simp_all add: bindE_assoc)

text \<open>A property every step of a loop keeps holds when the loop returns.\<close>

lemma forE_invariant:
  assumes "forE xs f s = (Inr (), s')" and "P s"
    and "\<And>x s s'. x \<in> set xs \<Longrightarrow> P s \<Longrightarrow> f x s = (Inr (), s') \<Longrightarrow> P s'"
  shows "P s'"
  using assms
proof (induction xs arbitrary: s)
  case Nil
  then show ?case by simp
next
  case (Cons x xs)
  from Cons.prems(1) obtain t where t: "f x s = (Inr (), t)" "forE xs f t = (Inr (), s')"
    by (auto simp: bindE_eq_Inr)
  have "P t" by (rule Cons.prems(3) [OF _ Cons.prems(2) t(1)]) simp
  with t(2) Cons.prems(3) show ?case by (intro Cons.IH) auto
qed

section \<open>Little-endian bytes\<close>

text \<open>
  \<open>memcpy\<close> between an integer and a buffer on the little-endian hosts the node is built
  for (\<open>hostToNetworkUint32\<close> and its kin are the identity): the least significant byte
  comes first.
\<close>

primrec le_enc :: "nat \<Rightarrow> 'a::len word \<Rightarrow> bytes" where
  "le_enc 0 w = []"
| "le_enc (Suc n) w = ucast w # le_enc n (drop_bit 8 w)"

primrec le_dec :: "bytes \<Rightarrow> 'a::len word" where
  "le_dec [] = 0"
| "le_dec (b # bs) = ucast b OR push_bit 8 (le_dec bs)"

lemma length_le_enc [simp]: "length (le_enc n w) = n"
  by (induction n arbitrary: w) auto

lemma bit_le_dec:
  "bit (le_dec bs :: 'a::len word) i \<longleftrightarrow>
     i < LENGTH('a) \<and> i div 8 < length bs \<and> bit (bs ! (i div 8)) (i mod 8)"
proof (induction bs arbitrary: i)
  case Nil
  then show ?case by simp
next
  case (Cons b bs)
  show ?case
  proof (cases "i < 8")
    case True
    then show ?thesis by (auto simp: bit_simps)
  next
    case False
    then have d: "i div 8 = Suc ((i - 8) div 8)" and m: "i mod 8 = (i - 8) mod 8"
      by (simp_all add: le_div_geq le_mod_geq)
    have "\<not> bit b i" using False by (auto dest: bit_imp_le_length)
    with False show ?thesis by (auto simp: bit_simps Cons.IH d m)
  qed
qed

lemma nth_le_enc: "j < n \<Longrightarrow> le_enc n w ! j = ucast (drop_bit (8 * j) w)"
proof (induction n arbitrary: w j)
  case 0
  then show ?case by simp
next
  case (Suc n)
  then show ?case by (cases j) (simp_all add: drop_bit_drop_bit add.commute)
qed

lemma le_dec_enc: "LENGTH('a) = 8 * n \<Longrightarrow> le_dec (le_enc n w) = (w :: 'a::len word)"
proof (rule bit_word_eqI)
  fix i assume n: "LENGTH('a) = 8 * n" and i: "i < LENGTH('a)"
  then have "i div 8 < n" by (simp add: less_mult_imp_div_less mult.commute)
  with i show "bit (le_dec (le_enc n w) :: 'a word) i = bit w i"
    by (simp add: bit_le_dec nth_le_enc bit_simps)
qed

lemma le_dec_enc32 [simp]: "le_dec (le_enc 4 (w :: u32)) = w"
  by (rule le_dec_enc) simp

lemma le_dec_enc64 [simp]: "le_dec (le_enc 8 (w :: u64)) = w"
  by (rule le_dec_enc) simp

lemma le_enc_inj: "LENGTH('a) = 8 * n \<Longrightarrow> le_enc n v = le_enc n (w :: 'a::len word) \<longleftrightarrow> v = w"
  by (metis le_dec_enc)

section \<open>\<open>std::map\<close>\<close>

text \<open>
  An ordered map as the list of its entries in key order, which is the order a range
  \<open>for\<close> visits them in. The locale is the contract the clients (ledger deltas, pending
  amounts) use.
\<close>

locale ordered_map =
  fixes get :: "'m \<Rightarrow> 'k::linorder \<Rightarrow> 'v option"
    and put :: "'k \<Rightarrow> 'v \<Rightarrow> 'm \<Rightarrow> 'm"
    and del :: "'k \<Rightarrow> 'm \<Rightarrow> 'm"
    and entries :: "'m \<Rightarrow> ('k \<times> 'v) list"
    and wf :: "'m \<Rightarrow> bool"
  assumes get_put: "wf m \<Longrightarrow> get (put k v m) = (get m)(k \<mapsto> v)"
    and get_del: "wf m \<Longrightarrow> get (del k m) = (get m)(k := None)"
    and wf_put: "wf m \<Longrightarrow> wf (put k v m)"
    and wf_del: "wf m \<Longrightarrow> wf (del k m)"
    and entries_get: "wf m \<Longrightarrow> map_of (entries m) = get m"
    and entries_distinct: "wf m \<Longrightarrow> distinct (map fst (entries m))"
begin

lemma get_put_same [simp]: "wf m \<Longrightarrow> get (put k v m) k = Some v"
  by (simp add: get_put)

lemma get_put_other: "wf m \<Longrightarrow> k \<noteq> j \<Longrightarrow> get (put k v m) j = get m j"
  by (simp add: get_put)

lemma entries_iff: "wf m \<Longrightarrow> (k, v) \<in> set (entries m) \<longleftrightarrow> get m k = Some v"
  by (metis entries_distinct entries_get map_of_eq_Some_iff)

lemma finite_dom: "wf m \<Longrightarrow> finite (dom (get m))"
  by (metis entries_get finite_dom_map_of)

lemma put_put: "wf m \<Longrightarrow> get (put k v (put k u m)) = get (put k v m)"
  by (simp add: get_put wf_put)

end

primrec omap_put :: "'k::linorder \<Rightarrow> 'v \<Rightarrow> ('k \<times> 'v) list \<Rightarrow> ('k \<times> 'v) list" where
  "omap_put k v [] = [(k, v)]"
| "omap_put k v (p # m) =
     (if k < fst p then (k, v) # p # m
      else if k = fst p then (k, v) # m
      else p # omap_put k v m)"

definition omap_del :: "'k \<Rightarrow> ('k \<times> 'v) list \<Rightarrow> ('k \<times> 'v) list" where
  "omap_del k m = filter (\<lambda>p. fst p \<noteq> k) m"

definition omap_wf :: "('k::linorder \<times> 'v) list \<Rightarrow> bool" where
  "omap_wf m \<longleftrightarrow> sorted_wrt (<) (map fst m)"

lemma omap_wf_simps [simp]:
  "omap_wf []"
  "omap_wf (p # m) \<longleftrightarrow> (\<forall>k \<in> fst ` set m. fst p < k) \<and> omap_wf m"
  by (auto simp: omap_wf_def)

lemma map_of_omap_put: "map_of (omap_put k v m) = (map_of m)(k \<mapsto> v)"
  if "omap_wf m"
  using that
proof (induction m)
  case Nil
  then show ?case by simp
next
  case (Cons p m)
  show ?case
  proof (cases "k < fst p")
    case True
    then show ?thesis by (cases p) auto
  next
    case False
    with Cons show ?thesis by (cases p) (auto simp: fun_eq_iff)
  qed
qed

lemma fst_omap_put: "fst ` set (omap_put k v m) = insert k (fst ` set m)"
  by (induction m) auto

lemma omap_wf_put [simp]: "omap_wf m \<Longrightarrow> omap_wf (omap_put k v m)"
proof (induction m)
  case Nil
  then show ?case by simp
next
  case (Cons p m)
  then show ?case by (auto simp: fst_omap_put intro: less_trans)
qed

lemma omap_wf_del [simp]: "omap_wf m \<Longrightarrow> omap_wf (omap_del k m)"
  by (induction m) (auto simp: omap_del_def)

lemma map_of_omap_del: "map_of (omap_del k m) = (map_of m)(k := None)"
  by (induction m) (auto simp: omap_del_def)

lemma omap_wf_distinct: "omap_wf m \<Longrightarrow> distinct (map fst m)"
  by (induction m) auto

interpretation omap: ordered_map map_of omap_put omap_del "\<lambda>m. m" omap_wf
  by unfold_locales (auto simp: map_of_omap_put map_of_omap_del omap_wf_distinct)

section \<open>\<open>std::sort\<close>\<close>

text \<open>
  \<open>std::sort\<close> with a strict order \<open>lt\<close>, as insertion sort. Elements the order does not
  separate may come out of \<open>std::sort\<close> in any order; no result of the model depends on it.
\<close>

primrec insort_by :: "('a \<Rightarrow> 'a \<Rightarrow> bool) \<Rightarrow> 'a \<Rightarrow> 'a list \<Rightarrow> 'a list" where
  "insort_by lt x [] = [x]"
| "insort_by lt x (y # ys) = (if lt y x then y # insort_by lt x ys else x # y # ys)"

primrec std_sort :: "('a \<Rightarrow> 'a \<Rightarrow> bool) \<Rightarrow> 'a list \<Rightarrow> 'a list" where
  "std_sort lt [] = []"
| "std_sort lt (x # xs) = insort_by lt x (std_sort lt xs)"

lemma mset_insort_by [simp]: "mset (insort_by lt x xs) = add_mset x (mset xs)"
  by (induction xs) auto

lemma mset_std_sort [simp]: "mset (std_sort lt xs) = mset xs"
  by (induction xs) auto

lemma set_std_sort [simp]: "set (std_sort lt xs) = set xs"
  by (metis mset_std_sort set_mset_mset)

lemma length_std_sort [simp]: "length (std_sort lt xs) = length xs"
  by (metis mset_std_sort size_mset)

lemma set_insort_by [simp]: "set (insort_by lt x xs) = insert x (set xs)"
  by (induction xs) auto

text \<open>An order that compares a key with a linear order sorts by that key.\<close>

lemma sorted_map_insort_by:
  fixes f :: "'a \<Rightarrow> 'k::linorder"
  assumes "\<And>a b. lt a b \<longleftrightarrow> f a < f b" and "sorted (map f xs)"
  shows "sorted (map f (insort_by lt x xs))"
  using assms(2)
proof (induction xs)
  case Nil
  then show ?case by simp
next
  case (Cons y ys)
  then show ?case using assms(1) by (auto simp: not_less intro: order_trans less_imp_le)
qed

lemma sorted_map_std_sort:
  fixes f :: "'a \<Rightarrow> 'k::linorder"
  assumes "\<And>a b. lt a b \<longleftrightarrow> f a < f b"
  shows "sorted (map f (std_sort lt xs))"
  by (induction xs) (auto intro!: sorted_map_insort_by [OF assms])

lemma map_std_sort_key:
  fixes f :: "'a \<Rightarrow> 'k::linorder"
  assumes "\<And>a b. lt a b \<longleftrightarrow> f a < f b"
  shows "map f (std_sort lt xs) = sort (map f xs)"
proof (rule properties_for_sort [symmetric])
  show "mset (map f (std_sort lt xs)) = mset (map f xs)" by simp
  show "sorted (map f (std_sort lt xs))" using assms by (rule sorted_map_std_sort)
qed

lemma sorted_rev_map_std_sort:
  fixes f :: "'a \<Rightarrow> 'k::linorder"
  assumes lt: "\<And>a b. lt a b \<longleftrightarrow> f b < f a"
  shows "sorted (rev (map f (std_sort lt xs)))"
proof -
  have "sorted (rev (map f (insort_by lt x ys)))" if "sorted (rev (map f ys))" for x ys
    using that
  proof (induction ys)
    case Nil
    then show ?case by simp
  next
    case (Cons y ys)
    then show ?case using lt
      by (auto simp: sorted_append not_less intro: order_trans less_imp_le)
  qed
  then show ?thesis by (induction xs) auto
qed

lemma rev_map_std_sort_key:
  fixes f :: "'a \<Rightarrow> 'k::linorder"
  assumes "\<And>a b. lt a b \<longleftrightarrow> f b < f a"
  shows "map f (std_sort lt xs) = rev (sort (map f xs))"
proof -
  have "sort (map f xs) = rev (map f (std_sort lt xs))"
    by (rule properties_for_sort) (use assms in \<open>auto intro: sorted_rev_map_std_sort\<close>)
  then show ?thesis by simp
qed

end
