(* ===== verification/Stores.thy ===== *)
theory Stores
  imports Prelude
begin

text \<open>
  LevelDB, the third-party key-value store behind every database of the node, is a
  parameter: the record \<open>kv\<close> holds the four calls the code makes on a database of type
  \<open>'d\<close>. \<open>None\<close> from \<open>kv_put\<close> and \<open>kv_del\<close> is a status that is not \<open>ok()\<close>.
  \<open>kv_ok\<close> is LevelDB's documented behaviour: \<open>Get\<close> returns the last value put, a deleted
  key is absent, and an iterator visits the pairs in key order. \<open>kv_writes\<close> says that no
  write fails; only theorems about a call that must return assume it.

  \<open>mem_kv\<close> is one lawful store, a list of pairs, used where a concrete database is needed.
\<close>

record 'd kv =
  kv_get :: "'d \<Rightarrow> bytes \<Rightarrow> bytes option"
  kv_put :: "'d \<Rightarrow> bytes \<Rightarrow> bytes \<Rightarrow> 'd option"
  kv_del :: "'d \<Rightarrow> bytes \<Rightarrow> 'd option"
  kv_entries :: "'d \<Rightarrow> (bytes \<times> bytes) list"

definition kv_ok :: "'d kv \<Rightarrow> bool" where
  "kv_ok L \<longleftrightarrow>
     (\<forall>d k v d'. kv_put L d k v = Some d' \<longrightarrow> kv_get L d' = (kv_get L d)(k \<mapsto> v)) \<and>
     (\<forall>d k d'. kv_del L d k = Some d' \<longrightarrow> kv_get L d' = (kv_get L d)(k := None)) \<and>
     (\<forall>d. omap_wf (kv_entries L d) \<and> map_of (kv_entries L d) = kv_get L d)"

definition kv_writes :: "'d kv \<Rightarrow> bool" where
  "kv_writes L \<longleftrightarrow> (\<forall>d k v. kv_put L d k v \<noteq> None) \<and> (\<forall>d k. kv_del L d k \<noteq> None)"

lemma kv_put_get: "kv_ok L \<Longrightarrow> kv_put L d k v = Some d' \<Longrightarrow> kv_get L d' = (kv_get L d)(k \<mapsto> v)"
  and kv_del_get: "kv_ok L \<Longrightarrow> kv_del L d k = Some d' \<Longrightarrow> kv_get L d' = (kv_get L d)(k := None)"
  and kv_entries_wf: "kv_ok L \<Longrightarrow> omap_wf (kv_entries L d)"
  and kv_entries_get: "kv_ok L \<Longrightarrow> map_of (kv_entries L d) = kv_get L d"
  by (auto simp: kv_ok_def)

lemma kv_finite: "kv_ok L \<Longrightarrow> finite (dom (kv_get L d))"
  by (metis finite_dom_map_of kv_entries_get)

lemma kv_keys: "kv_ok L \<Longrightarrow> fst ` set (kv_entries L d) = dom (kv_get L d)"
  by (metis dom_map_of_conv_image_fst kv_entries_get)

section \<open>A database in memory\<close>

definition mem_kv :: "(bytes \<times> bytes) list kv" where
  "mem_kv = \<lparr>kv_get = map_of,
             kv_put = (\<lambda>d k v. Some ((k, v) # d)),
             kv_del = (\<lambda>d k. Some (filter (\<lambda>p. fst p \<noteq> k) d)),
             kv_entries = (\<lambda>d. foldr (\<lambda>p m. omap_put (fst p) (snd p) m) d [])\<rparr>"

lemma mem_kv_simps [simp]:
  "kv_get mem_kv = map_of" "kv_put mem_kv d k v = Some ((k, v) # d)"
  "kv_del mem_kv d k = Some (filter (\<lambda>p. fst p \<noteq> k) d)"
  "kv_entries mem_kv d = foldr (\<lambda>p m. omap_put (fst p) (snd p) m) d []"
  by (simp_all add: mem_kv_def)

lemma mem_kv_entries:
  "omap_wf (foldr (\<lambda>p m. omap_put (fst p) (snd p) m) d []) \<and>
   map_of (foldr (\<lambda>p m. omap_put (fst p) (snd p) m) d []) = map_of d"
  by (induction d) (auto simp: map_of_omap_put)

lemma mem_kv_ok [simp]: "kv_ok mem_kv"
  by (simp add: kv_ok_def mem_kv_entries map_of_omap_del [unfolded omap_del_def])

lemma mem_kv_writes [simp]: "kv_writes mem_kv"
  by (simp add: kv_writes_def)

section \<open>Statements on a database\<close>

definition kv_write :: "'d kv \<Rightarrow> string \<Rightarrow> bytes \<Rightarrow> bytes \<Rightarrow> ('d, unit) cpp" where
  "kv_write L msg k v d =
     (case kv_put L d k v of None \<Rightarrow> (Inl (Runtime msg), d) | Some d' \<Rightarrow> (Inr (), d'))"

definition kv_remove :: "'d kv \<Rightarrow> string \<Rightarrow> bytes \<Rightarrow> ('d, unit) cpp" where
  "kv_remove L msg k d =
     (case kv_del L d k of None \<Rightarrow> (Inl (Runtime msg), d) | Some d' \<Rightarrow> (Inr (), d'))"

lemma kv_write_Inr:
  "kv_ok L \<Longrightarrow> kv_write L msg k v d = (Inr (), d') \<Longrightarrow> kv_get L d' = (kv_get L d)(k \<mapsto> v)"
  by (auto simp: kv_write_def kv_put_get split: option.splits)

lemma kv_remove_Inr:
  "kv_ok L \<Longrightarrow> kv_remove L msg k d = (Inr (), d') \<Longrightarrow> kv_get L d' = (kv_get L d)(k := None)"
  by (auto simp: kv_remove_def kv_del_get split: option.splits)

lemma kv_write_Inl: "kv_write L msg k v d = (Inl e, d') \<Longrightarrow> d' = d \<and> e = Runtime msg"
  by (auto simp: kv_write_def split: option.splits)

lemma kv_remove_Inl: "kv_remove L msg k d = (Inl e, d') \<Longrightarrow> d' = d \<and> e = Runtime msg"
  by (auto simp: kv_remove_def split: option.splits)

lemma kv_write_total: "kv_writes L \<Longrightarrow> \<exists>d'. kv_write L msg k v d = (Inr (), d')"
  by (auto simp: kv_write_def kv_writes_def split: option.splits)

lemma kv_remove_total: "kv_writes L \<Longrightarrow> \<exists>d'. kv_remove L msg k d = (Inr (), d')"
  by (auto simp: kv_remove_def kv_writes_def split: option.splits)

text \<open>
  \<open>DataStore::clear\<close> (\<open>server/data_store.cpp\<close>): the iterator reads a snapshot, so the keys
  are those of the database when the loop starts.
\<close>

definition datastore_clear :: "'d kv \<Rightarrow> ('d, unit) cpp" where
  "datastore_clear L d =
     forE (map fst (kv_entries L d)) (kv_remove L ''Could not clear data store'') d"

lemma forE_remove_get:
  assumes "kv_ok L" and "forE ks (kv_remove L msg) d = (Inr (), d')"
  shows "kv_get L d' = (\<lambda>k. if k \<in> set ks then None else kv_get L d k)"
  using assms(2)
proof (induction ks arbitrary: d)
  case Nil
  then show ?case by simp
next
  case (Cons k ks)
  then obtain t where t: "kv_remove L msg k d = (Inr (), t)" "forE ks (kv_remove L msg) t = (Inr (), d')"
    by (auto simp: bindE_eq_Inr)
  from Cons.IH [OF t(2)] kv_remove_Inr [OF assms(1) t(1)] show ?case by auto
qed

lemma datastore_clear_get:
  assumes "kv_ok L" and "datastore_clear L d = (Inr (), d')"
  shows "kv_get L d' = Map.empty"
proof -
  have "kv_get L d' = (\<lambda>k. if k \<in> set (map fst (kv_entries L d)) then None else kv_get L d k)"
    using assms by (intro forE_remove_get) (simp_all add: datastore_clear_def)
  also have "\<dots> = Map.empty" using kv_keys [OF assms(1), of d] by auto
  finally show ?thesis .
qed

lemma forE_remove_total:
  assumes "kv_writes L" shows "\<exists>d'. forE ks (kv_remove L msg) d = (Inr (), d')"
proof (induction ks arbitrary: d)
  case Nil
  then show ?case by simp
next
  case (Cons k ks)
  obtain t where t: "kv_remove L msg k d = (Inr (), t)"
    using kv_remove_total [OF assms] by blast
  obtain d' where "forE ks (kv_remove L msg) t = (Inr (), d')" using Cons.IH by blast
  with t show ?case by (auto simp: bindE_Inr)
qed

end
