(* ===== verification/Ledger.thy ===== *)
theory Ledger
  imports Stores
begin

text \<open>
  \<open>server/ledger.cpp\<close>: wallet balances in a LevelDB database, 8 little-endian bytes under
  the 25-byte address, and the nonces of the wallets, which are kept in memory only. The
  operations on balances are statements on the database \<open>'d\<close>; the abstraction
  \<open>bal L d\<close> reads it as a map from wallets to amounts.

  The locale \<open>account_book\<close> is the contract the executor relies on: what each operation
  does to that map, and that a failing operation changes nothing.
\<close>

section \<open>Operations\<close>

definition hasWallet :: "'d kv \<Rightarrow> wallet \<Rightarrow> 'd \<Rightarrow> bool" where
  "hasWallet L wallet d = (kv_get L d wallet \<noteq> None)"

definition setWalletValue :: "'d kv \<Rightarrow> wallet \<Rightarrow> amount \<Rightarrow> ('d, unit) cpp" where
  "setWalletValue L wallet amount = kv_write L ''Write failed: '' wallet (le_enc 8 amount)"

definition createWallet :: "'d kv \<Rightarrow> wallet \<Rightarrow> ('d, unit) cpp" where
  "createWallet L wallet =
     bindE getS (\<lambda>d.
       if hasWallet L wallet d then throw (Runtime ''Wallet exists'')
       else setWalletValue L wallet 0)"

definition getWalletValue :: "'d kv \<Rightarrow> wallet \<Rightarrow> ('d, amount) cpp" where
  "getWalletValue L wallet d =
     (case kv_get L d wallet of
        None \<Rightarrow> (Inl (Runtime ''Tried fetching wallet value for non-existant wallet''), d)
      | Some v \<Rightarrow> if length v < 8 then (Inl UB, d) else (Inr (le_dec (take 8 v)), d))"

definition ledger_withdraw :: "'d kv \<Rightarrow> wallet \<Rightarrow> amount \<Rightarrow> ('d, unit) cpp" where
  "ledger_withdraw L wallet amt =
     bindE (getWalletValue L wallet) (\<lambda>value.
       if value < amt then throw (Runtime ''Insufficient balance'')
       else if value < value - amt then throw (Runtime ''Balance underflow'')
       else setWalletValue L wallet (value - amt))"

definition revertSend :: "'d kv \<Rightarrow> wallet \<Rightarrow> amount \<Rightarrow> ('d, unit) cpp" where
  "revertSend L wallet amt =
     bindE (getWalletValue L wallet) (\<lambda>value. setWalletValue L wallet (value + amt))"

definition ledger_deposit :: "'d kv \<Rightarrow> wallet \<Rightarrow> amount \<Rightarrow> ('d, unit) cpp" where
  "ledger_deposit L wallet amt =
     bindE (getWalletValue L wallet) (\<lambda>value.
       if value + amt < value then throw (Runtime ''Balance overflow'')
       else setWalletValue L wallet (value + amt))"

definition revertDeposit :: "'d kv \<Rightarrow> wallet \<Rightarrow> amount \<Rightarrow> ('d, unit) cpp" where
  "revertDeposit L to amt =
     bindE (getWalletValue L to) (\<lambda>value. setWalletValue L to (value - amt))"

definition atomicWithdrawIfSufficient :: "'d kv \<Rightarrow> wallet \<Rightarrow> amount \<Rightarrow> ('d, bool) cpp" where
  "atomicWithdrawIfSufficient L wallet amt =
     catchE
       (bindE (getWalletValue L wallet) (\<lambda>value.
          if value < amt \<or> value < value - amt then ok False
          else bindE (setWalletValue L wallet (value - amt)) (\<lambda>_. ok True)))
       (ok False)"

definition atomicDepositIfValid :: "'d kv \<Rightarrow> wallet \<Rightarrow> amount \<Rightarrow> ('d, bool) cpp" where
  "atomicDepositIfValid L wallet amt =
     catchE
       (bindE (getWalletValue L wallet) (\<lambda>value.
          if value + amt < value then ok False
          else bindE (setWalletValue L wallet (value + amt)) (\<lambda>_. ok True)))
       (ok False)"

text \<open>\<open>Ledger::clear\<close> does not look at the status of a deletion.\<close>

definition ledger_clear :: "'d kv \<Rightarrow> ('d, unit) cpp" where
  "ledger_clear L d =
     (Inr (), fold (\<lambda>k d. case kv_del L d k of None \<Rightarrow> d | Some d' \<Rightarrow> d')
                (map fst (kv_entries L d)) d)"

text \<open>\<open>getState\<close>: an entry that is too short to hold an address and an amount is read past its end.\<close>

definition getState :: "'d kv \<Rightarrow> ('d, (wallet \<times> amount) list) cpp" where
  "getState L d =
     (if \<forall>(k, v) \<in> set (kv_entries L d). 25 \<le> length k \<and> 8 \<le> length v
      then (Inr (fold (\<lambda>(k, v) st. omap_put (take 25 k) (le_dec (take 8 v)) st)
                   (kv_entries L d) []), d)
      else (Inl UB, d))"

record 'd ledger =
  l_db :: 'd
  l_nonces :: "(wallet \<times> u64) list"

definition ledger_getWalletNonce :: "wallet \<Rightarrow> 'd ledger \<Rightarrow> u64" where
  "ledger_getWalletNonce wallet l =
     (case map_of (l_nonces l) wallet of None \<Rightarrow> 0 | Some n \<Rightarrow> n)"

definition incrementWalletNonce :: "'d kv \<Rightarrow> wallet \<Rightarrow> ('d ledger, unit) cpp" where
  "incrementWalletNonce L wallet =
     bindE getS (\<lambda>l.
     bindE (if \<not> hasWallet L wallet (l_db l)
            then zoom l_db (\<lambda>d l. l\<lparr>l_db := d\<rparr>) (createWallet L wallet) else ok ()) (\<lambda>_.
     modS (\<lambda>l. l\<lparr>l_nonces := omap_put wallet (ledger_getWalletNonce wallet l + 1) (l_nonces l)\<rparr>)))"

section \<open>The balances a database holds\<close>

definition bal :: "'d kv \<Rightarrow> 'd \<Rightarrow> wallet \<Rightarrow> amount option" where
  "bal L d = (\<lambda>w. map_option le_dec (kv_get L d w))"

definition ledger_ok :: "'d kv \<Rightarrow> 'd \<Rightarrow> bool" where
  "ledger_ok L d \<longleftrightarrow> kv_ok L \<and> (\<forall>w v. kv_get L d w = Some v \<longrightarrow> length v = 8)"

lemma ledger_ok_kv [simp]: "ledger_ok L d \<Longrightarrow> kv_ok L"
  by (simp add: ledger_ok_def)

lemma finite_bal: "ledger_ok L d \<Longrightarrow> finite (dom (bal L d))"
  using kv_finite [of L d] by (simp add: bal_def dom_def)

lemma hasWallet_bal: "hasWallet L w d \<longleftrightarrow> bal L d w \<noteq> None"
  by (simp add: hasWallet_def bal_def)

lemma getWalletValue_bal:
  "ledger_ok L d \<Longrightarrow> getWalletValue L w d =
    (case bal L d w of
       None \<Rightarrow> (Inl (Runtime ''Tried fetching wallet value for non-existant wallet''), d)
     | Some v \<Rightarrow> (Inr v, d))"
  by (auto simp: getWalletValue_def bal_def ledger_ok_def split: option.splits)

lemma setWalletValue_ok:
  assumes "ledger_ok L d" and "setWalletValue L w a d = (Inr (), d')"
  shows "ledger_ok L d' \<and> bal L d' = (bal L d)(w \<mapsto> a)"
proof -
  have "kv_get L d' = (kv_get L d)(w \<mapsto> le_enc 8 a)"
    using assms by (intro kv_write_Inr) (simp_all add: setWalletValue_def)
  with assms(1) show ?thesis by (auto simp: ledger_ok_def bal_def fun_eq_iff)
qed

lemma setWalletValue_exn: "setWalletValue L w a d = (Inl e, d') \<Longrightarrow> d' = d \<and> e = Runtime ''Write failed: ''"
  by (auto simp: setWalletValue_def dest: kv_write_Inl)

lemma setWalletValue_total: "kv_writes L \<Longrightarrow> \<exists>d'. setWalletValue L w a d = (Inr (), d')"
  by (simp add: setWalletValue_def kv_write_total)

section \<open>The contract of the accounts\<close>

text \<open>
  An operation that changes one account is described by a partial function on its value:
  \<open>op_spec f op\<close> says that \<open>op w a\<close> writes \<open>f v a\<close> for the old value \<open>v\<close>, that it fails
  where \<open>f\<close> is undefined or the wallet does not exist, and that failing changes nothing.
\<close>

definition write_failed :: exn where
  "write_failed = Runtime ''Write failed: ''"

locale account_book =
  fixes inv :: "'s \<Rightarrow> bool"
    and book :: "'s \<Rightarrow> wallet \<Rightarrow> amount option"
    and op :: "wallet \<Rightarrow> amount \<Rightarrow> ('s, unit) cpp"
    and f :: "amount \<Rightarrow> amount \<Rightarrow> amount option"
  assumes op_returns: "inv s \<Longrightarrow> op w a s = (Inr (), s') \<Longrightarrow>
      inv s' \<and> (\<exists>v v'. book s w = Some v \<and> f v a = Some v' \<and> book s' = (book s)(w \<mapsto> v'))"
    and op_throws: "inv s \<Longrightarrow> op w a s = (Inl e, s') \<Longrightarrow> s' = s \<and> (\<exists>msg. e = Runtime msg)"
    and op_total: "inv s \<Longrightarrow> book s w = Some v \<Longrightarrow> f v a = Some v' \<Longrightarrow>
      (\<exists>s'. op w a s = (Inr (), s')) \<or> op w a s = (Inl write_failed, s)"
begin

lemma op_frame: "inv s \<Longrightarrow> op w a s = (Inr (), s') \<Longrightarrow> u \<noteq> w \<Longrightarrow> book s' u = book s u"
  using op_returns [of s w a s'] by auto

lemma op_dom: "inv s \<Longrightarrow> op w a s = (Inr (), s') \<Longrightarrow> dom (book s') = dom (book s)"
  using op_returns [of s w a s'] by (auto simp: dom_def split: if_splits)

lemma op_missing: "inv s \<Longrightarrow> book s w = None \<Longrightarrow> \<exists>msg. op w a s = (Inl (Runtime msg), s)"
proof (cases "op w a s")
  case (Pair r s')
  assume i: "inv s" and n: "book s w = None"
  show ?thesis
  proof (cases r)
    case (Inl e)
    with Pair i op_throws [of s w a e s'] show ?thesis by auto
  next
    case (Inr u)
    with Pair i n op_returns [of s w a s'] show ?thesis by auto
  qed
qed

lemma op_undefined:
  "inv s \<Longrightarrow> book s w = Some v \<Longrightarrow> f v a = None \<Longrightarrow> \<exists>msg. op w a s = (Inl (Runtime msg), s)"
proof (cases "op w a s")
  case (Pair r s')
  assume i: "inv s" and n: "book s w = Some v" "f v a = None"
  show ?thesis
  proof (cases r)
    case (Inl e)
    with Pair i op_throws [of s w a e s'] show ?thesis by auto
  next
    case (Inr u)
    with Pair i n op_returns [of s w a s'] show ?thesis by auto
  qed
qed

end

definition sub_checked :: "amount \<Rightarrow> amount \<Rightarrow> amount option" where
  "sub_checked v a = (if a \<le> v then Some (v - a) else None)"

definition add_checked :: "amount \<Rightarrow> amount \<Rightarrow> amount option" where
  "add_checked v a = (if v \<le> v + a then Some (v + a) else None)"

lemma word_sub_no_underflow: "a \<le> v \<Longrightarrow> \<not> v < v - (a :: u64)"
  by (simp add: not_less word_sub_le)

text \<open>
  The four operations have one shape: read the value, check it, write the new one. The
  contract is proved once for the shape.
\<close>

definition account_op ::
  "'d kv \<Rightarrow> (amount \<Rightarrow> amount \<Rightarrow> string + amount) \<Rightarrow> wallet \<Rightarrow> amount \<Rightarrow> ('d, unit) cpp" where
  "account_op L g w a =
     bindE (getWalletValue L w) (\<lambda>v.
       case g v a of Inl msg \<Rightarrow> throw (Runtime msg) | Inr v' \<Rightarrow> setWalletValue L w v')"

lemma account_op_book:
  assumes g: "\<And>v a. f v a = (case g v a of Inl msg \<Rightarrow> None | Inr v' \<Rightarrow> Some v')"
    and op: "\<And>w a. op w a = account_op L g w a"
  shows "account_book (ledger_ok L) (bal L) op f"
proof
  fix s w a s'
  assume i: "ledger_ok L s" and "op w a s = (Inr (), s')"
  then obtain v v' where "bal L s w = Some v" "g v a = Inr v'" "setWalletValue L w v' s = (Inr (), s')"
    by (auto simp: op account_op_def bindE_eq_Inr getWalletValue_bal split: option.splits sum.splits)
  with setWalletValue_ok [OF i, of w v' s'] show
    "ledger_ok L s' \<and> (\<exists>v v'. bal L s w = Some v \<and> f v a = Some v' \<and> bal L s' = (bal L s)(w \<mapsto> v'))"
    by (auto simp: g)
next
  fix s w a e s'
  assume "ledger_ok L s" and "op w a s = (Inl e, s')"
  then show "s' = s \<and> (\<exists>msg. e = Runtime msg)"
    by (auto simp: op account_op_def bindE_eq_Inl getWalletValue_bal
        split: option.splits sum.splits dest: setWalletValue_exn)
next
  fix s w v a v'
  assume "ledger_ok L s" and "bal L s w = Some v" and "f v a = Some v'"
  then have r: "op w a s = setWalletValue L w v' s"
    by (auto simp: op account_op_def bindE_Inr getWalletValue_bal g split: sum.splits)
  show "(\<exists>s'. op w a s = (Inr (), s')) \<or> op w a s = (Inl write_failed, s)"
  proof (cases "setWalletValue L w v' s")
    case (Pair res t)
    with r setWalletValue_exn [of L w v' s] show ?thesis
      by (cases res) (auto simp: write_failed_def)
  qed
qed

interpretation withdraw: account_book "ledger_ok L" "bal L" "ledger_withdraw L" sub_checked for L
proof (rule account_op_book)
  show "ledger_withdraw L w a =
      account_op L (\<lambda>v a. if v < a then Inl ''Insufficient balance'' else Inr (v - a)) w a" for w a
    by (auto simp: ledger_withdraw_def account_op_def fun_eq_iff bindE_def word_sub_no_underflow
        not_less split: prod.splits sum.splits)
  show "sub_checked v a =
      (case if v < a then Inl ''Insufficient balance'' else Inr (v - a) of
         Inl msg \<Rightarrow> None | Inr v' \<Rightarrow> Some v')" for v a
    by (auto simp: sub_checked_def)
qed

interpretation deposit: account_book "ledger_ok L" "bal L" "ledger_deposit L" add_checked for L
proof (rule account_op_book)
  show "ledger_deposit L w a =
      account_op L (\<lambda>v a. if v + a < v then Inl ''Balance overflow'' else Inr (v + a)) w a" for w a
    by (auto simp: ledger_deposit_def account_op_def fun_eq_iff bindE_def split: prod.splits sum.splits)
  show "add_checked v a =
      (case if v + a < v then Inl ''Balance overflow'' else Inr (v + a) of
         Inl msg \<Rightarrow> None | Inr v' \<Rightarrow> Some v')" for v a
    by (auto simp: add_checked_def)
qed

interpretation revert_send: account_book "ledger_ok L" "bal L" "revertSend L" "\<lambda>v a. Some (v + a)" for L
  by (rule account_op_book [where g = "\<lambda>v a. Inr (v + a)"]) (simp_all add: revertSend_def account_op_def)

interpretation revert_deposit: account_book "ledger_ok L" "bal L" "revertDeposit L" "\<lambda>v a. Some (v - a)" for L
  by (rule account_op_book [where g = "\<lambda>v a. Inr (v - a)"]) (simp_all add: revertDeposit_def account_op_def)

lemma createWallet_ok:
  assumes "ledger_ok L d" and "createWallet L w d = (Inr (), d')"
  shows "ledger_ok L d' \<and> bal L d w = None \<and> bal L d' = (bal L d)(w \<mapsto> 0)"
  using assms setWalletValue_ok [OF assms(1), of w 0 d']
  by (auto simp: createWallet_def bindE_getS hasWallet_bal split: if_splits)

lemma createWallet_exn:
  "createWallet L w d = (Inl e, d') \<Longrightarrow> d' = d \<and> (\<exists>msg. e = Runtime msg)"
  by (auto simp: createWallet_def bindE_getS split: if_splits dest: setWalletValue_exn)

lemma fold_del_get:
  assumes "kv_ok L" and "kv_writes L"
  shows "kv_get L (fold (\<lambda>k d. case kv_del L d k of None \<Rightarrow> d | Some d' \<Rightarrow> d') ks d) =
    (\<lambda>k. if k \<in> set ks then None else kv_get L d k)"
proof (induction ks arbitrary: d)
  case Nil
  then show ?case by simp
next
  case (Cons k ks)
  obtain d' where d': "kv_del L d k = Some d'" using assms(2) unfolding kv_writes_def by blast
  show ?case by (simp add: Cons.IH d' kv_del_get [OF assms(1) d'] fun_eq_iff)
qed

lemma ledger_clear_bal:
  assumes "kv_ok L" "kv_writes L" "ledger_clear L d = (Inr (), d')"
  shows "ledger_ok L d' \<and> bal L d' = Map.empty"
proof -
  have "kv_get L d' = (\<lambda>k. if k \<in> set (map fst (kv_entries L d)) then None else kv_get L d k)"
    using assms(3) fold_del_get [OF assms(1,2), of "map fst (kv_entries L d)" d]
    by (simp add: ledger_clear_def)
  also have "\<dots> = Map.empty" using kv_keys [OF assms(1), of d] by auto
  finally show ?thesis using assms(1) by (auto simp: ledger_ok_def bal_def)
qed

section \<open>The total of all balances\<close>

definition total_supply :: "(wallet \<Rightarrow> amount option) \<Rightarrow> int" where
  "total_supply m = (\<Sum>w \<in> dom m. uint (the (m w)))"

definition held :: "(wallet \<Rightarrow> amount option) \<Rightarrow> wallet \<Rightarrow> int" where
  "held m w = (case m w of None \<Rightarrow> 0 | Some v \<Rightarrow> uint v)"

lemma held_nonneg [simp]: "0 \<le> held m w"
  by (simp add: held_def split: option.split)

lemma total_supply_upd:
  assumes "finite (dom m)"
  shows "total_supply (m(w \<mapsto> v)) = total_supply m + uint v - held m w"
proof -
  have "total_supply (m(w \<mapsto> v)) = uint v + (\<Sum>u \<in> dom m - {w}. uint (the (m u)))"
  proof -
    have "dom (m(w \<mapsto> v)) = insert w (dom m - {w})" by auto
    then have "total_supply (m(w \<mapsto> v)) =
        (\<Sum>u \<in> insert w (dom m - {w}). uint (the ((m(w \<mapsto> v)) u)))"
      by (simp add: total_supply_def)
    also have "\<dots> = uint v + (\<Sum>u \<in> dom m - {w}. uint (the ((m(w \<mapsto> v)) u)))"
      using assms by (subst sum.insert) auto
    also have "(\<Sum>u \<in> dom m - {w}. uint (the ((m(w \<mapsto> v)) u))) =
        (\<Sum>u \<in> dom m - {w}. uint (the (m u)))"
      by (rule sum.cong) auto
    finally show ?thesis .
  qed
  moreover have "total_supply m = held m w + (\<Sum>u \<in> dom m - {w}. uint (the (m u)))"
  proof (cases "m w")
    case None
    then have "dom m - {w} = dom m" by auto
    with None show ?thesis by (simp add: total_supply_def held_def)
  next
    case (Some v)
    then have "w \<in> dom m" by auto
    with assms Some show ?thesis by (simp add: total_supply_def held_def sum.remove)
  qed
  ultimately show ?thesis by simp
qed

lemma held_le_total: "finite (dom m) \<Longrightarrow> held m w \<le> total_supply m"
proof (cases "m w")
  case None
  then show ?thesis by (simp add: held_def total_supply_def sum_nonneg)
next
  case (Some v)
  assume "finite (dom m)"
  with Some have "uint (the (m w)) \<le> total_supply m"
    unfolding total_supply_def by (intro member_le_sum) auto
  with Some show ?thesis by (simp add: held_def)
qed

section \<open>Properties\<close>

text \<open>
  A withdrawal returns exactly when the wallet exists and holds the amount (and the write
  succeeds); it then lowers that balance by the amount and leaves every other one, and when
  it throws the database is unchanged.
\<close>

lemma withdraw_exact:
  assumes "ledger_ok L d"
  shows "case ledger_withdraw L w a d of
      (Inr u, d') \<Rightarrow> ledger_ok L d' \<and> (\<exists>v. bal L d w = Some v \<and> a \<le> v \<and> bal L d' = (bal L d)(w \<mapsto> v - a))
    | (Inl e, d') \<Rightarrow> d' = d \<and> (e = write_failed \<or> (\<forall>v. bal L d w = Some v \<longrightarrow> v < a))"
proof (cases "ledger_withdraw L w a d")
  case (Pair r d')
  show ?thesis
  proof (cases r)
    case (Inr u)
    with Pair withdraw.op_returns [OF assms, of w a d'] show ?thesis
      by (auto simp: sub_checked_def split: if_splits)
  next
    case (Inl e)
    with Pair withdraw.op_throws [OF assms, of w a e d'] have "d' = d" by blast
    moreover have "e = write_failed" if "bal L d w = Some v" "a \<le> v" for v
      using withdraw.op_total [OF assms that(1), of a "v - a"] that(2) Pair Inl
      by (auto simp: sub_checked_def)
    ultimately show ?thesis using Pair Inl by (auto simp: not_less [symmetric])
  qed
qed

lemma withdraw_exact_witness:
  "case ledger_withdraw mem_kv [1] 7 [([1], le_enc 8 (9 :: u64))] of
      (Inr u, d') \<Rightarrow> ledger_ok mem_kv d' \<and> (\<exists>v. bal mem_kv [([1], le_enc 8 (9 :: u64))] [1] = Some v \<and> 7 \<le> v \<and>
        bal mem_kv d' = (bal mem_kv [([1], le_enc 8 (9 :: u64))])([1] \<mapsto> v - 7))
    | (Inl e, d') \<Rightarrow> d' = [([1], le_enc 8 (9 :: u64))] \<and>
        (e = write_failed \<or> (\<forall>v. bal mem_kv [([1], le_enc 8 (9 :: u64))] [1] = Some v \<longrightarrow> v < 7))"
  by (rule withdraw_exact) (simp add: ledger_ok_def)

end
