(* ===== verification/Buffers.thy ===== *)
theory Buffers
  imports Prelude
begin

text \<open>
  The buffer helpers of \<open>core/helpers.cpp\<close>. A read helper advances a pointer into a
  buffer: it is a statement whose state is the unread rest of the buffer, and reading
  past the end is undefined behaviour. A write helper is the bytes it appends.

  The locale \<open>codec\<close> is the contract between the writer and the reader of a
  fixed-size record; every wire format of the node is an interpretation of it, and the
  loops that read a batch of records (\<open>core/api.cpp\<close>, \<open>server/server.cpp\<close>) rest on
  its lemmas.
\<close>

section \<open>Reading and writing\<close>

definition readNetworkNBytes :: "nat \<Rightarrow> (bytes, bytes) cpp" where
  "readNetworkNBytes n buf =
     (if length buf < n then (Inl UB, buf) else (Inr (take n buf), drop n buf))"

definition readNetworkUint32 :: "(bytes, u32) cpp" where
  "readNetworkUint32 = bindE (readNetworkNBytes 4) (\<lambda>bs. ok (le_dec bs))"

definition readNetworkUint64 :: "(bytes, u64) cpp" where
  "readNetworkUint64 = bindE (readNetworkNBytes 8) (\<lambda>bs. ok (le_dec bs))"

definition readNetworkSHA256 :: "(bytes, hash) cpp" where
  "readNetworkSHA256 = readNetworkNBytes 32"

definition readNetworkPublicWalletAddress :: "(bytes, wallet) cpp" where
  "readNetworkPublicWalletAddress = readNetworkNBytes 25"

definition writeNetworkUint32 :: "u32 \<Rightarrow> bytes" where
  "writeNetworkUint32 x = le_enc 4 x"

definition writeNetworkUint64 :: "u64 \<Rightarrow> bytes" where
  "writeNetworkUint64 x = le_enc 8 x"

definition writeNetworkSHA256 :: "hash \<Rightarrow> bytes" where
  "writeNetworkSHA256 x = x"

definition writeNetworkPublicWalletAddress :: "wallet \<Rightarrow> bytes" where
  "writeNetworkPublicWalletAddress x = x"

definition writeNetworkNBytes :: "bytes \<Rightarrow> bytes" where
  "writeNetworkNBytes x = x"

lemma readNetworkNBytes_app [cpp_simps]:
  "length a = n \<Longrightarrow> readNetworkNBytes n (a @ rest) = (Inr a, rest)"
  by (simp add: readNetworkNBytes_def)

lemma readNetworkNBytes_short:
  "length buf < n \<Longrightarrow> readNetworkNBytes n buf = (Inl UB, buf)"
  by (simp add: readNetworkNBytes_def)

lemma readNetworkUint32_write [cpp_simps]:
  "readNetworkUint32 (writeNetworkUint32 x @ rest) = (Inr x, rest)"
  by (simp add: readNetworkUint32_def writeNetworkUint32_def cpp_simps)

lemma readNetworkUint64_write [cpp_simps]:
  "readNetworkUint64 (writeNetworkUint64 x @ rest) = (Inr x, rest)"
  by (simp add: readNetworkUint64_def writeNetworkUint64_def cpp_simps)

lemma readNetworkSHA256_write [cpp_simps]:
  "length x = 32 \<Longrightarrow> readNetworkSHA256 (writeNetworkSHA256 x @ rest) = (Inr x, rest)"
  by (simp add: readNetworkSHA256_def writeNetworkSHA256_def cpp_simps)

lemma readNetworkPublicWalletAddress_write [cpp_simps]:
  "length x = 25 \<Longrightarrow>
   readNetworkPublicWalletAddress (writeNetworkPublicWalletAddress x @ rest) = (Inr x, rest)"
  by (simp add: readNetworkPublicWalletAddress_def writeNetworkPublicWalletAddress_def cpp_simps)

lemma readNetworkNBytes_write [cpp_simps]:
  "length x = n \<Longrightarrow> readNetworkNBytes n (writeNetworkNBytes x @ rest) = (Inr x, rest)"
  by (simp add: writeNetworkNBytes_def cpp_simps)

lemma length_write [simp]:
  "length (writeNetworkUint32 x) = 4" "length (writeNetworkUint64 y) = 8"
  "length (writeNetworkSHA256 h) = length h"
  "length (writeNetworkPublicWalletAddress w) = length w"
  "length (writeNetworkNBytes b) = length b"
  by (simp_all add: writeNetworkUint32_def writeNetworkUint64_def writeNetworkSHA256_def
      writeNetworkPublicWalletAddress_def writeNetworkNBytes_def)

section \<open>The contract of a fixed-size record\<close>

locale codec =
  fixes wr :: "'a \<Rightarrow> bytes"
    and rd :: "(bytes, 'a) cpp"
    and wf :: "'a \<Rightarrow> bool"
    and size :: nat
  assumes length_wr: "wf a \<Longrightarrow> length (wr a) = size"
    and rd_wr: "wf a \<Longrightarrow> rd (wr a @ rest) = (Inr a, rest)"
begin

lemma wr_inj: "wf a \<Longrightarrow> wf b \<Longrightarrow> wr a = wr b \<Longrightarrow> a = b"
  by (metis Pair_inject rd_wr sum.inject(2))

lemma wr_prefix_free: "wf a \<Longrightarrow> wf b \<Longrightarrow> wr a @ r = wr b @ r' \<Longrightarrow> a = b \<and> r = r'"
  by (metis Pair_inject rd_wr sum.inject(2))

lemma length_batch: "\<forall>a \<in> set as. wf a \<Longrightarrow> length (concat (map wr as)) = size * length as"
  by (induction as) (auto simp: length_wr)

lemma read_batch:
  "\<forall>a \<in> set as. wf a \<Longrightarrow>
   timesE (length as) rd (concat (map wr as) @ rest) = (Inr as, rest)"
proof (induction as)
  case Nil
  then show ?case by simp
next
  case (Cons a as)
  then have "rd (wr a @ concat (map wr as) @ rest) = (Inr a, concat (map wr as) @ rest)"
    by (simp add: rd_wr)
  with Cons show ?case by (simp add: bindE_Inr cpp_simps)
qed

text \<open>A batch is recovered from its bytes and the count \<open>bytes / size\<close> the readers compute.\<close>

lemma read_whole_batch:
  assumes "0 < size" and "\<forall>a \<in> set as. wf a"
  shows "timesE (length (concat (map wr as)) div size) rd (concat (map wr as)) = (Inr as, [])"
  using assms read_batch [of as "[]"] by (simp add: length_batch)

end

interpretation u32_codec: codec writeNetworkUint32 readNetworkUint32 "\<lambda>_. True" 4
  by unfold_locales (simp_all add: cpp_simps)

interpretation u64_codec: codec writeNetworkUint64 readNetworkUint64 "\<lambda>_. True" 8
  by unfold_locales (simp_all add: cpp_simps)

interpretation hash_codec: codec writeNetworkSHA256 readNetworkSHA256 "\<lambda>h. length h = 32" 32
  by unfold_locales (simp_all add: cpp_simps)

interpretation wallet_codec:
  codec writeNetworkPublicWalletAddress readNetworkPublicWalletAddress "\<lambda>w. length w = 25" 25
  by unfold_locales (simp_all add: cpp_simps)

end
