(* ===== verification/Crypto.thy ===== *)
theory Crypto
  imports Buffers
begin

text \<open>
  \<open>core/crypto.cpp\<close>: hexadecimal text, wallet addresses, signatures and the proof-of-work
  check. OpenSSL's SHA-256 and RIPEMD-160 and the vendored Ed25519 and Pufferfish2 are the
  fields of a parameter record \<open>crypto\<close>; \<open>SHA256_Init/Update/Final\<close> over several
  pieces is the hash of the concatenation of the pieces.
\<close>

record crypto =
  sha256 :: "bytes \<Rightarrow> hash"
  ripemd160 :: "bytes \<Rightarrow> bytes"
  ed25519_verify :: "signature \<Rightarrow> bytes \<Rightarrow> public_key \<Rightarrow> int"
  ed25519_sign :: "bytes \<Rightarrow> public_key \<Rightarrow> private_key \<Rightarrow> signature"
  ed25519_create_keypair :: "bytes \<Rightarrow> public_key \<times> private_key"
  pf_newhash :: "bytes \<Rightarrow> bytes"  \<comment> \<open>the output buffer after the call, \<open>PF_HASHSPACE\<close> bytes\<close>

text \<open>The documented output sizes of the two digests.\<close>

definition crypto_ok :: "crypto \<Rightarrow> bool" where
  "crypto_ok C \<longleftrightarrow> (\<forall>m. length (sha256 C m) = 32) \<and> (\<forall>m. length (ripemd160 C m) = 20)"

lemma length_sha256: "crypto_ok C \<Longrightarrow> length (sha256 C m) = 32"
  and length_ripemd160: "crypto_ok C \<Longrightarrow> length (ripemd160 C m) = 20"
  by (auto simp: crypto_ok_def)

section \<open>Hexadecimal text\<close>

definition hex_lut :: string where
  "hex_lut = ''0123456789ABCDEF''"

primrec hexEncode :: "bytes \<Rightarrow> string" where
  "hexEncode [] = []"
| "hexEncode (c # cs) =
     hex_lut ! unat (drop_bit 4 c) # hex_lut ! unat (c AND 15) # hexEncode cs"

text \<open>C's \<open>strtol(s, NULL, 16)\<close>: leading blanks, a sign, an optional \<open>0x\<close>, then digits.\<close>

definition c_isspace :: "char \<Rightarrow> bool" where
  "c_isspace c \<longleftrightarrow> (of_char c :: nat) \<in> {9, 10, 11, 12, 13, 32}"

definition hex_digit :: "char \<Rightarrow> nat option" where
  "hex_digit c =
     (let n = of_char c :: nat in
      if 48 \<le> n \<and> n \<le> 57 then Some (n - 48)
      else if 65 \<le> n \<and> n \<le> 70 then Some (n - 55)
      else if 97 \<le> n \<and> n \<le> 102 then Some (n - 87)
      else None)"

fun hex_digits :: "nat \<Rightarrow> string \<Rightarrow> nat" where
  "hex_digits acc [] = acc"
| "hex_digits acc (c # cs) =
     (case hex_digit c of None \<Rightarrow> acc | Some d \<Rightarrow> hex_digits (16 * acc + d) cs)"

definition skip_0x :: "string \<Rightarrow> string" where
  "skip_0x s =
     (case s of
        z # x # d # r \<Rightarrow>
          if z = CHR ''0'' \<and> (x = CHR ''x'' \<or> x = CHR ''X'') \<and> hex_digit d \<noteq> None
          then d # r else s
      | _ \<Rightarrow> s)"

definition strtol16 :: "string \<Rightarrow> int" where
  "strtol16 s =
     (case dropWhile c_isspace s of
        [] \<Rightarrow> 0
      | c # r \<Rightarrow>
          if c = CHR ''-'' then - int (hex_digits 0 (skip_0x r))
          else if c = CHR ''+'' then int (hex_digits 0 (skip_0x r))
          else int (hex_digits 0 (skip_0x (c # r))))"

fun hexDecode :: "string \<Rightarrow> bytes" where
  "hexDecode [] = []"
| "hexDecode [a] = [word_of_int (strtol16 [a])]"
| "hexDecode (a # b # cs) = word_of_int (strtol16 [a, b]) # hexDecode cs"

text \<open>
  Copying the first \<open>n\<close> decoded bytes into a fixed-size array reads outside the vector
  when the text is too short.
\<close>

definition copy_prefix :: "nat \<Rightarrow> bytes \<Rightarrow> exn + bytes" where
  "copy_prefix n bs = (if length bs < n then Inl UB else Inr (take n bs))"

definition stringToSHA256 :: "string \<Rightarrow> exn + hash" where
  "stringToSHA256 hex = copy_prefix 32 (hexDecode hex)"

definition SHA256toString :: "hash \<Rightarrow> string" where
  "SHA256toString h = hexEncode h"

definition walletAddressToString :: "wallet \<Rightarrow> string" where
  "walletAddressToString p = hexEncode p"

definition stringToWalletAddress :: "string \<Rightarrow> exn + wallet" where
  "stringToWalletAddress s =
     (if length s \<noteq> 50 then Inl (Runtime ''Invalid wallet address string'')
      else copy_prefix 25 (hexDecode s))"

definition privateKeyToString :: "private_key \<Rightarrow> string" where
  "privateKeyToString p = hexEncode p"

definition stringToPrivateKey :: "string \<Rightarrow> exn + private_key" where
  "stringToPrivateKey p =
     (if length p \<noteq> 128 then Inl (Runtime ''Invalid private key string'')
      else copy_prefix 64 (hexDecode p))"

definition publicKeyToString :: "public_key \<Rightarrow> string" where
  "publicKeyToString pubKey = hexEncode pubKey"

definition stringToPublicKey :: "string \<Rightarrow> exn + public_key" where
  "stringToPublicKey p =
     (if length p \<noteq> 64 then Inl (Runtime ''Invalid public key string'')
      else Inr (hexDecode p))"

definition signatureToString :: "signature \<Rightarrow> string" where
  "signatureToString t = hexEncode t"

text \<open>
  The loop stores every decoded byte into the 64-byte array: a longer text writes outside
  it, a shorter one leaves the tail of the array (\<open>mem\<close>) as it was.
\<close>

definition stringToSignature :: "signature \<Rightarrow> string \<Rightarrow> exn + signature" where
  "stringToSignature mem t =
     (let data = hexDecode t in
      if 64 < length data then Inl UB else Inr (data @ drop (length data) mem))"

lemma length_hexEncode [simp]: "length (hexEncode bs) = 2 * length bs"
  by (induction bs) auto

lemma all_lt_16: "(\<forall>n < (16::nat). P n) \<longleftrightarrow>
    P 0 \<and> P 1 \<and> P 2 \<and> P 3 \<and> P 4 \<and> P 5 \<and> P 6 \<and> P 7 \<and> P 8 \<and> P 9 \<and> P 10 \<and>
    P 11 \<and> P 12 \<and> P 13 \<and> P 14 \<and> P 15"
  by (simp add: numeral_eq_Suc All_less_Suc) blast

lemma hex_lut_facts:
  "n < 16 \<Longrightarrow> hex_digit (hex_lut ! n) = Some n \<and> \<not> c_isspace (hex_lut ! n) \<and>
     hex_lut ! n \<noteq> CHR ''-'' \<and> hex_lut ! n \<noteq> CHR ''+'' \<and>
     hex_lut ! n \<noteq> CHR ''x'' \<and> hex_lut ! n \<noteq> CHR ''X''"
proof -
  have "\<forall>n < 16. hex_digit (hex_lut ! n) = Some n \<and> \<not> c_isspace (hex_lut ! n) \<and>
     hex_lut ! n \<noteq> CHR ''-'' \<and> hex_lut ! n \<noteq> CHR ''+'' \<and>
     hex_lut ! n \<noteq> CHR ''x'' \<and> hex_lut ! n \<noteq> CHR ''X''"
    unfolding all_lt_16 by (simp add: hex_lut_def hex_digit_def c_isspace_def Let_def)
  then show "n < 16 \<Longrightarrow> ?thesis" by blast
qed

lemma strtol16_pair:
  "m < 16 \<Longrightarrow> n < 16 \<Longrightarrow> strtol16 [hex_lut ! m, hex_lut ! n] = int (16 * m + n)"
  by (simp add: strtol16_def skip_0x_def hex_lut_facts)

lemma nibbles: "16 * unat (drop_bit 4 (c :: u8)) + unat (c AND 15) = unat c"
proof -
  have c: "unat c < 256" using unsigned_less [of c] by simp
  have "c AND 15 = take_bit 4 c" by (simp add: take_bit_eq_mask mask_numeral)
  then have "unat (c AND 15) = unat (take_bit 4 c)" by simp
  also have "\<dots> = unat c mod 16" by (simp only: unsigned_take_bit_eq) (simp add: take_bit_eq_mod)
  finally have "unat (c AND 15) = unat c mod 16" .
  moreover have "unat (drop_bit 4 c) = unat c div 16"
    using c by (simp only: unsigned_drop_bit_eq) (simp add: drop_bit_eq_div take_bit_eq_mod)
  ultimately show ?thesis by simp
qed

lemma nibble_bounds: "unat (drop_bit 4 (c :: u8)) < 16" "unat (c AND 15) < 16"
proof -
  have "unat c < 256" using unsigned_less [of c] by simp
  then show "unat (drop_bit 4 c) < 16" using nibbles [of c] by linarith
  have "c AND 15 = take_bit 4 c" by (simp add: take_bit_eq_mask mask_numeral)
  then have "unat (c AND 15) = unat (take_bit 4 c)" by simp
  also have "\<dots> = unat c mod 16" by (simp only: unsigned_take_bit_eq) (simp add: take_bit_eq_mod)
  finally show "unat (c AND 15) < 16" by simp
qed

lemma hexDecode_hexEncode [simp]: "hexDecode (hexEncode bs) = bs"
proof (induction bs)
  case Nil
  then show ?case by simp
next
  case (Cons c bs)
  have "word_of_int (strtol16 [hex_lut ! unat (drop_bit 4 c), hex_lut ! unat (c AND 15)]) = c"
    by (simp only: strtol16_pair nibble_bounds nibbles) simp
  with Cons show ?case by simp
qed

lemma hexEncode_inj: "hexEncode a = hexEncode b \<longleftrightarrow> a = b"
  by (metis hexDecode_hexEncode)

text \<open>Hexadecimal text of arrays of the same size compares as the bytes do.\<close>

lemma hex_lut_less: "m < 16 \<Longrightarrow> n < 16 \<Longrightarrow>
    (of_char (hex_lut ! m) :: nat) < of_char (hex_lut ! n) \<longleftrightarrow> m < n"
proof -
  have "\<forall>m < 16. \<forall>n < 16. (of_char (hex_lut ! m) :: nat) < of_char (hex_lut ! n) \<longleftrightarrow> m < n"
    unfolding all_lt_16 by (simp add: hex_lut_def)
  then show "m < 16 \<Longrightarrow> n < 16 \<Longrightarrow> ?thesis" by blast
qed

section \<open>Wallet addresses\<close>

definition walletAddressFromPublicKey :: "crypto \<Rightarrow> public_key \<Rightarrow> wallet" where
  "walletAddressFromPublicKey C inputKey =
     (let h = sha256 C inputKey;
          h2 = ripemd160 C h;
          h3 = sha256 C h2;
          h4 = sha256 C h3
      in 0 # map (\<lambda>i. h2 ! (i - 1)) [1..<21] @ [h4 ! 0, h4 ! 1, h4 ! 2, h4 ! 3])"

lemma length_walletAddressFromPublicKey [simp]: "length (walletAddressFromPublicKey C k) = 25"
  by (simp add: walletAddressFromPublicKey_def Let_def)

lemma walletAddressFromPublicKey_shape:
  assumes "crypto_ok C"
  shows "walletAddressFromPublicKey C k =
     0 # ripemd160 C (sha256 C k) @ take 4 (sha256 C (sha256 C (ripemd160 C (sha256 C k))))"
proof -
  have "map (\<lambda>i. xs ! (i - 1)) [1..<21] = xs" if "length xs = 20" for xs :: bytes
    using that by (intro nth_equalityI) auto
  moreover have "take 4 ys = [ys ! 0, ys ! 1, ys ! 2, ys ! 3]" if "length ys = 32" for ys :: bytes
    using that by (simp add: take_Suc_conv_app_nth numeral_eq_Suc)
  ultimately show ?thesis
    using assms by (simp add: walletAddressFromPublicKey_def Let_def crypto_ok_def)
qed

definition signWithPrivateKey ::
  "crypto \<Rightarrow> bytes \<Rightarrow> public_key \<Rightarrow> private_key \<Rightarrow> signature" where
  "signWithPrivateKey C bytes pubKey privKey = ed25519_sign C bytes pubKey privKey"

definition checkSignature :: "crypto \<Rightarrow> bytes \<Rightarrow> signature \<Rightarrow> public_key \<Rightarrow> bool" where
  "checkSignature C bytes sig signingKey = (ed25519_verify C sig bytes signingKey = 1)"

definition generateKeyPair :: "crypto \<Rightarrow> bytes \<Rightarrow> public_key \<times> private_key" where
  \<comment> \<open>\<open>buf\<close> is what \<open>ed25519_create_seed\<close> wrote\<close>
  "generateKeyPair C buf = ed25519_create_keypair C buf"

section \<open>Proof of work\<close>

text \<open>
  \<open>checkLeadingZeroBits\<close>: whole bytes first, then the remaining bits of the next byte.
\<close>

definition checkLeadingZeroBits :: "hash \<Rightarrow> u8 \<Rightarrow> bool" where
  "checkLeadingZeroBits a challengeSize =
     (let bytes = unat challengeSize div 8;
          remainingBits = unat challengeSize - 8 * bytes
      in if \<not> list_all (\<lambda>i. a ! i = 0) [0..<bytes] then False
         else if 0 < remainingBits then drop_bit (8 - remainingBits) (a ! bytes) = 0
         else True)"

text \<open>
  The bits of a hash read from the most significant bit of its first byte on; the check
  is that the first \<open>challengeSize\<close> of them are zero.
\<close>

definition hash_bit :: "hash \<Rightarrow> nat \<Rightarrow> bool" where
  "hash_bit a i = bit (a ! (i div 8)) (7 - i mod 8)"

lemma byte_zero_bits: "(w :: u8) = 0 \<longleftrightarrow> (\<forall>k < 8. \<not> bit w (7 - k))"
proof
  assume r: "\<forall>k < 8. \<not> bit w (7 - k)"
  show "w = 0"
  proof (rule bit_word_eqI)
    fix n assume "n < LENGTH(8)"
    with r have "\<not> bit w (7 - (7 - n))" by (intro r [rule_format]) simp
    with \<open>n < LENGTH(8)\<close> show "bit w n = bit (0 :: u8) n" by simp
  qed
qed simp

lemma drop_bit_zero_bits:
  assumes "0 < r" and "r < 8"
  shows "drop_bit (8 - r) (w :: u8) = 0 \<longleftrightarrow> (\<forall>k < r. \<not> bit w (7 - k))"
proof
  assume z: "drop_bit (8 - r) w = 0"
  show "\<forall>k < r. \<not> bit w (7 - k)"
  proof (intro allI impI)
    fix k assume k: "k < r"
    have "bit (drop_bit (8 - r) w) (r - 1 - k) = bit w (8 - r + (r - 1 - k))"
      by (simp add: bit_simps)
    moreover have "8 - r + (r - 1 - k) = 7 - k" using k assms by simp
    ultimately show "\<not> bit w (7 - k)" using z by simp
  qed
next
  assume b: "\<forall>k < r. \<not> bit w (7 - k)"
  show "drop_bit (8 - r) w = 0"
  proof (rule bit_word_eqI)
    fix n assume n: "n < LENGTH(8)"
    show "bit (drop_bit (8 - r) w) n = bit (0 :: u8) n"
    proof (cases "8 - r + n < 8")
      case True
      then have "r - 1 - n < r" and e: "7 - (r - 1 - n) = 8 - r + n" using assms by auto
      with b have "\<not> bit w (7 - (r - 1 - n))" by blast
      then have "\<not> bit w (8 - r + n)" by (simp only: e not_False_eq_True)
      then show ?thesis by (simp add: bit_drop_bit_eq del: diff_add_assoc2)
    next
      case False
      then show ?thesis by (auto simp: bit_simps dest: bit_imp_le_length)
    qed
  qed
qed

lemma checkLeadingZeroBits_iff:
  "checkLeadingZeroBits a c \<longleftrightarrow> (\<forall>i < unat c. \<not> hash_bit a i)"
proof -
  define b r where "b = unat c div 8" and "r = unat c - 8 * b"
  have cr: "unat c = 8 * b + r" and r8: "r < 8"
    unfolding b_def r_def by presburger+
  have split: "(\<forall>i < 8 * b + r. P i) \<longleftrightarrow> (\<forall>j < b. \<forall>k < 8. P (8 * j + k)) \<and> (\<forall>k < r. P (8 * b + k))"
    for P :: "nat \<Rightarrow> bool"
  proof (intro iffI conjI allI impI)
    fix i assume h: "(\<forall>j < b. \<forall>k < 8. P (8 * j + k)) \<and> (\<forall>k < r. P (8 * b + k))"
      and i: "i < 8 * b + r"
    show "P i"
    proof (cases "i < 8 * b")
      case True
      then have "i div 8 < b" by (simp add: less_mult_imp_div_less mult.commute)
      moreover have "i mod 8 < 8" by simp
      ultimately have "P (8 * (i div 8) + i mod 8)" using h by blast
      then show ?thesis by simp
    next
      case False
      with i have "i - 8 * b < r" by simp
      with h have "P (8 * b + (i - 8 * b))" by blast
      with False show ?thesis by simp
    qed
  qed auto
  have hb: "k < 8 \<Longrightarrow> hash_bit a (8 * j + k) = bit (a ! j) (7 - k)" for j k
    by (simp add: hash_bit_def)
  have "(\<forall>i < unat c. \<not> hash_bit a i) \<longleftrightarrow>
      (\<forall>j < b. a ! j = 0) \<and> (\<forall>k < r. \<not> bit (a ! b) (7 - k))"
    unfolding cr split using r8 by (simp add: hb byte_zero_bits)
  moreover have "(0 < r \<longrightarrow> drop_bit (8 - r) (a ! b) = 0) \<longleftrightarrow> (\<forall>k < r. \<not> bit (a ! b) (7 - k))"
    using drop_bit_zero_bits [of r "a ! b"] r8 by auto
  ultimately show ?thesis
    by (auto simp: checkLeadingZeroBits_def Let_def b_def [symmetric] r_def [symmetric]
        list_all_iff)
qed

section \<open>A concrete instance\<close>

text \<open>
  Simple functions with the documented output sizes, for evaluating the model on concrete
  inputs. They stand for no real primitive.
\<close>

definition sample_crypto :: crypto where
  "sample_crypto =
     \<lparr>sha256 = (\<lambda>m. take 32 (m @ replicate 32 0)),
      ripemd160 = (\<lambda>m. take 20 (m @ replicate 20 0)),
      ed25519_verify = (\<lambda>s m k. 1),
      ed25519_sign = (\<lambda>m p k. replicate 64 0),
      ed25519_create_keypair = (\<lambda>s. (replicate 32 0, replicate 64 0)),
      pf_newhash = (\<lambda>m. m)\<rparr>"

lemma sample_crypto_ok [simp]: "crypto_ok sample_crypto"
  by (auto simp: crypto_ok_def sample_crypto_def min_def)

definition sample_key :: "u8 \<Rightarrow> public_key" where
  "sample_key n = replicate 32 n"

definition sample_wallet :: "u8 \<Rightarrow> wallet" where
  "sample_wallet n = walletAddressFromPublicKey sample_crypto (sample_key n)"

text \<open>
  The textual forms of hashes, wallet addresses, keys and signatures read back to the bytes
  they were printed from, with no error and no access outside an array.
\<close>

lemma text_back:
  "length h = 32 \<Longrightarrow> stringToSHA256 (SHA256toString h) = Inr h"
  "length w = 25 \<Longrightarrow> stringToWalletAddress (walletAddressToString w) = Inr w"
  "length k = 32 \<Longrightarrow> stringToPublicKey (publicKeyToString k) = Inr k"
  "length p = 64 \<Longrightarrow> stringToPrivateKey (privateKeyToString p) = Inr p"
  "length s = 64 \<Longrightarrow> length m = 64 \<Longrightarrow> stringToSignature m (signatureToString s) = Inr s"
  by (simp_all add: stringToSHA256_def SHA256toString_def copy_prefix_def stringToWalletAddress_def
      walletAddressToString_def stringToPublicKey_def publicKeyToString_def stringToPrivateKey_def
      privateKeyToString_def stringToSignature_def signatureToString_def)

section \<open>Properties\<close>

text \<open>
  \<open>checkLeadingZeroBits\<close>, which tests whole bytes and then the rest of one byte, accepts
  exactly the hashes whose first \<open>challengeSize\<close> bits are zero; so a larger challenge accepts
  fewer hashes.
\<close>

lemma leading_zero_bits:
  "checkLeadingZeroBits a c = (\<forall>i < unat c. \<not> bit (a ! (i div 8)) (7 - i mod 8))"
  by (simp add: checkLeadingZeroBits_iff hash_bit_def)

lemma leading_zero_bits_witness: "checkLeadingZeroBits [0, 127] 9 \<and> \<not> checkLeadingZeroBits [0, 127] 10"
proof -
  have "\<forall>i < unat (9 :: u8). \<not> bit (([0, 127] :: hash) ! (i div 8)) (7 - i mod 8)" by code_simp
  moreover have "\<not> (\<forall>i < unat (10 :: u8). \<not> bit (([0, 127] :: hash) ! (i div 8)) (7 - i mod 8))" by code_simp
  ultimately show ?thesis unfolding leading_zero_bits by blast
qed

end
