(* ===== verification/Transaction.thy ===== *)
theory Transaction
  imports Crypto
begin

text \<open>
  \<open>core/transaction.hpp\<close> and \<open>core/transaction.cpp\<close>: transactions, their wire record
  \<open>TransactionInfo\<close>, hashing, signing, equality and expiry.

  The constructors leave some members uninitialised. A constructor therefore takes the
  object's prior memory \<open>mem\<close> and overwrites the members the code assigns. In particular
  no constructor that copies a transaction, or reads one from the wire, assigns \<open>nonce\<close>.
\<close>

section \<open>Data\<close>

record transaction_info =
  ti_signature :: signature
  ti_signingKey :: public_key
  ti_timestamp :: u64
  ti_to :: wallet
  ti_from :: wallet
  ti_amount :: amount
  ti_fee :: amount
  ti_isTransactionFee :: bool

record transaction =
  t_signature :: signature
  t_signingKey :: public_key
  t_timestamp :: u64
  t_to :: wallet
  t_from :: wallet
  t_amount :: amount
  t_fee :: amount
  t_isTransactionFee :: bool
  t_nonce :: u64

definition TRANSACTION_EXPIRY :: u64 where
  "TRANSACTION_EXPIRY = 3600"

definition TRANSACTIONINFO_BUFFER_SIZE :: nat where
  "TRANSACTIONINFO_BUFFER_SIZE = 149"

definition transaction_wf :: "transaction \<Rightarrow> bool" where
  "transaction_wf t \<longleftrightarrow> length (t_signature t) = 64 \<and> length (t_signingKey t) = 32 \<and>
     length (t_to t) = 25 \<and> length (t_from t) = 25"

section \<open>Constructors\<close>

definition new_transfer ::
  "transaction \<Rightarrow> wallet \<Rightarrow> wallet \<Rightarrow> amount \<Rightarrow> public_key \<Rightarrow> amount \<Rightarrow> u64 \<Rightarrow> transaction" where
  "new_transfer mem from to amount signingKey fee timestamp =
     mem\<lparr>t_from := from, t_to := to, t_amount := amount, t_isTransactionFee := False,
         t_timestamp := timestamp, t_fee := fee, t_signingKey := signingKey, t_nonce := 0\<rparr>"

definition new_fee :: "transaction \<Rightarrow> u64 \<Rightarrow> wallet \<Rightarrow> amount \<Rightarrow> transaction" where
  "new_fee mem now to fee =
     mem\<lparr>t_to := to, t_amount := fee, t_isTransactionFee := True, t_timestamp := now,
         t_fee := 0\<rparr>"

definition tx_copy :: "transaction \<Rightarrow> transaction \<Rightarrow> transaction" where
  "tx_copy mem t =
     mem\<lparr>t_to := t_to t, t_from := t_from t, t_signature := t_signature t,
         t_amount := t_amount t, t_isTransactionFee := t_isTransactionFee t,
         t_timestamp := t_timestamp t, t_fee := t_fee t, t_signingKey := t_signingKey t\<rparr>"

definition transaction_of_info :: "transaction \<Rightarrow> transaction_info \<Rightarrow> transaction" where
  "transaction_of_info mem i =
     mem\<lparr>t_to := ti_to i,
         t_from := (if \<not> ti_isTransactionFee i then ti_from i else t_from mem),
         t_signature := ti_signature i, t_signingKey := ti_signingKey i,
         t_amount := ti_amount i, t_isTransactionFee := ti_isTransactionFee i,
         t_timestamp := ti_timestamp i, t_fee := ti_fee i\<rparr>"

definition tx_serialize :: "transaction \<Rightarrow> transaction_info" where
  "tx_serialize t =
     \<lparr>ti_signature = t_signature t, ti_signingKey = t_signingKey t,
      ti_timestamp = t_timestamp t, ti_to = t_to t, ti_from = t_from t,
      ti_amount = t_amount t, ti_fee = t_fee t,
      ti_isTransactionFee = t_isTransactionFee t\<rparr>"

text \<open>
  Copying a whole list, as \<open>for (auto t : transactions)\<close> does: object \<open>i\<close> is built in the
  memory \<open>mem i\<close>.
\<close>

primrec copy_list :: "(nat \<Rightarrow> transaction) \<Rightarrow> transaction list \<Rightarrow> transaction list" where
  "copy_list mem [] = []"
| "copy_list mem (t # ts) = tx_copy (mem 0) t # copy_list (\<lambda>i. mem (Suc i)) ts"

lemma tx_copy_fields [simp]:
  "t_to (tx_copy m t) = t_to t" "t_from (tx_copy m t) = t_from t"
  "t_signature (tx_copy m t) = t_signature t" "t_amount (tx_copy m t) = t_amount t"
  "t_isTransactionFee (tx_copy m t) = t_isTransactionFee t"
  "t_timestamp (tx_copy m t) = t_timestamp t" "t_fee (tx_copy m t) = t_fee t"
  "t_signingKey (tx_copy m t) = t_signingKey t" "t_nonce (tx_copy m t) = t_nonce m"
  by (simp_all add: tx_copy_def)

lemma tx_copy_nonce: "tx_copy m t = t\<lparr>t_nonce := t_nonce m\<rparr>"
  by (simp add: tx_copy_def)

lemma length_copy_list [simp]: "length (copy_list mem ts) = length ts"
  by (induction ts arbitrary: mem) auto

lemma nth_copy_list: "i < length ts \<Longrightarrow> copy_list mem ts ! i = tx_copy (mem i) (ts ! i)"
  by (induction ts arbitrary: mem i) (auto simp: nth_Cons split: nat.splits)

lemma map_copy_list:
  "(\<And>m t. f (tx_copy m t) = f t) \<Longrightarrow> map f (copy_list mem ts) = map f ts"
  by (induction ts arbitrary: mem) auto

lemma copy_list_id: "(\<And>i. i < length ts \<Longrightarrow> t_nonce (mem i) = t_nonce (ts ! i)) \<Longrightarrow>
    copy_list mem ts = ts"
  by (rule nth_equalityI) (auto simp: nth_copy_list tx_copy_nonce)

section \<open>Wire format\<close>

definition transactionInfoFromBuffer :: "crypto \<Rightarrow> (bytes, transaction_info) cpp" where
  "transactionInfoFromBuffer C =
     bindE (readNetworkNBytes 64) (\<lambda>signature.
     bindE (readNetworkNBytes 32) (\<lambda>signingKey.
     bindE readNetworkUint64 (\<lambda>timestamp.
     bindE readNetworkPublicWalletAddress (\<lambda>to.
     bindE readNetworkUint64 (\<lambda>amount.
     bindE readNetworkUint64 (\<lambda>fee.
     bindE readNetworkUint32 (\<lambda>flag.
       (let isFee = 0 < flag in
        ok \<lparr>ti_signature = signature, ti_signingKey = signingKey, ti_timestamp = timestamp,
            ti_to = to,
            ti_from = (if \<not> isFee then walletAddressFromPublicKey C signingKey else NULL_ADDRESS),
            ti_amount = amount, ti_fee = fee, ti_isTransactionFee = isFee\<rparr>))))))))"

definition transactionInfoToBuffer :: "transaction_info \<Rightarrow> bytes" where
  "transactionInfoToBuffer t =
     writeNetworkNBytes (ti_signature t) @
     writeNetworkNBytes (ti_signingKey t) @
     writeNetworkUint64 (ti_timestamp t) @
     writeNetworkPublicWalletAddress (ti_to t) @
     writeNetworkUint64 (ti_amount t) @
     writeNetworkUint64 (ti_fee t) @
     writeNetworkUint32 (if ti_isTransactionFee t then 1 else 0)"

text \<open>
  A record as the reader produces it: array sizes, and the \<open>from\<close> address that is not on
  the wire but recomputed from the signing key.
\<close>

definition transaction_info_wf :: "crypto \<Rightarrow> transaction_info \<Rightarrow> bool" where
  "transaction_info_wf C t \<longleftrightarrow> length (ti_signature t) = 64 \<and> length (ti_signingKey t) = 32 \<and>
     length (ti_to t) = 25 \<and>
     ti_from t = (if ti_isTransactionFee t then NULL_ADDRESS
                  else walletAddressFromPublicKey C (ti_signingKey t))"

interpretation tx_codec: codec transactionInfoToBuffer "transactionInfoFromBuffer C"
    "transaction_info_wf C" TRANSACTIONINFO_BUFFER_SIZE for C
proof unfold_locales
  fix a :: transaction_info and rest
  assume wf: "transaction_info_wf C a"
  then show "length (transactionInfoToBuffer a) = TRANSACTIONINFO_BUFFER_SIZE"
    by (simp add: transactionInfoToBuffer_def transaction_info_wf_def
        TRANSACTIONINFO_BUFFER_SIZE_def)
  show "transactionInfoFromBuffer C (transactionInfoToBuffer a @ rest) = (Inr a, rest)"
    using wf by (cases a) (auto simp: transactionInfoFromBuffer_def transactionInfoToBuffer_def
        transaction_info_wf_def bindE_Inr cpp_simps Let_def writeNetworkNBytes_def
        split: if_splits)
qed

section \<open>Accessors and setters\<close>

definition setTransactionFee :: "amount \<Rightarrow> transaction \<Rightarrow> transaction" where
  "setTransactionFee a t = t\<lparr>t_fee := a\<rparr>"

definition getTransactionFee :: "transaction \<Rightarrow> amount" where
  "getTransactionFee t = t_fee t"

definition setAmount :: "amount \<Rightarrow> transaction \<Rightarrow> transaction" where
  "setAmount a t = t\<lparr>t_amount := a\<rparr>"

definition setTimestamp :: "u64 \<Rightarrow> transaction \<Rightarrow> transaction" where
  "setTimestamp ts t = t\<lparr>t_timestamp := ts\<rparr>"

definition setNonce :: "u64 \<Rightarrow> transaction \<Rightarrow> transaction" where
  "setNonce n t = t\<lparr>t_nonce := n\<rparr>"

section \<open>Hashing and signing\<close>

text \<open>The bytes \<open>hashContents\<close> feeds to SHA-256, in the order of its updates.\<close>

definition tx_contents :: "transaction \<Rightarrow> bytes" where
  "tx_contents t =
     t_to t @ (if \<not> t_isTransactionFee t then t_from t else []) @
     le_enc 8 (t_fee t) @ le_enc 8 (t_amount t) @ le_enc 8 (t_timestamp t) @ le_enc 8 (t_nonce t)"

definition hashContents :: "crypto \<Rightarrow> transaction \<Rightarrow> hash" where
  "hashContents C t = sha256 C (tx_contents t)"

definition tx_getHash :: "crypto \<Rightarrow> transaction \<Rightarrow> hash" where
  "tx_getHash C t =
     sha256 C (hashContents C t @ (if \<not> t_isTransactionFee t then t_signature t else []))"

definition tx_sign :: "crypto \<Rightarrow> public_key \<Rightarrow> private_key \<Rightarrow> transaction \<Rightarrow> transaction" where
  "tx_sign C pubKey signingKey t =
     t\<lparr>t_signature := signWithPrivateKey C (hashContents C t) pubKey signingKey\<rparr>"

definition signatureValid :: "crypto \<Rightarrow> transaction \<Rightarrow> bool" where
  "signatureValid C t =
     (if t_isTransactionFee t then True
      else checkSignature C (hashContents C t) (t_signature t) (t_signingKey t))"

section \<open>Comparison and expiry\<close>

definition tx_less :: "transaction \<Rightarrow> transaction \<Rightarrow> bool" where
  "tx_less a b = (t_signature a < t_signature b)"

definition tx_eq :: "transaction \<Rightarrow> transaction \<Rightarrow> bool" where
  "tx_eq a b =
     (if t_timestamp a \<noteq> t_timestamp b then False
      else if t_to a \<noteq> t_to b then False
      else if t_fee a \<noteq> t_fee b then False
      else if t_amount a \<noteq> t_amount b then False
      else if t_isTransactionFee a \<noteq> t_isTransactionFee b then False
      else if \<not> t_isTransactionFee a then
        (if t_from a \<noteq> t_from b then False
         else if signatureToString (t_signature a) \<noteq> signatureToString (t_signature b) then False
         else if publicKeyToString (t_signingKey a) \<noteq> publicKeyToString (t_signingKey b) then False
         else True)
      else True)"

definition isExpired :: "u64 \<Rightarrow> transaction \<Rightarrow> bool" where
  "isExpired now t = (TRANSACTION_EXPIRY < now - t_timestamp t)"

section \<open>Lemmas\<close>

lemma tx_eq_iff:
  "tx_eq a b \<longleftrightarrow> t_timestamp a = t_timestamp b \<and> t_to a = t_to b \<and> t_fee a = t_fee b \<and>
     t_amount a = t_amount b \<and> t_isTransactionFee a = t_isTransactionFee b \<and>
     (t_isTransactionFee a \<or> t_from a = t_from b \<and> t_signature a = t_signature b \<and>
       t_signingKey a = t_signingKey b)"
  by (auto simp: tx_eq_def signatureToString_def publicKeyToString_def hexEncode_inj)

lemma tx_eq_refl [simp]: "tx_eq a a"
  by (simp add: tx_eq_iff)

lemma tx_eq_sym: "tx_eq a b \<Longrightarrow> tx_eq b a"
  by (auto simp: tx_eq_iff)

lemma tx_eq_trans: "tx_eq a b \<Longrightarrow> tx_eq b c \<Longrightarrow> tx_eq a c"
  by (auto simp: tx_eq_iff)

lemma tx_eq_copy [simp]: "tx_eq (tx_copy m t) t"
  by (simp add: tx_eq_iff)

lemma isExpired_iff:
  "isExpired now t \<longleftrightarrow> now < t_timestamp t \<and> unat (t_timestamp t) - unat now < 2 ^ 64 - 3600
     \<or> t_timestamp t \<le> now \<and> 3600 < unat now - unat (t_timestamp t)"
proof -
  have b: "unat now < 2 ^ 64" "unat (t_timestamp t) < 2 ^ 64"
    using unsigned_less [of now] unsigned_less [of "t_timestamp t"] by simp_all
  have e: "unat TRANSACTION_EXPIRY = 3600" by (simp add: TRANSACTION_EXPIRY_def)
  show ?thesis
  proof (cases "t_timestamp t \<le> now")
    case True
    then have "unat (now - t_timestamp t) = unat now - unat (t_timestamp t)"
      by (rule unat_sub)
    with True show ?thesis by (simp add: isExpired_def word_less_nat_alt e word_le_nat_alt)
  next
    case False
    then have lt: "unat now < unat (t_timestamp t)" by (simp add: word_le_nat_alt)
    then have "unat (now - t_timestamp t) = 2 ^ 64 - (unat (t_timestamp t) - unat now)"
      using b by (simp add: unat_sub_if')
    with False lt b show ?thesis
      by (simp add: isExpired_def word_less_nat_alt e word_le_nat_alt) arith
  qed
qed

text \<open>The signed bytes determine every signed field and the kind of the transaction.\<close>

lemma tx_contents_inj:
  assumes wf: "transaction_wf a" "transaction_wf b" and eq: "tx_contents a = tx_contents b"
  shows "t_isTransactionFee a = t_isTransactionFee b \<and> t_to a = t_to b \<and>
    (\<not> t_isTransactionFee a \<longrightarrow> t_from a = t_from b) \<and> t_fee a = t_fee b \<and>
    t_amount a = t_amount b \<and> t_timestamp a = t_timestamp b \<and> t_nonce a = t_nonce b"
proof -
  have "length (tx_contents a) = length (tx_contents b)" using eq by simp
  then have k: "t_isTransactionFee a = t_isTransactionFee b"
    using wf by (auto simp: tx_contents_def transaction_wf_def split: if_splits)
  have n: "le_enc 8 x = le_enc 8 y \<longleftrightarrow> x = y" for x y :: u64
    by (rule le_enc_inj) simp
  show ?thesis
    using eq wf k by (auto simp: tx_contents_def transaction_wf_def n split: if_splits)
qed

text \<open>
  A transaction sent over the wire and read back: every signed field but the nonce
  arrives, and the sender is the one the signing key derives.
\<close>

definition wire_roundtrip :: "crypto \<Rightarrow> transaction \<Rightarrow> transaction \<Rightarrow> exn + transaction" where
  "wire_roundtrip C mem t =
     map_sum id (transaction_of_info mem)
       (fst (transactionInfoFromBuffer C (transactionInfoToBuffer (tx_serialize t))))"

lemma wire_read:
  assumes "transaction_wf t"
  shows "transactionInfoFromBuffer C (transactionInfoToBuffer (tx_serialize t) @ rest) =
    (Inr ((tx_serialize t)\<lparr>ti_from := (if t_isTransactionFee t then NULL_ADDRESS
        else walletAddressFromPublicKey C (t_signingKey t))\<rparr>), rest)"
proof -
  let ?i = "(tx_serialize t)\<lparr>ti_from := (if t_isTransactionFee t then NULL_ADDRESS
        else walletAddressFromPublicKey C (t_signingKey t))\<rparr>"
  have "transaction_info_wf C ?i"
    using assms by (simp add: transaction_info_wf_def tx_serialize_def transaction_wf_def)
  then have "transactionInfoFromBuffer C (transactionInfoToBuffer ?i @ rest) = (Inr ?i, rest)"
    by (rule tx_codec.rd_wr)
  then show ?thesis by (simp add: transactionInfoToBuffer_def tx_serialize_def)
qed

lemma wire_roundtrip_transfer:
  assumes "transaction_wf t" "\<not> t_isTransactionFee t"
    and "t_from t = walletAddressFromPublicKey C (t_signingKey t)"
  shows "wire_roundtrip C mem t = Inr (tx_copy mem t)"
  using wire_read [OF assms(1), of C "[]"] assms(2,3)
  by (simp add: wire_roundtrip_def transaction_of_info_def tx_copy_def tx_serialize_def)

section \<open>Concrete transactions\<close>

definition sample_transfer :: "u8 \<Rightarrow> u8 \<Rightarrow> amount \<Rightarrow> amount \<Rightarrow> transaction" where
  "sample_transfer a b amt fee =
     \<lparr>t_signature = replicate 64 0, t_signingKey = sample_key a, t_timestamp = 1000,
      t_to = sample_wallet b, t_from = sample_wallet a, t_amount = amt, t_fee = fee,
      t_isTransactionFee = False, t_nonce = 0\<rparr>"

definition sample_fee :: "u8 \<Rightarrow> amount \<Rightarrow> transaction" where
  "sample_fee b amt =
     (sample_transfer 0 b amt 0)\<lparr>t_isTransactionFee := True, t_from := NULL_ADDRESS\<rparr>"

definition sample_mem :: "nat \<Rightarrow> transaction" where
  "sample_mem i = sample_fee 0 0"

section \<open>Properties\<close>

text \<open>
  A well-formed transaction written to the wire and read back is equal, in the sense of
  the code's \<open>==\<close>, to the one sent, whatever the memory it is built in; its nonce, which
  \<open>==\<close> ignores and the wire does not carry, is what that memory held.
\<close>

lemma wire_roundtrip_equal:
  assumes "transaction_wf t"
    and "\<not> t_isTransactionFee t \<Longrightarrow> t_from t = walletAddressFromPublicKey C (t_signingKey t)"
  shows "\<exists>t'. wire_roundtrip C mem t = Inr t' \<and> tx_eq t' t \<and> t_nonce t' = t_nonce mem"
  using wire_read [OF assms(1), of C "[]"] assms(2)
  by (auto simp: wire_roundtrip_def transaction_of_info_def tx_serialize_def tx_eq_iff)

lemma wire_roundtrip_equal_witness:
  "\<exists>t'. wire_roundtrip sample_crypto (sample_mem 0) (sample_transfer 1 2 30 5) = Inr t' \<and>
     tx_eq t' (sample_transfer 1 2 30 5) \<and> t_nonce t' = t_nonce (sample_mem 0)"
  by (rule wire_roundtrip_equal)
    (simp_all add: transaction_wf_def sample_transfer_def sample_wallet_def sample_key_def)

text \<open>
  C21. The bytes that are hashed and signed determine the transaction: two well-formed
  transactions with the same \<open>hashContents\<close> input agree on their kind, receiver, sender, fee,
  amount, timestamp and nonce.
\<close>

theorem signed_bytes_injective:
  assumes "transaction_wf a" "transaction_wf b" and "tx_contents a = tx_contents b"
  shows "t_isTransactionFee a = t_isTransactionFee b \<and> t_to a = t_to b \<and>
    (\<not> t_isTransactionFee a \<longrightarrow> t_from a = t_from b) \<and> t_fee a = t_fee b \<and>
    t_amount a = t_amount b \<and> t_timestamp a = t_timestamp b \<and> t_nonce a = t_nonce b"
  by (rule tx_contents_inj [OF assms])

lemma signed_bytes_injective_witness:
  "t_fee (sample_transfer 1 2 30 5) = t_fee ((sample_transfer 1 2 30 5)\<lparr>t_signature := replicate 64 7\<rparr>)"
proof -
  let ?a = "sample_transfer 1 2 30 5" and ?b = "(sample_transfer 1 2 30 5)\<lparr>t_signature := replicate 64 7\<rparr>"
  have "transaction_wf ?a" "transaction_wf ?b" "tx_contents ?a = tx_contents ?b"
    by (simp_all add: transaction_wf_def tx_contents_def sample_transfer_def sample_wallet_def sample_key_def)
  from signed_bytes_injective [OF this] show ?thesis by blast
qed

text \<open>
  \<open>isExpired\<close> is true for a transaction more than 3600 seconds old and also, by
  wrap-around, for one that is from the future, unless it is nearly \<open>2 ^ 64\<close> seconds ahead.
\<close>

lemma isExpired_cases:
  "isExpired now t \<longleftrightarrow>
     (if t_timestamp t \<le> now then 3600 < unat now - unat (t_timestamp t)
      else unat (t_timestamp t) - unat now < 2 ^ 64 - 3600)"
  unfolding isExpired_iff by (auto simp: not_le)

end
