(* ===== verification/TxStore.thy ===== *)
theory TxStore
  imports Stores Transaction
begin

text \<open>
  \<open>server/tx_store.cpp\<close>: the database of executed transactions, from the hash of a
  transaction's contents to the id of its block, as 4 little-endian bytes.
\<close>

definition tx_hasTransaction :: "crypto \<Rightarrow> 'd kv \<Rightarrow> transaction \<Rightarrow> 'd \<Rightarrow> bool" where
  "tx_hasTransaction C L t d = (kv_get L d (hashContents C t) \<noteq> None)"

definition blockForTransactionId :: "'d kv \<Rightarrow> hash \<Rightarrow> ('d, u32) cpp" where
  "blockForTransactionId L txHash d =
     (case kv_get L d txHash of
        None \<Rightarrow> (Inr 0, d)
      | Some v \<Rightarrow> if length v < 4 then (Inl UB, d) else (Inr (le_dec (take 4 v)), d))"

definition blockForTransaction :: "crypto \<Rightarrow> 'd kv \<Rightarrow> transaction \<Rightarrow> ('d, u32) cpp" where
  "blockForTransaction C L t d =
     (let txHash = hashContents C t in
      case kv_get L d txHash of
        None \<Rightarrow> (Inr 0, d)
      | Some v \<Rightarrow> if length v < 4 then (Inl UB, d) else (Inr (le_dec (take 4 v)), d))"

definition insertTransaction :: "crypto \<Rightarrow> 'd kv \<Rightarrow> transaction \<Rightarrow> u32 \<Rightarrow> ('d, unit) cpp" where
  "insertTransaction C L t blockId =
     kv_write L ''Could not write transaction hash to tx db : '' (hashContents C t) (le_enc 4 blockId)"

definition removeTransaction :: "crypto \<Rightarrow> 'd kv \<Rightarrow> transaction \<Rightarrow> ('d, unit) cpp" where
  "removeTransaction C L t =
     kv_remove L ''Could not remove transaction hash from tx db : '' (hashContents C t)"

text \<open>The abstraction: the block each known transaction is in.\<close>

definition tx_block :: "'d kv \<Rightarrow> 'd \<Rightarrow> hash \<Rightarrow> u32 option" where
  "tx_block L d = (\<lambda>h. map_option le_dec (kv_get L d h))"

lemma tx_hasTransaction_iff: "tx_hasTransaction C L t d \<longleftrightarrow> tx_block L d (hashContents C t) \<noteq> None"
  by (simp add: tx_hasTransaction_def tx_block_def)

lemma insertTransaction_ok:
  assumes "kv_ok L" and "insertTransaction C L t b d = (Inr (), d')"
  shows "tx_block L d' = (tx_block L d)(hashContents C t \<mapsto> b)"
proof -
  have "kv_get L d' = (kv_get L d)(hashContents C t \<mapsto> le_enc 4 b)"
    using assms by (intro kv_write_Inr) (simp_all add: insertTransaction_def)
  then show ?thesis by (auto simp: tx_block_def fun_eq_iff)
qed

lemma removeTransaction_ok:
  assumes "kv_ok L" and "removeTransaction C L t d = (Inr (), d')"
  shows "tx_block L d' = (tx_block L d)(hashContents C t := None)"
proof -
  have "kv_get L d' = (kv_get L d)(hashContents C t := None)"
    using assms by (intro kv_remove_Inr) (simp_all add: removeTransaction_def)
  then show ?thesis by (auto simp: tx_block_def fun_eq_iff)
qed

lemma insert_lookup:
  assumes "kv_ok L" and "insertTransaction C L t b d = (Inr (), d')"
  shows "blockForTransaction C L t d' = (Inr b, d')"
    and "blockForTransactionId L (hashContents C t) d' = (Inr b, d')"
proof -
  have "kv_get L d' = (kv_get L d)(hashContents C t \<mapsto> le_enc 4 b)"
    using assms by (intro kv_write_Inr) (simp_all add: insertTransaction_def)
  then show "blockForTransaction C L t d' = (Inr b, d')"
    and "blockForTransactionId L (hashContents C t) d' = (Inr b, d')"
    by (simp_all add: blockForTransaction_def blockForTransactionId_def)
qed

section \<open>Properties\<close>

text \<open>
  The transaction database answers with the block last inserted for a transaction, and
  with 0 after its removal; other transactions' entries do not change.
\<close>

lemma txdb_insert_remove:
  assumes "kv_ok L" and "insertTransaction C L t b d = (Inr (), d1)"
    and "removeTransaction C L t d1 = (Inr (), d2)"
  shows "blockForTransaction C L t d1 = (Inr b, d1) \<and> tx_hasTransaction C L t d1 \<and>
    blockForTransaction C L t d2 = (Inr 0, d2) \<and> \<not> tx_hasTransaction C L t d2 \<and>
    (\<forall>h. h \<noteq> hashContents C t \<longrightarrow> tx_block L d2 h = tx_block L d h)"
proof -
  note i = insertTransaction_ok [OF assms(1,2)] and r = removeTransaction_ok [OF assms(1,3)]
  from r have "kv_get L d2 (hashContents C t) = None" by (auto simp: tx_block_def fun_eq_iff split: if_splits)
  with insert_lookup [OF assms(1,2)] i r show ?thesis
    by (simp add: tx_hasTransaction_iff blockForTransaction_def)
qed

lemma txdb_insert_remove_witness:
  "blockForTransaction sample_crypto mem_kv (sample_transfer 1 2 3 0)
     [(hashContents sample_crypto (sample_transfer 1 2 3 0), le_enc 4 (5 :: u32))] =
   (Inr 5, [(hashContents sample_crypto (sample_transfer 1 2 3 0), le_enc 4 (5 :: u32))])"
proof -
  let ?t = "sample_transfer 1 2 3 0" and ?C = sample_crypto
  have "insertTransaction ?C mem_kv ?t 5 [] = (Inr (), [(hashContents ?C ?t, le_enc 4 (5 :: u32))])"
    by (simp add: insertTransaction_def kv_write_def)
  moreover have "removeTransaction ?C mem_kv ?t [(hashContents ?C ?t, le_enc 4 (5 :: u32))] = (Inr (), [])"
    by (simp add: removeTransaction_def kv_remove_def)
  ultimately show ?thesis using txdb_insert_remove [OF mem_kv_ok] by blast
qed

end
