(* ===== verification/Pufferfish.thy ===== *)
theory Pufferfish
  imports Crypto Stores
begin

text \<open>
  The proof-of-work hash of \<open>core/crypto.cpp\<close> with its cache
  (\<open>server/pufferfish_cache.cpp\<close>). The state is the cache database. A cached entry is
  looked up under the first 32 bytes of the input, as \<open>PUFFERFISH\<close> copies them.
\<close>

section \<open>The cache\<close>

definition pfc_hasHash :: "'d kv \<Rightarrow> hash \<Rightarrow> 'd \<Rightarrow> bool" where
  "pfc_hasHash L h d = (kv_get L d h \<noteq> None)"

definition pfc_getHash :: "'d kv \<Rightarrow> hash \<Rightarrow> ('d, hash) cpp" where
  "pfc_getHash L h d =
     (case kv_get L d h of
        None \<Rightarrow> (Inl (Runtime ''Hash does not exist''), d)
      | Some v \<Rightarrow> if length v < 32 then (Inl UB, d) else (Inr (take 32 v), d))"

definition pfc_setHash :: "'d kv \<Rightarrow> hash \<Rightarrow> hash \<Rightarrow> ('d, unit) cpp" where
  "pfc_setHash L input v = kv_write L ''Write failed: '' input v"

section \<open>Hashing\<close>

definition pufferfish_hash :: "crypto \<Rightarrow> bytes \<Rightarrow> hash" where
  "pufferfish_hash C buffer = sha256 C (pf_newhash C buffer)"

definition PUFFERFISH :: "crypto \<Rightarrow> 'd kv \<Rightarrow> bytes \<Rightarrow> bool \<Rightarrow> ('d, hash) cpp" where
  "PUFFERFISH C L buffer useCache =
     (if useCache then
        if length buffer < 32 then throw UB
        else let inputHash = take 32 buffer in
          catchE (pfc_getHash L inputHash)
            (let finalHash = pufferfish_hash C buffer in
             bindE (pfc_setHash L inputHash finalHash) (\<lambda>_. ok finalHash))
      else ok (pufferfish_hash C buffer))"

definition SHA256 :: "crypto \<Rightarrow> 'd kv \<Rightarrow> bytes \<Rightarrow> bool \<Rightarrow> bool \<Rightarrow> ('d, hash) cpp" where
  "SHA256 C L buffer usePufferFish useCache =
     (if usePufferFish then PUFFERFISH C L buffer useCache else ok (sha256 C buffer))"

definition concatHashes ::
  "crypto \<Rightarrow> 'd kv \<Rightarrow> hash \<Rightarrow> hash \<Rightarrow> bool \<Rightarrow> bool \<Rightarrow> ('d, hash) cpp" where
  "concatHashes C L a b usePufferFish useCache = SHA256 C L (a @ b) usePufferFish useCache"

definition verifyHash ::
  "crypto \<Rightarrow> 'd kv \<Rightarrow> hash \<Rightarrow> hash \<Rightarrow> u8 \<Rightarrow> bool \<Rightarrow> bool \<Rightarrow> ('d, bool) cpp" where
  "verifyHash C L target nonce challengeSize usePufferFish useCache =
     bindE (concatHashes C L target nonce usePufferFish useCache) (\<lambda>fullHash.
     ok (checkLeadingZeroBits fullHash challengeSize))"

section \<open>Mining\<close>

text \<open>
  \<open>mineHash\<close> starts from a random 32-byte nonce and adds one to its first eight bytes,
  read as a little-endian 64-bit integer, until the hash has enough leading zero bits.
\<close>

definition mine_next :: "hash \<Rightarrow> hash" where
  "mine_next n = le_enc 8 (le_dec (take 8 n) + 1 :: u64) @ drop 8 n"

definition mine_check :: "crypto \<Rightarrow> hash \<Rightarrow> u8 \<Rightarrow> bool \<Rightarrow> hash \<Rightarrow> bool" where
  "mine_check C target challengeSize usePufferFish solution =
     checkLeadingZeroBits
       (if usePufferFish then pufferfish_hash C (target @ solution)
        else sha256 C (target @ solution)) challengeSize"

partial_function (option) mineHash ::
  "crypto \<Rightarrow> hash \<Rightarrow> u8 \<Rightarrow> bool \<Rightarrow> hash \<Rightarrow> hash option" where
  "mineHash C target challengeSize usePufferFish nonce =
     (let solution = mine_next nonce in
      if mine_check C target challengeSize usePufferFish solution then Some solution
      else mineHash C target challengeSize usePufferFish solution)"

section \<open>Lemmas\<close>

lemma PUFFERFISH_nocache [cpp_simps]:
  "PUFFERFISH C L buf False d = (Inr (pufferfish_hash C buf), d)"
  by (simp add: PUFFERFISH_def)

lemma verifyHash_nocache:
  "verifyHash C L target nonce c up False d = (Inr (mine_check C target c up nonce), d)"
  by (simp add: verifyHash_def concatHashes_def SHA256_def mine_check_def cpp_simps bindE_def)

text \<open>With the cache, a stored entry for the target decides the check for every nonce.\<close>

lemma verifyHash_cached:
  assumes "length target = 32" and "kv_get L d target = Some h" and "length h = 32"
  shows "verifyHash C L target nonce c True True d = (Inr (checkLeadingZeroBits h c), d)"
  using assms
  by (simp add: verifyHash_def concatHashes_def SHA256_def PUFFERFISH_def catchE_def
      pfc_getHash_def bindE_def)

lemma verifyHash_fresh:
  assumes "length target = 32" and "kv_get L d target = None"
    and put: "kv_put L d target (pufferfish_hash C (target @ nonce)) = Some d'"
  shows "verifyHash C L target nonce c True True d =
    (Inr (mine_check C target c True nonce), d')"
  using assms
  by (simp add: verifyHash_def concatHashes_def SHA256_def PUFFERFISH_def catchE_def
      pfc_getHash_def pfc_setHash_def kv_write_def bindE_def Let_def mine_check_def)

lemma length_mine_next [simp]: "length n = 32 \<Longrightarrow> length (mine_next n) = 32"
  by (simp add: mine_next_def)

text \<open>The search returns the first candidate that passes, and returns if there is one.\<close>

lemma mineHash_first:
  assumes "mine_check C target c up ((mine_next ^^ Suc n) nonce)"
    and "\<And>m. m < n \<Longrightarrow> \<not> mine_check C target c up ((mine_next ^^ Suc m) nonce)"
  shows "mineHash C target c up nonce = Some ((mine_next ^^ Suc n) nonce)"
  using assms
proof (induction n arbitrary: nonce)
  case 0
  then show ?case by (subst mineHash.simps) simp
next
  case (Suc n)
  have s: "(mine_next ^^ Suc m) (mine_next nonce) = (mine_next ^^ Suc (Suc m)) nonce" for m
    by (simp only: funpow_swap1 funpow.simps comp_apply)
  have "\<not> mine_check C target c up (mine_next nonce)" using Suc.prems(2) [of 0] by simp
  moreover have "mineHash C target c up (mine_next nonce) = Some ((mine_next ^^ Suc n) (mine_next nonce))"
  proof (rule Suc.IH)
    show "mine_check C target c up ((mine_next ^^ Suc n) (mine_next nonce))"
      using Suc.prems(1) by (simp only: s)
    fix m assume "m < n"
    then show "\<not> mine_check C target c up ((mine_next ^^ Suc m) (mine_next nonce))"
      using Suc.prems(2) [of "Suc m"] by (simp only: s) simp
  qed
  ultimately show ?case by (subst mineHash.simps) (simp only: s Let_def if_False)
qed

lemma mineHash_sound:
  assumes "mineHash C target c up nonce = Some s"
  shows "mine_check C target c up s \<and> (\<exists>n. s = (mine_next ^^ Suc n) nonce)"
proof (rule mineHash.raw_induct [where
      P = "\<lambda>C target c up nonce s. mine_check C target c up s \<and> (\<exists>n. s = (mine_next ^^ Suc n) nonce)",
      OF _ assms])
  fix f C target c up nonce s
  assume IH: "\<And>C target c up nonce s. f C target c up nonce = Some s \<Longrightarrow>
      mine_check C target c up s \<and> (\<exists>n. s = (mine_next ^^ Suc n) nonce)"
    and eq: "(let solution = mine_next nonce in
      if mine_check C target c up solution then Some solution else f C target c up solution) = Some s"
  show "mine_check C target c up s \<and> (\<exists>n. s = (mine_next ^^ Suc n) nonce)"
  proof (cases "mine_check C target c up (mine_next nonce)")
    case True
    with eq have "mine_check C target c up s \<and> s = (mine_next ^^ Suc 0) nonce" by simp
    then show ?thesis by blast
  next
    case False
    with eq have "f C target c up (mine_next nonce) = Some s" by simp
    from IH [OF this] obtain n where "mine_check C target c up s"
      and "s = (mine_next ^^ Suc n) (mine_next nonce)" by blast
    then have "mine_check C target c up s \<and> s = (mine_next ^^ Suc (Suc n)) nonce"
      by (simp only: funpow_swap1 funpow.simps comp_apply)
    then show ?thesis by blast
  qed
qed

lemma mineHash_returns:
  assumes "mine_check C target c up ((mine_next ^^ Suc n) nonce)"
  shows "\<exists>s. mineHash C target c up nonce = Some s \<and> mine_check C target c up s"
proof -
  let ?P = "\<lambda>n. mine_check C target c up ((mine_next ^^ Suc n) nonce)"
  define k where "k = (LEAST n. ?P n)"
  have "?P k" unfolding k_def using assms by (rule LeastI)
  moreover have "\<And>m. m < k \<Longrightarrow> \<not> ?P m" unfolding k_def by (rule not_less_Least)
  ultimately show ?thesis using mineHash_first by blast
qed

section \<open>Properties\<close>

text \<open>
  C22. Mining: if some candidate the search visits passes the check, \<open>mineHash\<close> returns (it does
  not loop for ever), and the nonce it returns is accepted by \<open>verifyHash\<close> without the cache,
  in every state of the cache.
\<close>

theorem mineHash_verifies:
  assumes "mine_check C target c up ((mine_next ^^ Suc n) nonce)"
  shows "\<exists>s. mineHash C target c up nonce = Some s \<and>
    (\<forall>d. verifyHash C L target s c up False d = (Inr True, d))"
  using mineHash_returns [OF assms] verifyHash_nocache [of C L target _ c up] by fastforce

lemma mineHash_verifies_witness:
  "\<exists>s. mineHash sample_crypto (replicate 32 0) 7 False (replicate 32 0) = Some s \<and>
     (\<forall>d. verifyHash sample_crypto mem_kv (replicate 32 0) s 7 False False d = (Inr True, d))"
proof -
  have "mine_check sample_crypto (replicate 32 0) 7 False ((mine_next ^^ Suc 0) (replicate 32 0))"
    by code_simp
  then show ?thesis by (rule mineHash_verifies)
qed

text \<open>
  C23. The cache is keyed by the target alone: once an entry for a block hash is stored,
  \<open>verifyHash\<close> gives the same answer for every nonce, without hashing it. A first check with
  a good nonce makes every later nonce of the same block good.
\<close>

theorem cache_ignores_nonce:
  assumes "length target = 32" and "kv_ok L" and "length (pufferfish_hash C (target @ good)) = 32"
    and "kv_get L d target = None"
    and "verifyHash C L target good c True True d = (Inr True, d')"
  shows "verifyHash C L target nonce c True True d' = (Inr True, d')"
proof -
  let ?h = "pufferfish_hash C (target @ good)"
  obtain e where e: "kv_put L d target ?h = Some e"
  proof (cases "kv_put L d target ?h")
    case None
    with assms show ?thesis
      by (auto simp: verifyHash_def concatHashes_def SHA256_def PUFFERFISH_def catchE_def
          pfc_getHash_def pfc_setHash_def kv_write_def bindE_def Let_def)
  qed (rule that)
  from verifyHash_fresh [OF assms(1,4) e] assms(5) have d': "d' = e"
    and good: "checkLeadingZeroBits ?h c" by (auto simp: mine_check_def)
  have "kv_get L e target = Some ?h" using kv_put_get [OF assms(2) e] by simp
  from verifyHash_cached [OF assms(1) this assms(3)] good show ?thesis by (simp add: d')
qed

lemma cache_ignores_nonce_witness:
  "verifyHash sample_crypto mem_kv (replicate 32 0) (replicate 32 255) 7 True True
     (snd (verifyHash sample_crypto mem_kv (replicate 32 0) (replicate 32 1) 7 True True [])) =
   (Inr True, snd (verifyHash sample_crypto mem_kv (replicate 32 0) (replicate 32 1) 7 True True []))"
proof (rule cache_ignores_nonce)
  let ?r = "verifyHash sample_crypto mem_kv (replicate 32 0) (replicate 32 1) 7 True True []"
  have "fst ?r = Inr True" by code_simp
  then show "?r = (Inr True, snd ?r)" by (metis prod.collapse)
  show "length (pufferfish_hash sample_crypto (replicate 32 0 @ replicate 32 1)) = 32"
    by (simp add: pufferfish_hash_def sample_crypto_def)
qed simp_all

end
