(* ===== verification/Block.thy ===== *)
theory Block
  imports Transaction Pufferfish
begin

text \<open>
  \<open>core/block.hpp\<close> and \<open>core/block.cpp\<close>: blocks, their wire header, hashing, equality
  and the proof-of-work check of a block. A block's hash covers the Merkle root, the
  previous block's hash, the difficulty and the timestamp; the id and the nonce are not
  part of it.
\<close>

record block_header =
  h_id :: u32
  h_timestamp :: u64
  h_difficulty :: u32
  h_numTransactions :: u32
  h_lastBlockHash :: hash
  h_merkleRoot :: hash
  h_nonce :: hash

record block =
  b_id :: u32
  b_timestamp :: u64
  b_difficulty :: u32
  b_transactions :: "transaction list"
  b_merkleRoot :: hash
  b_lastBlockHash :: hash
  b_nonce :: hash

definition BLOCKHEADER_BUFFER_SIZE :: nat where
  "BLOCKHEADER_BUFFER_SIZE = 116"

definition MIN_DIFFICULTY :: u32 where
  "MIN_DIFFICULTY = 6"

definition blockHeaderFromBuffer :: "(bytes, block_header) cpp" where
  "blockHeaderFromBuffer =
     bindE readNetworkUint32 (\<lambda>id.
     bindE readNetworkUint64 (\<lambda>timestamp.
     bindE readNetworkUint32 (\<lambda>difficulty.
     bindE readNetworkUint32 (\<lambda>numTransactions.
     bindE readNetworkSHA256 (\<lambda>lastBlockHash.
     bindE readNetworkSHA256 (\<lambda>merkleRoot.
     bindE readNetworkSHA256 (\<lambda>nonce.
     ok \<lparr>h_id = id, h_timestamp = timestamp, h_difficulty = difficulty,
         h_numTransactions = numTransactions, h_lastBlockHash = lastBlockHash,
         h_merkleRoot = merkleRoot, h_nonce = nonce\<rparr>)))))))"

definition blockHeaderToBuffer :: "block_header \<Rightarrow> bytes" where
  "blockHeaderToBuffer b =
     writeNetworkUint32 (h_id b) @
     writeNetworkUint64 (h_timestamp b) @
     writeNetworkUint32 (h_difficulty b) @
     writeNetworkUint32 (h_numTransactions b) @
     writeNetworkSHA256 (h_lastBlockHash b) @
     writeNetworkSHA256 (h_merkleRoot b) @
     writeNetworkSHA256 (h_nonce b)"

definition block_header_wf :: "block_header \<Rightarrow> bool" where
  "block_header_wf b \<longleftrightarrow> length (h_lastBlockHash b) = 32 \<and> length (h_merkleRoot b) = 32 \<and>
     length (h_nonce b) = 32"

interpretation header_codec: codec blockHeaderToBuffer blockHeaderFromBuffer block_header_wf
    BLOCKHEADER_BUFFER_SIZE
proof unfold_locales
  fix a :: block_header and rest
  assume wf: "block_header_wf a"
  then show "length (blockHeaderToBuffer a) = BLOCKHEADER_BUFFER_SIZE"
    by (simp add: blockHeaderToBuffer_def block_header_wf_def BLOCKHEADER_BUFFER_SIZE_def)
  show "blockHeaderFromBuffer (blockHeaderToBuffer a @ rest) = (Inr a, rest)"
    using wf by (cases a) (auto simp: blockHeaderFromBuffer_def blockHeaderToBuffer_def
        block_header_wf_def bindE_Inr cpp_simps)
qed

section \<open>Constructors\<close>

definition block_default :: "u64 \<Rightarrow> block" where
  "block_default now =
     \<lparr>b_id = 1, b_timestamp = now, b_difficulty = MIN_DIFFICULTY, b_transactions = [],
      b_merkleRoot = NULL_SHA256_HASH, b_lastBlockHash = NULL_SHA256_HASH,
      b_nonce = NULL_SHA256_HASH\<rparr>"

definition block_copy :: "(nat \<Rightarrow> transaction) \<Rightarrow> block \<Rightarrow> block" where
  "block_copy mem b = b\<lparr>b_transactions := copy_list mem (b_transactions b)\<rparr>"

definition block_of_header :: "(nat \<Rightarrow> transaction) \<Rightarrow> block_header \<Rightarrow> transaction list \<Rightarrow> block" where
  "block_of_header mem h ts =
     \<lparr>b_id = h_id h, b_timestamp = h_timestamp h, b_difficulty = h_difficulty h,
      b_transactions = copy_list mem ts, b_merkleRoot = h_merkleRoot h,
      b_lastBlockHash = h_lastBlockHash h, b_nonce = h_nonce h\<rparr>"

definition block_serialize :: "block \<Rightarrow> block_header" where
  "block_serialize b =
     \<lparr>h_id = b_id b, h_timestamp = b_timestamp b, h_difficulty = b_difficulty b,
      h_numTransactions = of_nat (length (b_transactions b)),
      h_lastBlockHash = b_lastBlockHash b, h_merkleRoot = b_merkleRoot b,
      h_nonce = b_nonce b\<rparr>"

section \<open>Members\<close>

definition addTransaction :: "transaction \<Rightarrow> transaction \<Rightarrow> block \<Rightarrow> block" where
  "addTransaction mem t b = b\<lparr>b_transactions := b_transactions b @ [tx_copy mem t]\<rparr>"

definition setBlockNonce :: "hash \<Rightarrow> block \<Rightarrow> block" where
  "setBlockNonce s b = b\<lparr>b_nonce := s\<rparr>"

definition setMerkleRoot :: "hash \<Rightarrow> block \<Rightarrow> block" where
  "setMerkleRoot s b = b\<lparr>b_merkleRoot := s\<rparr>"

definition setBlockTimestamp :: "u64 \<Rightarrow> block \<Rightarrow> block" where
  "setBlockTimestamp t b = b\<lparr>b_timestamp := t\<rparr>"

definition setId :: "u32 \<Rightarrow> block \<Rightarrow> block" where
  "setId i b = b\<lparr>b_id := i\<rparr>"

definition setDifficulty :: "u8 \<Rightarrow> block \<Rightarrow> block" where
  "setDifficulty d b = b\<lparr>b_difficulty := ucast d\<rparr>"

definition setLastBlockHash :: "hash \<Rightarrow> block \<Rightarrow> block" where
  "setLastBlockHash h b = b\<lparr>b_lastBlockHash := h\<rparr>"

definition block_contents :: "block \<Rightarrow> bytes" where
  "block_contents b =
     b_merkleRoot b @ b_lastBlockHash b @ le_enc 4 (b_difficulty b) @ le_enc 8 (b_timestamp b)"

definition block_getHash :: "crypto \<Rightarrow> block \<Rightarrow> hash" where
  "block_getHash C b = sha256 C (block_contents b)"

text \<open>The 32-bit difficulty is narrowed to the \<open>uint8_t\<close> parameter of \<open>verifyHash\<close>.\<close>

definition verifyNonce :: "crypto \<Rightarrow> 'd kv \<Rightarrow> block \<Rightarrow> ('d, bool) cpp" where
  "verifyNonce C L b =
     (let target = block_getHash C b in
      verifyHash C L target (b_nonce b) (ucast (b_difficulty b)) True True)"

fun txs_eq :: "transaction list \<Rightarrow> transaction list \<Rightarrow> bool" where
  "txs_eq (a # as) (b # bs) = (if tx_eq a b then txs_eq as bs else False)"
| "txs_eq _ _ = True"

definition block_eq :: "block \<Rightarrow> block \<Rightarrow> bool" where
  "block_eq a b =
     (if b_id b \<noteq> b_id a then False
      else if b_nonce b \<noteq> b_nonce a then False
      else if b_timestamp b \<noteq> b_timestamp a then False
      else if b_lastBlockHash b \<noteq> b_lastBlockHash a then False
      else if b_difficulty b \<noteq> b_difficulty a then False
      else if b_merkleRoot b \<noteq> b_merkleRoot a then False
      else if length (b_transactions a) \<noteq> length (b_transactions b) then False
      else txs_eq (b_transactions a) (b_transactions b))"

section \<open>Lemmas\<close>

lemma txs_eq_iff: "length as = length bs \<Longrightarrow> txs_eq as bs \<longleftrightarrow> list_all2 tx_eq as bs"
  by (induction as bs rule: txs_eq.induct) auto

lemma block_eq_iff:
  "block_eq a b \<longleftrightarrow> b_id a = b_id b \<and> b_nonce a = b_nonce b \<and> b_timestamp a = b_timestamp b \<and>
     b_lastBlockHash a = b_lastBlockHash b \<and> b_difficulty a = b_difficulty b \<and>
     b_merkleRoot a = b_merkleRoot b \<and> list_all2 tx_eq (b_transactions a) (b_transactions b)"
  by (auto simp: block_eq_def txs_eq_iff dest: list_all2_lengthD)

lemma list_all2_copy_list: "list_all2 tx_eq (copy_list mem ts) ts"
  by (induction ts arbitrary: mem) auto

lemma block_copy_eq: "block_eq (block_copy mem b) b"
  by (simp add: block_eq_iff block_copy_def list_all2_copy_list)

lemma block_contents_inj:
  assumes "length (b_merkleRoot a) = 32" "length (b_merkleRoot b) = 32"
    and "length (b_lastBlockHash a) = 32" "length (b_lastBlockHash b) = 32"
    and "block_contents a = block_contents b"
  shows "b_merkleRoot a = b_merkleRoot b \<and> b_lastBlockHash a = b_lastBlockHash b \<and>
    b_difficulty a = b_difficulty b \<and> b_timestamp a = b_timestamp b"
proof -
  have "le_enc 4 x = le_enc 4 y \<longleftrightarrow> x = y" for x y :: u32 by (rule le_enc_inj) simp
  moreover have "le_enc 8 x = le_enc 8 y \<longleftrightarrow> x = y" for x y :: u64 by (rule le_enc_inj) simp
  ultimately show ?thesis using assms by (simp add: block_contents_def)
qed

text \<open>A difficulty that is a multiple of 256 asks for no leading zero bit at all.\<close>

lemma verifyNonce_multiple_of_256:
  assumes "unat (b_difficulty b) mod 256 = 0"
    and "verifyNonce C L b d = (Inr r, d')"
  shows "r"
proof -
  have "unat (ucast (b_difficulty b) :: u8) = unat (b_difficulty b) mod 256"
    by (simp add: unsigned_ucast_eq take_bit_eq_mod)
  then have "checkLeadingZeroBits h (ucast (b_difficulty b))" for h
    using assms(1) by (simp add: checkLeadingZeroBits_iff)
  then show ?thesis
    using assms(2) by (auto simp: verifyNonce_def verifyHash_def Let_def bindE_eq_Inr)
qed

text \<open>A block on the wire: the header followed by its transactions.\<close>

definition block_to_buffer :: "block \<Rightarrow> bytes" where
  "block_to_buffer b =
     blockHeaderToBuffer (block_serialize b) @
     concat (map (\<lambda>t. transactionInfoToBuffer (tx_serialize t)) (b_transactions b))"

section \<open>A concrete block\<close>

definition sample_block :: "u32 \<Rightarrow> transaction list \<Rightarrow> block" where
  "sample_block i ts = (block_default 0)\<lparr>b_id := i, b_transactions := ts\<rparr>"

section \<open>Properties\<close>

definition read_block :: "crypto \<Rightarrow> (bytes, block_header \<times> transaction_info list) cpp" where
  "read_block C =
     bindE blockHeaderFromBuffer (\<lambda>h.
     bindE (timesE (unat (h_numTransactions h)) (transactionInfoFromBuffer C)) (\<lambda>ts.
     ok (h, ts)))"

text \<open>
  A block as it is sent (the header, then the transactions) is read back as sent: the
  header reader and as many transaction readers as the header announces consume the buffer
  exactly and return the serialised records.
\<close>

lemma block_wire_roundtrip:
  assumes "block_header_wf (block_serialize b)"
    and "\<forall>t \<in> set (b_transactions b). transaction_info_wf C (tx_serialize t)"
    and "length (b_transactions b) < 2 ^ 32"
  shows "read_block C (block_to_buffer b @ rest) =
    (Inr (block_serialize b, map tx_serialize (b_transactions b)), rest)"
proof -
  let ?is = "map tx_serialize (b_transactions b)"
  have n: "unat (h_numTransactions (block_serialize b)) = length ?is"
    using assms(3) by (simp add: block_serialize_def unsigned_of_nat take_bit_nat_eq_self)
  have "\<forall>a \<in> set ?is. transaction_info_wf C a" using assms(2) by simp
  then have "timesE (length ?is) (transactionInfoFromBuffer C)
      (concat (map transactionInfoToBuffer ?is) @ rest) = (Inr ?is, rest)"
    by (rule tx_codec.read_batch)
  then show ?thesis
    by (simp add: read_block_def block_to_buffer_def bindE_Inr
        header_codec.rd_wr [OF assms(1)] n comp_def del: length_map)
qed

lemma block_wire_roundtrip_witness:
  "read_block sample_crypto (block_to_buffer (sample_block 2 [sample_transfer 1 2 30 5, sample_fee 3 50]) @ []) =
    (Inr (block_serialize (sample_block 2 [sample_transfer 1 2 30 5, sample_fee 3 50]),
       map tx_serialize [sample_transfer 1 2 30 5, sample_fee 3 50]), [])"
proof -
  let ?b = "sample_block 2 [sample_transfer 1 2 30 5, sample_fee 3 50]"
  have "block_header_wf (block_serialize ?b)"
    by (simp add: block_header_wf_def block_serialize_def sample_block_def block_default_def NULL_SHA256_HASH_def)
  moreover have "\<forall>t \<in> set (b_transactions ?b). transaction_info_wf sample_crypto (tx_serialize t)"
    by (simp add: sample_block_def transaction_info_wf_def tx_serialize_def sample_transfer_def
        sample_fee_def sample_wallet_def sample_key_def)
  moreover have "length (b_transactions ?b) < 2 ^ 32" by (simp add: sample_block_def)
  ultimately have "read_block sample_crypto (block_to_buffer ?b @ []) =
      (Inr (block_serialize ?b, map tx_serialize (b_transactions ?b)), [])"
    by (rule block_wire_roundtrip)
  then show ?thesis by (simp add: sample_block_def)
qed

text \<open>
  \<open>Block::verifyNonce\<close> narrows the difficulty to 8 bits: with a difficulty that is a
  multiple of 256 it accepts every nonce whenever it answers at all.
\<close>

lemma verifyNonce_narrows:
  assumes "unat (b_difficulty b) mod 256 = 0" and "verifyNonce C L b d = (Inr r, d')"
  shows "r"
  by (rule verifyNonce_multiple_of_256 [OF assms])

lemma verifyNonce_narrows_witness:
  "fst (verifyNonce sample_crypto mem_kv ((sample_block 2 [])\<lparr>b_difficulty := 256\<rparr>) []) = Inr True"
proof -
  let ?r = "verifyNonce sample_crypto mem_kv ((sample_block 2 [])\<lparr>b_difficulty := 256\<rparr>) []"
  have "(case fst ?r of Inr b \<Rightarrow> True | Inl e \<Rightarrow> False)" by code_simp
  then obtain r where r: "?r = (Inr r, snd ?r)" by (cases ?r) (auto split: sum.splits)
  have "unat (b_difficulty ((sample_block 2 [])\<lparr>b_difficulty := 256\<rparr>)) mod 256 = 0" by simp
  from verifyNonce_narrows [OF this r] r show ?thesis by (metis fst_conv)
qed

end
