(* ===== verification/Executor.thy ===== *)
theory Executor
  imports Ledger TxStore Block
begin

text \<open>
  \<open>server/executor.cpp\<close>: executing the transactions of a block on the ledger, recording
  the change of every wallet in \<open>deltas\<close>, and undoing it.

  The state of a statement is \<open>exec\<close>: the ledger's database, the deltas and the
  process-wide list \<open>invalidTransactions\<close> (loaded from \<open>invalid.json\<close>; writing it back
  to disk is not modelled). A delta is a \<open>uint64_t\<close>, so a withdrawal is recorded as the
  two's complement of its amount.
\<close>

datatype execution_status =
    SENDER_DOES_NOT_EXIST | BALANCE_TOO_LOW | INVALID_SIGNATURE | INVALID_NONCE
  | EXTRA_MINING_FEE | INCORRECT_MINING_FEE | INVALID_BLOCK_ID | NO_MINING_FEE
  | INVALID_DIFFICULTY | INVALID_TRANSACTION_NONCE | INVALID_TRANSACTION_TIMESTAMP
  | BLOCK_TIMESTAMP_TOO_OLD | BLOCK_TIMESTAMP_IN_FUTURE | UNKNOWN_ERROR | QUEUE_FULL
  | HEADER_HASH_INVALID | EXPIRED_TRANSACTION | ALREADY_IN_QUEUE | BLOCK_ID_TOO_LARGE
  | INVALID_MERKLE_ROOT | INVALID_LASTBLOCK_HASH | INVALID_TRANSACTION_COUNT
  | TRANSACTION_FEE_TOO_LOW | WALLET_SIGNATURE_MISMATCH | IS_SYNCING | SUCCESS
  | INSUFFICIENT_FUNDS

fun executionStatusAsString :: "execution_status \<Rightarrow> string" where
  "executionStatusAsString SENDER_DOES_NOT_EXIST = ''SENDER_DOES_NOT_EXIST''"
| "executionStatusAsString BALANCE_TOO_LOW = ''BALANCE_TOO_LOW''"
| "executionStatusAsString INVALID_SIGNATURE = ''INVALID_SIGNATURE''"
| "executionStatusAsString INVALID_NONCE = ''INVALID_NONCE''"
| "executionStatusAsString EXTRA_MINING_FEE = ''EXTRA_MINING_FEE''"
| "executionStatusAsString INCORRECT_MINING_FEE = ''INCORRECT_MINING_FEE''"
| "executionStatusAsString INVALID_BLOCK_ID = ''INVALID_BLOCK_ID''"
| "executionStatusAsString NO_MINING_FEE = ''NO_MINING_FEE''"
| "executionStatusAsString INVALID_DIFFICULTY = ''INVALID_DIFFICULTY''"
| "executionStatusAsString INVALID_TRANSACTION_NONCE = ''INVALID_TRANSACTION_NONCE''"
| "executionStatusAsString INVALID_TRANSACTION_TIMESTAMP = ''INVALID_TRANSACTION_TIMESTAMP''"
| "executionStatusAsString BLOCK_TIMESTAMP_TOO_OLD = ''BLOCK_TIMESTAMP_TOO_OLD''"
| "executionStatusAsString BLOCK_TIMESTAMP_IN_FUTURE = ''BLOCK_TIMESTAMP_IN_FUTURE''"
| "executionStatusAsString UNKNOWN_ERROR = ''UNKNOWN_ERROR''"
| "executionStatusAsString QUEUE_FULL = ''QUEUE_FULL''"
| "executionStatusAsString HEADER_HASH_INVALID = ''HEADER_HASH_INVALID''"
| "executionStatusAsString EXPIRED_TRANSACTION = ''EXPIRED_TRANSACTION''"
| "executionStatusAsString ALREADY_IN_QUEUE = ''ALREADY_IN_QUEUE''"
| "executionStatusAsString BLOCK_ID_TOO_LARGE = ''BLOCK_ID_TOO_LARGE''"
| "executionStatusAsString INVALID_MERKLE_ROOT = ''INVALID_MERKLE_ROOT''"
| "executionStatusAsString INVALID_LASTBLOCK_HASH = ''INVALID_LASTBLOCK_HASH''"
| "executionStatusAsString INVALID_TRANSACTION_COUNT = ''INVALID_TRANSACTION_COUNT''"
| "executionStatusAsString TRANSACTION_FEE_TOO_LOW = ''TRANSACTION_FEE_TOO_LOW''"
| "executionStatusAsString WALLET_SIGNATURE_MISMATCH = ''WALLET_SIGNATURE_MISMATCH''"
| "executionStatusAsString IS_SYNCING = ''IS_SYNCING''"
| "executionStatusAsString SUCCESS = ''SUCCESS''"
| "executionStatusAsString INSUFFICIENT_FUNDS = ''INSUFFICIENT_FUNDS''"

record 'd exec =
  x_db :: 'd
  x_deltas :: "(wallet \<times> amount) list"
  x_invalid :: "(u64 \<times> string) list"

definition on_ledger :: "('d, 'a) cpp \<Rightarrow> ('d exec, 'a) cpp" where
  "on_ledger m = zoom x_db (\<lambda>d x. x\<lparr>x_db := d\<rparr>) m"

section \<open>The list of known invalid transactions\<close>

definition isInvalidTransaction :: "u64 \<Rightarrow> wallet \<Rightarrow> 'd exec \<Rightarrow> bool" where
  "isInvalidTransaction blockId wallet x =
     list_ex (\<lambda>item. snd item = walletAddressToString wallet \<and> fst item = blockId) (x_invalid x)"

definition addInvalidTransaction :: "u64 \<Rightarrow> wallet \<Rightarrow> ('d exec, unit) cpp" where
  "addInvalidTransaction blockId wallet =
     (let newInvalidEntry = (blockId, walletAddressToString wallet) in
      modS (\<lambda>x. if newInvalidEntry \<in> set (x_invalid x) then x
                else x\<lparr>x_invalid := x_invalid x @ [newInvalidEntry]\<rparr>))"

section \<open>Executing one transaction\<close>

text \<open>The tail of \<open>deposit\<close> and of \<open>withdraw\<close>: find the wallet's delta, insert or update it.\<close>

definition add_delta :: "wallet \<Rightarrow> amount \<Rightarrow> 'd exec \<Rightarrow> 'd exec" where
  "add_delta to amt x =
     (case map_of (x_deltas x) to of
        None \<Rightarrow> x\<lparr>x_deltas := omap_put to amt (x_deltas x)\<rparr>
      | Some v \<Rightarrow> x\<lparr>x_deltas := omap_put to (v + amt) (x_deltas x)\<rparr>)"

definition sub_delta :: "wallet \<Rightarrow> amount \<Rightarrow> 'd exec \<Rightarrow> 'd exec" where
  "sub_delta from amt x =
     (case map_of (x_deltas x) from of
        None \<Rightarrow> x\<lparr>x_deltas := omap_put from (- amt) (x_deltas x)\<rparr>
      | Some v \<Rightarrow> x\<lparr>x_deltas := omap_put from (v - amt) (x_deltas x)\<rparr>)"

definition exec_deposit :: "'d kv \<Rightarrow> wallet \<Rightarrow> amount \<Rightarrow> ('d exec, unit) cpp" where
  "exec_deposit L to amt =
     bindE getS (\<lambda>x.
     bindE (if \<not> hasWallet L to (x_db x) then on_ledger (createWallet L to) else ok ()) (\<lambda>_.
     bindE (on_ledger (ledger_deposit L to amt)) (\<lambda>_.
     modS (add_delta to amt))))"

definition exec_withdraw :: "'d kv \<Rightarrow> wallet \<Rightarrow> amount \<Rightarrow> ('d exec, unit) cpp" where
  "exec_withdraw L from amt =
     bindE getS (\<lambda>x.
     bindE (if hasWallet L from (x_db x) then on_ledger (ledger_withdraw L from amt)
            else throw (Runtime ''Tried withdrawing from non-existant account'')) (\<lambda>_.
     modS (sub_delta from amt)))"

text \<open>
  The balance check that precedes a transfer. A wallet on the list of known invalid
  transactions, and every wallet when \<open>blockId\<close> is 0, is let through.
\<close>

definition low_balance :: "u32 \<Rightarrow> wallet \<Rightarrow> amount \<Rightarrow> amount \<Rightarrow> ('d exec, execution_status option) cpp" where
  "low_balance blockId from tot required =
     bindE getS (\<lambda>x.
       if tot < required \<and> \<not> isInvalidTransaction (ucast blockId) from x \<and> blockId \<noteq> 0
       then bindE (addInvalidTransaction (ucast blockId) from) (\<lambda>_. ok (Some BALANCE_TOO_LOW))
       else ok None)"

definition updateLedger ::
  "crypto \<Rightarrow> 'd kv \<Rightarrow> transaction \<Rightarrow> wallet \<Rightarrow> amount \<Rightarrow> u32 \<Rightarrow> ('d exec, execution_status) cpp" where
  "updateLedger C L t miner blockMiningFee blockId =
     (let amt = t_amount t; fees = t_fee t; to = t_to t; from = t_from t in
      if \<not> t_isTransactionFee t \<and> 1 < blockId \<and>
         walletAddressFromPublicKey C (t_signingKey t) \<noteq> t_from t
      then ok WALLET_SIGNATURE_MISMATCH
      else if t_isTransactionFee t then
        (if amt = blockMiningFee then bindE (exec_deposit L to amt) (\<lambda>_. ok SUCCESS)
         else ok INCORRECT_MINING_FEE)
      else if blockId = 1 then bindE (exec_deposit L to amt) (\<lambda>_. ok SUCCESS)
      else
        bindE getS (\<lambda>x.
        if \<not> hasWallet L from (x_db x) then ok SENDER_DOES_NOT_EXIST
        else
          bindE (on_ledger (getWalletValue L from)) (\<lambda>tot.
          bindE (low_balance blockId from tot amt) (\<lambda>r.
          case r of Some s \<Rightarrow> ok s | None \<Rightarrow>
          bindE (low_balance blockId from (tot - amt) fees) (\<lambda>r.
          case r of Some s \<Rightarrow> ok s | None \<Rightarrow>
          bindE (exec_withdraw L from amt) (\<lambda>_.
          bindE (exec_deposit L to amt) (\<lambda>_.
          bindE (if 0 < fees
                 then bindE (exec_withdraw L from fees) (\<lambda>_. exec_deposit L miner fees)
                 else ok ()) (\<lambda>_.
          ok SUCCESS))))))))"

text \<open>\<open>mem\<close> is the memory of the parameter, which is passed by value.\<close>

definition ExecuteTransaction ::
  "crypto \<Rightarrow> 'd kv \<Rightarrow> transaction \<Rightarrow> transaction \<Rightarrow> ('d exec, execution_status) cpp" where
  "ExecuteTransaction C L mem t =
     (let t = tx_copy mem t in
      if \<not> t_isTransactionFee t \<and> \<not> signatureValid C t then ok INVALID_SIGNATURE
      else if \<not> t_isTransactionFee t \<and>
              walletAddressFromPublicKey C (t_signingKey t) \<noteq> t_from t
      then ok WALLET_SIGNATURE_MISMATCH
      else updateLedger C L t NULL_ADDRESS 0 0)"

section \<open>Executing a block\<close>

text \<open>
  The first loop. \<open>found\<close> is the miner's wallet and fee once the fee transaction is seen,
  \<open>seen\<close> the set of hashes met so far.
\<close>

fun check_transactions ::
  "crypto \<Rightarrow> 'd kv \<Rightarrow> 'd \<Rightarrow> u32 \<Rightarrow> hash list \<Rightarrow> (wallet \<times> amount) option \<Rightarrow> transaction list \<Rightarrow>
   execution_status + (wallet \<times> amount) option" where
  "check_transactions C L txdb blockId seen found [] = Inr found"
| "check_transactions C L txdb blockId seen found (t # ts) =
     (if t_isTransactionFee t then
        (if found \<noteq> None then Inl EXTRA_MINING_FEE
         else check_transactions C L txdb blockId seen (Some (t_to t, t_amount t)) ts)
      else if tx_getHash C t \<in> set seen \<or> (tx_hasTransaction C L t txdb \<and> blockId \<noteq> 1)
      then Inl EXPIRED_TRANSACTION
      else if 1 < blockId \<and> walletAddressFromPublicKey C (t_signingKey t) \<noteq> t_from t
      then Inl WALLET_SIGNATURE_MISMATCH
      else check_transactions C L txdb blockId (tx_getHash C t # seen) found ts)"

fun run_transactions ::
  "crypto \<Rightarrow> 'd kv \<Rightarrow> wallet \<Rightarrow> amount \<Rightarrow> u32 \<Rightarrow> transaction list \<Rightarrow> ('d exec, execution_status) cpp" where
  "run_transactions C L miner blockMiningFee blockId [] = ok SUCCESS"
| "run_transactions C L miner blockMiningFee blockId (t # ts) =
     (if \<not> t_isTransactionFee t \<and> \<not> signatureValid C t \<and> blockId \<noteq> 1
      then ok INVALID_SIGNATURE
      else bindE (updateLedger C L t miner blockMiningFee blockId) (\<lambda>updateStatus.
        if updateStatus \<noteq> SUCCESS then ok updateStatus
        else run_transactions C L miner blockMiningFee blockId ts))"

text \<open>\<open>mem\<close> and \<open>mem'\<close> are the memory of the two loops' copies of the transactions.\<close>

definition ExecuteBlock ::
  "crypto \<Rightarrow> 'd kv \<Rightarrow> (nat \<Rightarrow> transaction) \<Rightarrow> (nat \<Rightarrow> transaction) \<Rightarrow> block \<Rightarrow> 'd \<Rightarrow> amount \<Rightarrow>
   ('d exec, execution_status) cpp" where
  "ExecuteBlock C L mem mem' blk txdb blockMiningFee =
     (case check_transactions C L txdb (b_id blk) [] None (copy_list mem (b_transactions blk)) of
        Inl s \<Rightarrow> ok s
      | Inr None \<Rightarrow> ok NO_MINING_FEE
      | Inr (Some (miner, miningFee)) \<Rightarrow>
          if miningFee \<noteq> blockMiningFee then ok INCORRECT_MINING_FEE
          else run_transactions C L miner blockMiningFee (b_id blk)
                 (copy_list mem' (b_transactions blk)))"

section \<open>Undoing\<close>

text \<open>\<open>Executor::Rollback\<close> withdraws every delta, in the order of the wallets.\<close>

definition Rollback :: "'d kv \<Rightarrow> (wallet \<times> amount) list \<Rightarrow> ('d, unit) cpp" where
  "Rollback L deltas = forE deltas (\<lambda>it. ledger_withdraw L (fst it) (snd it))"

definition rollbackLedger :: "'d kv \<Rightarrow> transaction \<Rightarrow> wallet \<Rightarrow> ('d, unit) cpp" where
  "rollbackLedger L t miner =
     (let amt = t_amount t; fees = t_fee t; to = t_to t; from = t_from t in
      if t_isTransactionFee t then revertDeposit L to amt
      else
        bindE (if 0 < fees
               then bindE (revertDeposit L miner fees) (\<lambda>_. revertSend L from fees)
               else ok ()) (\<lambda>_.
        bindE (revertDeposit L to amt) (\<lambda>_. revertSend L from amt)))"

text \<open>
  \<open>RollbackBlock\<close> on the ledger and the transaction database. \<open>junk\<close> is the uninitialised
  \<open>miner\<close> of a block without a fee transaction; the second loop copies the transactions
  from the last to the first.
\<close>

definition find_miner :: "wallet \<Rightarrow> transaction list \<Rightarrow> wallet" where
  "find_miner junk ts =
     (case find t_isTransactionFee ts of None \<Rightarrow> junk | Some t \<Rightarrow> t_to t)"

definition RollbackBlock ::
  "crypto \<Rightarrow> 'd kv \<Rightarrow> wallet \<Rightarrow> (nat \<Rightarrow> transaction) \<Rightarrow> block \<Rightarrow> ('d \<times> 'd, unit) cpp" where
  "RollbackBlock C L junk mem blk =
     (let miner = find_miner junk (b_transactions blk) in
      forE (rev (copy_list mem (b_transactions blk))) (\<lambda>t.
        bindE (zoom fst (\<lambda>d s. (d, snd s)) (rollbackLedger L t miner)) (\<lambda>_.
        if \<not> t_isTransactionFee t
        then zoom snd (\<lambda>d s. (fst s, d)) (removeTransaction C L t) else ok ())))"

section \<open>A concrete ledger\<close>

text \<open>One wallet, that of key 1, with a balance of 100, and no delta recorded.\<close>

definition sample_exec :: "(bytes \<times> bytes) list exec" where
  "sample_exec =
     \<lparr>x_db = [(sample_wallet 1, le_enc 8 (100 :: u64))], x_deltas = [], x_invalid = []\<rparr>"

end
