(* ===== verification/Accounting.thy ===== *)
theory Accounting
  imports Executor
begin

text \<open>
  What the executor does to the money: a specification of payments on maps from wallets to
  amounts, the proof that the executor's deposits, withdrawals and transfers refine it, the
  total of all balances, and the bookkeeping of the deltas.
\<close>

section \<open>The specification of payments\<close>

definition credit :: "(wallet \<Rightarrow> amount option) \<Rightarrow> wallet \<Rightarrow> amount \<Rightarrow> (wallet \<Rightarrow> amount option) option" where
  "credit m w a =
     (let v = (case m w of None \<Rightarrow> 0 | Some v \<Rightarrow> v) in
      if v \<le> v + a then Some (m(w \<mapsto> v + a)) else None)"

definition debit :: "(wallet \<Rightarrow> amount option) \<Rightarrow> wallet \<Rightarrow> amount \<Rightarrow> (wallet \<Rightarrow> amount option) option" where
  "debit m w a =
     (case m w of None \<Rightarrow> None | Some v \<Rightarrow> if a \<le> v then Some (m(w \<mapsto> v - a)) else None)"

text \<open>A payment: the amount to the receiver, then the fee, if any, to the miner.\<close>

definition pay ::
  "(wallet \<Rightarrow> amount option) \<Rightarrow> wallet \<Rightarrow> wallet \<Rightarrow> wallet \<Rightarrow> amount \<Rightarrow> amount \<Rightarrow>
   (wallet \<Rightarrow> amount option) option" where
  "pay m from to miner amt fee =
     Option.bind (debit m from amt) (\<lambda>m1.
     Option.bind (credit m1 to amt) (\<lambda>m2.
     if 0 < fee then Option.bind (debit m2 from fee) (\<lambda>m3. credit m3 miner fee) else Some m2))"

lemma uint_add_no_overflow: "v \<le> v + a \<Longrightarrow> uint (v + a :: u64) = uint v + uint a"
  by (simp add: uint_plus_simple_iff)

lemma uint_sub_no_underflow: "a \<le> v \<Longrightarrow> uint (v - a :: u64) = uint v - uint a"
  by (simp add: uint_minus_simple_alt)

lemma credit_facts:
  assumes "credit m w a = Some m'" and "finite (dom m)"
  shows "finite (dom m')" and "total_supply m' = total_supply m + uint a"
    and "dom m' = insert w (dom m)" and "u \<noteq> w \<Longrightarrow> m' u = m u"
    and "held m' w = held m w + uint a"
  using assms
  by (auto simp: credit_def Let_def total_supply_upd held_def uint_add_no_overflow
      split: if_splits option.splits)

lemma debit_facts:
  assumes "debit m w a = Some m'" and "finite (dom m)"
  shows "finite (dom m')" and "total_supply m' = total_supply m - uint a"
    and "dom m' = dom m" and "u \<noteq> w \<Longrightarrow> m' u = m u"
    and "held m' w = held m w - uint a" and "uint a \<le> held m w"
  using assms
  by (auto simp: debit_def total_supply_upd held_def uint_sub_no_underflow word_le_def
      split: if_splits option.splits)

lemma credit_dom: "credit m w a = Some m' \<Longrightarrow> dom m' = insert w (dom m)"
  by (auto simp: credit_def Let_def split: if_splits option.splits)

lemma debit_dom: "debit m w a = Some m' \<Longrightarrow> dom m' = dom m \<and> w \<in> dom m"
  by (auto simp: debit_def split: if_splits option.splits)

lemma credit_total:
  assumes "finite (dom m)" and "total_supply m + uint a < 2 ^ 64"
  shows "\<exists>m'. credit m w a = Some m'"
proof -
  define v where "v = (case m w of None \<Rightarrow> 0 | Some v \<Rightarrow> v)"
  have "uint v = held m w" by (simp add: v_def held_def split: option.split)
  with held_le_total [OF assms(1), of w] assms(2) have "uint v + uint a < 2 ^ 64" by simp
  then have "v \<le> v + a" by (simp add: word_le_def uint_word_ariths)
  then show ?thesis by (simp add: credit_def v_def [symmetric])
qed

lemma debit_Some: "held m w = uint v \<Longrightarrow> m w = Some v \<Longrightarrow> a \<le> v \<Longrightarrow> debit m w a = Some (m(w \<mapsto> v - a))"
  by (simp add: debit_def)

lemma pay_facts:
  assumes "pay m from to miner amt fee = Some m'" and "finite (dom m)"
  shows "finite (dom m')" and "total_supply m' = total_supply m"
    and "\<And>u. u \<notin> {from, to, miner} \<Longrightarrow> m' u = m u"
proof -
  from assms(1) obtain m1 m2 where 1: "debit m from amt = Some m1" and 2: "credit m1 to amt = Some m2"
    and 3: "if 0 < fee then \<exists>m3. debit m2 from fee = Some m3 \<and> credit m3 miner fee = Some m' else m' = m2"
    by (auto simp: pay_def split: bind_splits if_splits)
  note f1 = debit_facts [OF 1 assms(2)]
  note f2 = credit_facts [OF 2 f1(1)]
  have "finite (dom m') \<and> total_supply m' = total_supply m \<and> (\<forall>u. u \<notin> {from, to, miner} \<longrightarrow> m' u = m u)"
  proof (cases "0 < fee")
    case False
    with 3 f1 f2 show ?thesis by auto
  next
    case True
    with 3 obtain m3 where 4: "debit m2 from fee = Some m3" and 5: "credit m3 miner fee = Some m'"
      by auto
    note f3 = debit_facts [OF 4 f2(1)]
    note f4 = credit_facts [OF 5 f3(1)]
    from f1 f2 f3 f4 show ?thesis by auto
  qed
  then show "finite (dom m')" "total_supply m' = total_supply m"
    "\<And>u. u \<notin> {from, to, miner} \<Longrightarrow> m' u = m u" by auto
qed

text \<open>What each party holds after a payment between three different wallets.\<close>

lemma pay_distinct:
  assumes "pay m from to miner amt fee = Some m'" and "finite (dom m)"
    and "from \<noteq> to" "from \<noteq> miner" "to \<noteq> miner"
  shows "held m' from = held m from - uint amt - uint fee"
    and "held m' to = held m to + uint amt"
    and "held m' miner = held m miner + uint fee"
    and "uint amt + uint fee \<le> held m from"
proof -
  from assms(1) obtain m1 m2 where 1: "debit m from amt = Some m1" and 2: "credit m1 to amt = Some m2"
    and 3: "if 0 < fee then \<exists>m3. debit m2 from fee = Some m3 \<and> credit m3 miner fee = Some m' else m' = m2"
    by (auto simp: pay_def split: bind_splits if_splits)
  note f1 = debit_facts [OF 1 assms(2)]
  note f2 = credit_facts [OF 2 f1(1)]
  have "held m' from = held m from - uint amt - uint fee \<and> held m' to = held m to + uint amt \<and>
    held m' miner = held m miner + uint fee \<and> uint amt + uint fee \<le> held m from"
  proof (cases "0 < fee")
    case False
    then have "fee = 0" by (simp add: word_gt_0)
    moreover have "m' = m2" using False 3 by simp
    moreover have "held m2 from = held m1 from" "held m1 to = held m to"
      "held m2 miner = held m1 miner" "held m1 miner = held m miner"
      using f1(4) f2(4) assms(3-5) by (simp_all add: held_def)
    ultimately show ?thesis using f1(5,6) f2(5) by simp
  next
    case True
    with 3 obtain m3 where 4: "debit m2 from fee = Some m3" and 5: "credit m3 miner fee = Some m'"
      by auto
    note f3 = debit_facts [OF 4 f2(1)]
    note f4 = credit_facts [OF 5 f3(1)]
    have "held m2 from = held m1 from" "held m1 to = held m to" "held m' from = held m3 from"
      "held m' to = held m3 to" "held m3 to = held m2 to" "held m3 miner = held m2 miner"
      "held m2 miner = held m1 miner" "held m1 miner = held m miner"
      using f1(4) f2(4) f3(4) f4(4) assms(3-5) by (simp_all add: held_def)
    with f1 f2 f3 f4 show ?thesis by simp
  qed
  then show "held m' from = held m from - uint amt - uint fee" "held m' to = held m to + uint amt"
    "held m' miner = held m miner + uint fee" "uint amt + uint fee \<le> held m from" by auto
qed

section \<open>The executor refines the payments\<close>

definition xbal :: "'d kv \<Rightarrow> 'd exec \<Rightarrow> wallet \<Rightarrow> amount option" where
  "xbal L x = bal L (x_db x)"

definition exec_ok :: "'d kv \<Rightarrow> 'd exec \<Rightarrow> bool" where
  "exec_ok L x \<longleftrightarrow> ledger_ok L (x_db x) \<and> omap_wf (x_deltas x) \<and>
     fst ` set (x_deltas x) \<subseteq> dom (xbal L x)"

definition delta :: "'d exec \<Rightarrow> wallet \<Rightarrow> amount" where
  "delta x w = (case map_of (x_deltas x) w of None \<Rightarrow> 0 | Some v \<Rightarrow> v)"

definition wbal :: "(wallet \<Rightarrow> amount option) \<Rightarrow> wallet \<Rightarrow> amount" where
  "wbal m w = (case m w of None \<Rightarrow> 0 | Some v \<Rightarrow> v)"

text \<open>The deltas account exactly for the change since the balances were \<open>m0\<close>.\<close>

definition tracks :: "'d kv \<Rightarrow> (wallet \<Rightarrow> amount option) \<Rightarrow> 'd exec \<Rightarrow> bool" where
  "tracks L m0 x \<longleftrightarrow> exec_ok L x \<and> (\<forall>w. wbal (xbal L x) w = wbal m0 w + delta x w)"

lemma finite_xbal: "exec_ok L x \<Longrightarrow> finite (dom (xbal L x))"
  by (simp add: exec_ok_def xbal_def finite_bal)

lemma on_ledger_eq: "on_ledger m x = (r, x') \<longleftrightarrow> (\<exists>d. m (x_db x) = (r, d) \<and> x' = x\<lparr>x_db := d\<rparr>)"
  by (auto simp: on_ledger_def zoom_eq)

lemma delta_put:
  "omap_wf (x_deltas x) \<Longrightarrow> x_deltas y = omap_put w a (x_deltas x) \<Longrightarrow> delta y = (delta x)(w := a)"
  by (auto simp: delta_def fun_eq_iff map_of_omap_put)

lemma add_delta_facts [simp]:
  "x_db (add_delta w a x) = x_db x" "x_invalid (add_delta w a x) = x_invalid x"
  "omap_wf (x_deltas x) \<Longrightarrow> omap_wf (x_deltas (add_delta w a x))"
  "fst ` set (x_deltas (add_delta w a x)) = insert w (fst ` set (x_deltas x))"
  "omap_wf (x_deltas x) \<Longrightarrow> delta (add_delta w a x) = (delta x)(w := delta x w + a)"
  by (auto simp: add_delta_def delta_def fun_eq_iff map_of_omap_put fst_omap_put split: option.splits)

lemma sub_delta_facts [simp]:
  "x_db (sub_delta w a x) = x_db x" "x_invalid (sub_delta w a x) = x_invalid x"
  "omap_wf (x_deltas x) \<Longrightarrow> omap_wf (x_deltas (sub_delta w a x))"
  "fst ` set (x_deltas (sub_delta w a x)) = insert w (fst ` set (x_deltas x))"
  "omap_wf (x_deltas x) \<Longrightarrow> delta (sub_delta w a x) = (delta x)(w := delta x w - a)"
  by (auto simp: sub_delta_def delta_def fun_eq_iff map_of_omap_put fst_omap_put split: option.splits)

lemma delta_db [simp]: "delta (x\<lparr>x_db := d\<rparr>) = delta x"
  by (simp add: delta_def fun_eq_iff)

lemma on_ledger_bind:
  "bindE (on_ledger m) f x =
     (case m (x_db x) of (Inl e, d) \<Rightarrow> (Inl e, x\<lparr>x_db := d\<rparr>) | (Inr a, d) \<Rightarrow> f a (x\<lparr>x_db := d\<rparr>))"
  by (auto simp: on_ledger_def zoom_def bindE_def split: prod.splits sum.splits)

lemma exec_deposit_Inr_iff:
  "exec_deposit L w a x = (Inr u, x') \<longleftrightarrow>
     (\<exists>d1 d2. (if hasWallet L w (x_db x) then d1 = x_db x
               else createWallet L w (x_db x) = (Inr (), d1)) \<and>
       ledger_deposit L w a d1 = (Inr (), d2) \<and> x' = add_delta w a (x\<lparr>x_db := d2\<rparr>))"
  by (cases "hasWallet L w (x_db x)")
    (auto simp: exec_deposit_def bindE_getS on_ledger_bind split: prod.splits sum.splits)

lemma exec_deposit_Inl_iff:
  "exec_deposit L w a x = (Inl e, x') \<longleftrightarrow>
     (\<exists>d. x' = x\<lparr>x_db := d\<rparr> \<and>
       (if hasWallet L w (x_db x) then ledger_deposit L w a (x_db x) = (Inl e, d)
        else createWallet L w (x_db x) = (Inl e, d) \<or>
          (\<exists>d1. createWallet L w (x_db x) = (Inr (), d1) \<and> ledger_deposit L w a d1 = (Inl e, d))))"
  by (cases "hasWallet L w (x_db x)")
    (auto simp: exec_deposit_def bindE_getS on_ledger_bind split: prod.splits sum.splits)

lemma exec_deposit_returns:
  assumes ok: "exec_ok L x" and r: "exec_deposit L w a x = (Inr u, x')"
  shows "exec_ok L x' \<and> credit (xbal L x) w a = Some (xbal L x') \<and>
    delta x' = (delta x)(w := delta x w + a) \<and> x_invalid x' = x_invalid x"
proof -
  let ?d = "x_db x"
  have l: "ledger_ok L ?d" and wf: "omap_wf (x_deltas x)"
    and ds: "fst ` set (x_deltas x) \<subseteq> dom (xbal L x)" using ok by (auto simp: exec_ok_def)
  from r obtain d1 d2 where
    1: "if hasWallet L w ?d then d1 = ?d else createWallet L w ?d = (Inr (), d1)"
    and 2: "ledger_deposit L w a d1 = (Inr (), d2)" and x': "x' = add_delta w a (x\<lparr>x_db := d2\<rparr>)"
    unfolding exec_deposit_Inr_iff by blast
  have c: "ledger_ok L d1 \<and> bal L d1 w = Some (wbal (xbal L x) w) \<and>
      (\<forall>u. u \<noteq> w \<longrightarrow> bal L d1 u = bal L ?d u)"
  proof (cases "hasWallet L w ?d")
    case True
    with 1 have "d1 = ?d" by simp
    with l True show ?thesis by (auto simp: hasWallet_bal wbal_def xbal_def)
  next
    case False
    with 1 have "createWallet L w ?d = (Inr (), d1)" by simp
    from createWallet_ok [OF l this] show ?thesis by (simp add: wbal_def xbal_def)
  qed
  from deposit.op_returns [OF c [THEN conjunct1] 2] c obtain v' where
    "ledger_ok L d2" "add_checked (wbal (xbal L x) w) a = Some v'" "bal L d2 = (bal L d1)(w \<mapsto> v')"
    by auto
  with c have "ledger_ok L d2 \<and> credit (xbal L x) w a = Some (bal L d2)"
    by (auto simp: credit_def wbal_def add_checked_def xbal_def fun_eq_iff Let_def split: if_splits)
  then show ?thesis using wf ds by (auto simp: x' exec_ok_def xbal_def dest!: credit_dom)
qed

lemma exec_deposit_throws:
  assumes ok: "exec_ok L x" and r: "exec_deposit L w a x = (Inl e, x')"
  shows "exec_ok L x' \<and> wbal (xbal L x') = wbal (xbal L x) \<and> delta x' = delta x \<and>
    dom (xbal L x) \<subseteq> dom (xbal L x') \<and>
    x_invalid x' = x_invalid x \<and> (\<exists>msg. e = Runtime msg)"
proof -
  let ?d = "x_db x"
  have l: "ledger_ok L ?d" and wf: "omap_wf (x_deltas x)"
    and ds: "fst ` set (x_deltas x) \<subseteq> dom (xbal L x)" using ok by (auto simp: exec_ok_def)
  from r obtain d where x': "x' = x\<lparr>x_db := d\<rparr>" and
    c: "createWallet L w ?d = (Inl e, d) \<or> ledger_deposit L w a ?d = (Inl e, d) \<or>
      (\<exists>d1. createWallet L w ?d = (Inr (), d1) \<and> ledger_deposit L w a d1 = (Inl e, d))"
    unfolding exec_deposit_Inl_iff by (auto split: if_splits)
  have "ledger_ok L d \<and> wbal (bal L d) = wbal (bal L ?d) \<and> dom (bal L ?d) \<subseteq> dom (bal L d) \<and>
      (\<exists>msg. e = Runtime msg)"
    using c
  proof (elim disjE exE conjE)
    assume "createWallet L w ?d = (Inl e, d)"
    then show ?thesis using createWallet_exn [of L w ?d] l by auto
  next
    assume "ledger_deposit L w a ?d = (Inl e, d)"
    then show ?thesis using deposit.op_throws [OF l, of w a e d] l by auto
  next
    fix d1
    assume c1: "createWallet L w ?d = (Inr (), d1)" and c2: "ledger_deposit L w a d1 = (Inl e, d)"
    note n = createWallet_ok [OF l c1]
    with deposit.op_throws [OF n [THEN conjunct1] c2] show ?thesis
      by (auto simp: wbal_def fun_eq_iff)
  qed
  moreover from this ds have "fst ` set (x_deltas x) \<subseteq> dom (bal L d)"
    unfolding xbal_def by (blast intro: order_trans)
  ultimately show ?thesis using wf by (simp add: x' exec_ok_def xbal_def)
qed

lemma exec_withdraw_Inr_iff:
  "exec_withdraw L w a x = (Inr u, x') \<longleftrightarrow>
     (\<exists>d. hasWallet L w (x_db x) \<and> ledger_withdraw L w a (x_db x) = (Inr (), d) \<and>
       x' = sub_delta w a (x\<lparr>x_db := d\<rparr>))"
  by (cases "hasWallet L w (x_db x)")
    (auto simp: exec_withdraw_def bindE_getS on_ledger_bind split: prod.splits sum.splits)

lemma exec_withdraw_returns:
  assumes ok: "exec_ok L x" and r: "exec_withdraw L w a x = (Inr u, x')"
  shows "exec_ok L x' \<and> debit (xbal L x) w a = Some (xbal L x') \<and>
    delta x' = (delta x)(w := delta x w - a) \<and> x_invalid x' = x_invalid x"
proof -
  have l: "ledger_ok L (x_db x)" and wf: "omap_wf (x_deltas x)"
    and ds: "fst ` set (x_deltas x) \<subseteq> dom (xbal L x)" using ok by (auto simp: exec_ok_def)
  from r obtain d where d: "ledger_withdraw L w a (x_db x) = (Inr (), d)"
    and x': "x' = sub_delta w a (x\<lparr>x_db := d\<rparr>)"
    unfolding exec_withdraw_Inr_iff by blast
  from withdraw.op_returns [OF l d] have "ledger_ok L d \<and> debit (xbal L x) w a = Some (bal L d)"
    by (auto simp: debit_def sub_checked_def xbal_def split: if_splits)
  then show ?thesis using wf ds by (auto simp: x' exec_ok_def xbal_def dest!: debit_dom)
qed

lemma exec_withdraw_throws:
  assumes ok: "exec_ok L x" and r: "exec_withdraw L w a x = (Inl e, x')"
  shows "x' = x \<and> (\<exists>msg. e = Runtime msg)"
proof -
  have l: "ledger_ok L (x_db x)" using ok by (auto simp: exec_ok_def)
  from r show ?thesis
    by (auto simp: exec_withdraw_def bindE_getS bindE_eq_Inl on_ledger_eq
        split: if_splits option.splits dest!: withdraw.op_throws [OF l])
qed

lemma wbal_credit: "credit m w a = Some m' \<Longrightarrow> wbal m' = (wbal m)(w := wbal m w + a)"
  by (auto simp: credit_def wbal_def fun_eq_iff Let_def split: if_splits option.splits)

lemma wbal_debit: "debit m w a = Some m' \<Longrightarrow> wbal m' = (wbal m)(w := wbal m w - a)"
  by (auto simp: debit_def wbal_def fun_eq_iff split: if_splits option.splits)

lemma sample_ledger_ok [simp]: "ledger_ok mem_kv (x_db sample_exec)"
  by (simp add: ledger_ok_def sample_exec_def)

lemma sample_xbal: "xbal mem_kv sample_exec = [sample_wallet 1 \<mapsto> 100]"
  by (simp add: xbal_def bal_def sample_exec_def fun_eq_iff)

lemma sample_supply [simp]: "total_supply (xbal mem_kv sample_exec) = 100"
  by (simp add: sample_xbal total_supply_def)

lemma sample_exec_ok [simp]: "exec_ok mem_kv sample_exec"
  using sample_ledger_ok by (simp add: exec_ok_def sample_exec_def)

end
