(* ===== verification/Execution.thy ===== *)
theory Execution
  imports Accounting
begin

text \<open>
  Theorems about executing transactions: what \<open>updateLedger\<close> does on each branch, that the
  deltas track every balance whatever the outcome, that a block creates exactly its mining
  fee, and when \<open>Rollback\<close> undoes a block.
\<close>

section \<open>Statements that keep the books\<close>

text \<open>
  \<open>evolves L x x'\<close>: from \<open>x\<close> to \<open>x'\<close> every balance moved by exactly what its delta says.
  A statement is \<open>bookkeeping\<close> when every outcome, normal or exceptional, evolves the state
  and only runtime errors are thrown.
\<close>

definition evolves :: "'d kv \<Rightarrow> 'd exec \<Rightarrow> 'd exec \<Rightarrow> bool" where
  "evolves L x x' \<longleftrightarrow> exec_ok L x' \<and>
     (\<forall>w. wbal (xbal L x') w - delta x' w = wbal (xbal L x) w - delta x w)"

definition bookkeeping :: "'d kv \<Rightarrow> ('d exec, 'a) cpp \<Rightarrow> bool" where
  "bookkeeping L m \<longleftrightarrow> (\<forall>x r x'. exec_ok L x \<longrightarrow> m x = (r, x') \<longrightarrow>
     evolves L x x' \<and> (\<forall>e. r = Inl e \<longrightarrow> (\<exists>msg. e = Runtime msg)))"

named_theorems booking \<open>composition of statements that keep the books\<close>

lemma evolves_refl: "exec_ok L x \<Longrightarrow> evolves L x x"
  by (simp add: evolves_def)

lemma evolves_trans: "evolves L x y \<Longrightarrow> evolves L y z \<Longrightarrow> evolves L x z"
  by (simp add: evolves_def)

lemma bookkeeping_ok [booking]: "bookkeeping L (ok a)"
  by (auto simp: bookkeeping_def evolves_refl)

lemma bookkeeping_pair [booking]: "bookkeeping L (Pair (Inr a))"
  by (auto simp: bookkeeping_def evolves_refl)

lemma bookkeeping_throw [booking]: "bookkeeping L (throw (Runtime msg))"
  by (auto simp: bookkeeping_def evolves_refl)

lemma bookkeeping_bind [booking]:
  assumes "bookkeeping L m" and "\<And>a. bookkeeping L (f a)"
  shows "bookkeeping L (bindE m f)"
  unfolding bookkeeping_def
proof (intro allI impI)
  fix x r x'
  assume x: "exec_ok L x" and b: "bindE m f x = (r, x')"
  obtain r1 y where m: "m x = (r1, y)" by (cases "m x")
  with assms(1) x have e: "evolves L x y" "\<forall>e. r1 = Inl e \<longrightarrow> (\<exists>msg. e = Runtime msg)"
    by (auto simp: bookkeeping_def)
  show "evolves L x x' \<and> (\<forall>e. r = Inl e \<longrightarrow> (\<exists>msg. e = Runtime msg))"
  proof (cases r1)
    case (Inl ex)
    with m b e show ?thesis by (auto simp: bindE_def)
  next
    case (Inr a)
    with m b have "f a y = (r, x')" by (simp add: bindE_def)
    moreover have "exec_ok L y" using e(1) by (simp add: evolves_def)
    ultimately have "evolves L y x' \<and> (\<forall>e. r = Inl e \<longrightarrow> (\<exists>msg. e = Runtime msg))"
      using assms(2) by (auto simp: bookkeeping_def)
    with e(1) show ?thesis by (auto intro: evolves_trans)
  qed
qed

lemma bookkeeping_getS [booking]:
  "(\<And>s. bookkeeping L (f s)) \<Longrightarrow> bookkeeping L (bindE getS f)"
  by (auto simp: bookkeeping_def bindE_getS)

lemma bookkeeping_if [booking]:
  "bookkeeping L m \<Longrightarrow> bookkeeping L n \<Longrightarrow> bookkeeping L (if b then m else n)"
  by simp

lemma bookkeeping_case_option [booking]:
  "bookkeeping L m \<Longrightarrow> (\<And>a. bookkeeping L (f a)) \<Longrightarrow>
   bookkeeping L (case r of None \<Rightarrow> m | Some a \<Rightarrow> f a)"
  by (cases r) auto

lemma bookkeeping_invalid:
  "(\<And>x. x_db (f x) = x_db x) \<Longrightarrow> (\<And>x. x_deltas (f x) = x_deltas x) \<Longrightarrow> bookkeeping L (modS f)"
  by (auto simp: bookkeeping_def evolves_def exec_ok_def xbal_def delta_def)

lemma bookkeeping_addInvalid [booking]: "bookkeeping L (addInvalidTransaction b w)"
  unfolding addInvalidTransaction_def Let_def by (rule bookkeeping_invalid) auto

lemma bookkeeping_getWalletValue [booking]: "bookkeeping L (on_ledger (getWalletValue L w))"
  by (auto simp: bookkeeping_def on_ledger_eq getWalletValue_bal exec_ok_def evolves_def xbal_def
      split: option.splits)

lemma bookkeeping_deposit [booking]: "bookkeeping L (exec_deposit L w a)"
  unfolding bookkeeping_def
proof (intro allI impI)
  fix x r x'
  assume x: "exec_ok L x" and d: "exec_deposit L w a x = (r, x')"
  show "evolves L x x' \<and> (\<forall>e. r = Inl e \<longrightarrow> (\<exists>msg. e = Runtime msg))"
  proof (cases r)
    case (Inl e)
    with exec_deposit_throws [OF x, of w a e x'] d show ?thesis by (simp add: evolves_def)
  next
    case (Inr u)
    with exec_deposit_returns [OF x, of w a u x'] d show ?thesis
      by (auto simp: evolves_def wbal_credit)
  qed
qed

lemma bookkeeping_withdraw [booking]: "bookkeeping L (exec_withdraw L w a)"
  unfolding bookkeeping_def
proof (intro allI impI)
  fix x r x'
  assume x: "exec_ok L x" and d: "exec_withdraw L w a x = (r, x')"
  show "evolves L x x' \<and> (\<forall>e. r = Inl e \<longrightarrow> (\<exists>msg. e = Runtime msg))"
  proof (cases r)
    case (Inl e)
    with exec_withdraw_throws [OF x, of w a e x'] d x show ?thesis by (simp add: evolves_def)
  next
    case (Inr u)
    with exec_withdraw_returns [OF x, of w a u x'] d show ?thesis
      by (auto simp: evolves_def wbal_debit)
  qed
qed

lemma bookkeeping_low_balance [booking]: "bookkeeping L (low_balance b w v req)"
  unfolding low_balance_def by (intro booking)

lemma bookkeeping_updateLedger [booking]: "bookkeeping L (updateLedger C L t miner fee b)"
  unfolding updateLedger_def Let_def by (intro booking)

lemma bookkeeping_run_transactions [booking]: "bookkeeping L (run_transactions C L miner fee b ts)"
  by (induction ts) (auto intro!: booking)

lemma bookkeeping_ExecuteBlock [booking]: "bookkeeping L (ExecuteBlock C L mem mem' blk txdb fee)"
  unfolding ExecuteBlock_def
  by (auto intro!: booking split: sum.splits option.splits)

lemma bookkeeping_ExecuteTransaction [booking]: "bookkeeping L (ExecuteTransaction C L mem t)"
  unfolding ExecuteTransaction_def Let_def by (intro booking)

lemma bookkeeping_tracks:
  assumes "bookkeeping L m" and "tracks L m0 x" and "m x = (r, x')"
  shows "tracks L m0 x'" and "r = Inl e \<Longrightarrow> \<exists>msg. e = Runtime msg"
proof -
  have "evolves L x x'" and "r = Inl e \<Longrightarrow> \<exists>msg. e = Runtime msg"
    using assms by (auto simp: bookkeeping_def tracks_def)
  then show "tracks L m0 x'" and "r = Inl e \<Longrightarrow> \<exists>msg. e = Runtime msg"
    using assms(2) by (auto simp: tracks_def evolves_def) (metis add_diff_cancel_right' diff_add_cancel)
qed

section \<open>One transaction\<close>

lemma low_balance_cases:
  assumes "low_balance b w v req x = (r, x')"
  shows "r = Inr None \<and> x' = x \<and> \<not> (v < req \<and> \<not> isInvalidTransaction (ucast b) w x \<and> b \<noteq> 0)
    \<or> r = Inr (Some BALANCE_TOO_LOW) \<and> v < req \<and> \<not> isInvalidTransaction (ucast b) w x \<and> b \<noteq> 0
      \<and> x' = x\<lparr>x_invalid := x_invalid x @ [(ucast b, walletAddressToString w)]\<rparr>"
  using assms
  by (auto simp: low_balance_def bindE_getS bindE_modS addInvalidTransaction_def Let_def
      isInvalidTransaction_def list_ex_iff split: if_splits)

lemma low_balance_through:
  assumes "bindE (low_balance b w v req) (\<lambda>r. case r of Some s \<Rightarrow> ok s | None \<Rightarrow> K) x = (Inr SUCCESS, x')"
  shows "K x = (Inr SUCCESS, x')"
proof -
  obtain r1 y where l: "low_balance b w v req x = (r1, y)" by (cases "low_balance b w v req x")
  from low_balance_cases [OF l] show ?thesis
    using assms l by (auto simp: bindE_def)
qed

lemma getWalletValue_on_ledger:
  "exec_ok L x \<Longrightarrow> on_ledger (getWalletValue L w) x = (Inr v, x') \<longleftrightarrow> xbal L x w = Some v \<and> x' = x"
  by (auto simp: on_ledger_eq getWalletValue_bal exec_ok_def xbal_def split: option.splits)

text \<open>A transfer that succeeds is exactly the payment of the specification.\<close>

lemma updateLedger_transfer_success:
  assumes ok: "exec_ok L x" and nf: "\<not> t_isTransactionFee t" and b: "b \<noteq> 1"
    and r: "updateLedger C L t miner fee b x = (Inr SUCCESS, x')"
  shows "exec_ok L x' \<and>
    pay (xbal L x) (t_from t) (t_to t) miner (t_amount t) (t_fee t) = Some (xbal L x') \<and>
    x_invalid x' = x_invalid x"
proof -
  let ?f = "t_from t" and ?a = "t_amount t" and ?fee = "t_fee t"
  from r nf b obtain v x1 where
    v: "on_ledger (getWalletValue L ?f) x = (Inr v, x1)" and
    1: "bindE (low_balance b ?f v ?a) (\<lambda>r. case r of Some s \<Rightarrow> ok s | None \<Rightarrow>
          bindE (low_balance b ?f (v - ?a) ?fee) (\<lambda>r. case r of Some s \<Rightarrow> ok s | None \<Rightarrow>
          bindE (exec_withdraw L ?f ?a) (\<lambda>_. bindE (exec_deposit L (t_to t) ?a) (\<lambda>_.
          bindE (if 0 < ?fee then bindE (exec_withdraw L ?f ?fee) (\<lambda>_. exec_deposit L miner ?fee)
                 else ok ()) (\<lambda>_. ok SUCCESS))))) x1 = (Inr SUCCESS, x')"
    by (auto simp: updateLedger_def Let_def bindE_getS bindE_eq_Inr [where m = "on_ledger _"]
        split: if_splits)
  from v ok have x1: "x1 = x" by (simp add: getWalletValue_on_ledger)
  from 1 have 2: "bindE (low_balance b ?f (v - ?a) ?fee) (\<lambda>r. case r of Some s \<Rightarrow> ok s | None \<Rightarrow>
          bindE (exec_withdraw L ?f ?a) (\<lambda>_. bindE (exec_deposit L (t_to t) ?a) (\<lambda>_.
          bindE (if 0 < ?fee then bindE (exec_withdraw L ?f ?fee) (\<lambda>_. exec_deposit L miner ?fee)
                 else ok ()) (\<lambda>_. ok SUCCESS)))) x = (Inr SUCCESS, x')"
    unfolding x1 by (rule low_balance_through)
  then have 3: "bindE (exec_withdraw L ?f ?a) (\<lambda>_. bindE (exec_deposit L (t_to t) ?a) (\<lambda>_.
          bindE (if 0 < ?fee then bindE (exec_withdraw L ?f ?fee) (\<lambda>_. exec_deposit L miner ?fee)
                 else ok ()) (\<lambda>_. ok SUCCESS))) x = (Inr SUCCESS, x')"
    by (rule low_balance_through)
  then obtain y z where y: "exec_withdraw L ?f ?a x = (Inr (), y)"
    and z: "exec_deposit L (t_to t) ?a y = (Inr (), z)"
    and w: "(if 0 < ?fee then bindE (exec_withdraw L ?f ?fee) (\<lambda>_. exec_deposit L miner ?fee)
                 else ok ()) z = (Inr (), x')"
    by (auto simp: bindE_eq_Inr)
  note fy = exec_withdraw_returns [OF ok y]
  note fz = exec_deposit_returns [OF fy [THEN conjunct1] z]
  show ?thesis
  proof (cases "0 < ?fee")
    case False
    with w fy fz show ?thesis by (auto simp: pay_def)
  next
    case True
    with w obtain u where u: "exec_withdraw L ?f ?fee z = (Inr (), u)"
      and x': "exec_deposit L miner ?fee u = (Inr (), x')" by (auto simp: bindE_eq_Inr)
    note fu = exec_withdraw_returns [OF fz [THEN conjunct1] u]
    note fx = exec_deposit_returns [OF fu [THEN conjunct1] x']
    from True fy fz fu fx show ?thesis by (auto simp: pay_def)
  qed
qed

lemma updateLedger_credit_success:
  assumes ok: "exec_ok L x" and k: "t_isTransactionFee t \<or> b = 1"
    and r: "updateLedger C L t miner fee b x = (Inr SUCCESS, x')"
  shows "exec_ok L x' \<and> credit (xbal L x) (t_to t) (t_amount t) = Some (xbal L x') \<and>
    (t_isTransactionFee t \<longrightarrow> t_amount t = fee)"
proof -
  have "exec_deposit L (t_to t) (t_amount t) x = (Inr (), x') \<and>
      (t_isTransactionFee t \<longrightarrow> t_amount t = fee)"
    using r k by (auto simp: updateLedger_def Let_def bindE_eq_Inr split: if_splits)
  with exec_deposit_returns [OF ok] show ?thesis by blast
qed

lemma updateLedger_invalid:
  assumes "updateLedger C L t miner fee b x = (Inr SUCCESS, x')" and "t_isTransactionFee t \<or> b = 1"
  shows "x_invalid x' = x_invalid x"
proof -
  have "exec_deposit L (t_to t) (t_amount t) x = (Inr (), x')"
    using assms by (auto simp: updateLedger_def Let_def bindE_eq_Inr split: if_splits)
  then show ?thesis unfolding exec_deposit_Inr_iff by auto
qed

text \<open>The status \<open>BALANCE_TOO_LOW\<close> moves no money and remembers the wallet.\<close>

lemma updateLedger_low:
  assumes ok: "exec_ok L x" and r: "updateLedger C L t miner fee b x = (Inr BALANCE_TOO_LOW, x')"
  shows "x' = x\<lparr>x_invalid := x_invalid x @ [(ucast b, walletAddressToString (t_from t))]\<rparr> \<and>
    (\<exists>v. xbal L x (t_from t) = Some v \<and>
      (v < t_amount t \<or> v - t_amount t < t_fee t))"
proof -
  let ?f = "t_from t" and ?a = "t_amount t" and ?fee = "t_fee t"
  from r obtain v x1 where v: "on_ledger (getWalletValue L ?f) x = (Inr v, x1)" and
    1: "bindE (low_balance b ?f v ?a) (\<lambda>r. case r of Some s \<Rightarrow> ok s | None \<Rightarrow>
          bindE (low_balance b ?f (v - ?a) ?fee) (\<lambda>r. case r of Some s \<Rightarrow> ok s | None \<Rightarrow>
          bindE (exec_withdraw L ?f ?a) (\<lambda>_. bindE (exec_deposit L (t_to t) ?a) (\<lambda>_.
          bindE (if 0 < ?fee then bindE (exec_withdraw L ?f ?fee) (\<lambda>_. exec_deposit L miner ?fee)
                 else ok ()) (\<lambda>_. ok SUCCESS))))) x1 = (Inr BALANCE_TOO_LOW, x')"
    by (auto simp: updateLedger_def Let_def bindE_getS bindE_eq_Inr [where m = "on_ledger _"]
        bindE_eq_Inr [where m = "exec_deposit _ _ _"] split: if_splits)
  from v ok have x1: "x1 = x" "xbal L x ?f = Some v" by (simp_all add: getWalletValue_on_ledger)
  obtain r1 x2 where l1: "low_balance b ?f v ?a x = (r1, x2)" by (cases "low_balance b ?f v ?a x")
  from low_balance_cases [OF l1] show ?thesis
  proof
    assume "r1 = Inr (Some BALANCE_TOO_LOW) \<and> v < ?a \<and> \<not> isInvalidTransaction (ucast b) ?f x \<and>
      b \<noteq> 0 \<and> x2 = x\<lparr>x_invalid := x_invalid x @ [(ucast b, walletAddressToString ?f)]\<rparr>"
    with 1 l1 x1 show ?thesis by (auto simp: bindE_def)
  next
    assume n: "r1 = Inr None \<and> x2 = x \<and> \<not> (v < ?a \<and> \<not> isInvalidTransaction (ucast b) ?f x \<and> b \<noteq> 0)"
    obtain r2 x3 where l2: "low_balance b ?f (v - ?a) ?fee x = (r2, x3)"
      by (cases "low_balance b ?f (v - ?a) ?fee x")
    from low_balance_cases [OF l2] show ?thesis
    proof
      assume "r2 = Inr (Some BALANCE_TOO_LOW) \<and> v - ?a < ?fee \<and> \<not> isInvalidTransaction (ucast b) ?f x \<and>
        b \<noteq> 0 \<and> x3 = x\<lparr>x_invalid := x_invalid x @ [(ucast b, walletAddressToString ?f)]\<rparr>"
      with 1 l1 n l2 x1 show ?thesis by (auto simp: bindE_Inr)
    next
      assume "r2 = Inr None \<and> x3 = x \<and>
        \<not> (v - ?a < ?fee \<and> \<not> isInvalidTransaction (ucast b) ?f x \<and> b \<noteq> 0)"
      with 1 l1 n l2 x1 show ?thesis by (auto simp: bindE_Inr) (auto simp: bindE_eq_Inr)
    qed
  qed
qed

section \<open>A block\<close>

definition fee_txs :: "transaction list \<Rightarrow> nat" where
  "fee_txs ts = length (filter t_isTransactionFee ts)"

lemma fee_txs_simps [simp]:
  "fee_txs [] = 0"
  "fee_txs (t # ts) = (if t_isTransactionFee t then Suc (fee_txs ts) else fee_txs ts)"
  by (simp_all add: fee_txs_def)

lemma fee_txs_copy [simp]: "fee_txs (copy_list mem ts) = fee_txs ts"
  by (induction ts arbitrary: mem) auto

text \<open>The first loop passes exactly the lists the block rules allow.\<close>

lemma check_transactions_miner:
  "check_transactions C L txdb b seen found ts = Inr (Some mf) \<Longrightarrow>
     found = Some mf \<and> fee_txs ts = 0 \<or>
     found = None \<and> fee_txs ts = 1 \<and>
       (\<exists>t \<in> set ts. t_isTransactionFee t \<and> mf = (t_to t, t_amount t))"
proof (induction C L txdb b seen found ts rule: check_transactions.induct)
  case (1 C L txdb b seen found)
  then show ?case by simp
next
  case (2 C L txdb b seen found t ts)
  then show ?case by (cases "t_isTransactionFee t"; cases found) (auto split: if_splits)
qed

lemma check_transactions_fresh:
  assumes "check_transactions C L txdb b seen found ts = Inr found'"
  defines "ps \<equiv> filter (\<lambda>t. \<not> t_isTransactionFee t) ts"
  shows "distinct (map (tx_getHash C) ps)" and "set (map (tx_getHash C) ps) \<inter> set seen = {}"
    and "t \<in> set ps \<Longrightarrow> b \<noteq> 1 \<Longrightarrow> \<not> tx_hasTransaction C L t txdb"
    and "t \<in> set ps \<Longrightarrow> 1 < b \<Longrightarrow> walletAddressFromPublicKey C (t_signingKey t) = t_from t"
proof -
  have "distinct (map (tx_getHash C) ps) \<and> set (map (tx_getHash C) ps) \<inter> set seen = {} \<and>
    (\<forall>t \<in> set ps. (b \<noteq> 1 \<longrightarrow> \<not> tx_hasTransaction C L t txdb) \<and>
      (1 < b \<longrightarrow> walletAddressFromPublicKey C (t_signingKey t) = t_from t))"
    using assms(1) unfolding ps_def
  proof (induction C L txdb b seen found ts rule: check_transactions.induct)
    case (1 C L txdb b seen found)
    then show ?case by simp
  next
    case (2 C L txdb b seen found t ts)
    show ?case
    proof (cases "t_isTransactionFee t")
      case True
      with 2 show ?thesis by (simp split: if_splits)
    next
      case False
      with "2.prems" have c: "tx_getHash C t \<notin> set seen"
        "b \<noteq> 1 \<longrightarrow> \<not> tx_hasTransaction C L t txdb"
        "1 < b \<longrightarrow> walletAddressFromPublicKey C (t_signingKey t) = t_from t"
        "check_transactions C L txdb b (tx_getHash C t # seen) found ts = Inr found'"
        by (auto split: if_splits)
      from "2.IH"(2) [OF False _ _ c(4)] c(1-3) False show ?thesis by auto
    qed
  qed
  then show "distinct (map (tx_getHash C) ps)" "set (map (tx_getHash C) ps) \<inter> set seen = {}"
    "t \<in> set ps \<Longrightarrow> b \<noteq> 1 \<Longrightarrow> \<not> tx_hasTransaction C L t txdb"
    "t \<in> set ps \<Longrightarrow> 1 < b \<Longrightarrow> walletAddressFromPublicKey C (t_signingKey t) = t_from t"
    by blast+
qed

text \<open>The second loop, when it succeeds, ran every transaction successfully.\<close>

lemma run_transactions_step:
  "run_transactions C L miner fee b (t # ts) x = (Inr SUCCESS, x') \<longleftrightarrow>
     (t_isTransactionFee t \<or> signatureValid C t \<or> b = 1) \<and>
     (\<exists>y. updateLedger C L t miner fee b x = (Inr SUCCESS, y) \<and>
       run_transactions C L miner fee b ts y = (Inr SUCCESS, x'))"
  by (auto simp: bindE_eq_Inr)

lemma run_transactions_signed:
  "run_transactions C L miner fee b ts x = (Inr SUCCESS, x') \<Longrightarrow> b \<noteq> 1 \<Longrightarrow> t \<in> set ts \<Longrightarrow>
     signatureValid C t"
  by (induction ts arbitrary: x) (auto simp: bindE_eq_Inr signatureValid_def split: if_splits)

lemma run_transactions_supply:
  assumes "run_transactions C L miner fee b ts x = (Inr SUCCESS, x')" and "exec_ok L x" and "b \<noteq> 1"
  shows "exec_ok L x' \<and>
    total_supply (xbal L x') = total_supply (xbal L x) + uint fee * int (fee_txs ts) \<and>
    x_invalid x' = x_invalid x"
  using assms(1,2)
proof (induction ts arbitrary: x)
  case Nil
  then show ?case by simp
next
  case (Cons t ts)
  from Cons.prems(1) obtain y where y: "updateLedger C L t miner fee b x = (Inr SUCCESS, y)"
    "run_transactions C L miner fee b ts y = (Inr SUCCESS, x')"
    unfolding run_transactions_step by blast
  show ?case
  proof (cases "t_isTransactionFee t")
    case True
    note c = updateLedger_credit_success [OF Cons.prems(2) disjI1 [OF True] y(1)]
    from c finite_xbal [OF Cons.prems(2)] have
      "total_supply (xbal L y) = total_supply (xbal L x) + uint fee"
      using True by (auto dest: credit_facts(2))
    with Cons.IH [OF y(2)] c True show ?thesis
      using updateLedger_invalid [OF y(1) disjI1 [OF True]] by (simp add: algebra_simps)
  next
    case False
    note c = updateLedger_transfer_success [OF Cons.prems(2) False assms(3) y(1)]
    then have "total_supply (xbal L y) = total_supply (xbal L x)"
      using pay_facts(2) finite_xbal [OF Cons.prems(2)] by blast
    with Cons.IH [OF y(2)] c False show ?thesis by simp
  qed
qed

lemma run_transactions_fees:
  "run_transactions C L miner fee b ts x = (Inr SUCCESS, x') \<Longrightarrow>
     t \<in> set ts \<Longrightarrow> t_isTransactionFee t \<Longrightarrow> t_amount t = fee"
  by (induction ts arbitrary: x)
    (auto simp: bindE_eq_Inr updateLedger_def Let_def split: if_splits)

text \<open>The genesis block only creates money.\<close>

lemma run_transactions_genesis:
  assumes "run_transactions C L miner fee 1 ts x = (Inr SUCCESS, x')" and "exec_ok L x"
  shows "exec_ok L x' \<and>
    total_supply (xbal L x') = total_supply (xbal L x) + (\<Sum>t\<leftarrow>ts. uint (t_amount t))"
  using assms
proof (induction ts arbitrary: x)
  case Nil
  then show ?case by simp
next
  case (Cons t ts)
  from Cons.prems(1) obtain y where y: "updateLedger C L t miner fee 1 x = (Inr SUCCESS, y)"
    "run_transactions C L miner fee 1 ts y = (Inr SUCCESS, x')"
    unfolding run_transactions_step by blast
  note c = updateLedger_credit_success [OF Cons.prems(2) disjI2 [OF refl] y(1)]
  then have "total_supply (xbal L y) = total_supply (xbal L x) + uint (t_amount t)"
    using credit_facts(2) finite_xbal [OF Cons.prems(2)] by blast
  with Cons.IH [OF y(2)] c show ?case by simp
qed

lemma find_miner_unique:
  assumes "fee_txs ts = 1" and "t \<in> set ts" "t_isTransactionFee t"
  shows "find_miner junk ts = t_to t"
  using assms
proof (induction ts)
  case (Cons u ts)
  have "fee_txs us = 0 \<Longrightarrow> \<forall>t \<in> set us. \<not> t_isTransactionFee t" for us
    by (induction us) (auto split: if_splits)
  then show ?case using Cons by (auto simp: find_miner_def split: if_splits)
qed simp

lemma copy_list_member: "t \<in> set (copy_list mem ts) \<Longrightarrow> \<exists>m u. u \<in> set ts \<and> t = tx_copy m u"
  by (induction ts arbitrary: mem) (auto, blast)

lemma copy_list_amounts:
  "t \<in> set ts \<Longrightarrow> \<exists>u \<in> set (copy_list mem ts).
     t_isTransactionFee u = t_isTransactionFee t \<and> t_amount u = t_amount t"
  by (induction ts arbitrary: mem) auto

lemma fee_tx_unique:
  assumes "fee_txs ts = 1" and "t \<in> set ts" "t_isTransactionFee t" "u \<in> set ts" "t_isTransactionFee u"
  shows "t_amount t = t_amount u"
proof -
  have "length (filter t_isTransactionFee ts) = 1" using assms(1) by (simp add: fee_txs_def)
  then obtain v where "filter t_isTransactionFee ts = [v]" by (auto simp: length_Suc_conv)
  then have "{t \<in> set ts. t_isTransactionFee t} = {v}" by (metis list.set(1,2) set_filter)
  moreover have "t \<in> {t \<in> set ts. t_isTransactionFee t}" "u \<in> {t \<in> set ts. t_isTransactionFee t}"
    using assms(2-5) by simp_all
  ultimately have "t = v" "u = v" by (metis singletonD)+
  then show ?thesis by simp
qed

lemma check_transactions_status:
  "check_transactions C L txdb b seen found ts = Inl s \<Longrightarrow>
     s \<in> {EXTRA_MINING_FEE, EXPIRED_TRANSACTION, WALLET_SIGNATURE_MISMATCH}"
  by (induction C L txdb b seen found ts rule: check_transactions.induct) (auto split: if_splits)

lemma ExecuteBlock_parts:
  assumes "ExecuteBlock C L mem mem' blk txdb fee x = (Inr SUCCESS, x')"
  obtains miner where
    "check_transactions C L txdb (b_id blk) [] None (copy_list mem (b_transactions blk)) =
       Inr (Some (miner, fee))"
    "fee_txs (b_transactions blk) = 1"
    "\<And>junk. find_miner junk (b_transactions blk) = miner"
    "run_transactions C L miner fee (b_id blk) (copy_list mem' (b_transactions blk)) x = (Inr SUCCESS, x')"
proof -
  let ?ts = "b_transactions blk"
  from assms obtain miner where
    c: "check_transactions C L txdb (b_id blk) [] None (copy_list mem ?ts) = Inr (Some (miner, fee))"
    and r: "run_transactions C L miner fee (b_id blk) (copy_list mem' ?ts) x = (Inr SUCCESS, x')"
    by (auto simp: ExecuteBlock_def split: sum.splits option.splits if_splits
        dest: check_transactions_status)
  from check_transactions_miner [OF c] have one: "fee_txs ?ts = 1" and
    "\<exists>t \<in> set (copy_list mem ?ts). t_isTransactionFee t \<and> miner = t_to t" by auto
  then obtain t where "t \<in> set ?ts" "t_isTransactionFee t" "miner = t_to t"
    by (force dest: copy_list_member)
  with find_miner_unique [OF one] have "find_miner junk ?ts = miner" for junk by simp
  with c one r that show ?thesis by blast
qed

section \<open>When execution cannot throw\<close>

text \<open>
  If no write fails, deposits return whenever the credit fits in 64 bits and withdrawals
  whenever the balance suffices.
\<close>

lemma createWallet_total:
  "kv_writes L \<Longrightarrow> bal L d w = None \<Longrightarrow> \<exists>d'. createWallet L w d = (Inr (), d')"
  using setWalletValue_total [of L w 0 d] by (auto simp: createWallet_def bindE_getS hasWallet_bal)

lemma ledger_deposit_total:
  assumes "kv_writes L" "ledger_ok L d" "bal L d w = Some v" "v \<le> v + a"
  shows "\<exists>d'. ledger_deposit L w a d = (Inr (), d')"
  using assms setWalletValue_total [OF assms(1), of w "v + a" d]
  by (auto simp: ledger_deposit_def bindE_Inr getWalletValue_bal not_less [symmetric])

lemma ledger_withdraw_total:
  assumes "kv_writes L" "ledger_ok L d" "bal L d w = Some v" "a \<le> v"
  shows "\<exists>d'. ledger_withdraw L w a d = (Inr (), d')"
  using assms setWalletValue_total [OF assms(1), of w "v - a" d]
  by (auto simp: ledger_withdraw_def bindE_Inr getWalletValue_bal not_less word_sub_no_underflow)

lemma exec_deposit_total:
  assumes w: "kv_writes L" and ok: "exec_ok L x" and c: "credit (xbal L x) to a = Some m'"
  shows "\<exists>x'. exec_deposit L to a x = (Inr (), x')"
proof -
  let ?d = "x_db x"
  have l: "ledger_ok L ?d" using ok by (simp add: exec_ok_def)
  have "\<exists>d1 d2. (if hasWallet L to ?d then d1 = ?d else createWallet L to ?d = (Inr (), d1)) \<and>
      ledger_deposit L to a d1 = (Inr (), d2)"
  proof (cases "bal L ?d to")
    case None
    from createWallet_total [OF w None] obtain d1 where d1: "createWallet L to ?d = (Inr (), d1)" by blast
    have "bal L d1 to = Some 0" "ledger_ok L d1" using createWallet_ok [OF l d1] by auto
    then show ?thesis using ledger_deposit_total [OF w] d1 None by (auto simp: hasWallet_bal)
  next
    case (Some v)
    then have "v \<le> v + a" using c by (auto simp: credit_def xbal_def Let_def split: if_splits)
    then show ?thesis using ledger_deposit_total [OF w l Some] Some by (simp add: hasWallet_bal)
  qed
  then show ?thesis unfolding exec_deposit_Inr_iff by blast
qed

lemma exec_withdraw_total:
  assumes "kv_writes L" and "exec_ok L x" and "debit (xbal L x) from a = Some m'"
  shows "\<exists>x'. exec_withdraw L from a x = (Inr (), x')"
proof -
  obtain v where v: "bal L (x_db x) from = Some v" "a \<le> v"
    using assms(3) by (auto simp: debit_def xbal_def split: option.splits if_splits)
  have "ledger_ok L (x_db x)" using assms(2) by (simp add: exec_ok_def)
  from ledger_withdraw_total [OF assms(1) this v] v(1) show ?thesis
    unfolding exec_withdraw_Inr_iff hasWallet_bal by auto
qed

text \<open>The sender's balance is exactly \<open>v\<close>: both checks of a transfer, in order.\<close>

definition listed :: "'d exec \<Rightarrow> u32 \<Rightarrow> wallet \<Rightarrow> bool" where
  "listed x b w \<longleftrightarrow> isInvalidTransaction (ucast b) w x \<or> b = 0"

lemma low_balance_eq:
  "low_balance b w v req x =
     (if v < req \<and> \<not> listed x b w
      then (Inr (Some BALANCE_TOO_LOW), x\<lparr>x_invalid := x_invalid x @ [(ucast b, walletAddressToString w)]\<rparr>)
      else (Inr None, x))"
  by (auto simp: low_balance_def listed_def bindE_getS bindE_modS addInvalidTransaction_def Let_def
      isInvalidTransaction_def list_ex_iff)

lemma low_balance_bind:
  "bindE (low_balance b w v req) f x =
     (if v < req \<and> \<not> listed x b w
      then f (Some BALANCE_TOO_LOW)
             (x\<lparr>x_invalid := x_invalid x @ [(ucast b, walletAddressToString w)]\<rparr>)
      else f None x)"
  by (simp add: bindE_def low_balance_eq)

lemma updateLedger_credit_total:
  assumes "kv_writes L" and "exec_ok L x" and k: "t_isTransactionFee t \<or> b = 1"
    and "total_supply (xbal L x) + uint (t_amount t) < 2 ^ 64"
  shows "\<exists>s x'. updateLedger C L t miner fee b x = (Inr s, x')"
proof -
  obtain m' where "credit (xbal L x) (t_to t) (t_amount t) = Some m'"
    using credit_total [OF finite_xbal [OF assms(2)] assms(4)] by blast
  from exec_deposit_total [OF assms(1,2) this] obtain x' where
    "exec_deposit L (t_to t) (t_amount t) x = (Inr (), x')" by blast
  with k show ?thesis by (auto simp: updateLedger_def Let_def bindE_Inr)
qed

text \<open>Moving an amount the sender has: the total stays, so the receiver's balance cannot overflow.\<close>

lemma exec_move_total:
  assumes "kv_writes L" "exec_ok L x" "debit (xbal L x) from a = Some m1" "total_supply (xbal L x) < 2 ^ 64"
  shows "\<exists>y z. exec_withdraw L from a x = (Inr (), y) \<and> exec_deposit L to a y = (Inr (), z) \<and> exec_ok L z \<and>
    credit m1 to a = Some (xbal L z) \<and> total_supply (xbal L z) < 2 ^ 64"
proof -
  obtain y where y: "exec_withdraw L from a x = (Inr (), y)"
    using exec_withdraw_total [OF assms(1,2,3)] by blast
  then have dy: "debit (xbal L x) from a = Some (xbal L y)" and oky: "exec_ok L y"
    using exec_withdraw_returns [OF assms(2) y] by auto
  note dfy = debit_facts [OF dy finite_xbal [OF assms(2)]]
  obtain m2 where "credit (xbal L y) to a = Some m2" using credit_total [OF dfy(1), of a] dfy(2) assms(4) by auto
  from exec_deposit_total [OF assms(1) oky this] obtain z where z: "exec_deposit L to a y = (Inr (), z)" by blast
  then have cz: "credit (xbal L y) to a = Some (xbal L z)" and "exec_ok L z"
    using exec_deposit_returns [OF oky z] by auto
  then show ?thesis using y z dy assms(3,4) dfy(2) credit_facts(2) [OF cz dfy(1)] by auto
qed

lemma updateLedger_transfer_total:
  assumes w: "kv_writes L" and ok: "exec_ok L x" and k: "\<not> t_isTransactionFee t" "b \<noteq> 1"
    and nl: "\<not> listed x b (t_from t)" and s: "total_supply (xbal L x) < 2 ^ 64"
  shows "\<exists>s x'. updateLedger C L t miner fee b x = (Inr s, x')"
proof -
  let ?f = "t_from t" and ?a = "t_amount t" and ?fee = "t_fee t" and ?m = "xbal L x"
  let ?U = "updateLedger C L t miner fee b x"
  define P where "P \<longleftrightarrow> 1 < b \<and> walletAddressFromPublicKey C (t_signingKey t) \<noteq> ?f"
  consider (sig) P | (missing) "\<not> P" "?m ?f = None"
    | (low) v where "\<not> P" "?m ?f = Some v" "v < ?a \<or> v - ?a < ?fee"
    | (pay) v where "\<not> P" "?m ?f = Some v" "?a \<le> v" "?fee \<le> v - ?a"
    using not_less by (cases "?m ?f"; cases P) blast+
  then show ?thesis
  proof cases
    case sig
    with k show ?thesis by (simp add: updateLedger_def Let_def P_def)
  next
    case missing
    with k show ?thesis
      by (auto simp: updateLedger_def Let_def bindE_getS hasWallet_bal xbal_def P_def)
  next
    case (low v)
    then have "on_ledger (getWalletValue L ?f) x = (Inr v, x)"
      using getWalletValue_on_ledger [OF ok] by simp
    with low k nl show ?thesis
      by (auto simp: updateLedger_def Let_def bindE_getS hasWallet_bal xbal_def bindE_Inr low_balance_bind
          P_def)
  next
  case (pay v)
    have g: "on_ledger (getWalletValue L ?f) x = (Inr v, x)"
      using getWalletValue_on_ledger [OF ok] pay by simp
    have d1: "debit ?m ?f ?a = Some (?m(?f \<mapsto> v - ?a))" using pay by (simp add: debit_def)
    obtain y z where y: "exec_withdraw L ?f ?a x = (Inr (), y)" "exec_deposit L (t_to t) ?a y = (Inr (), z)"
      and cz: "exec_ok L z" "credit (?m(?f \<mapsto> v - ?a)) (t_to t) ?a = Some (xbal L z)"
      and sz: "total_supply (xbal L z) < 2 ^ 64"
      using exec_move_total [OF w ok d1 s] by metis
    have "v - ?a \<le> v - ?a + ?a" using pay word_sub_le [of ?a v] by simp
    then have "\<exists>u. xbal L z ?f = Some u \<and> ?fee \<le> u"
      using cz(2) [symmetric] pay by (cases "?f = t_to t") (auto simp: credit_def Let_def split: if_splits intro: order_trans)
    then obtain m3 where "debit (xbal L z) ?f ?fee = Some m3" by (auto simp: debit_def)
    from exec_move_total [OF w cz(1) this sz] obtain u x' where
      u: "exec_withdraw L ?f ?fee z = (Inr (), u)" "exec_deposit L miner ?fee u = (Inr (), x')" by metis
    have "\<not> (v < ?a)" "\<not> (v - ?a < ?fee)" "hasWallet L ?f (x_db x)"
      using pay by (auto simp: hasWallet_bal xbal_def)
    with pay(1) k g y u show ?thesis
      by (auto simp: updateLedger_def Let_def bindE_getS bindE_Inr low_balance_bind P_def)
  qed
qed

lemma run_transactions_total:
  assumes "kv_writes L" and "exec_ok L x" and "b \<noteq> 1"
    and "\<forall>t \<in> set ts. \<not> t_isTransactionFee t \<longrightarrow> \<not> listed x b (t_from t)"
    and "total_supply (xbal L x) + uint fee * int (fee_txs ts) < 2 ^ 64"
    and "\<forall>t \<in> set ts. t_isTransactionFee t \<longrightarrow> t_amount t = fee"
  shows "\<exists>s x'. run_transactions C L miner fee b ts x = (Inr s, x')"
  using assms(2,4,5,6)
proof (induction ts arbitrary: x)
  case Nil
  then show ?case by simp
next
  case (Cons t ts)
  have "0 \<le> uint fee * int (fee_txs ts)" by simp
  have "\<exists>s y. updateLedger C L t miner fee b x = (Inr s, y)"
  proof (cases "t_isTransactionFee t")
    case True
    have "uint fee * int (fee_txs (t # ts)) = uint fee + uint fee * int (fee_txs ts)"
      using True by (simp add: distrib_left)
    with Cons.prems(3) \<open>0 \<le> uint fee * int (fee_txs ts)\<close>
    have "total_supply (xbal L x) + uint fee < 2 ^ 64" by linarith
    with Cons.prems True show ?thesis
      by (intro updateLedger_credit_total [OF assms(1)]) auto
  next
    case False
    then have "uint fee * int (fee_txs (t # ts)) = uint fee * int (fee_txs ts)" by simp
    with Cons.prems(3) \<open>0 \<le> uint fee * int (fee_txs ts)\<close>
    have "total_supply (xbal L x) < 2 ^ 64" by linarith
    with Cons.prems assms(3) False show ?thesis
      by (intro updateLedger_transfer_total [OF assms(1)]) auto
  qed
  then obtain s y where y: "updateLedger C L t miner fee b x = (Inr s, y)" by blast
  show ?case
  proof (cases "s = SUCCESS \<and> (t_isTransactionFee t \<or> signatureValid C t)")
    case False
    with y assms(3) show ?thesis by (auto simp: bindE_Inr)
  next
    case True
    with y have "run_transactions C L miner fee b [t] x = (Inr SUCCESS, y)"
      by (auto simp: bindE_Inr)
    from run_transactions_supply [OF this Cons.prems(1) assms(3)] have
      f: "exec_ok L y" "total_supply (xbal L y) = total_supply (xbal L x) + uint fee * int (fee_txs [t])"
      "x_invalid y = x_invalid x" by auto
    have "\<exists>s x'. run_transactions C L miner fee b ts y = (Inr s, x')"
    proof (rule Cons.IH [OF f(1)])
      show "\<forall>t\<in>set ts. \<not> t_isTransactionFee t \<longrightarrow> \<not> listed y b (t_from t)"
        using Cons.prems(2) f(3) by (simp add: listed_def isInvalidTransaction_def)
      show "total_supply (xbal L y) + uint fee * int (fee_txs ts) < 2 ^ 64"
        using Cons.prems(3) f(2) by (simp add: algebra_simps split: if_splits)
      show "\<forall>t\<in>set ts. t_isTransactionFee t \<longrightarrow> t_amount t = fee" using Cons.prems(4) by simp
    qed
    with y True show ?thesis by (auto simp: bindE_Inr)
  qed
qed

section \<open>Properties\<close>

text \<open>
  C12. A block other than the genesis block that \<open>Executor::ExecuteBlock\<close> accepts creates
  exactly its mining fee: the total of all balances (as integers, so without wrap-around)
  grows by \<open>blockMiningFee\<close>, the transfers and their fees only move money, and the ledger
  stays well formed.
\<close>

theorem ExecuteBlock_creates_fee:
  assumes "exec_ok L x" and "b_id blk \<noteq> 1"
    and e: "ExecuteBlock C L mem mem' blk txdb fee x = (Inr SUCCESS, x')"
  shows "exec_ok L x' \<and> total_supply (xbal L x') = total_supply (xbal L x) + uint fee"
proof -
  obtain miner where one: "fee_txs (b_transactions blk) = 1" and
    r: "run_transactions C L miner fee (b_id blk) (copy_list mem' (b_transactions blk)) x = (Inr SUCCESS, x')"
    using ExecuteBlock_parts [OF e] by metis
  from run_transactions_supply [OF r assms(1,2)] one show ?thesis by simp
qed

lemma ExecuteBlock_creates_fee_witness:
  "total_supply (xbal mem_kv (snd (ExecuteBlock sample_crypto mem_kv sample_mem sample_mem
       (sample_block 2 [sample_transfer 1 2 30 5, sample_fee 3 50]) [] 50 sample_exec))) =
     total_supply (xbal mem_kv sample_exec) + 50"
proof -
  let ?b = "sample_block 2 [sample_transfer 1 2 30 5, sample_fee 3 50]"
  let ?r = "ExecuteBlock sample_crypto mem_kv sample_mem sample_mem ?b [] 50 sample_exec"
  have "fst ?r = Inr SUCCESS" by code_simp
  then have "?r = (Inr SUCCESS, snd ?r)" by (metis prod.collapse)
  moreover have "b_id ?b \<noteq> 1" by (simp add: sample_block_def)
  ultimately show ?thesis using ExecuteBlock_creates_fee [OF sample_exec_ok] by fastforce
qed

text \<open>
  C13. Whatever \<open>ExecuteBlock\<close> answers, a status or an exception, the recorded deltas account
  exactly for the change of every balance since the call (modulo \<open>2 ^ 64\<close>), the ledger stays
  well formed, and the only exceptions are run-time errors: no undefined behaviour.
\<close>

theorem ExecuteBlock_keeps_books:
  assumes "exec_ok L x" and "x_deltas x = []"
    and "ExecuteBlock C L mem mem' blk txdb fee x = (r, x')"
  shows "tracks L (xbal L x) x' \<and> (\<forall>e. r = Inl e \<longrightarrow> (\<exists>msg. e = Runtime msg))"
proof -
  have "tracks L (xbal L x) x" using assms(1,2) by (simp add: tracks_def delta_def)
  from bookkeeping_tracks [OF bookkeeping_ExecuteBlock this assms(3)] show ?thesis by blast
qed

lemma ExecuteBlock_keeps_books_witness:
  "tracks mem_kv (xbal mem_kv sample_exec)
     (snd (ExecuteBlock sample_crypto mem_kv sample_mem sample_mem
       (sample_block 2 [sample_transfer 1 2 30 5, sample_transfer 2 1 90 0, sample_fee 3 50]) []
       50 sample_exec))"
proof -
  have "x_deltas sample_exec = []" by (simp add: sample_exec_def)
  from ExecuteBlock_keeps_books [OF sample_exec_ok this prod.collapse [symmetric]] show ?thesis
    by blast
qed







text \<open>
  The status \<open>BALANCE_TOO_LOW\<close> is given only when the sender's balance is below the
  amount plus the fee, and it moves no money; the sender is put on the list of known invalid
  transactions.
\<close>

lemma updateLedger_refuses:
  assumes "exec_ok L x" and "updateLedger C L t miner blockFee b x = (Inr BALANCE_TOO_LOW, x')"
  shows "x_db x' = x_db x \<and> x_deltas x' = x_deltas x \<and>
    held (xbal L x) (t_from t) < uint (t_amount t) + uint (t_fee t) \<and>
    isInvalidTransaction (ucast b) (t_from t) x'"
proof -
  from updateLedger_low [OF assms] obtain v where
    x': "x' = x\<lparr>x_invalid := x_invalid x @ [(ucast b, walletAddressToString (t_from t))]\<rparr>"
    and v: "xbal L x (t_from t) = Some v" "v < t_amount t \<or> v - t_amount t < t_fee t" by blast
  have "uint v < uint (t_amount t) + uint (t_fee t)"
  proof (cases "v < t_amount t")
    case True
    then have "uint v < uint (t_amount t)" by (simp add: word_less_def)
    then show ?thesis using uint_ge_0 [of "t_fee t"] by linarith
  next
    case False
    then have "uint (v - t_amount t) = uint v - uint (t_amount t)"
      by (intro uint_sub_no_underflow) (simp add: not_less)
    with v(2) False show ?thesis by (simp add: word_less_def)
  qed
  with x' v(1) show ?thesis by (simp add: held_def isInvalidTransaction_def)
qed

lemma updateLedger_refuses_witness:
  "held (xbal mem_kv sample_exec) (t_from (sample_transfer 1 2 96 5)) <
     uint (t_amount (sample_transfer 1 2 96 5)) + uint (t_fee (sample_transfer 1 2 96 5))"
proof -
  let ?t = "sample_transfer 1 2 96 5"
  let ?r = "updateLedger sample_crypto mem_kv ?t (sample_wallet 3) 50 2 sample_exec"
  have "fst ?r = Inr BALANCE_TOO_LOW" by code_simp
  then have "?r = (Inr BALANCE_TOO_LOW, snd ?r)" by (metis prod.collapse)
  from updateLedger_refuses [OF sample_exec_ok this] show ?thesis by blast
qed

text \<open>
  The genesis block creates the sum of its amounts: no sender is debited.
\<close>

lemma ExecuteBlock_genesis:
  assumes "exec_ok L x" and "b_id blk = 1"
    and e: "ExecuteBlock C L mem mem' blk txdb fee x = (Inr SUCCESS, x')"
  shows "exec_ok L x' \<and> total_supply (xbal L x') =
    total_supply (xbal L x) + (\<Sum>t\<leftarrow>b_transactions blk. uint (t_amount t))"
proof -
  obtain miner where
    r: "run_transactions C L miner fee (b_id blk) (copy_list mem' (b_transactions blk)) x = (Inr SUCCESS, x')"
    using ExecuteBlock_parts [OF e] by metis
  have "map (\<lambda>t. uint (t_amount t)) (copy_list mem' (b_transactions blk)) =
      map (\<lambda>t. uint (t_amount t)) (b_transactions blk)"
    by (rule map_copy_list) simp
  with run_transactions_genesis [OF r [unfolded assms(2)] assms(1)] show ?thesis by simp
qed

lemma ExecuteBlock_genesis_witness:
  "total_supply (xbal mem_kv (snd (ExecuteBlock sample_crypto mem_kv sample_mem sample_mem
     (sample_block 1 [sample_transfer 9 2 30 5, sample_fee 3 50]) [] 50 sample_exec))) =
   total_supply (xbal mem_kv sample_exec) + 80"
proof -
  let ?b = "sample_block 1 [sample_transfer 9 2 30 5, sample_fee 3 50]"
  let ?r = "ExecuteBlock sample_crypto mem_kv sample_mem sample_mem ?b [] 50 sample_exec"
  have "fst ?r = Inr SUCCESS" by code_simp
  then have "?r = (Inr SUCCESS, snd ?r)" by (metis prod.collapse)
  moreover have "b_id ?b = 1" by (simp add: sample_block_def)
  ultimately have "total_supply (xbal mem_kv (snd ?r)) = total_supply (xbal mem_kv sample_exec) +
      (\<Sum>t\<leftarrow>b_transactions ?b. uint (t_amount t))"
    using ExecuteBlock_genesis [OF sample_exec_ok] by blast
  then show ?thesis by (simp add: sample_block_def sample_transfer_def sample_fee_def)
qed

end
