(* ===== verification/Undo.thy ===== *)
theory Undo
  imports Execution
begin

text \<open>
  Undoing: what \<open>Executor::Rollback\<close> does with the deltas of a statement, and that
  \<open>Executor::RollbackBlock\<close> takes back exactly what \<open>Executor::ExecuteBlock\<close> did to the
  balances.
\<close>

section \<open>Rollback by deltas\<close>

text \<open>
  \<open>Rollback\<close> withdraws the delta of each wallet. A wallet that lost money has a delta that
  is the two's complement of the loss, more than its balance, so the withdrawal throws.
\<close>

lemma forE_withdraw:
  assumes "forE ds (\<lambda>it. ledger_withdraw L (fst it) (snd it)) d = (Inr (), d')"
    and "ledger_ok L d" and "distinct (map fst ds)"
  shows "ledger_ok L d' \<and> (\<forall>w. wbal (bal L d') w = wbal (bal L d) w -
      (case map_of ds w of None \<Rightarrow> 0 | Some a \<Rightarrow> a)) \<and>
    (\<forall>w a. (w, a) \<in> set ds \<longrightarrow> a \<le> wbal (bal L d) w)"
  using assms
proof (induction ds arbitrary: d)
  case Nil
  then show ?case by simp
next
  case (Cons p ds)
  obtain u b where p: "p = (u, b)" by (cases p)
  from Cons.prems(1) obtain t where t: "ledger_withdraw L u b d = (Inr (), t)"
    and r: "forE ds (\<lambda>it. ledger_withdraw L (fst it) (snd it)) t = (Inr (), d')"
    by (auto simp: p bindE_eq_Inr)
  from withdraw.op_returns [OF Cons.prems(2) t] obtain v where
    tok: "ledger_ok L t" and v: "bal L d u = Some v" "b \<le> v" "bal L t = (bal L d)(u \<mapsto> v - b)"
    by (auto simp: sub_checked_def split: if_splits)
  then have wt: "wbal (bal L t) = (wbal (bal L d))(u := wbal (bal L d) u - b)" "b \<le> wbal (bal L d) u"
    by (auto simp: wbal_def fun_eq_iff)
  have nu: "map_of ds u = None" using Cons.prems(3) by (auto simp: p map_of_eq_None_iff)
  have nu': "\<And>w a. (w, a) \<in> set ds \<Longrightarrow> w \<noteq> u" using Cons.prems(3) by (force simp: p)
  from Cons.IH [OF r tok] Cons.prems(3)
  have IH: "ledger_ok L d'" "\<And>w. wbal (bal L d') w = wbal (bal L t) w -
      (case map_of ds w of None \<Rightarrow> 0 | Some a \<Rightarrow> a)"
    "\<And>w a. (w, a) \<in> set ds \<Longrightarrow> a \<le> wbal (bal L t) w" by auto
  show ?case
  proof (intro conjI allI impI)
    show "ledger_ok L d'" by (rule IH(1))
  next
    fix w show "wbal (bal L d') w = wbal (bal L d) w -
        (case map_of (p # ds) w of None \<Rightarrow> 0 | Some a \<Rightarrow> a)"
      using IH(2) [of w] nu by (auto simp: p wt(1))
  next
    fix w a assume "(w, a) \<in> set (p # ds)"
    then show "a \<le> wbal (bal L d) w" using wt IH(3) [of w a] nu' [of w a] by (auto simp: p)
  qed
qed

lemma forE_withdraw_total:
  assumes "kv_writes L" and "ledger_ok L d" and "distinct (map fst ds)"
    and "\<And>w a. (w, a) \<in> set ds \<Longrightarrow> \<exists>v. bal L d w = Some v \<and> a \<le> v"
  shows "\<exists>d'. forE ds (\<lambda>it. ledger_withdraw L (fst it) (snd it)) d = (Inr (), d')"
  using assms(2-4)
proof (induction ds arbitrary: d)
  case Nil
  then show ?case by simp
next
  case (Cons p ds)
  obtain u b where p: "p = (u, b)" by (cases p)
  from Cons.prems(3) [of u b] obtain v where v: "bal L d u = Some v" "b \<le> v" by (auto simp: p)
  from ledger_withdraw_total [OF assms(1) Cons.prems(1) v] obtain t where
    t: "ledger_withdraw L u b d = (Inr (), t)" by blast
  from withdraw.op_returns [OF Cons.prems(1) t] obtain v' where
    tok: "ledger_ok L t" and bt: "bal L t = (bal L d)(u \<mapsto> v')" by blast
  have nu: "\<And>w a. (w, a) \<in> set ds \<Longrightarrow> w \<noteq> u" using Cons.prems(2) by (force simp: p)
  have "\<exists>d'. forE ds (\<lambda>it. ledger_withdraw L (fst it) (snd it)) t = (Inr (), d')"
  proof (rule Cons.IH [OF tok])
    show "distinct (map fst ds)" using Cons.prems(2) by simp
    fix w a assume "(w, a) \<in> set ds"
    then show "\<exists>v. bal L t w = Some v \<and> a \<le> v"
      using nu [of w a] Cons.prems(3) [of w a] by (simp add: bt)
  qed
  with t show ?case by (auto simp: p bindE_Inr)
qed

text \<open>In unsigned arithmetic \<open>b\<close> exceeds \<open>a + b\<close> exactly when \<open>a\<close> does.\<close>

lemma word_le_sum_iff: "b \<le> a + b \<longleftrightarrow> a \<le> a + (b :: u64)"
  by (metis add.commute uint_plus_simple_iff)

lemma Rollback_returns:
  assumes "tracks L m0 x" and "Rollback L (x_deltas x) (x_db x) = (Inr (), d')"
  shows "ledger_ok L d'" and "wbal (bal L d') = wbal m0"
    and "wbal m0 w \<le> wbal (xbal L x) w"
proof -
  have ok: "ledger_ok L (x_db x)" "distinct (map fst (x_deltas x))"
    using assms(1) by (auto simp: tracks_def exec_ok_def omap_wf_distinct)
  have t: "wbal (xbal L x) u = wbal m0 u + delta x u" for u using assms(1) by (simp add: tracks_def)
  note f = forE_withdraw [OF assms(2) [unfolded Rollback_def] ok]
  show "ledger_ok L d'" using f by blast
  have "wbal (bal L d') u = wbal m0 u" for u
    using f t [of u] by (simp add: delta_def xbal_def)
  then show "wbal (bal L d') = wbal m0" by blast
  show "wbal m0 w \<le> wbal (xbal L x) w"
  proof (cases "map_of (x_deltas x) w")
    case None
    then show ?thesis using t [of w] by (simp add: delta_def)
  next
    case (Some a)
    then have "a \<le> wbal (xbal L x) w" using f by (auto simp: xbal_def dest: map_of_SomeD)
    moreover have "delta x w = a" using Some by (simp add: delta_def)
    ultimately show ?thesis using t [of w] word_le_sum_iff [of a "wbal m0 w"] by simp
  qed
qed

lemma Rollback_total:
  assumes "kv_writes L" and "tracks L m0 x" and "\<And>w. wbal m0 w \<le> wbal (xbal L x) w"
  shows "\<exists>d'. Rollback L (x_deltas x) (x_db x) = (Inr (), d')"
  unfolding Rollback_def
proof (rule forE_withdraw_total [OF assms(1)])
  show "ledger_ok L (x_db x)" and "distinct (map fst (x_deltas x))"
    using assms(2) by (auto simp: tracks_def exec_ok_def omap_wf_distinct)
  fix w a assume wa: "(w, a) \<in> set (x_deltas x)"
  then have "w \<in> dom (xbal L x)" and a: "map_of (x_deltas x) w = Some a"
    using assms(2) by (force simp: tracks_def exec_ok_def omap_wf_distinct)+
  then obtain v where v: "bal L (x_db x) w = Some v" by (auto simp: xbal_def)
  have "v = wbal m0 w + a"
    using assms(2) v a by (auto simp: tracks_def wbal_def xbal_def delta_def dest!: spec [of _ w])
  then have "a \<le> v" using assms(3) [of w] v word_le_sum_iff [of a "wbal m0 w"]
    by (simp add: wbal_def xbal_def)
  with v show "\<exists>v. bal L (x_db x) w = Some v \<and> a \<le> v" by blast
qed

lemma forE_runtime:
  assumes "\<And>x s e s'. f x s = (Inl e, s') \<Longrightarrow> P s \<Longrightarrow> \<exists>msg. e = Runtime msg"
    and "\<And>x s s'. f x s = (Inr (), s') \<Longrightarrow> P s \<Longrightarrow> P s'"
    and "P s" and "forE xs f s = (Inl e, s')"
  shows "\<exists>msg. e = Runtime msg"
  using assms(3,4)
proof (induction xs arbitrary: s)
  case Nil
  then show ?case by simp
next
  case (Cons x xs)
  then show ?case using assms(1,2) by (auto simp: bindE_eq_Inl) blast+
qed

text \<open>So \<open>Rollback\<close> throws as soon as one wallet holds less than before.\<close>

lemma Rollback_throws:
  assumes "tracks L m0 x" and "wbal (xbal L x) w < wbal m0 w"
  shows "\<exists>msg d'. Rollback L (x_deltas x) (x_db x) = (Inl (Runtime msg), d')"
proof (cases "Rollback L (x_deltas x) (x_db x)")
  case (Pair r d')
  show ?thesis
  proof (cases r)
    case (Inr u)
    with Pair Rollback_returns(3) [OF assms(1), of d' w] assms(2) show ?thesis by simp
  next
    case (Inl e)
    have "\<exists>msg. e = Runtime msg"
    proof (rule forE_runtime [where P = "ledger_ok L"])
      show "forE (x_deltas x) (\<lambda>it. ledger_withdraw L (fst it) (snd it)) (x_db x) = (Inl e, d')"
        using Pair Inl by (simp add: Rollback_def)
      show "ledger_ok L (x_db x)" using assms(1) by (simp add: tracks_def exec_ok_def)
    qed (auto dest: withdraw.op_throws withdraw.op_returns)
    with Pair Inl show ?thesis by auto
  qed
qed

section \<open>RollbackBlock\<close>

text \<open>The net change, modulo \<open>2 ^ 64\<close>, that a transaction outside the genesis block makes.\<close>

definition when0 :: "bool \<Rightarrow> amount \<Rightarrow> amount" where
  "when0 b a = (if b then a else 0)"

definition moved :: "wallet \<Rightarrow> transaction \<Rightarrow> wallet \<Rightarrow> amount" where
  "moved miner t w =
     (if t_isTransactionFee t then when0 (w = t_to t) (t_amount t)
      else when0 (w = t_to t) (t_amount t) - when0 (w = t_from t) (t_amount t) +
        (when0 (w = miner) (t_fee t) - when0 (w = t_from t) (t_fee t)))"

definition parties :: "wallet \<Rightarrow> transaction \<Rightarrow> wallet set" where
  "parties miner t =
     (if t_isTransactionFee t then {t_to t}
      else {t_to t, t_from t} \<union> (if 0 < t_fee t then {miner} else {}))"

lemma moved_copy [simp]: "moved miner (tx_copy m t) = moved miner t"
  "parties miner (tx_copy m t) = parties miner t"
  by (auto simp: moved_def parties_def fun_eq_iff)

lemma pay_wbal:
  assumes "pay m from to miner amt fee = Some m'"
  shows "wbal m' = (\<lambda>w. wbal m w + (when0 (w = to) amt - when0 (w = from) amt +
      (when0 (w = miner) fee - when0 (w = from) fee)))"
    and "dom m' = dom m \<union> {to} \<union> (if 0 < fee then {miner} else {})" and "from \<in> dom m"
proof -
  from assms obtain m1 m2 where 1: "debit m from amt = Some m1" and 2: "credit m1 to amt = Some m2"
    and 3: "if 0 < fee then \<exists>m3. debit m2 from fee = Some m3 \<and> credit m3 miner fee = Some m' else m' = m2"
    by (auto simp: pay_def split: bind_splits if_splits)
  note e1 = wbal_debit [OF 1] wbal_credit [OF 2]
  show "wbal m' = (\<lambda>w. wbal m w + (when0 (w = to) amt - when0 (w = from) amt +
      (when0 (w = miner) fee - when0 (w = from) fee)))"
  proof (cases "0 < fee")
    case False
    then have "fee = 0" by (simp add: word_gt_0)
    with 3 show ?thesis by (intro ext) (simp add: e1 when0_def)
  next
    case True
    with 3 obtain m3 where "debit m2 from fee = Some m3" "credit m3 miner fee = Some m'" by auto
    note e2 = wbal_debit [OF this(1)] wbal_credit [OF this(2)]
    show ?thesis by (intro ext) (simp add: e1 e2 when0_def)
  qed
  have "dom m2 = insert to (dom m)" using debit_dom [OF 1] credit_dom [OF 2] by simp
  moreover have "dom m' = (if 0 < fee then insert miner (dom m2) else dom m2)"
  proof (cases "0 < fee")
    case True
    with 3 obtain m3 where d: "debit m2 from fee = Some m3" and c: "credit m3 miner fee = Some m'" by auto
    show ?thesis using debit_dom [OF d] credit_dom [OF c] True by simp
  qed (use 3 in simp)
  ultimately show "dom m' = dom m \<union> {to} \<union> (if 0 < fee then {miner} else {})"
    by (simp add: insert_commute)
  show "from \<in> dom m" using debit_dom [OF 1] by simp
qed

lemma updateLedger_moved:
  assumes "exec_ok L x" and "b \<noteq> 1" and "updateLedger C L t miner fee b x = (Inr SUCCESS, x')"
  shows "exec_ok L x' \<and> (\<forall>w. wbal (xbal L x') w = wbal (xbal L x) w + moved miner t w) \<and>
    dom (xbal L x) \<union> parties miner t \<subseteq> dom (xbal L x')"
proof (cases "t_isTransactionFee t")
  case True
  note c = updateLedger_credit_success [OF assms(1) disjI1 [OF True] assms(3)]
  then have cr: "credit (xbal L x) (t_to t) (t_amount t) = Some (xbal L x')" by blast
  show ?thesis using c wbal_credit [OF cr] credit_dom [OF cr] True
    by (auto simp: moved_def when0_def parties_def)
next
  case False
  note c = updateLedger_transfer_success [OF assms(1) False assms(2,3)]
  then have p: "pay (xbal L x) (t_from t) (t_to t) miner (t_amount t) (t_fee t) = Some (xbal L x')" by blast
  show ?thesis using c pay_wbal [OF p] False by (auto simp: moved_def parties_def)
qed

lemma run_transactions_moved:
  assumes "run_transactions C L miner fee b ts x = (Inr SUCCESS, x')" and "exec_ok L x" and "b \<noteq> 1"
  shows "exec_ok L x' \<and>
    (\<forall>w. wbal (xbal L x') w = wbal (xbal L x) w + (\<Sum>t\<leftarrow>ts. moved miner t w)) \<and>
    dom (xbal L x) \<union> (\<Union>t \<in> set ts. parties miner t) \<subseteq> dom (xbal L x')"
  using assms(1,2)
proof (induction ts arbitrary: x)
  case Nil
  then show ?case by simp
next
  case (Cons t ts)
  from Cons.prems(1) obtain y where y: "updateLedger C L t miner fee b x = (Inr SUCCESS, y)"
    "run_transactions C L miner fee b ts y = (Inr SUCCESS, x')"
    unfolding run_transactions_step by blast
  note m = updateLedger_moved [OF Cons.prems(2) assms(3) y(1)]
  note IH = Cons.IH [OF y(2) m [THEN conjunct1]]
  show ?case
  proof (intro conjI allI)
    show "exec_ok L x'" using IH by blast
    show "wbal (xbal L x') w = wbal (xbal L x) w + (\<Sum>t\<leftarrow>t # ts. moved miner t w)" for w
      using IH m by (simp add: add.assoc)
    show "dom (xbal L x) \<union> (\<Union>t \<in> set (t # ts). parties miner t) \<subseteq> dom (xbal L x')"
    proof -
      have d1: "dom (xbal L x) \<subseteq> dom (xbal L y)" "parties miner t \<subseteq> dom (xbal L y)"
        using m by simp_all
      have d2: "dom (xbal L y) \<subseteq> dom (xbal L x')" "(\<Union>t \<in> set ts. parties miner t) \<subseteq> dom (xbal L x')"
        using IH by simp_all
      from d1 d2 show ?thesis by (simp only: set_simps UN_insert Un_subset_iff) (blast intro: order_trans)
    qed
  qed
qed

text \<open>
  The state during \<open>RollbackBlock\<close> is the pair of the ledger and the transaction database.
  Neither reversal checks anything, so with writes that succeed it returns whenever the
  wallets involved exist.
\<close>

lemma revert_total:
  assumes "kv_writes L" and "ledger_ok L d" and "w \<in> dom (bal L d)"
  shows "\<exists>d'. revertSend L w a d = (Inr (), d') \<and> ledger_ok L d' \<and>
      wbal (bal L d') = (wbal (bal L d))(w := wbal (bal L d) w + a) \<and> dom (bal L d') = dom (bal L d)"
    and "\<exists>d'. revertDeposit L w a d = (Inr (), d') \<and> ledger_ok L d' \<and>
      wbal (bal L d') = (wbal (bal L d))(w := wbal (bal L d) w - a) \<and> dom (bal L d') = dom (bal L d)"
proof -
  from assms(3) obtain v where v: "bal L d w = Some v" by auto
  have w: "wbal (bal L d) w = v" by (simp add: v wbal_def)
  have u: "wbal ((bal L d)(w \<mapsto> v')) = (wbal (bal L d))(w := v')" for v' by (auto simp: wbal_def fun_eq_iff)
  have dm: "dom ((bal L d)(w \<mapsto> v')) = dom (bal L d)" for v' using assms(3) by auto
  obtain s1 where s1: "setWalletValue L w (v + a) d = (Inr (), s1)"
    using setWalletValue_total [OF assms(1)] by blast
  obtain s2 where s2: "setWalletValue L w (v - a) d = (Inr (), s2)"
    using setWalletValue_total [OF assms(1)] by blast
  have "revertSend L w a d = (Inr (), s1)" "revertDeposit L w a d = (Inr (), s2)"
    using s1 s2 v assms(2) by (simp_all add: revertSend_def revertDeposit_def bindE_Inr getWalletValue_bal)
  with setWalletValue_ok [OF assms(2) s1] setWalletValue_ok [OF assms(2) s2] w u dm
  show "\<exists>d'. revertSend L w a d = (Inr (), d') \<and> ledger_ok L d' \<and>
      wbal (bal L d') = (wbal (bal L d))(w := wbal (bal L d) w + a) \<and> dom (bal L d') = dom (bal L d)"
    "\<exists>d'. revertDeposit L w a d = (Inr (), d') \<and> ledger_ok L d' \<and>
      wbal (bal L d') = (wbal (bal L d))(w := wbal (bal L d) w - a) \<and> dom (bal L d') = dom (bal L d)"
    by simp_all
qed

lemma rollbackLedger_total:
  assumes w: "kv_writes L" and ok: "ledger_ok L d" and p: "parties miner t \<subseteq> dom (bal L d)"
  shows "\<exists>d'. rollbackLedger L t miner d = (Inr (), d') \<and> ledger_ok L d' \<and>
    (\<forall>w. wbal (bal L d') w = wbal (bal L d) w - moved miner t w) \<and> dom (bal L d') = dom (bal L d)"
proof (cases "t_isTransactionFee t")
  case True
  with revert_total(2) [OF w ok, of "t_to t" "t_amount t"] p show ?thesis
    by (auto simp: rollbackLedger_def Let_def parties_def moved_def when0_def)
next
  case False
  let ?f = "t_from t" and ?to = "t_to t" and ?a = "t_amount t" and ?fee = "t_fee t"
  have pf: "?f \<in> dom (bal L d)" "?to \<in> dom (bal L d)" and pm: "0 < ?fee \<Longrightarrow> miner \<in> dom (bal L d)"
    using p False by (auto simp: parties_def split: if_splits)
  have "\<exists>e. (if 0 < ?fee then bindE (revertDeposit L miner ?fee) (\<lambda>_. revertSend L ?f ?fee) else ok ()) d =
      (Inr (), e) \<and> ledger_ok L e \<and> dom (bal L e) = dom (bal L d) \<and>
      (\<forall>w. wbal (bal L e) w = wbal (bal L d) w - (when0 (w = miner) ?fee - when0 (w = ?f) ?fee))"
  proof (cases "0 < ?fee")
    case True
    from revert_total(2) [OF w ok pm [OF True], of ?fee] obtain d1 where
      d1: "revertDeposit L miner ?fee d = (Inr (), d1)" "ledger_ok L d1" "dom (bal L d1) = dom (bal L d)"
        "wbal (bal L d1) = (wbal (bal L d))(miner := wbal (bal L d) miner - ?fee)" by blast
    from revert_total(1) [OF w d1(2), of ?f ?fee] pf d1(3) obtain d2 where
      "revertSend L ?f ?fee d1 = (Inr (), d2)" "ledger_ok L d2" "dom (bal L d2) = dom (bal L d1)"
        "wbal (bal L d2) = (wbal (bal L d1))(?f := wbal (bal L d1) ?f + ?fee)" by blast
    with d1 True show ?thesis by (auto simp: bindE_Inr when0_def)
  next
    case False
    then have "?fee = 0" by (simp add: word_gt_0)
    with ok show ?thesis by (simp add: when0_def)
  qed
  then obtain e where e: "(if 0 < ?fee then bindE (revertDeposit L miner ?fee) (\<lambda>_. revertSend L ?f ?fee)
      else ok ()) d = (Inr (), e)" "ledger_ok L e" "dom (bal L e) = dom (bal L d)"
    "\<And>w. wbal (bal L e) w = wbal (bal L d) w - (when0 (w = miner) ?fee - when0 (w = ?f) ?fee)" by blast
  from revert_total(2) [OF w e(2), of ?to ?a] pf e(3) obtain d1 where
    d1: "revertDeposit L ?to ?a e = (Inr (), d1)" "ledger_ok L d1" "dom (bal L d1) = dom (bal L e)"
      "wbal (bal L d1) = (wbal (bal L e))(?to := wbal (bal L e) ?to - ?a)" by blast
  from revert_total(1) [OF w d1(2), of ?f ?a] pf d1(3) e(3) obtain d2 where
    d2: "revertSend L ?f ?a d1 = (Inr (), d2)" "ledger_ok L d2" "dom (bal L d2) = dom (bal L d1)"
      "wbal (bal L d2) = (wbal (bal L d1))(?f := wbal (bal L d1) ?f + ?a)" by blast
  have "rollbackLedger L t miner d = (Inr (), d2)"
    using False e(1) d1(1) d2(1) by (simp add: rollbackLedger_def Let_def bindE_Inr)
  moreover have "wbal (bal L d2) w = wbal (bal L d) w - moved miner t w" for w
    using False by (simp add: d2(4) d1(4) e(4) moved_def when0_def)
  ultimately show ?thesis using d2(2,3) d1(3) e(3) by (intro exI [of _ d2]) simp
qed

definition undo_step ::
  "crypto \<Rightarrow> 'd kv \<Rightarrow> wallet \<Rightarrow> transaction \<Rightarrow> ('d \<times> 'd, unit) cpp" where
  "undo_step C L miner t =
     bindE (zoom fst (\<lambda>d s. (d, snd s)) (rollbackLedger L t miner)) (\<lambda>_.
     if \<not> t_isTransactionFee t
     then zoom snd (\<lambda>d s. (fst s, d)) (removeTransaction C L t) else ok ())"

lemma RollbackBlock_steps:
  "RollbackBlock C L junk mem blk =
     forE (rev (copy_list mem (b_transactions blk))) (undo_step C L (find_miner junk (b_transactions blk)))"
  by (simp add: RollbackBlock_def undo_step_def [abs_def] Let_def)

lemma undo_step_total:
  assumes w: "kv_writes L" and ok: "ledger_ok L d" and p: "parties miner t \<subseteq> dom (bal L d)"
  shows "\<exists>d' tx'. undo_step C L miner t (d, tx) = (Inr (), (d', tx')) \<and> ledger_ok L d' \<and>
    (\<forall>w. wbal (bal L d') w = wbal (bal L d) w - moved miner t w) \<and> dom (bal L d') = dom (bal L d)"
proof -
  from rollbackLedger_total [OF assms] obtain d' where
    d': "rollbackLedger L t miner d = (Inr (), d')" "ledger_ok L d'" "dom (bal L d') = dom (bal L d)"
      "\<And>w. wbal (bal L d') w = wbal (bal L d) w - moved miner t w" by blast
  obtain tx' where "removeTransaction C L t tx = (Inr (), tx')"
    using kv_remove_total [OF w] unfolding removeTransaction_def by blast
  with d' show ?thesis
    by (cases "t_isTransactionFee t") (auto simp: undo_step_def bindE_Inr zoom_Inr zoom_def)
qed

lemma undo_steps_total:
  assumes w: "kv_writes L" and "ledger_ok L d" and "(\<Union>t \<in> set ts. parties miner t) \<subseteq> dom (bal L d)"
  shows "\<exists>d' tx'. forE ts (undo_step C L miner) (d, tx) = (Inr (), (d', tx')) \<and>
    ledger_ok L d' \<and> (\<forall>w. wbal (bal L d') w = wbal (bal L d) w - (\<Sum>t\<leftarrow>ts. moved miner t w))"
  using assms(2,3)
proof (induction ts arbitrary: d tx)
  case Nil
  then show ?case by simp
next
  case (Cons t ts)
  have "parties miner t \<subseteq> dom (bal L d)" using Cons.prems(2) by simp
  from undo_step_total [OF w Cons.prems(1) this] obtain d1 tx1 where
    1: "undo_step C L miner t (d, tx) = (Inr (), (d1, tx1))" "ledger_ok L d1" "dom (bal L d1) = dom (bal L d)"
      "\<And>w. wbal (bal L d1) w = wbal (bal L d) w - moved miner t w" by blast
  have "(\<Union>t \<in> set ts. parties miner t) \<subseteq> dom (bal L d1)" using Cons.prems(2) 1(3) by simp
  from Cons.IH [OF 1(2) this] obtain d' tx' where
    2: "forE ts (undo_step C L miner) (d1, tx1) = (Inr (), (d', tx'))" "ledger_ok L d'"
      "\<And>w. wbal (bal L d') w = wbal (bal L d1) w - (\<Sum>t\<leftarrow>ts. moved miner t w)" by blast
  have "forE (t # ts) (undo_step C L miner) (d, tx) = (Inr (), (d', tx'))"
    using 1(1) 2(1) by (simp add: bindE_Inr)
  moreover have "wbal (bal L d') w = wbal (bal L d) w - (\<Sum>t\<leftarrow>t # ts. moved miner t w)" for w
    by (simp add: 1(4) 2(3))
  ultimately show ?case using 2(2) by blast
qed

lemma sum_list_rev_copy:
  fixes f :: "transaction \<Rightarrow> amount"
  assumes "\<And>m t. f (tx_copy m t) = f t"
  shows "sum_list (map f (rev (copy_list mem ts))) = sum_list (map f ts)"
  using map_copy_list [of f, OF assms] by (simp add: rev_map [symmetric] sum_list_rev)

lemma set_parties_copy: "(\<Union>t \<in> set (copy_list mem ts). parties m t) = (\<Union>t \<in> set ts. parties m t)"
  by (induction ts arbitrary: mem) auto

lemma moved_eq: "tx_eq u t \<Longrightarrow> moved m u = moved m t" "tx_eq u t \<Longrightarrow> parties m u = parties m t"
  by (auto simp: tx_eq_iff moved_def parties_def fun_eq_iff)

lemma find_miner_eq: "list_all2 tx_eq us ts \<Longrightarrow> find_miner j us = find_miner j ts"
  by (induction rule: list_all2_induct) (auto simp: find_miner_def tx_eq_iff)

lemma moved_list_eq:
  "list_all2 tx_eq us ts \<Longrightarrow> map (\<lambda>t. moved m t w) us = map (\<lambda>t. moved m t w) ts \<and>
    (\<Union>t \<in> set us. parties m t) = (\<Union>t \<in> set ts. parties m t)"
  by (induction rule: list_all2_induct) (auto simp: moved_eq)

text \<open>
  A block that executed with success is undone exactly, also from an equal block, such as the
  one the database gives back.
\<close>

lemma ExecuteBlock_undone:
  assumes "kv_writes L" and "exec_ok L x" and "b_id blk \<noteq> 1"
    and e: "ExecuteBlock C L mem mem' blk txdb fee x = (Inr SUCCESS, x')"
    and same: "list_all2 tx_eq (b_transactions blk') (b_transactions blk)"
  shows "\<exists>d tx'. RollbackBlock C L junk mem'' blk' (x_db x', tx) = (Inr (), (d, tx')) \<and>
    ledger_ok L d \<and> wbal (bal L d) = wbal (xbal L x)"
proof -
  let ?ts = "b_transactions blk" and ?us = "b_transactions blk'"
  obtain miner where fm: "find_miner junk ?ts = miner"
    and r: "run_transactions C L miner fee (b_id blk) (copy_list mem' ?ts) x = (Inr SUCCESS, x')"
    using ExecuteBlock_parts [OF e] by metis
  from run_transactions_moved [OF r assms(2,3)] have
    m: "exec_ok L x'" "\<And>w. wbal (xbal L x') w = wbal (xbal L x) w + (\<Sum>t\<leftarrow>copy_list mem' ?ts. moved miner t w)"
      "(\<Union>t \<in> set ?ts. parties miner t) \<subseteq> dom (bal L (x_db x'))"
    by (auto simp: set_parties_copy xbal_def)
  have "(\<Union>t \<in> set (rev (copy_list mem'' ?us)). parties miner t) \<subseteq> dom (bal L (x_db x'))"
    using m(3) moved_list_eq [OF same] by (simp add: set_parties_copy)
  with undo_steps_total [OF assms(1), of "x_db x'"] m(1) obtain d tx' where
    d: "forE (rev (copy_list mem'' ?us)) (undo_step C L miner) (x_db x', tx) = (Inr (), (d, tx'))"
      "ledger_ok L d" "\<And>w. wbal (bal L d) w =
        wbal (bal L (x_db x')) w - (\<Sum>t\<leftarrow>rev (copy_list mem'' ?us). moved miner t w)"
    unfolding exec_ok_def by metis
  have "wbal (bal L d) w = wbal (xbal L x) w" for w
    using d(3) [of w] m(2) [of w] map_copy_list [of "\<lambda>t. moved miner t w" mem' ?ts]
      moved_list_eq [OF same, of miner w]
    by (simp add: sum_list_rev_copy xbal_def)
  then have "wbal (bal L d) = wbal (xbal L x)" by blast
  with d(1,2) show ?thesis
    unfolding RollbackBlock_steps find_miner_eq [OF same] fm by blast
qed

text \<open>The sample ledger after a block that pays \<open>amt\<close> from wallet 1 to wallet 2.\<close>

definition sample_paid :: "amount \<Rightarrow> (bytes \<times> bytes) list exec" where
  "sample_paid amt = snd (ExecuteBlock sample_crypto mem_kv sample_mem sample_mem
     (sample_block 2 [sample_transfer 1 2 amt 5, sample_fee 3 50]) [] 50 sample_exec)"

lemma sample_paid_tracks: "tracks mem_kv (xbal mem_kv sample_exec) (sample_paid amt)"
proof -
  have "tracks mem_kv (xbal mem_kv sample_exec) sample_exec"
    using sample_exec_ok by (simp add: tracks_def delta_def sample_exec_def)
  then show ?thesis unfolding sample_paid_def
    by (rule bookkeeping_tracks(1) [OF bookkeeping_ExecuteBlock _ prod.collapse [symmetric]])
qed

section \<open>Properties\<close>

text \<open>
  C15. \<open>Executor::Rollback\<close> by deltas: after a statement whose deltas account for the change
  of the balances since \<open>m0\<close>, it returns if and only if no wallet holds less than in \<open>m0\<close>,
  and then every balance is again that of \<open>m0\<close>. In every other case, that is after any
  statement by which some wallet lost money, it throws.
\<close>

theorem Rollback_iff_no_loss:
  assumes "kv_writes L" and "tracks L m0 x"
  shows "if \<forall>w. wbal m0 w \<le> wbal (xbal L x) w
    then \<exists>d'. Rollback L (x_deltas x) (x_db x) = (Inr (), d') \<and> ledger_ok L d' \<and> wbal (bal L d') = wbal m0
    else \<exists>msg d'. Rollback L (x_deltas x) (x_db x) = (Inl (Runtime msg), d')"
proof (cases "\<forall>w. wbal m0 w \<le> wbal (xbal L x) w")
  case True
  with Rollback_total [OF assms] obtain d' where "Rollback L (x_deltas x) (x_db x) = (Inr (), d')" by blast
  with True Rollback_returns [OF assms(2) this] show ?thesis by simp
next
  case False
  then obtain w where "wbal (xbal L x) w < wbal m0 w" by (auto simp: not_le)
  from Rollback_throws [OF assms(2) this] show ?thesis by (simp only: if_not_P [OF False])
qed

lemma Rollback_iff_no_loss_witness:
  "\<exists>msg d'. Rollback mem_kv (x_deltas (sample_paid 30)) (x_db (sample_paid 30)) =
     (Inl (Runtime msg), d')"
proof -
  have "wbal (xbal mem_kv (sample_paid 30)) (sample_wallet 1) < wbal (xbal mem_kv sample_exec) (sample_wallet 1)"
    by code_simp
  then have "\<not> (\<forall>w. wbal (xbal mem_kv sample_exec) w \<le> wbal (xbal mem_kv (sample_paid 30)) w)"
    using not_le by blast
  with Rollback_iff_no_loss [OF mem_kv_writes sample_paid_tracks [of 30]] show ?thesis by simp
qed



end
