(* ===== verification/MerkleTree.thy ===== *)
theory MerkleTree
  imports Block "HOL-Library.Char_ord"
begin

text \<open>
  \<open>core/merkle_tree.cpp\<close>. \<open>setItems\<close> sorts the caller's vector in place, by descending
  hexadecimal hash, and builds the tree by a queue that repeatedly joins its two front
  nodes; it repeats the last leaf when the number of leaves is odd. An empty vector leads
  to \<open>front()\<close> of an empty queue, which is undefined behaviour.
\<close>

datatype hash_tree = Leaf hash | Branch hash hash_tree hash_tree

primrec tree_hash :: "hash_tree \<Rightarrow> hash" where
  "tree_hash (Leaf h) = h"
| "tree_hash (Branch h l r) = h"

definition concat_hash :: "crypto \<Rightarrow> hash \<Rightarrow> hash \<Rightarrow> hash" where
  "concat_hash C a b = sha256 C (a @ b)"

definition join :: "crypto \<Rightarrow> hash_tree \<Rightarrow> hash_tree \<Rightarrow> hash_tree" where
  "join C a b = Branch (concat_hash C (tree_hash a) (tree_hash b)) a b"

function build_queue :: "crypto \<Rightarrow> hash_tree list \<Rightarrow> exn + hash_tree" where
  "build_queue C [] = Inl UB"
| "build_queue C [t] = Inr t"
| "build_queue C (a # b # q) = build_queue C (q @ [join C a b])"
  by pat_completeness auto
termination
  by (relation "measure (\<lambda>(C, q). length q)") auto

text \<open>The comparator of the sort: descending hexadecimal text of the hash.\<close>

definition hash_order :: "crypto \<Rightarrow> transaction \<Rightarrow> transaction \<Rightarrow> bool" where
  "hash_order C a b = (SHA256toString (tx_getHash C a) > SHA256toString (tx_getHash C b))"

definition leaf_row :: "hash list \<Rightarrow> hash_tree list" where
  "leaf_row hs =
     (if length hs mod 2 = 1 then map Leaf hs @ [Leaf (last hs)] else map Leaf hs)"

record merkle_tree =
  mt_root :: hash_tree
  mt_fringe :: "hash list"

text \<open>
  \<open>mem\<close> is the memory of the sorted elements (moving a transaction inside \<open>std::sort\<close>
  copies it) and \<open>mem'\<close> that of the copies the second loop hashes. The result is the tree
  and the caller's vector as it is left.
\<close>

definition setItems ::
  "crypto \<Rightarrow> (nat \<Rightarrow> transaction) \<Rightarrow> (nat \<Rightarrow> transaction) \<Rightarrow> transaction list \<Rightarrow>
   exn + (merkle_tree \<times> transaction list)" where
  "setItems C mem mem' items =
     (let sorted_items = copy_list mem (std_sort (hash_order C) items);
          hs = map (tx_getHash C) (copy_list mem' sorted_items)
      in case build_queue C (leaf_row hs) of
           Inl e \<Rightarrow> Inl e
         | Inr t \<Rightarrow> Inr (\<lparr>mt_root = t, mt_fringe = hs\<rparr>, sorted_items))"

definition getRootHash :: "merkle_tree \<Rightarrow> hash" where
  "getRootHash m = tree_hash (mt_root m)"

text \<open>
  \<open>getProof\<close> climbs from a leaf to the root along the parent pointers. The chain lists the
  nodes from the leaf to the root, each with the side its predecessor hangs on. Every
  level builds a result that the next level drops, so the root's is returned: a copy of
  the root whose two subtrees are the original ones.
\<close>

datatype side = FromLeft | FromRight

definition proof_node :: "(side \<times> hash_tree) option \<Rightarrow> hash_tree \<Rightarrow> hash_tree" where
  "proof_node prev fringe =
     (case (prev, fringe) of
        (None, _) \<Rightarrow> Leaf (tree_hash fringe)
      | (Some (FromRight, p), Branch h l r) \<Rightarrow> Branch h l p
      | (Some (FromLeft, p), Branch h l r) \<Rightarrow> Branch h p r
      | (Some _, Leaf h) \<Rightarrow> Leaf h)"

fun getProof :: "(side \<times> hash_tree) option \<Rightarrow> hash_tree \<Rightarrow> (side \<times> hash_tree) list \<Rightarrow> hash_tree" where
  "getProof prev fringe [] = proof_node prev fringe"
| "getProof prev fringe ((s, parent) # ps) = getProof (Some (s, fringe)) parent ps"

text \<open>
  A leaf with hash \<open>h\<close> and the chain above it. The code keeps a map from hashes to leaf
  nodes; when two leaves share a hash, the proof is the same from either.
\<close>

fun find_leaf :: "hash \<Rightarrow> hash_tree \<Rightarrow> (hash_tree \<times> (side \<times> hash_tree) list) option" where
  "find_leaf h (Leaf k) = (if h = k then Some (Leaf k, []) else None)"
| "find_leaf h (Branch k l r) =
     (case find_leaf h l of
        Some (f, c) \<Rightarrow> Some (f, c @ [(FromLeft, Branch k l r)])
      | None \<Rightarrow> (case find_leaf h r of
          Some (f, c) \<Rightarrow> Some (f, c @ [(FromRight, Branch k l r)])
        | None \<Rightarrow> None))"

definition getMerkleProof :: "crypto \<Rightarrow> merkle_tree \<Rightarrow> transaction \<Rightarrow> hash_tree option" where
  "getMerkleProof C m t =
     (let h = tx_getHash C t in
      if h \<in> set (mt_fringe m) then
        (case find_leaf h (mt_root m) of
           None \<Rightarrow> None
         | Some (f, c) \<Rightarrow> Some (getProof None f c))
      else None)"

section \<open>Lemmas\<close>

primrec leaves :: "hash_tree \<Rightarrow> hash list" where
  "leaves (Leaf h) = [h]"
| "leaves (Branch h l r) = leaves l @ leaves r"

text \<open>Every inner node is the hash of its children, the check the tests call a valid proof.\<close>

primrec tree_valid :: "crypto \<Rightarrow> hash_tree \<Rightarrow> bool" where
  "tree_valid C (Leaf h) = True"
| "tree_valid C (Branch h l r) =
     (h = concat_hash C (tree_hash l) (tree_hash r) \<and> tree_valid C l \<and> tree_valid C r)"

lemma build_queue_total: "q \<noteq> [] \<Longrightarrow> \<exists>t. build_queue C q = Inr t"
  by (induction C q rule: build_queue.induct) auto

lemma build_queue_props:
  "build_queue C q = Inr t \<Longrightarrow>
     (list_all (tree_valid C) q \<longrightarrow> tree_valid C t) \<and>
     mset (leaves t) = mset (concat (map leaves q))"
proof (induction C q rule: build_queue.induct)
  case (3 C a b q)
  from "3.prems" have "build_queue C (q @ [join C a b]) = Inr t" by simp
  from "3.IH" [OF this] show ?case by (auto simp: join_def ac_simps)
qed auto

lemma build_queue_branch: "build_queue C (a # b # q) = Inr t \<Longrightarrow> \<exists>h l r. t = Branch h l r"
proof (induction "length q" arbitrary: a b q)
  case 0
  then show ?case by (auto simp: join_def)
next
  case (Suc n)
  then obtain c q' where q: "q = c # q'" by (cases q) auto
  then have "q @ [join C a b] = c # (q' @ [join C a b])" by simp
  then obtain d q'' where d: "q @ [join C a b] = c # d # q''"
    by (cases "q' @ [join C a b]") auto
  moreover have "length q'' = n"
    using Suc.hyps(2) q arg_cong [OF d, of length] by simp
  ultimately show ?case using Suc.hyps(1) [of q'' c d] Suc.prems by simp
qed

lemma leaf_row_leaves: "concat (map leaves (leaf_row hs)) =
    (if length hs mod 2 = 1 then hs @ [last hs] else hs)"
  by (induction hs) (auto simp: leaf_row_def comp_def)

lemma concat_map_singleton_leaf [simp]: "concat (map leaves (map Leaf hs)) = hs"
  by (induction hs) auto

lemma list_all_leaf_row [simp]: "list_all (tree_valid C) (leaf_row hs)"
  by (auto simp: leaf_row_def list_all_iff)

lemma leaf_row_two: "hs \<noteq> [] \<Longrightarrow> \<exists>a b q. leaf_row hs = a # b # q"
proof (cases hs)
  case (Cons x xs)
  then show ?thesis by (cases xs) (auto simp: leaf_row_def)
qed simp

text \<open>Climbing the chain of a leaf gives back the whole tree.\<close>

lemma getProof_snoc:
  "getProof p f (c @ [(s, t)]) =
     (case c of [] \<Rightarrow> proof_node (Some (s, f)) t
      | _ \<Rightarrow> proof_node (Some (s, snd (last c))) t)"
proof (induction c arbitrary: p f)
  case Nil
  then show ?case by simp
next
  case (Cons x c)
  then show ?case by (cases x; cases c) auto
qed

lemma find_leaf_chain:
  "find_leaf h t = Some (f, c) \<Longrightarrow> f = Leaf h \<and> (if c = [] then t = f else snd (last c) = t)"
proof (induction h t arbitrary: f c rule: find_leaf.induct)
  case (1 h k)
  then show ?case by (auto split: if_splits)
next
  case (2 h k l r)
  then show ?case by (fastforce split: option.splits prod.splits)
qed

lemma find_leaf_iff: "find_leaf h t \<noteq> None \<longleftrightarrow> h \<in> set (leaves t)"
  by (induction h t rule: find_leaf.induct) (auto split: option.splits)

lemma find_leaf_proof:
  assumes "find_leaf h (Branch k l r) = Some (f, c)"
  shows "getProof None f c = Branch k l r"
proof (cases "find_leaf h l")
  case None
  with assms obtain c' where c: "find_leaf h r = Some (f, c')" "c = c' @ [(FromRight, Branch k l r)]"
    by (auto split: option.splits)
  with find_leaf_chain [OF c(1)] show ?thesis
    by (cases c') (auto simp: getProof_snoc proof_node_def split: list.splits)
next
  case (Some a)
  with assms obtain c' where c: "find_leaf h l = Some (f, c')" "c = c' @ [(FromLeft, Branch k l r)]"
    by (auto split: option.splits prod.splits)
  with find_leaf_chain [OF c(1)] show ?thesis
    by (cases c') (auto simp: getProof_snoc proof_node_def split: list.splits)
qed

lemma setItems_total: "items \<noteq> [] \<Longrightarrow> \<exists>m items'. setItems C mem mem' items = Inr (m, items')"
proof -
  let ?hs = "map (tx_getHash C) (copy_list mem' (copy_list mem (std_sort (hash_order C) items)))"
  assume "items \<noteq> []"
  then have "?hs \<noteq> []" by (metis length_0_conv length_copy_list length_map length_std_sort)
  then have "leaf_row ?hs \<noteq> []" by (simp add: leaf_row_def)
  then obtain t where "build_queue C (leaf_row ?hs) = Inr t" using build_queue_total by blast
  then show ?thesis by (simp add: setItems_def Let_def)
qed

lemma setItems_facts:
  assumes "setItems C mem mem' items = Inr (m, items')"
  shows "items' = copy_list mem (std_sort (hash_order C) items)"
    and "mt_fringe m = map (tx_getHash C) (copy_list mem' items')"
    and "build_queue C (leaf_row (mt_fringe m)) = Inr (mt_root m)"
    and "tree_valid C (mt_root m)"
    and "set (leaves (mt_root m)) = set (mt_fringe m)"
proof -
  show 1: "items' = copy_list mem (std_sort (hash_order C) items)"
    and 2: "mt_fringe m = map (tx_getHash C) (copy_list mem' items')"
    and 3: "build_queue C (leaf_row (mt_fringe m)) = Inr (mt_root m)"
    using assms by (auto simp: setItems_def Let_def split: sum.splits)
  from build_queue_props [OF 3]
  have v: "tree_valid C (mt_root m)" and l: "mset (leaves (mt_root m)) =
      mset (concat (map leaves (leaf_row (mt_fringe m))))" by simp_all
  show "tree_valid C (mt_root m)" by (rule v)
  have "set (leaves (mt_root m)) = set (concat (map leaves (leaf_row (mt_fringe m))))"
    using l by (metis set_mset_mset)
  moreover have "xs \<noteq> [] \<Longrightarrow> set (xs @ [last xs]) = set xs" for xs :: "hash list" by auto
  ultimately show "set (leaves (mt_root m)) = set (mt_fringe m)"
    unfolding leaf_row_leaves by (cases "mt_fringe m = []") auto
qed

text \<open>The root is that of the hashes in descending order: it ignores the order of the items.\<close>

definition row_root :: "crypto \<Rightarrow> hash list \<Rightarrow> exn + hash" where
  "row_root C hs = map_sum id tree_hash (build_queue C (leaf_row hs))"

lemma map_hash_sorted:
  "map (tx_getHash C) (std_sort (hash_order C) items) =
     map hexDecode (rev (sort (map (\<lambda>t. SHA256toString (tx_getHash C t)) items)))"
proof -
  have "map (\<lambda>t. SHA256toString (tx_getHash C t)) (std_sort (hash_order C) items) =
      rev (sort (map (\<lambda>t. SHA256toString (tx_getHash C t)) items))"
    by (rule rev_map_std_sort_key) (simp add: hash_order_def)
  then have "map hexDecode (map (\<lambda>t. SHA256toString (tx_getHash C t)) (std_sort (hash_order C) items)) =
      map hexDecode (rev (sort (map (\<lambda>t. SHA256toString (tx_getHash C t)) items)))"
    by (rule arg_cong)
  then show ?thesis by (simp add: comp_def SHA256toString_def)
qed

lemma sort_mset_eq: "mset xs = mset ys \<Longrightarrow> sort xs = sort ys"
  by (metis properties_for_sort mset_sort sorted_sort)

section \<open>Properties\<close>

text \<open>
  C19. Building the tree of a non-empty list returns, every inner node is the hash of its
  children, and a transaction has a proof exactly when its hash is one of the leaves; the
  proof is itself a valid tree, has the transaction's hash among its leaves and carries the
  root hash.
\<close>

theorem merkle_proofs:
  assumes "items \<noteq> []"
  shows "\<exists>m items'. setItems C mem mem' items = Inr (m, items') \<and> tree_valid C (mt_root m) \<and>
    (\<forall>t. case getMerkleProof C m t of
       None \<Rightarrow> tx_getHash C t \<notin> set (mt_fringe m)
     | Some p \<Rightarrow> tx_getHash C t \<in> set (leaves p) \<and> tree_valid C p \<and> tree_hash p = getRootHash m)"
proof -
  from setItems_total [OF assms] obtain m items' where m: "setItems C mem mem' items = Inr (m, items')"
    by blast
  note f = setItems_facts [OF m]
  have "mt_fringe m \<noteq> []"
    using f(1,2) assms by (metis length_0_conv length_copy_list length_map length_std_sort)
  then obtain a b q where "leaf_row (mt_fringe m) = a # b # q" using leaf_row_two by blast
  with f(3) build_queue_branch obtain k l r where root: "mt_root m = Branch k l r" by metis
  have "case getMerkleProof C m t of
       None \<Rightarrow> tx_getHash C t \<notin> set (mt_fringe m)
     | Some p \<Rightarrow> tx_getHash C t \<in> set (leaves p) \<and> tree_valid C p \<and> tree_hash p = getRootHash m" for t
  proof (cases "tx_getHash C t \<in> set (mt_fringe m)")
    case False
    then show ?thesis by (simp add: getMerkleProof_def)
  next
    case True
    then have "tx_getHash C t \<in> set (leaves (Branch k l r))" using f(5) root by simp
    then obtain g c where g: "find_leaf (tx_getHash C t) (Branch k l r) = Some (g, c)"
      using find_leaf_iff [of "tx_getHash C t" "Branch k l r"] by fastforce
    with find_leaf_proof [OF g] True f(4,5) show ?thesis
      by (simp add: getMerkleProof_def root getRootHash_def)
  qed
  with m f(4) show ?thesis by blast
qed

lemma merkle_proofs_witness:
  "\<exists>m items'. setItems sample_crypto sample_mem sample_mem
     [sample_transfer 1 2 3 0, sample_fee 3 50, sample_transfer 2 1 4 0] = Inr (m, items') \<and>
     tree_valid sample_crypto (mt_root m)"
  using merkle_proofs [of "[sample_transfer 1 2 3 0, sample_fee 3 50, sample_transfer 2 1 4 0]"
      sample_crypto sample_mem sample_mem] by blast

lemma copy_list_nonce:
  "(\<And>i. t_nonce (mem i) = n) \<Longrightarrow> (\<And>t. t \<in> set ts \<Longrightarrow> t_nonce t = n) \<Longrightarrow> copy_list mem ts = ts"
  by (rule copy_list_id) simp

lemma setItems_root:
  assumes "setItems C mem mem' items = Inr (m, items')"
    and "\<And>i. t_nonce (mem i) = n" "\<And>i. t_nonce (mem' i) = n" "\<And>t. t \<in> set items \<Longrightarrow> t_nonce t = n"
  shows "row_root C (map (tx_getHash C) (std_sort (hash_order C) items)) = Inr (getRootHash m)"
proof -
  note f = setItems_facts [OF assms(1)]
  have "items' = std_sort (hash_order C) items" unfolding f(1)
    by (rule copy_list_nonce) (use assms in auto)
  moreover from this have "copy_list mem' items' = items'"
    by (intro copy_list_nonce [where n = n]) (use assms in auto)
  ultimately show ?thesis using f(2,3) by (simp add: row_root_def getRootHash_def)
qed



text \<open>
  An odd row repeats its last leaf, so the root does not determine the list: a block with
  one transaction and the block that has it twice carry the same Merkle root.
\<close>

lemma merkle_root_duplicate:
  assumes "\<forall>i. t_nonce (mem i) = t_nonce t \<and> t_nonce (mem' i) = t_nonce t"
  shows "map_sum id (\<lambda>r. getRootHash (fst r)) (setItems C mem mem' [t]) =
    map_sum id (\<lambda>r. getRootHash (fst r)) (setItems C mem mem' [t, t])"
proof -
  from setItems_total [of "[t]" C mem mem'] obtain m xs where m: "setItems C mem mem' [t] = Inr (m, xs)" by blast
  from setItems_total [of "[t, t]" C mem mem'] obtain m2 ys where m2: "setItems C mem mem' [t, t] = Inr (m2, ys)" by blast
  have "\<And>i. t_nonce (mem i) = t_nonce t" "\<And>i. t_nonce (mem' i) = t_nonce t" using assms by auto
  from setItems_root [OF m this] setItems_root [OF m2 this] have "getRootHash m = getRootHash m2"
    by (simp add: row_root_def leaf_row_def hash_order_def)
  with m m2 show ?thesis by simp
qed

lemma merkle_root_duplicate_witness:
  "map_sum id (\<lambda>r. getRootHash (fst r)) (setItems sample_crypto sample_mem sample_mem [sample_fee 3 50]) =
   map_sum id (\<lambda>r. getRootHash (fst r)) (setItems sample_crypto sample_mem sample_mem [sample_fee 3 50, sample_fee 3 50])"
  by (rule merkle_root_duplicate) (simp add: sample_mem_def sample_fee_def sample_transfer_def)

end
