(* ===== verification/Bigint.thy ===== *)
theory Bigint
  imports Prelude
begin

text \<open>
  \<open>external/bigint/bigint.cpp\<close> (namespace \<open>Dodecahedron\<close>), the arithmetic behind the total
  work of a chain, and \<open>addWork\<close> and \<open>removeWork\<close> of \<open>core/crypto.cpp\<close>.

  A number is a vector of limbs in base \<open>10 ^ 9\<close>, the least significant first, with a sign
  flag and the scratch member \<open>skip\<close> that the multiplication uses; the member \<open>base\<close> never
  changes. \<open>bval\<close> is the value of the limbs. The limbs and the carries of limbs in range fit
  the \<open>int\<close> and \<open>long long\<close> of the code, so they are integers here. \<open>None\<close> stands for a
  call that does not return normally: it runs for ever or leaves the bounds of a vector.
\<close>

section \<open>Data\<close>

definition BASE :: int where
  "BASE = 1000000000"

record bigint =
  bi_number :: "int list"
  bi_positive :: bool
  bi_skip :: nat

function bi_limbs :: "int \<Rightarrow> int list" where
  "bi_limbs v = (if v \<le> 0 then [] else (v mod BASE) # bi_limbs (v div BASE))"
  by pat_completeness auto
termination
  by (relation "measure nat") (auto simp: BASE_def)

declare bi_limbs.simps [simp del]

definition bi_empty :: bigint where
  "bi_empty = \<lparr>bi_number = [], bi_positive = True, bi_skip = 0\<rparr>"

definition bi_of_int :: "int \<Rightarrow> bigint" where
  "bi_of_int v = \<lparr>bi_number = bi_limbs \<bar>v\<bar>, bi_positive = (0 \<le> v), bi_skip = 0\<rparr>"

text \<open>
  Assigning a \<open>long long\<close> replaces the limbs only; its \<open>do\<close> loop stores one limb for zero,
  where the constructor stores none.
\<close>

definition bi_assign :: "int \<Rightarrow> bigint \<Rightarrow> bigint" where
  "bi_assign a b =
     b\<lparr>bi_number := (if a = 0 then [0] else map (\<lambda>d. sgn a * d) (bi_limbs \<bar>a\<bar>))\<rparr>"

section \<open>Addition and subtraction\<close>

text \<open>The loop of \<open>operator-=\<close>; past the end of its own limbs it keeps writing the last one.\<close>

definition sub_digit :: "int \<Rightarrow> int \<times> int" where
  "sub_digit d = (if d < 0 then (d + BASE, - 1) else (d mod BASE, d div BASE))"

fun sub_loop :: "int list \<Rightarrow> int list \<Rightarrow> int list \<Rightarrow> int \<Rightarrow> (int list \<times> int) option" where
  "sub_loop ds [] [] dif = Some (ds, dif)"
| "sub_loop ds (x # xs) [] dif =
     (let (v, c) = sub_digit (dif + x) in sub_loop (ds @ [v]) xs [] c)"
| "sub_loop ds (x # xs) (y # ys) dif =
     (let (v, c) = sub_digit (dif + x - y) in sub_loop (ds @ [v]) xs ys c)"
| "sub_loop ds [] (y # ys) dif =
     (if ds = [] then None
      else let (v, c) = sub_digit (dif - y) in sub_loop (butlast ds @ [v]) [] ys c)"

function bi_strip :: "int list \<Rightarrow> int list" where
  "bi_strip xs = (if 1 < length xs \<and> last xs = 0 then bi_strip (butlast xs) else xs)"
  by pat_completeness auto
termination
  by (relation "measure length") auto

declare bi_strip.simps [simp del]

definition bi_sub :: "bigint \<Rightarrow> bigint \<Rightarrow> bigint option" where
  "bi_sub a b =
     (case sub_loop [] (bi_number a) (bi_number b) 0 of
        None \<Rightarrow> None
      | Some (ds, dif) \<Rightarrow>
          Some (a\<lparr>bi_number := bi_strip ds,
                  bi_positive := (if dif < 0 then False else bi_positive a)\<rparr>))"

fun add_loop :: "int list \<Rightarrow> int list \<Rightarrow> int \<Rightarrow> int list" where
  "add_loop [] [] s = (if s \<noteq> 0 then [1] else [])"
| "add_loop (x # xs) [] s = ((s + x) mod BASE) # add_loop xs [] ((s + x) div BASE)"
| "add_loop [] (y # ys) s = ((s + y) mod BASE) # add_loop [] ys ((s + y) div BASE)"
| "add_loop (x # xs) (y # ys) s =
     ((s + x + y) mod BASE) # add_loop xs ys ((s + x + y) div BASE)"

definition bi_add :: "bigint \<Rightarrow> bigint \<Rightarrow> bigint option" where
  "bi_add a b =
     (if \<not> bi_positive b then bi_sub a b
      else Some (a\<lparr>bi_number := add_loop (bi_number a) (bi_number b) 0\<rparr>))"

section \<open>Multiplication\<close>

text \<open>
  \<open>operator+=(long long)\<close> adds to the limbs from position \<open>skip\<close> on; \<open>initial\<close> is the flag
  of the first round. At the end of the vector each round appends a limb and fills it in the
  next one. When \<open>skip\<close> exceeds the size, the insertion invalidates the iterator the loop
  goes on with.
\<close>

fun add_ll_loop :: "int list \<Rightarrow> int \<Rightarrow> bool \<Rightarrow> int list" where
  "add_ll_loop [] b initial = (if b = 0 then (if initial then [0] else []) else bi_limbs b)"
| "add_ll_loop (x # xs) b initial =
     (if b = 0 \<and> \<not> initial then x # xs
      else ((x + b mod BASE) mod BASE) #
        add_ll_loop xs (b div BASE + (x + b mod BASE) div BASE) False)"

definition bi_add_ll :: "bigint \<Rightarrow> int \<Rightarrow> bigint option" where
  "bi_add_ll a b =
     (if length (bi_number a) < bi_skip a then None
      else Some (a\<lparr>bi_number := take (bi_skip a) (bi_number a) @
                    add_ll_loop (drop (bi_skip a) (bi_number a)) b True\<rparr>))"

fun mul_int_loop :: "int list \<Rightarrow> int \<Rightarrow> int \<Rightarrow> int list" where
  "mul_int_loop [] b s = (if s \<noteq> 0 then [s] else [])"
| "mul_int_loop (x # xs) b s =
     ((s + x * b) mod BASE) # mul_int_loop xs b ((s + x * b) div BASE)"

definition bi_mul_int :: "bigint \<Rightarrow> int \<Rightarrow> bigint" where
  "bi_mul_int a b = a\<lparr>bi_number := mul_int_loop (bi_number a) b 0\<rparr>"

fun mul_row :: "bigint \<Rightarrow> int \<Rightarrow> nat \<Rightarrow> nat \<Rightarrow> int list \<Rightarrow> bigint option" where
  "mul_row c x i j [] = Some c"
| "mul_row c x i j (y # ys) =
     Option.bind (bi_add_ll (c\<lparr>bi_skip := i + j\<rparr>) (x * y)) (\<lambda>c. mul_row c x i (Suc j) ys)"

fun mul_rows :: "bigint \<Rightarrow> nat \<Rightarrow> int list \<Rightarrow> int list \<Rightarrow> bigint option" where
  "mul_rows c i [] ys = Some c"
| "mul_rows c i (x # xs) ys =
     Option.bind (mul_row c x i 0 ys) (\<lambda>c. mul_rows c (Suc i) xs ys)"

definition bi_mul :: "bigint \<Rightarrow> bigint \<Rightarrow> bigint option" where
  "bi_mul a b =
     (if length (bi_number b) = 1 then Some (bi_mul_int a (hd (bi_number b)))
      else map_option (\<lambda>c. c\<lparr>bi_skip := 0\<rparr>) (mul_rows bi_empty 0 (bi_number a) (bi_number b)))"

section \<open>Powers\<close>

text \<open>
  \<open>closestPower\<close> starts at 1. The recursion keeps the powers it computed in \<open>lookup\<close>. For
  the power 0 it calls itself with 0 again, so it never returns.
\<close>

function closest_power :: "int \<Rightarrow> int \<Rightarrow> int" where
  "closest_power c pw =
     (if 0 < c \<and> c < pw then closest_power (2 * c) pw else c div 2)"
  by pat_completeness auto
termination
  by (relation "measure (\<lambda>(c, pw). nat (pw - c))") auto

declare closest_power.simps [simp del]

partial_function (option) bi_pow_rec ::
  "bigint \<Rightarrow> int \<Rightarrow> (int \<Rightarrow> bigint option) \<Rightarrow> (bigint \<times> (int \<Rightarrow> bigint option)) option" where
  "bi_pow_rec b pw lookup =
     (if pw = 1 then Some (b, lookup)
      else case lookup pw of
        Some r \<Rightarrow> Some (r, lookup)
      | None \<Rightarrow>
          (let c = closest_power 1 pw;
               l = (if pw = c then pw div 2 else c);
               r = (if pw = c then pw div 2 else pw - c)
           in Option.bind (bi_pow_rec b l lookup) (\<lambda>p.
              Option.bind (bi_pow_rec b r (snd p)) (\<lambda>q.
              Option.bind (bi_mul (fst p) (fst q)) (\<lambda>m. Some (m, (snd q)(pw \<mapsto> m)))))))"

declare bi_pow_rec.simps [code]

definition bi_pow :: "bigint \<Rightarrow> int \<Rightarrow> bigint option" where
  "bi_pow b pw =
     (let b' = (if pw mod 2 = 0 \<and> \<not> bi_positive b then b\<lparr>bi_positive := True\<rparr> else b) in
      map_option fst (bi_pow_rec b' pw (\<lambda>_. None)))"

section \<open>Comparison\<close>

fun cmp_limbs :: "int \<Rightarrow> int list \<Rightarrow> int list \<Rightarrow> int" where
  "cmp_limbs check (x # xs) (y # ys) =
     (if x < y then - 1 * check else if x > y then check else cmp_limbs check xs ys)"
| "cmp_limbs check _ _ = 0"

definition bi_compare :: "bigint \<Rightarrow> bigint \<Rightarrow> int" where
  "bi_compare a b =
     (if bi_positive a \<and> \<not> bi_positive b then 1
      else if \<not> bi_positive a \<and> bi_positive b then - 1
      else let check = (if \<not> bi_positive a \<and> \<not> bi_positive b then - 1 else 1) in
        if length (bi_number a) < length (bi_number b) then - 1 * check
        else if length (bi_number a) > length (bi_number b) then check
        else cmp_limbs check (rev (bi_number a)) (rev (bi_number b)))"

definition bi_less :: "bigint \<Rightarrow> bigint \<Rightarrow> bool" where
  "bi_less a b = (bi_compare a b = - 1)"

definition bi_greater :: "bigint \<Rightarrow> bigint \<Rightarrow> bool" where
  "bi_greater a b = (bi_compare a b = 1)"

definition bi_eq :: "bigint \<Rightarrow> bigint \<Rightarrow> bool" where
  "bi_eq a b = (bi_compare a b = 0)"

section \<open>Decimal text\<close>

fun dec :: "nat \<Rightarrow> string" where
  "dec n = (if n < 10 then [char_of (48 + n)] else dec (n div 10) @ [char_of (48 + n mod 10)])"

declare dec.simps [simp del]

fun segment_length :: "nat \<Rightarrow> nat" where
  "segment_length n = (if n = 0 then 0 else Suc (segment_length (n div 10)))"

declare segment_length.simps [simp del]

definition pad9 :: "int \<Rightarrow> string" where
  "pad9 d =
     replicate (9 - segment_length (nat d)) (CHR ''0'') @ (if d \<noteq> 0 then dec (nat d) else [])"

definition bi_to_string :: "bigint \<Rightarrow> string" where
  "bi_to_string a =
     (case dropWhile (\<lambda>d. d = 0) (rev (bi_number a)) of
        [] \<Rightarrow> ''0''
      | d # ds \<Rightarrow> (if \<not> bi_positive a then ''-'' else []) @ dec (nat d) @ concat (map pad9 ds))"

definition is_digit :: "char \<Rightarrow> bool" where
  "is_digit c \<longleftrightarrow> 48 \<le> (of_char c :: nat) \<and> (of_char c :: nat) \<le> 57"

definition digits_val :: "string \<Rightarrow> int" where
  "digits_val cs = foldr (\<lambda>c v. int (of_char c - 48 :: nat) + 10 * v) cs 0"

text \<open>
  \<open>Bigint(std::string)\<close> reads the text from its end, at most nine digits a time; the argument
  is the text still to read, reversed. When a round finds no digit, the loop never ends.
\<close>

function str_limbs :: "bool \<Rightarrow> string \<Rightarrow> int list option" where
  "str_limbs positive rs =
     (if rs = [] then Some []
      else if \<not> positive \<and> length rs \<le> 1 then Some []
      else let chunk = takeWhile is_digit (take 9 rs) in
        if chunk = [] then None
        else map_option ((#) (digits_val chunk)) (str_limbs positive (drop (length chunk) rs)))"
  by pat_completeness auto
termination
  by (relation "measure (\<lambda>(p, rs). length rs)") (auto simp: takeWhile_eq_Nil_iff)

declare str_limbs.simps [simp del]

definition bi_of_string :: "string \<Rightarrow> bigint option" where
  "bi_of_string s =
     (let positive = (s = [] \<or> hd s \<noteq> CHR ''-'') in
      map_option (\<lambda>ds. \<lparr>bi_number = ds, bi_positive = positive, bi_skip = 0\<rparr>)
        (str_limbs positive (rev s)))"

section \<open>The work of a chain\<close>

definition addWork :: "bigint \<Rightarrow> u32 \<Rightarrow> bigint option" where
  "addWork previousWork challengeSize =
     Option.bind (bi_pow (bi_of_int 2) (sint challengeSize)) (bi_add previousWork)"

definition removeWork :: "bigint \<Rightarrow> u32 \<Rightarrow> bigint option" where
  "removeWork previousWork challengeSize =
     Option.bind (bi_pow (bi_of_int 2) (sint challengeSize)) (bi_sub previousWork)"

section \<open>Values\<close>

definition bval :: "int list \<Rightarrow> int" where
  "bval xs = foldr (\<lambda>d v. d + BASE * v) xs 0"

definition limbs_ok :: "int list \<Rightarrow> bool" where
  "limbs_ok xs \<longleftrightarrow> (\<forall>d \<in> set xs. 0 \<le> d \<and> d < BASE)"

lemma bval_simps [simp]: "bval [] = 0" "bval (d # ds) = d + BASE * bval ds"
  by (simp_all add: bval_def)

lemma limbs_ok_simps [simp]:
  "limbs_ok []" "limbs_ok (d # ds) \<longleftrightarrow> 0 \<le> d \<and> d < BASE \<and> limbs_ok ds"
  "limbs_ok (xs @ ys) \<longleftrightarrow> limbs_ok xs \<and> limbs_ok ys"
  by (auto simp: limbs_ok_def)

lemma BASE_pos [simp]: "0 < BASE" "BASE \<noteq> 0" "0 \<le> BASE"
  by (simp_all add: BASE_def)

lemma bval_nonneg: "limbs_ok xs \<Longrightarrow> 0 \<le> bval xs"
  by (induction xs) auto

lemma bval_append: "bval (xs @ ys) = bval xs + BASE ^ length xs * bval ys"
  by (induction xs) (auto simp: algebra_simps)

lemma bval_less: "limbs_ok xs \<Longrightarrow> bval xs < BASE ^ length xs"
proof (induction xs)
  case Nil
  then show ?case by simp
next
  case (Cons d ds)
  then have "bval ds + 1 \<le> BASE ^ length ds" by simp
  then have "BASE * (bval ds + 1) \<le> BASE * BASE ^ length ds" by (simp add: mult_left_mono)
  with Cons.prems show ?case by (simp add: algebra_simps)
qed

lemma div_mod_BASE: "(v :: int) mod BASE + BASE * (v div BASE) = v"
  by simp

lemma bi_limbs_ok [simp]: "limbs_ok (bi_limbs v)"
  by (induction v rule: bi_limbs.induct) (subst bi_limbs.simps, auto)

lemma bval_bi_limbs: "0 \<le> v \<Longrightarrow> bval (bi_limbs v) = v"
proof (induction v rule: bi_limbs.induct)
  case (1 v)
  then show ?case by (subst bi_limbs.simps) (auto simp: pos_imp_zdiv_nonneg_iff)
qed

text \<open>A non-negative number with its limbs in range, and its value.\<close>

definition bi_ok :: "bigint \<Rightarrow> bool" where
  "bi_ok b \<longleftrightarrow> limbs_ok (bi_number b) \<and> bi_positive b"

definition bi_val :: "bigint \<Rightarrow> int" where
  "bi_val b = bval (bi_number b)"

lemma bi_of_int_ok: "0 \<le> v \<Longrightarrow> bi_ok (bi_of_int v) \<and> bi_val (bi_of_int v) = v"
  by (simp add: bi_ok_def bi_val_def bi_of_int_def bval_bi_limbs)

section \<open>The operations compute\<close>

lemma add_loop_correct:
  assumes "limbs_ok xs" "limbs_ok ys" "0 \<le> s" "s \<le> 1"
  shows "limbs_ok (add_loop xs ys s) \<and> bval (add_loop xs ys s) = bval xs + bval ys + s"
  using assms
proof (induction xs ys s rule: add_loop.induct)
  case (1 s)
  then show ?case by (auto simp: BASE_def)
next
  case (2 x xs s)
  then have "0 \<le> (s + x) div BASE" "(s + x) div BASE \<le> 1"
    by (auto simp: BASE_def)
  with 2 show ?case using div_mod_BASE [of "s + x"] by (simp add: algebra_simps)
next
  case (3 y ys s)
  then have "0 \<le> (s + y) div BASE" "(s + y) div BASE \<le> 1"
    by (auto simp: BASE_def)
  with 3 show ?case using div_mod_BASE [of "s + y"] by (simp add: algebra_simps)
next
  case (4 x xs y ys s)
  then have "0 \<le> (s + x + y) div BASE" "(s + x + y) div BASE \<le> 1"
    by (auto simp: BASE_def)
  with 4 show ?case using div_mod_BASE [of "s + x + y"] by (simp add: algebra_simps)
qed

lemma bi_add_correct:
  assumes "bi_ok a" "bi_ok b"
  shows "\<exists>c. bi_add a b = Some c \<and> bi_ok c \<and> bi_val c = bi_val a + bi_val b \<and>
    bi_number c = add_loop (bi_number a) (bi_number b) 0 \<and> bi_skip c = bi_skip a"
  using assms add_loop_correct [of "bi_number a" "bi_number b" 0]
  by (simp add: bi_add_def bi_ok_def bi_val_def)

lemma add_ll_loop_correct:
  assumes "limbs_ok xs" "0 \<le> b"
  shows "limbs_ok (add_ll_loop xs b i) \<and> bval (add_ll_loop xs b i) = bval xs + b"
  using assms
proof (induction xs b i rule: add_ll_loop.induct)
  case (1 b i)
  then show ?case by (auto simp: bval_bi_limbs)
next
  case (2 x xs b i)
  let ?b' = "b div BASE + (x + b mod BASE) div BASE"
  show ?case
  proof (cases "b = 0 \<and> \<not> i")
    case True
    with 2 show ?thesis by simp
  next
    case False
    have "0 \<le> ?b'" using 2 by (simp add: pos_imp_zdiv_nonneg_iff)
    with 2 False have IH: "limbs_ok (add_ll_loop xs ?b' False)"
      "bval (add_ll_loop xs ?b' False) = bval xs + ?b'" by simp_all
    have "(x + b mod BASE) mod BASE + BASE * (bval xs + ?b') =
        (x + b mod BASE) mod BASE + BASE * ((x + b mod BASE) div BASE) + BASE * (b div BASE) + BASE * bval xs"
      by (simp add: algebra_simps)
    also have "\<dots> = x + BASE * bval xs + (b mod BASE + BASE * (b div BASE))" by simp
    finally have v: "(x + b mod BASE) mod BASE + BASE * (bval xs + ?b') = x + BASE * bval xs + b" by simp
    have "add_ll_loop (x # xs) b i = ((x + b mod BASE) mod BASE) # add_ll_loop xs ?b' False"
      using False by auto
    with IH v show ?thesis by simp
  qed
qed

lemma length_add_ll_loop: "length xs \<le> length (add_ll_loop xs b i)"
  by (induction xs b i rule: add_ll_loop.induct) auto

lemma bi_limbs_not_Nil: "0 < b \<Longrightarrow> bi_limbs b \<noteq> []"
  by (subst bi_limbs.simps) simp

lemma add_ll_loop_grows: "0 \<le> b \<Longrightarrow> add_ll_loop xs b True \<noteq> []"
  by (cases xs) (simp_all add: bi_limbs_not_Nil)

lemma bi_add_ll_correct:
  assumes "bi_ok c" "bi_skip c \<le> length (bi_number c)" "0 \<le> b"
  shows "\<exists>d. bi_add_ll c b = Some d \<and> bi_ok d \<and> bi_val d = bi_val c + BASE ^ bi_skip c * b \<and>
    bi_skip c < length (bi_number d) \<and> length (bi_number c) \<le> length (bi_number d)"
proof -
  let ?k = "bi_skip c" and ?xs = "bi_number c"
  let ?ys = "add_ll_loop (drop ?k ?xs) b True"
  have ok: "limbs_ok (take ?k ?xs)" "limbs_ok (drop ?k ?xs)"
    using assms(1) by (auto simp: bi_ok_def limbs_ok_def dest: in_set_takeD in_set_dropD)
  note a = add_ll_loop_correct [OF ok(2) assms(3), of True]
  have "bval ?xs = bval (take ?k ?xs @ drop ?k ?xs)" by simp
  also have "\<dots> = bval (take ?k ?xs) + BASE ^ ?k * bval (drop ?k ?xs)"
    using assms(2) by (simp only: bval_append) simp
  finally have "bval (take ?k ?xs @ ?ys) = bval ?xs + BASE ^ ?k * b"
    using a assms(2) by (simp add: bval_append algebra_simps)
  moreover have "?k < length (take ?k ?xs @ ?ys)"
    using add_ll_loop_grows [OF assms(3), of "drop ?k ?xs"] assms(2) by simp
  moreover have "length ?xs \<le> length (take ?k ?xs @ ?ys)"
    using length_add_ll_loop [of "drop ?k ?xs" b True] assms(2) by simp
  ultimately show ?thesis using a ok assms(1,2) by (simp add: bi_add_ll_def bi_ok_def bi_val_def)
qed

lemma mul_int_loop_correct:
  assumes "limbs_ok xs" "0 \<le> b" "b < BASE" "0 \<le> s" "s < BASE"
  shows "limbs_ok (mul_int_loop xs b s) \<and> bval (mul_int_loop xs b s) = bval xs * b + s"
  using assms
proof (induction xs arbitrary: s)
  case Nil
  then show ?case by auto
next
  case (Cons x xs)
  have "s + x * b \<le> (BASE - 1) + (BASE - 1) * (BASE - 1)"
    using Cons.prems by (intro add_mono mult_mono) auto
  also have "\<dots> = (BASE - 1) * BASE" by (simp add: algebra_simps)
  finally have "s + x * b < BASE * BASE" by (simp add: algebra_simps) (simp add: BASE_def)
  then have "(s + x * b) div BASE < BASE" by (simp add: div_less_iff_less_mult BASE_def)
  moreover have "0 \<le> (s + x * b) div BASE" using Cons.prems by (simp add: pos_imp_zdiv_nonneg_iff)
  ultimately have IH: "limbs_ok (mul_int_loop xs b ((s + x * b) div BASE))"
    "bval (mul_int_loop xs b ((s + x * b) div BASE)) = bval xs * b + (s + x * b) div BASE"
    using Cons.IH [of "(s + x * b) div BASE"] Cons.prems by simp_all
  with div_mod_BASE [of "s + x * b"] show ?case by (simp add: algebra_simps)
qed

lemma mul_row_correct:
  assumes "bi_ok c" "i + j \<le> length (bi_number c)" "0 \<le> x" "limbs_ok ys"
  shows "\<exists>d. mul_row c x i j ys = Some d \<and> bi_ok d \<and>
    bi_val d = bi_val c + x * BASE ^ (i + j) * bval ys \<and>
    length (bi_number c) \<le> length (bi_number d) \<and> (ys \<noteq> [] \<longrightarrow> i + j < length (bi_number d))"
  using assms
proof (induction ys arbitrary: c j)
  case Nil
  then show ?case by simp
next
  case (Cons y ys)
  let ?c = "c\<lparr>bi_skip := i + j\<rparr>"
  have "bi_ok ?c" "bi_skip ?c \<le> length (bi_number ?c)" "0 \<le> x * y"
    using Cons.prems by (simp_all add: bi_ok_def)
  from bi_add_ll_correct [OF this] obtain d where
    d: "bi_add_ll ?c (x * y) = Some d" "bi_ok d" "bi_val d = bi_val c + BASE ^ (i + j) * (x * y)"
      "i + j < length (bi_number d)" "length (bi_number c) \<le> length (bi_number d)"
    by (auto simp: bi_val_def)
  have "i + Suc j \<le> length (bi_number d)" using d(4) by simp
  from Cons.IH [OF d(2) this] Cons.prems obtain e where
    e: "mul_row d x i (Suc j) ys = Some e" "bi_ok e"
      "bi_val e = bi_val d + x * BASE ^ (i + Suc j) * bval ys"
      "length (bi_number d) \<le> length (bi_number e)" by auto
  show ?case using d e by (auto simp: algebra_simps)
qed

lemma mul_rows_correct:
  assumes "bi_ok c" "i \<le> length (bi_number c)" "limbs_ok xs" "limbs_ok ys"
  shows "\<exists>d. mul_rows c i xs ys = Some d \<and> bi_ok d \<and>
    bi_val d = bi_val c + BASE ^ i * bval xs * bval ys"
  using assms
proof (induction xs arbitrary: c i)
  case Nil
  then show ?case by simp
next
  case (Cons x xs)
  have "i + 0 \<le> length (bi_number c)" "0 \<le> x" using Cons.prems by simp_all
  from mul_row_correct [OF Cons.prems(1) this Cons.prems(4)] obtain d where
    d: "mul_row c x i 0 ys = Some d" "bi_ok d" "bi_val d = bi_val c + x * BASE ^ i * bval ys"
      "length (bi_number c) \<le> length (bi_number d)" "ys \<noteq> [] \<longrightarrow> i < length (bi_number d)"
    by auto
  show ?case
  proof (cases "ys = []")
    case True
    have "mul_rows c' i' xs' [] = Some c'" for c' i' xs'
      by (induction xs' arbitrary: i') auto
    with True Cons.prems(1) show ?thesis by simp
  next
    case False
    with d(5) have "Suc i \<le> length (bi_number d)" by simp
    from Cons.IH [OF d(2) this] Cons.prems obtain e where
      "mul_rows d (Suc i) xs ys = Some e" "bi_ok e"
        "bi_val e = bi_val d + BASE ^ Suc i * bval xs * bval ys" by auto
    with d show ?thesis by (auto simp: algebra_simps)
  qed
qed

lemma bi_mul_correct:
  assumes "bi_ok a" "bi_ok b"
  shows "\<exists>c. bi_mul a b = Some c \<and> bi_ok c \<and> bi_val c = bi_val a * bi_val b"
proof (cases "length (bi_number b) = 1")
  case True
  then obtain d where d: "bi_number b = [d]" by (auto simp: length_Suc_conv)
  with assms have "0 \<le> d" "d < BASE" "limbs_ok (bi_number a)" by (auto simp: bi_ok_def)
  with mul_int_loop_correct [of "bi_number a" d 0] assms True d show ?thesis
    by (simp add: bi_mul_def bi_mul_int_def bi_ok_def bi_val_def)
next
  case False
  have "bi_ok bi_empty" "0 \<le> length (bi_number bi_empty)" "bi_val bi_empty = 0"
    by (simp_all add: bi_ok_def bi_empty_def bi_val_def)
  with mul_rows_correct [of bi_empty 0 "bi_number a" "bi_number b"] assms obtain c where
    "mul_rows bi_empty 0 (bi_number a) (bi_number b) = Some c" "bi_ok c"
    "bi_val c = bval (bi_number a) * bval (bi_number b)" by (auto simp: bi_ok_def)
  with False show ?thesis by (auto simp: bi_mul_def bi_ok_def bi_val_def)
qed

section \<open>Powers\<close>

lemma closest_power_bounds:
  "0 < c \<Longrightarrow> c < pw \<Longrightarrow> c \<le> closest_power c pw \<and> closest_power c pw < pw"
proof (induction c pw rule: closest_power.induct)
  case (1 c pw)
  show ?case
  proof (cases "2 * c < pw")
    case True
    with 1 have "2 * c \<le> closest_power (2 * c) pw \<and> closest_power (2 * c) pw < pw" by simp
    with 1 show ?thesis by (subst (1 2) closest_power.simps) simp
  next
    case False
    then have "closest_power (2 * c) pw = c" by (subst closest_power.simps) simp
    with 1 show ?thesis by (subst (1 2) closest_power.simps) simp
  qed
qed

definition powers :: "bigint \<Rightarrow> (int \<Rightarrow> bigint option) \<Rightarrow> bool" where
  "powers b lookup \<longleftrightarrow> (\<forall>k r. lookup k = Some r \<longrightarrow> 1 \<le> k \<and> bi_ok r \<and> bi_val r = bi_val b ^ nat k)"

lemma bi_pow_rec_correct:
  assumes "bi_ok b" "1 \<le> pw" "powers b lookup"
  shows "\<exists>r lookup'. bi_pow_rec b pw lookup = Some (r, lookup') \<and> bi_ok r \<and>
    bi_val r = bi_val b ^ nat pw \<and> powers b lookup'"
  using assms(2,3)
proof (induction "nat pw" arbitrary: pw lookup rule: less_induct)
  case less
  show ?case
  proof (cases "pw = 1 \<or> lookup pw \<noteq> None")
    case True
    with less.prems assms(1) show ?thesis
      by (subst bi_pow_rec.simps) (auto simp: powers_def split: option.splits)
  next
    case False
    then have p: "1 < pw" "lookup pw = None" "pw \<noteq> 1" using less.prems by auto
    define c where "c = closest_power 1 pw"
    have c: "1 \<le> c" "c < pw" using closest_power_bounds [of 1 pw] p by (auto simp: c_def)
    from less.hyps [of c lookup] c less.prems obtain a l1 where
      a: "bi_pow_rec b c lookup = Some (a, l1)" "bi_ok a" "bi_val a = bi_val b ^ nat c" "powers b l1" by auto
    from less.hyps [of "pw - c" l1] c a(4) obtain d l2 where
      d: "bi_pow_rec b (pw - c) l1 = Some (d, l2)" "bi_ok d" "bi_val d = bi_val b ^ nat (pw - c)" "powers b l2"
      by auto
    from bi_mul_correct [OF a(2) d(2)] obtain m where
      m: "bi_mul a d = Some m" "bi_ok m" "bi_val m = bi_val a * bi_val d" by blast
    have "nat pw = nat c + nat (pw - c)" using c by simp
    then have v: "bi_val m = bi_val b ^ nat pw" by (simp add: m(3) a(3) d(3) power_add)
    have "bi_pow_rec b pw lookup = Some (m, l2(pw \<mapsto> m))"
      using p c a(1) d(1) m(1) by (subst bi_pow_rec.simps) (simp add: c_def [symmetric] Let_def)
    moreover have "powers b (l2(pw \<mapsto> m))" using d(4) m(2) v p by (auto simp: powers_def)
    ultimately show ?thesis using m(2) v by blast
  qed
qed

lemma bi_pow_correct:
  assumes "bi_ok b" "1 \<le> pw"
  shows "\<exists>r. bi_pow b pw = Some r \<and> bi_ok r \<and> bi_val r = bi_val b ^ nat pw"
proof -
  have "powers b (\<lambda>_. None)" by (simp add: powers_def)
  from bi_pow_rec_correct [OF assms this] assms(1) show ?thesis
    by (auto simp: bi_pow_def bi_ok_def Let_def)
qed

lemma bi_pow_zero: "bi_pow b 0 = None"
proof -
  have "pw = 0 \<longrightarrow> lookup 0 \<noteq> None" if "bi_pow_rec b pw lookup = Some r" for b pw lookup r
  proof (rule bi_pow_rec.raw_induct [where P = "\<lambda>b pw lookup r. pw = 0 \<longrightarrow> lookup 0 \<noteq> None", OF _ that])
    fix f b pw lookup r
    assume IH: "\<And>b pw lookup r. f b pw lookup = Some r \<Longrightarrow> pw = 0 \<longrightarrow> lookup 0 \<noteq> None"
      and eq: "(if pw = 1 then Some (b, lookup)
        else case lookup pw of Some r \<Rightarrow> Some (r, lookup)
        | None \<Rightarrow>
            (let c = closest_power 1 pw; l = (if pw = c then pw div 2 else c);
                 r = (if pw = c then pw div 2 else pw - c)
             in Option.bind (f b l lookup) (\<lambda>p. Option.bind (f b r (snd p)) (\<lambda>q.
                Option.bind (bi_mul (fst p) (fst q)) (\<lambda>m. Some (m, (snd q)(pw \<mapsto> m))))))) = Some r"
    have c0: "closest_power 1 0 = 0" by (subst closest_power.simps) simp
    show "pw = 0 \<longrightarrow> lookup 0 \<noteq> None"
    proof (intro impI notI)
      assume z: "pw = 0" "lookup 0 = None"
      with eq have "\<exists>p. f b 0 lookup = Some p" by (auto simp: c0 Let_def split: bind_splits)
      with IH z(2) show False by blast
    qed
  qed
  then have "bi_pow_rec b 0 (\<lambda>_. None) = None" for b
    by (cases "bi_pow_rec b 0 (\<lambda>_. None)") blast+
  then show ?thesis by (simp add: bi_pow_def Let_def)
qed

section \<open>Subtraction and comparison of canonical numbers\<close>

text \<open>No superfluous leading zero limb; zero itself may be stored as one limb or none.\<close>

definition canonical :: "bigint \<Rightarrow> bool" where
  "canonical b \<longleftrightarrow> (1 < length (bi_number b) \<longrightarrow> last (bi_number b) \<noteq> 0)"

lemma bval_strip: "bval (bi_strip xs) = bval xs"
proof (induction xs rule: bi_strip.induct)
  case (1 xs)
  show ?case
  proof (cases "1 < length xs \<and> last xs = 0")
    case True
    then have "xs = butlast xs @ [0]" by (metis append_butlast_last_id length_greater_0_conv less_trans zero_less_one)
    then have "bval xs = bval (butlast xs @ [0])" by simp
    also have "\<dots> = bval (butlast xs)" by (simp add: bval_append)
    finally show ?thesis using 1 True by (subst bi_strip.simps) simp
  next
    case False
    then show ?thesis by (subst bi_strip.simps) auto
  qed
qed

lemma strip_canonical: "1 < length (bi_strip xs) \<Longrightarrow> last (bi_strip xs) \<noteq> 0"
proof (induction xs rule: bi_strip.induct)
  case (1 xs)
  then show ?case by (subst (asm) bi_strip.simps, subst bi_strip.simps) (auto split: if_splits)
qed

lemma strip_limbs_ok: "limbs_ok xs \<Longrightarrow> limbs_ok (bi_strip xs)"
proof (induction xs rule: bi_strip.induct)
  case (1 xs)
  then show ?case
    by (subst bi_strip.simps) (auto simp: limbs_ok_def dest: in_set_butlastD)
qed

lemma sub_loop_correct:
  assumes "limbs_ok xs" "limbs_ok ys" "length ys \<le> length xs" "c = 0 \<or> c = - 1"
  shows "\<exists>rs d. sub_loop ds xs ys c = Some (ds @ rs, d) \<and> limbs_ok rs \<and> length rs = length xs \<and>
    (d = 0 \<or> d = - 1) \<and> bval rs + BASE ^ length xs * d = bval xs - bval ys + c"
  using assms
proof (induction ds xs ys c rule: sub_loop.induct)
  case (1 ds dif)
  then show ?case by auto
next
  case (2 ds x xs dif)
  obtain v c where vc: "sub_digit (dif + x) = (v, c)" by (cases "sub_digit (dif + x)")
  from 2 vc have f: "0 \<le> v" "v < BASE" "c = 0 \<or> c = - 1" "v + BASE * c = dif + x"
    by (auto simp: sub_digit_def split: if_splits)
  from "2.IH" [OF vc [symmetric] refl] 2 f(3) obtain rs d where
    r: "sub_loop (ds @ [v]) xs [] c = Some ((ds @ [v]) @ rs, d)" "limbs_ok rs" "length rs = length xs"
      "d = 0 \<or> d = - 1" "bval rs + BASE ^ length xs * d = bval xs - bval [] + c" by auto
  have "bval (v # rs) + BASE ^ length (x # xs) * d = v + BASE * (bval rs + BASE ^ length xs * d)"
    by (simp add: algebra_simps)
  also have "\<dots> = (v + BASE * c) + BASE * (bval xs - bval [])"
    unfolding r(5) by (simp add: algebra_simps)
  also have "\<dots> = bval (x # xs) - bval [] + dif" unfolding f(4) by (simp add: algebra_simps)
  finally show ?case using r f(1,2) vc by (intro exI [of _ "v # rs"] exI [of _ d]) simp
next
  case (3 ds x xs y ys dif)
  obtain v c where vc: "sub_digit (dif + x - y) = (v, c)" by (cases "sub_digit (dif + x - y)")
  from 3 vc have f: "0 \<le> v" "v < BASE" "c = 0 \<or> c = - 1" "v + BASE * c = dif + x - y"
    by (auto simp: sub_digit_def split: if_splits)
  from "3.IH" [OF vc [symmetric] refl] 3 f(3) obtain rs d where
    r: "sub_loop (ds @ [v]) xs ys c = Some ((ds @ [v]) @ rs, d)" "limbs_ok rs" "length rs = length xs"
      "d = 0 \<or> d = - 1" "bval rs + BASE ^ length xs * d = bval xs - bval ys + c" by auto
  have "bval (v # rs) + BASE ^ length (x # xs) * d = v + BASE * (bval rs + BASE ^ length xs * d)"
    by (simp add: algebra_simps)
  also have "\<dots> = (v + BASE * c) + BASE * (bval xs - bval ys)"
    unfolding r(5) by (simp add: algebra_simps)
  also have "\<dots> = bval (x # xs) - bval (y # ys) + dif" unfolding f(4) by (simp add: algebra_simps)
  finally show ?case using r f(1,2) vc by (intro exI [of _ "v # rs"] exI [of _ d]) simp
next
  case (4 ds y ys dif)
  then show ?case by simp
qed

lemma canonical_longer:
  assumes "bi_ok a" "bi_ok b" "canonical a"
    and "length (bi_number b) < length (bi_number a)" "1 < length (bi_number a)"
  shows "bi_val b < bi_val a"
proof -
  have "bi_number a \<noteq> []" using assms(5) by auto
  then obtain xs d where a: "bi_number a = xs @ [d]" by (metis append_butlast_last_id)
  then have d: "1 \<le> d" "limbs_ok xs" using assms(1,3,5) by (auto simp: bi_ok_def canonical_def)
  have "bi_val b < BASE ^ length (bi_number b)" using assms(2) by (simp add: bi_val_def bi_ok_def bval_less)
  also have "\<dots> \<le> BASE ^ length xs" using assms(4) a by (intro power_increasing) (auto simp: BASE_def)
  also have "\<dots> \<le> BASE ^ length xs * d" using d(1) by (simp add: BASE_def)
  also have "\<dots> \<le> bi_val a" using d(2) by (simp add: bi_val_def a bval_append bval_nonneg)
  finally show ?thesis .
qed

lemma bi_sub_correct:
  assumes "bi_ok a" "bi_ok b" "canonical b" "bi_number a \<noteq> []" "bi_val b \<le> bi_val a"
  shows "\<exists>c. bi_sub a b = Some c \<and> bi_ok c \<and> bi_val c = bi_val a - bi_val b \<and> canonical c \<and>
    bi_skip c = bi_skip a"
proof -
  let ?xs = "bi_number a" and ?ys = "bi_number b"
  have "length ?ys \<le> length ?xs"
  proof (rule ccontr)
    assume "\<not> length ?ys \<le> length ?xs"
    moreover from this assms(4) have "1 < length ?ys" by (cases ?xs) auto
    ultimately have "bi_val a < bi_val b" using canonical_longer assms(1-3) by simp
    with assms(5) show False by simp
  qed
  with sub_loop_correct [of ?xs ?ys 0 "[]"] assms(1,2) obtain rs d where
    r: "sub_loop [] ?xs ?ys 0 = Some (rs, d)" "limbs_ok rs" "length rs = length ?xs"
      "d = 0 \<or> d = - 1" "bval rs + BASE ^ length ?xs * d = bval ?xs - bval ?ys"
    by (auto simp: bi_ok_def)
  have "d = 0"
  proof (rule ccontr)
    assume "d \<noteq> 0"
    with r(4,5) have "bval rs - BASE ^ length rs = bval ?xs - bval ?ys" by (simp add: r(3))
    with bval_less [OF r(2)] assms(5) show False by (simp add: bi_val_def)
  qed
  with r assms(1) show ?thesis
    by (simp add: bi_sub_def bi_ok_def bi_val_def bval_strip strip_limbs_ok canonical_def strip_canonical)
qed

text \<open>Comparison from the most significant limb is comparison of values.\<close>

lemma bval_rev_cmp:
  assumes "limbs_ok xs" "limbs_ok ys" "length xs = length ys"
  shows "cmp_limbs 1 xs ys = sgn (bval (rev xs) - bval (rev ys))"
  using assms(3,1,2)
proof (induction xs ys rule: list_induct2)
  case (Cons x xs y ys)
  have l: "0 \<le> bval (rev xs)" "bval (rev xs) < BASE ^ length xs"
    "0 \<le> bval (rev ys)" "bval (rev ys) < BASE ^ length xs"
    using Cons.hyps Cons.prems bval_nonneg [of "rev xs"] bval_less [of "rev xs"] bval_nonneg [of "rev ys"]
      bval_less [of "rev ys"] by (simp_all add: limbs_ok_def)
  have v: "bval (rev (x # xs)) - bval (rev (y # ys)) =
      bval (rev xs) - bval (rev ys) + BASE ^ length xs * (x - y)"
    using Cons.hyps by (simp add: bval_append algebra_simps)
  consider "x < y" | "y < x" | "x = y" by linarith
  then show ?case
  proof cases
    case 1
    then have "BASE ^ length xs * (x - y) \<le> BASE ^ length xs * (- 1)" by (intro mult_left_mono) auto
    with l v have "bval (rev (x # xs)) - bval (rev (y # ys)) < 0" by linarith
    with 1 show ?thesis by simp
  next
    case 2
    then have "BASE ^ length xs * 1 \<le> BASE ^ length xs * (x - y)" by (intro mult_left_mono) auto
    with l v have "0 < bval (rev (x # xs)) - bval (rev (y # ys))" by linarith
    with 2 show ?thesis by simp
  next
    case 3
    with Cons v show ?thesis by simp
  qed
qed simp


lemma bi_compare_correct:
  assumes "bi_ok a" "bi_ok b" "canonical a" "canonical b"
    and "length (bi_number a) \<ge> 1" "length (bi_number b) \<ge> 1"
  shows "bi_compare a b = sgn (bi_val a - bi_val b)"
proof -
  consider "length (bi_number a) < length (bi_number b)" | "length (bi_number b) < length (bi_number a)"
    | "length (bi_number a) = length (bi_number b)" by linarith
  then show ?thesis
  proof cases
    case 1
    with assms canonical_longer [OF assms(2,1,4)] show ?thesis by (simp add: bi_compare_def bi_ok_def)
  next
    case 2
    with assms canonical_longer [OF assms(1,2,3)] show ?thesis by (simp add: bi_compare_def bi_ok_def)
  next
    case 3
    with assms bval_rev_cmp [of "rev (bi_number a)" "rev (bi_number b)"] show ?thesis
      by (simp add: bi_compare_def bi_ok_def bi_val_def limbs_ok_def)
  qed
qed

section \<open>Decimal text\<close>

lemma of_char_digit [simp]: "k < 10 \<Longrightarrow> (of_char (char_of (48 + k :: nat)) :: nat) = 48 + k"
  by simp

lemma digits_val_simps [simp]:
  "digits_val [] = 0" "digits_val (c # cs) = int (of_char c - 48 :: nat) + 10 * digits_val cs"
  by (simp_all add: digits_val_def)

lemma dec_digits: "\<forall>c \<in> set (dec n). is_digit c"
proof (induction n rule: dec.induct)
  case (1 n)
  then show ?case by (subst dec.simps) (auto simp: is_digit_def)
qed

lemma dec_not_Nil [simp]: "dec n \<noteq> []"
  by (subst dec.simps) simp

lemma digits_val_dec: "digits_val (rev (dec n)) = int n"
proof (induction n rule: dec.induct)
  case (1 n)
  show ?case
  proof (cases "n < 10")
    case True
    then show ?thesis by (subst dec.simps) simp
  next
    case False
    with 1 have "digits_val (rev (dec n)) = int (n mod 10) + 10 * int (n div 10)"
      by (subst dec.simps) simp
    also have "\<dots> = int n" by presburger
    finally show ?thesis .
  qed
qed

lemma length_dec: "n < 10 ^ Suc k \<Longrightarrow> length (dec n) \<le> Suc k"
proof (induction k arbitrary: n)
  case 0
  then show ?case by (subst dec.simps) simp
next
  case (Suc k)
  show ?case
  proof (cases "n < 10")
    case True
    then show ?thesis by (subst dec.simps) simp
  next
    case False
    have "n div 10 < 10 ^ Suc k" using Suc.prems by (simp add: less_mult_imp_div_less)
    with Suc.IH False show ?thesis by (subst dec.simps) simp
  qed
qed

lemma segment_length_dec: "0 < n \<Longrightarrow> segment_length n = length (dec n)"
proof (induction n rule: segment_length.induct)
  case (1 n)
  show ?case
  proof (cases "n < 10")
    case True
    then have "n div 10 = 0" by simp
    then have "segment_length (n div 10) = 0" by (subst segment_length.simps) simp
    with 1 True show ?thesis by (subst segment_length.simps, subst dec.simps) simp
  next
    case False
    with 1 show ?thesis by (subst segment_length.simps, subst dec.simps) simp
  qed
qed

lemma digits_val_zeros: "digits_val (cs @ replicate k (CHR ''0'')) = digits_val cs"
proof -
  have "digits_val (replicate k (CHR ''0'')) = 0" by (induction k) auto
  then show ?thesis by (induction cs) auto
qed

lemma limb_nat: "0 \<le> d \<Longrightarrow> d < BASE \<Longrightarrow> nat d < 10 ^ Suc 8"
  by (simp add: BASE_def)

lemma pad9_facts:
  assumes "0 \<le> d" "d < BASE"
  shows "length (pad9 d) = 9" and "\<forall>c \<in> set (pad9 d). is_digit c" and "digits_val (rev (pad9 d)) = d"
proof -
  have "segment_length 0 = 0" by (subst segment_length.simps) simp
  moreover have "0 < d \<Longrightarrow> segment_length (nat d) = length (dec (nat d)) \<and> length (dec (nat d)) \<le> 9"
    using segment_length_dec [of "nat d"] length_dec [OF limb_nat [OF assms]] by simp
  ultimately show "length (pad9 d) = 9" using assms by (cases "d = 0") (auto simp: pad9_def)
  have z: "is_digit (CHR ''0'')" by (simp add: is_digit_def)
  then show "\<forall>c \<in> set (pad9 d). is_digit c"
    using dec_digits [of "nat d"] by (auto simp: pad9_def split: if_splits)
  show "digits_val (rev (pad9 d)) = d"
    using assms digits_val_dec [of "nat d"] digits_val_zeros [of "[]"]
    by (auto simp: pad9_def digits_val_zeros)
qed

lemma takeWhile_take_digits:
  assumes "\<forall>c \<in> set cs. is_digit c" "length cs \<le> 9" "rest = [] \<or> length cs = 9"
  shows "takeWhile is_digit (take 9 (cs @ rest)) = cs"
  using assms by (auto simp: takeWhile_eq_all_conv)

lemma str_limbs_chunk:
  assumes "chunk \<noteq> []" "takeWhile is_digit (take 9 (chunk @ rest)) = chunk"
  shows "str_limbs True (chunk @ rest) = map_option ((#) (digits_val chunk)) (str_limbs True rest)"
  by (subst str_limbs.simps) (simp add: assms Let_def del: take_append)

lemma str_limbs_text:
  assumes "limbs_ok ls" "0 \<le> m" "m < BASE"
  shows "str_limbs True (concat (map (\<lambda>d. rev (pad9 d)) ls) @ rev (dec (nat m))) = Some (ls @ [m])"
  using assms(1)
proof (induction ls)
  case Nil
  let ?t = "rev (dec (nat m))"
  have "takeWhile is_digit (take 9 (?t @ [])) = ?t"
    using dec_digits [of "nat m"] length_dec [OF limb_nat [OF assms(2,3)]]
    by (intro takeWhile_take_digits) auto
  then have c: "takeWhile is_digit (take 9 ?t) = ?t" by simp
  have "str_limbs True [] = Some []" by (subst str_limbs.simps) simp
  with c show ?case using digits_val_dec [of "nat m"] assms(2)
    by (subst str_limbs.simps) (simp add: Let_def)
next
  case (Cons d ls)
  let ?t = "concat (map (\<lambda>d. rev (pad9 d)) ls) @ rev (dec (nat m))"
  have d: "0 \<le> d" "d < BASE" using Cons.prems by auto
  note p = pad9_facts [OF d]
  have c: "takeWhile is_digit (take 9 (rev (pad9 d) @ ?t)) = rev (pad9 d)"
    using p by (intro takeWhile_take_digits) auto
  have "rev (pad9 d) \<noteq> []" using p(1) by auto
  from str_limbs_chunk [OF this c] p(3) Cons show ?case by simp
qed

lemma text_limbs: "dropWhile (\<lambda>d. d = 0) (rev xs) = m # ds \<Longrightarrow>
    bval xs = bval (rev ds @ [m]) \<and> set (m # ds) \<subseteq> set xs \<and> m \<noteq> (0 :: int)"
proof -
  assume a: "dropWhile (\<lambda>d. d = 0) (rev xs) = m # ds"
  have "rev xs = takeWhile (\<lambda>d. d = 0) (rev xs) @ m # ds" by (metis a takeWhile_dropWhile_id)
  then have "xs = rev (takeWhile (\<lambda>d. d = 0) (rev xs) @ m # ds)" by (metis rev_rev_ident)
  then have x: "xs = (rev ds @ [m]) @ rev (takeWhile (\<lambda>d. d = 0) (rev xs))" by simp
  have "bval zs = 0" if "\<forall>z \<in> set zs. z = 0" for zs using that by (induction zs) auto
  moreover have "\<forall>z \<in> set (rev (takeWhile (\<lambda>d. d = 0) (rev xs))). z = 0" by (auto dest: set_takeWhileD)
  ultimately have "bval (rev (takeWhile (\<lambda>d. d = 0) (rev xs))) = 0" by blast
  with x have "bval xs = bval (rev ds @ [m])" by (metis add.right_neutral bval_append mult_zero_right)
  moreover have "set (m # ds) \<subseteq> set xs" using x by (metis Un_upper1 set_append set_rev rev.simps(2))
  moreover have "m \<noteq> 0" using a by (metis (mono_tags, lifting) hd_dropWhile list.distinct(1) list.sel(1))
  ultimately show ?thesis by blast
qed

lemma text_zero: "dropWhile (\<lambda>d. d = 0) (rev xs) = [] \<Longrightarrow> bval xs = 0"
proof -
  assume "dropWhile (\<lambda>d. d = 0) (rev xs) = []"
  then have "\<forall>d \<in> set xs. d = 0" by (simp add: dropWhile_eq_Nil_conv)
  then show ?thesis by (induction xs) auto
qed

lemma bi_text_roundtrip:
  assumes "bi_ok b"
  shows "\<exists>c. bi_of_string (bi_to_string b) = Some c \<and> bi_ok c \<and> bi_val c = bi_val b \<and>
    canonical c \<and> bi_number c \<noteq> [] \<and> bi_skip c = 0"
proof (cases "dropWhile (\<lambda>d. d = 0) (rev (bi_number b))")
  case Nil
  then have "bi_to_string b = ''0''" by (simp only: bi_to_string_def list.case)
  moreover have "bi_of_string ''0'' = Some \<lparr>bi_number = [0], bi_positive = True, bi_skip = 0\<rparr>" by code_simp
  ultimately show ?thesis using text_zero [OF Nil]
    by (simp add: bi_ok_def bi_val_def canonical_def)
next
  case (Cons m ds)
  note t = text_limbs [OF Cons]
  have ok: "limbs_ok (rev ds)" "0 \<le> m" "m < BASE" using t assms by (auto simp: bi_ok_def limbs_ok_def)
  have s: "bi_to_string b = dec (nat m) @ concat (map pad9 ds)"
    using Cons assms by (simp add: bi_to_string_def bi_ok_def)
  have "hd (bi_to_string b) \<in> set (dec (nat m))" by (simp add: s)
  then have "is_digit (hd (bi_to_string b))" using dec_digits by blast
  then have "hd (bi_to_string b) \<noteq> CHR ''-''" by (auto simp: is_digit_def)
  moreover have "rev (bi_to_string b) = concat (map (\<lambda>d. rev (pad9 d)) (rev ds)) @ rev (dec (nat m))"
    by (simp add: s rev_concat rev_map comp_def)
  ultimately have "bi_of_string (bi_to_string b) =
      Some \<lparr>bi_number = rev ds @ [m], bi_positive = True, bi_skip = 0\<rparr>"
    using str_limbs_text [OF ok] by (simp add: bi_of_string_def)
  with t ok show ?thesis by (simp add: bi_ok_def bi_val_def canonical_def)
qed

section \<open>Work\<close>

lemma sint_difficulty: "unat d < 2 ^ 31 \<Longrightarrow> sint (d :: u32) = int (unat d)"
proof -
  assume "unat d < 2 ^ 31"
  then have "int (unat d) < int (2 ^ 31)" by (simp only: of_nat_less_iff)
  then have "uint d < 2 ^ 31" by simp
  moreover have "- (2 ^ 31) \<le> uint d" by (rule order_trans [OF _ uint_ge_0]) simp
  ultimately have "signed_take_bit 31 (uint d) = uint d" by (intro signed_take_bit_int_eq_self)
  then show ?thesis by (simp add: sint_uint)
qed

lemma sint_power: "1 \<le> unat d \<Longrightarrow> unat d < 2 ^ 31 \<Longrightarrow> 1 \<le> sint (d :: u32) \<and> nat (sint d) = unat d"
proof -
  assume d: "1 \<le> unat d" "unat d < 2 ^ 31"
  have "1 \<le> int (unat d)" using d(1) by linarith
  then show ?thesis unfolding sint_difficulty [OF d(2)] by (simp only: nat_int simp_thms)
qed

lemma two_ok: "bi_ok (bi_of_int 2)" "bi_val (bi_of_int 2) = 2"
  using bi_of_int_ok [of 2] by simp_all

text \<open>
  Positive numbers without a superfluous leading limb. The multiplication keeps the form:
  it may push a zero limb only below the highest product.
\<close>

definition pos_canonical :: "bigint \<Rightarrow> bool" where
  "pos_canonical b \<longleftrightarrow> bi_ok b \<and> bi_number b \<noteq> [] \<and> last (bi_number b) \<noteq> 0"

lemma pos_canonicalD: "pos_canonical b \<Longrightarrow> bi_ok b \<and> canonical b \<and> bi_number b \<noteq> []"
  by (simp add: pos_canonical_def canonical_def)

lemma bval_lower:
  assumes "limbs_ok xs" "xs \<noteq> []"
  shows "last xs \<noteq> 0 \<longleftrightarrow> BASE ^ (length xs - 1) \<le> bval xs"
proof -
  obtain ys d where x: "xs = ys @ [d]" using assms(2) by (metis append_butlast_last_id)
  with assms(1) have ok: "limbs_ok ys" "0 \<le> d" by auto
  have v: "bval xs = bval ys + BASE ^ length ys * d" by (simp add: x bval_append)
  have b: "0 \<le> bval ys" "bval ys < BASE ^ length ys" using ok(1) by (simp_all add: bval_nonneg bval_less)
  show ?thesis
  proof (cases "d = 0")
    case True
    with v b x show ?thesis by simp
  next
    case False
    with ok have "BASE ^ length ys * 1 \<le> BASE ^ length ys * d" by (intro mult_left_mono) auto
    then have "BASE ^ length ys \<le> bval xs" using b unfolding v by linarith
    with x False show ?thesis by simp
  qed
qed

definition top :: "nat \<Rightarrow> int list \<Rightarrow> bool" where
  "top k xs \<longleftrightarrow> length xs \<le> k \<or> last xs \<noteq> 0"

lemma bi_limbs_last: "0 < v \<Longrightarrow> last (bi_limbs v) \<noteq> 0"
proof (induction v rule: bi_limbs.induct)
  case (1 v)
  show ?case
  proof (cases "0 < v div BASE")
    case True
    with 1 bi_limbs_not_Nil show ?thesis by (subst bi_limbs.simps) simp
  next
    case False
    then have "bi_limbs (v div BASE) = []" by (subst bi_limbs.simps) simp
    moreover have "v mod BASE = v" using False 1(2) by (simp add: pos_imp_zdiv_pos_iff)
    ultimately show ?thesis using 1(2) by (subst bi_limbs.simps) simp
  qed
qed

lemma add_ll_loop_last:
  assumes "limbs_ok xs" "0 \<le> b"
  shows "add_ll_loop xs b i \<noteq> [] \<and> last (add_ll_loop xs b i) \<noteq> 0 \<or>
    length (add_ll_loop xs b i) = length xs \<and> (xs \<noteq> [] \<longrightarrow> last xs = 0) \<or>
    i \<and> xs = [] \<and> add_ll_loop xs b i = [0]"
  using assms
proof (induction xs b i rule: add_ll_loop.induct)
  case (1 b i)
  then show ?case using bi_limbs_last [of b] bi_limbs_not_Nil [of b] by auto
next
  case (2 x xs b i)
  let ?b' = "b div BASE + (x + b mod BASE) div BASE"
  let ?h = "(x + b mod BASE) mod BASE"
  show ?case
  proof (cases "b = 0 \<and> \<not> i")
    case True
    then show ?thesis by (cases "last (x # xs) = 0") simp_all
  next
    case False
    have b': "0 \<le> ?b'" using 2 by (simp add: pos_imp_zdiv_nonneg_iff)
    have r: "add_ll_loop (x # xs) b i = ?h # add_ll_loop xs ?b' False" using False by auto
    from 2 False b' consider (a) "add_ll_loop xs ?b' False \<noteq> []" "last (add_ll_loop xs ?b' False) \<noteq> 0"
      | (b) "length (add_ll_loop xs ?b' False) = length xs" "xs \<noteq> [] \<longrightarrow> last xs = 0" by auto
    then show ?thesis
    proof cases
      case a
      with r show ?thesis by simp
    next
      case b
      show ?thesis
      proof (cases "xs = []")
        case False
        with b r show ?thesis by simp
      next
        case True
        with b have "?b' = 0" using bi_limbs_not_Nil [of ?b'] b' by (auto split: if_splits)
        moreover have "0 \<le> b div BASE" "0 \<le> (x + b mod BASE) div BASE"
          using 2 by (simp_all add: pos_imp_zdiv_nonneg_iff)
        ultimately have "(x + b mod BASE) div BASE = 0" by linarith
        then have "?h = x + b mod BASE" using div_mod_BASE [of "x + b mod BASE"] by simp
        moreover have "0 \<le> x" "0 \<le> b mod BASE" using 2 by simp_all
        ultimately have "?h = 0 \<longrightarrow> x = 0" by linarith
        with r True b show ?thesis by (cases "?h = 0") auto
      qed
    qed
  qed
qed

lemma bi_add_ll_top:
  assumes "bi_ok c" "bi_skip c \<le> length (bi_number c)" "0 \<le> b" "bi_add_ll c b = Some d"
    and "top k (bi_number c)" "bi_skip c < k"
  shows "top k (bi_number d)"
proof -
  let ?n = "bi_skip c" and ?xs = "bi_number c"
  let ?zs = "add_ll_loop (drop ?n ?xs) b True"
  have d: "bi_number d = take ?n ?xs @ ?zs" using assms(2,4) by (auto simp: bi_add_ll_def)
  have "limbs_ok (drop ?n ?xs)"
    using assms(1) by (auto simp: bi_ok_def limbs_ok_def dest: in_set_dropD)
  from add_ll_loop_last [OF this assms(3), of True] show ?thesis
  proof (elim disjE conjE)
    assume "?zs \<noteq> []" "last ?zs \<noteq> 0"
    then show ?thesis by (simp add: d top_def)
  next
    assume l: "length ?zs = length (drop ?n ?xs)" "drop ?n ?xs \<noteq> [] \<longrightarrow> last (drop ?n ?xs) = 0"
    have "length (bi_number d) = length ?xs" using l(1) assms(2) by (simp add: d)
    moreover have "length ?xs \<le> k"
    proof (cases "drop ?n ?xs = []")
      case True
      with assms(6) show ?thesis by simp
    next
      case False
      with l(2) have "last ?xs = 0" by (simp add: last_drop)
      with assms(5) show ?thesis by (simp add: top_def)
    qed
    ultimately show ?thesis by (simp add: top_def)
  next
    assume "drop ?n ?xs = []" "?zs = [0]"
    with assms(2,6) show ?thesis by (simp add: d top_def)
  qed
qed

lemma mul_row_top:
  assumes "bi_ok c" "i + j \<le> length (bi_number c)" "0 \<le> x" "limbs_ok ys"
    and "mul_row c x i j ys = Some d" "top k (bi_number c)" "i + j + length ys \<le> k"
  shows "top k (bi_number d)"
  using assms
proof (induction ys arbitrary: c j)
  case Nil
  then show ?case by simp
next
  case (Cons y ys)
  let ?c = "c\<lparr>bi_skip := i + j\<rparr>"
  have p: "bi_ok ?c" "bi_skip ?c \<le> length (bi_number ?c)" "0 \<le> x * y"
    using Cons.prems by (simp_all add: bi_ok_def)
  from bi_add_ll_correct [OF p] obtain e where
    e: "bi_add_ll ?c (x * y) = Some e" "bi_ok e" "i + j < length (bi_number e)" by auto
  with Cons.prems(5) have r: "mul_row e x i (Suc j) ys = Some d" by simp
  have "top k (bi_number e)" using bi_add_ll_top [OF p e(1)] Cons.prems(6,7) by simp
  with Cons.IH [OF e(2) _ _ _ r] e(3) Cons.prems show ?case by simp
qed

lemma mul_rows_top:
  assumes "bi_ok c" "i \<le> length (bi_number c)" "limbs_ok xs" "limbs_ok ys" "ys \<noteq> []"
    and "mul_rows c i xs ys = Some d" "top k (bi_number c)" "i + length xs + length ys \<le> Suc k"
  shows "top k (bi_number d)"
  using assms
proof (induction xs arbitrary: c i)
  case Nil
  then show ?case by simp
next
  case (Cons x xs)
  have p: "i + 0 \<le> length (bi_number c)" "0 \<le> x" using Cons.prems by simp_all
  from mul_row_correct [OF Cons.prems(1) p Cons.prems(4)] obtain e where
    e: "mul_row c x i 0 ys = Some e" "bi_ok e" "ys \<noteq> [] \<longrightarrow> i < length (bi_number e)" by auto
  with Cons.prems have r: "mul_rows e (Suc i) xs ys = Some d" by simp
  have "top k (bi_number e)"
    using mul_row_top [OF Cons.prems(1) p Cons.prems(4) e(1) Cons.prems(7)] Cons.prems(8) by simp
  with Cons.IH [OF e(2) _ _ _ _ r] e(3) Cons.prems show ?case by simp
qed

lemma mul_int_loop_last:
  assumes "limbs_ok xs" "xs \<noteq> []" "last xs \<noteq> 0" "0 < b" "0 \<le> s"
  shows "mul_int_loop xs b s \<noteq> [] \<and> last (mul_int_loop xs b s) \<noteq> 0"
  using assms
proof (induction xs arbitrary: s)
  case Nil
  then show ?case by simp
next
  case (Cons x xs)
  have n: "0 \<le> (s + x * b) div BASE" using Cons.prems by (simp add: pos_imp_zdiv_nonneg_iff)
  show ?case
  proof (cases "xs = []")
    case False
    with Cons n show ?thesis by simp
  next
    case True
    with Cons.prems have "0 < x" by auto
    then have "0 < s + x * b" using Cons.prems by (simp add: add_nonneg_pos)
    then have "(s + x * b) div BASE = 0 \<Longrightarrow> (s + x * b) mod BASE \<noteq> 0"
      using div_mod_BASE [of "s + x * b"] by auto
    with True show ?thesis by simp
  qed
qed

lemma bi_mul_pos_canonical:
  assumes "pos_canonical a" "pos_canonical b" "bi_mul a b = Some c"
  shows "pos_canonical c"
proof -
  have ok: "bi_ok a" "bi_ok b" using assms by (auto simp: pos_canonical_def)
  from bi_mul_correct [OF ok] assms(3) have c: "bi_ok c" "bi_val c = bi_val a * bi_val b" by auto
  show ?thesis
  proof (cases "length (bi_number b) = 1")
    case True
    then obtain d where d: "bi_number b = [d]" by (auto simp: length_Suc_conv)
    with assms have "0 < d" "limbs_ok (bi_number a)" by (auto simp: pos_canonical_def bi_ok_def)
    with mul_int_loop_last [of "bi_number a" d 0] assms c True d show ?thesis
      by (auto simp: bi_mul_def bi_mul_int_def pos_canonical_def)
  next
    case False
    let ?xs = "bi_number a" and ?ys = "bi_number b"
    define k where "k = length ?xs + length ?ys - 1"
    have ne: "?xs \<noteq> []" "?ys \<noteq> []" and lim: "limbs_ok ?xs" "limbs_ok ?ys"
      using assms ok by (auto simp: pos_canonical_def bi_ok_def)
    have e: "bi_ok bi_empty" "0 \<le> length (bi_number bi_empty)" "top k (bi_number bi_empty)"
      by (simp_all add: bi_ok_def bi_empty_def top_def)
    obtain e where r: "mul_rows bi_empty 0 ?xs ?ys = Some e" and ec: "bi_number e = bi_number c"
      using assms(3) False by (auto simp: bi_mul_def)
    have "top k (bi_number e)"
      using mul_rows_top [OF e(1,2) lim ne(2) r e(3)] by (simp add: k_def)
    then have t: "top k (bi_number c)" by (simp add: ec)
    have lo: "BASE ^ (length ?xs - 1) \<le> bi_val a" "BASE ^ (length ?ys - 1) \<le> bi_val b"
      using bval_lower [OF lim(1) ne(1)] bval_lower [OF lim(2) ne(2)] assms
      by (simp_all add: pos_canonical_def bi_val_def)
    then have "BASE ^ (length ?xs - 1) * BASE ^ (length ?ys - 1) \<le> bi_val c"
      unfolding c(2) by (intro mult_mono) (auto simp: bi_val_def bval_nonneg lim)
    moreover have "length ?xs - 1 + (length ?ys - 1) = k - 1"
      using ne by (cases ?xs; cases ?ys) (auto simp: k_def)
    ultimately have v: "BASE ^ (k - 1) \<le> bval (bi_number c)"
      by (simp add: power_add [symmetric] bi_val_def)
    have limc: "limbs_ok (bi_number c)" using c(1) by (simp add: bi_ok_def)
    have nec: "bi_number c \<noteq> []"
    proof
      assume "bi_number c = []"
      then have "bval (bi_number c) = 0" by simp
      moreover have "0 < BASE ^ (k - 1)" by simp
      ultimately show False using v by linarith
    qed
    have "last (bi_number c) \<noteq> 0"
    proof (cases "length (bi_number c) \<le> k")
      case True
      then have "BASE ^ (length (bi_number c) - 1) \<le> BASE ^ (k - 1)"
        by (intro power_increasing) (auto simp: BASE_def)
      with v have "BASE ^ (length (bi_number c) - 1) \<le> bval (bi_number c)" by linarith
      with bval_lower [OF limc nec] show ?thesis by simp
    next
      case False
      with t show ?thesis by (simp add: top_def)
    qed
    with c nec show ?thesis by (simp add: pos_canonical_def)
  qed
qed

lemma add_loop_last:
  "limbs_ok xs \<Longrightarrow> limbs_ok ys \<Longrightarrow> 0 \<le> s \<Longrightarrow> s \<le> 1 \<Longrightarrow>
   (xs = [] \<or> last xs \<noteq> 0) \<Longrightarrow> (ys = [] \<or> last ys \<noteq> 0) \<Longrightarrow>
   add_loop xs ys s = [] \<or> last (add_loop xs ys s) \<noteq> 0"
proof (induction xs ys s rule: add_loop.induct)
  case (1 s)
  then show ?case by auto
next
  case (2 x xs s)
  then have c: "0 \<le> (s + x) div BASE" "(s + x) div BASE \<le> 1" by (auto simp: BASE_def)
  show ?case
  proof (cases "add_loop xs [] ((s + x) div BASE) = []")
    case True
    then have "xs = []" "(s + x) div BASE = 0" by (cases xs; simp split: if_splits)+
    moreover have "0 < s + x" using 2 \<open>xs = []\<close> by auto
    ultimately show ?thesis using True 2 by (auto simp: div_eq_0_iff BASE_def)
  next
    case False
    with 2 c show ?thesis by (auto split: if_splits)
  qed
next
  case (3 y ys s)
  then have c: "0 \<le> (s + y) div BASE" "(s + y) div BASE \<le> 1" by (auto simp: BASE_def)
  show ?case
  proof (cases "add_loop [] ys ((s + y) div BASE) = []")
    case True
    then have "ys = []" "(s + y) div BASE = 0" by (cases ys; simp split: if_splits)+
    moreover have "0 < s + y" using 3 \<open>ys = []\<close> by auto
    ultimately show ?thesis using True 3 by (auto simp: div_eq_0_iff BASE_def)
  next
    case False
    with 3 c show ?thesis by (auto split: if_splits)
  qed
next
  case (4 x xs y ys s)
  then have c: "0 \<le> (s + x + y) div BASE" "(s + x + y) div BASE \<le> 1" by (auto simp: BASE_def)
  show ?case
  proof (cases "add_loop xs ys ((s + x + y) div BASE) = []")
    case True
    then have "xs = []" "ys = []" "(s + x + y) div BASE = 0"
      by (cases xs; cases ys; simp split: if_splits)+
    moreover have "0 < s + x + y" using 4 \<open>xs = []\<close> by auto
    ultimately show ?thesis using True 4 by (auto simp: div_eq_0_iff BASE_def)
  next
    case False
    with 4 c show ?thesis by (auto split: if_splits)
  qed
qed

lemma powers_canonical_pow:
  assumes "pos_canonical b" "1 \<le> pw" "\<And>k r. lookup k = Some r \<Longrightarrow> 1 \<le> k \<and> pos_canonical r"
    and "bi_pow_rec b pw lookup = Some (r, lookup')"
  shows "pos_canonical r \<and> (\<forall>k r. lookup' k = Some r \<longrightarrow> 1 \<le> k \<and> pos_canonical r)"
  using assms(2-4)
proof (induction "nat pw" arbitrary: pw lookup r lookup' rule: less_induct)
  case less
  show ?case
  proof (cases "pw = 1 \<or> lookup pw \<noteq> None")
    case True
    with less.prems assms(1) show ?thesis
      by (subst (asm) bi_pow_rec.simps) (auto split: option.splits if_splits)
  next
    case False
    then have p: "1 < pw" "lookup pw = None" "pw \<noteq> 1" using less.prems by auto
    define c where "c = closest_power 1 pw"
    have c: "1 \<le> c" "c < pw" using closest_power_bounds [of 1 pw] p by (auto simp: c_def)
    from less.prems(3) p c obtain a l1 d l2 where
      a: "bi_pow_rec b c lookup = Some (a, l1)" and d: "bi_pow_rec b (pw - c) l1 = Some (d, l2)"
      and m: "bi_mul a d = Some r" "lookup' = l2(pw \<mapsto> r)"
      by (subst (asm) bi_pow_rec.simps) (auto simp: c_def [symmetric] Let_def split: bind_splits)
    from less.hyps [OF _ c(1) less.prems(2) a] c have
      a': "pos_canonical a" "\<And>k r. l1 k = Some r \<Longrightarrow> 1 \<le> k \<and> pos_canonical r" by auto
    have "1 \<le> pw - c" using c by simp
    from less.hyps [OF _ this a'(2) d] c have
      d': "pos_canonical d" "\<And>k r. l2 k = Some r \<Longrightarrow> 1 \<le> k \<and> pos_canonical r" by auto
    from bi_mul_pos_canonical [OF a'(1) d'(1) m(1)] d'(2) p m(2) show ?thesis by auto
  qed
qed

lemma two_pow:
  assumes "1 \<le> n"
  shows "\<exists>r. bi_pow (bi_of_int 2) n = Some r \<and> pos_canonical r \<and> bi_val r = 2 ^ nat n"
proof -
  from bi_pow_correct [OF two_ok(1) assms] obtain r where
    r: "bi_pow (bi_of_int 2) n = Some r" "bi_val r = 2 ^ nat n" by (auto simp: two_ok)
  have t: "pos_canonical (bi_of_int 2)" using two_ok(1) by (simp add: pos_canonical_def bi_of_int_def bi_limbs_not_Nil bi_limbs_last)
  from r obtain l where "bi_pow_rec (bi_of_int 2) n (\<lambda>_. None) = Some (r, l)"
    by (auto simp: bi_pow_def Let_def bi_of_int_def)
  from powers_canonical_pow [OF t assms _ this] r show ?thesis by auto
qed

text \<open>The total work of a chain is kept in this form; zero is one zero limb or none.\<close>

lemma bi_add_work:
  assumes "bi_ok w" "canonical w" "pos_canonical p"
  shows "\<exists>c. bi_add w p = Some c \<and> pos_canonical c \<and> bi_val c = bi_val w + bi_val p"
proof -
  have p: "bi_ok p" using assms(3) by (simp add: pos_canonical_def)
  from bi_add_correct [OF assms(1) p] obtain c where
    c: "bi_add w p = Some c" "bi_ok c" "bi_val c = bi_val w + bi_val p"
      "bi_number c = add_loop (bi_number w) (bi_number p) 0" by blast
  have lim: "limbs_ok (bi_number w)" "limbs_ok (bi_number p)" using assms(1) p by (auto simp: bi_ok_def)
  obtain y ys where y: "bi_number p = y # ys" using assms(3) by (cases "bi_number p") (auto simp: pos_canonical_def)
  have lp: "last (bi_number p) \<noteq> 0" using assms(3) by (simp add: pos_canonical_def)
  have "bi_number c \<noteq> [] \<and> last (bi_number c) \<noteq> 0"
  proof (cases "bi_number w = [0]")
    case True
    then have "bi_number c = add_loop [] (bi_number p) 0" by (simp add: c(4) y)
    with add_loop_last [OF _ lim(2), of "[]" 0] lp y show ?thesis by auto
  next
    case False
    then have "bi_number w = [] \<or> last (bi_number w) \<noteq> 0"
      using assms(2) by (cases "bi_number w") (auto simp: canonical_def split: if_splits)
    with add_loop_last [OF lim, of 0] lp have "bi_number c = [] \<or> last (bi_number c) \<noteq> 0" by (simp add: c(4))
    moreover have "bi_number c \<noteq> []" by (cases "bi_number w") (simp_all add: c(4) y)
    ultimately show ?thesis by simp
  qed
  with c show ?thesis by (auto simp: pos_canonical_def)
qed

lemma addWork_correct:
  assumes "bi_ok w" "canonical w" "1 \<le> unat d" "unat d < 2 ^ 31"
  shows "\<exists>c. addWork w d = Some c \<and> pos_canonical c \<and> bi_val c = bi_val w + 2 ^ unat d"
proof -
  have "1 \<le> sint d" "nat (sint d) = unat d" using sint_power [OF assms(3,4)] by simp_all
  with two_pow obtain r where "bi_pow (bi_of_int 2) (sint d) = Some r" "pos_canonical r"
    "bi_val r = 2 ^ unat d" by metis
  with bi_add_work [OF assms(1,2), of r] show ?thesis by (simp add: addWork_def)
qed

lemma removeWork_correct:
  assumes "pos_canonical w" "1 \<le> unat d" "unat d < 2 ^ 31" "2 ^ unat d \<le> bi_val w"
  shows "\<exists>c. removeWork w d = Some c \<and> bi_ok c \<and> canonical c \<and> bi_val c = bi_val w - 2 ^ unat d"
proof -
  have "1 \<le> sint d" "nat (sint d) = unat d" using sint_power [OF assms(2,3)] by simp_all
  with two_pow obtain r where r: "bi_pow (bi_of_int 2) (sint d) = Some r" "pos_canonical r"
    "bi_val r = 2 ^ unat d" by metis
  with bi_sub_correct [of w r] assms(1,4) show ?thesis
    by (auto simp: removeWork_def pos_canonical_def canonical_def)
qed

section \<open>Properties\<close>

text \<open>
  C24. The work of a chain: for a difficulty of at least 1, \<open>addWork\<close> returns a number whose
  value is larger by \<open>2 ^ difficulty\<close>, and \<open>removeWork\<close> of the same difficulty returns one
  with the old value: popping a block undoes adding it. For difficulty 0 neither returns,
  because \<open>Bigint::pow\<close> recurses on 0 for ever.
\<close>

theorem work_add_remove:
  assumes "bi_ok w" "canonical w" "unat d < 2 ^ 31"
  shows "if d = 0 then addWork w d = None \<and> removeWork w d = None
    else \<exists>c e. addWork w d = Some c \<and> bi_ok c \<and> canonical c \<and> bi_val c = bi_val w + 2 ^ unat d \<and>
      removeWork c d = Some e \<and> bi_ok e \<and> canonical e \<and> bi_val e = bi_val w"
proof (cases "d = 0")
  case True
  then show ?thesis by (simp add: addWork_def removeWork_def bi_pow_zero)
next
  case False
  then have d: "1 \<le> unat d" by (simp add: unat_gt_0 Suc_le_eq)
  from addWork_correct [OF assms(1,2) d assms(3)] obtain c where
    c: "addWork w d = Some c" "pos_canonical c" "bi_val c = bi_val w + 2 ^ unat d" by blast
  have "0 \<le> bi_val w" using assms(1) by (simp add: bi_val_def bi_ok_def bval_nonneg)
  with c(3) have "2 ^ unat d \<le> bi_val c" by simp
  from removeWork_correct [OF c(2) d assms(3) this] c show ?thesis
    using False pos_canonicalD [OF c(2)] by auto
qed

lemma work_add_remove_witness:
  "\<exists>c e. addWork (bi_assign 0 bi_empty) 100 = Some c \<and> bi_val c = 2 ^ 100 \<and>
     removeWork c 100 = Some e \<and> bi_val e = 0"
proof -
  have "bi_ok (bi_assign 0 bi_empty)" "canonical (bi_assign 0 bi_empty)" "unat (100 :: u32) < 2 ^ 31"
    by (simp_all add: bi_ok_def canonical_def bi_assign_def bi_empty_def)
  from work_add_remove [OF this] show ?thesis
    by (auto simp: bi_val_def bi_assign_def)
qed

text \<open>
  The total work survives its textual form in the database: reading back the decimal text
  of a non-negative number gives a number in normal form with the same value, so it compares
  equal to every normal form of that value.
\<close>

lemma work_text_roundtrip:
  assumes "bi_ok b"
  shows "\<exists>c. bi_of_string (bi_to_string b) = Some c \<and> bi_ok c \<and> bi_val c = bi_val b \<and>
    (canonical b \<and> bi_number b \<noteq> [] \<longrightarrow> bi_eq c b)"
proof -
  from bi_text_roundtrip [OF assms] obtain c where
    c: "bi_of_string (bi_to_string b) = Some c" "bi_ok c" "bi_val c = bi_val b" "canonical c"
      "bi_number c \<noteq> []" by blast
  have "bi_compare c b = 0" if "canonical b" "bi_number b \<noteq> []"
    using bi_compare_correct [OF c(2) assms c(4) that(1)] c(3,5) that(2) by (simp add: Suc_le_eq)
  with c show ?thesis by (auto simp: bi_eq_def)
qed

lemma work_text_roundtrip_witness:
  "\<exists>c. bi_of_string (bi_to_string (bi_of_int 7000000000000000042)) = Some c \<and> bi_val c = 7000000000000000042"
proof -
  have "bi_ok (bi_of_int 7000000000000000042)" "bi_val (bi_of_int 7000000000000000042) = 7000000000000000042"
    using bi_of_int_ok [of 7000000000000000042] by auto
  with work_text_roundtrip show ?thesis by metis
qed

text \<open>
  Comparison of work: for numbers in normal form \<open>compare\<close> is the order of the values. A
  number without limbs, which the constructor makes of 0, is smaller than the zero that an
  assignment of 0 makes, so \<open>HeaderChain::valid\<close>'s test \<open>totalWork > 0\<close> holds right after a reset.
\<close>

lemma work_compare:
  "(bi_ok a \<and> bi_ok b \<and> canonical a \<and> canonical b \<and> bi_number a \<noteq> [] \<and> bi_number b \<noteq> [] \<longrightarrow>
     bi_greater a b = (bi_val b < bi_val a) \<and> bi_less a b = (bi_val a < bi_val b) \<and>
     bi_eq a b = (bi_val a = bi_val b)) \<and>
   bi_greater (bi_assign 0 c\<lparr>bi_positive := True\<rparr>) (bi_of_int 0)"
proof
  show "bi_ok a \<and> bi_ok b \<and> canonical a \<and> canonical b \<and> bi_number a \<noteq> [] \<and> bi_number b \<noteq> [] \<longrightarrow>
     bi_greater a b = (bi_val b < bi_val a) \<and> bi_less a b = (bi_val a < bi_val b) \<and>
     bi_eq a b = (bi_val a = bi_val b)"
    using bi_compare_correct [of a b]
    by (auto simp: bi_greater_def bi_less_def bi_eq_def Suc_le_eq sgn_if split: if_splits)
  have "bi_limbs 0 = []" by (subst bi_limbs.simps) simp
  then show "bi_greater (bi_assign 0 c\<lparr>bi_positive := True\<rparr>) (bi_of_int 0)"
    by (simp add: bi_greater_def bi_compare_def bi_assign_def bi_of_int_def)
qed

lemma work_compare_witness: "bi_greater (bi_of_int 2) (bi_of_int 1)"
proof -
  have "bi_val (bi_of_int 1) = 1" "bi_val (bi_of_int 2) = 2" "bi_ok (bi_of_int 1)" "bi_ok (bi_of_int 2)"
    using bi_of_int_ok [of 1] bi_of_int_ok [of 2] by auto
  moreover have "bi_number (bi_of_int n) \<noteq> [] \<and> canonical (bi_of_int n)" if "0 < n" for n
    using that bi_limbs_not_Nil [of n] bi_limbs_last [of n] by (simp add: bi_of_int_def canonical_def)
  ultimately show ?thesis using work_compare [of "bi_of_int 2" "bi_of_int 1"] by simp
qed

end
