(* ===== verification/BlockStore.thy ===== *)
theory BlockStore
  imports Block Bigint
begin

text \<open>
  \<open>server/block_store.cpp\<close>: blocks in a LevelDB database. A header is stored under the
  4-byte id of its block and a transaction under the id and its index, both as images of
  the C structs; an empty value under a wallet's address followed by the hash of a
  transaction's contents is the index of the transactions of a wallet. Two more keys hold
  the number of blocks and the total work.

  The structs have padding, which is written but never read: \<open>pad i\<close> is what the padding of
  the \<open>i\<close>-th struct of a block holds. The images are interpretations of the locale \<open>codec\<close>.
  A value shorter than the struct read from it is undefined behaviour, and so is a text
  \<open>Bigint\<close>'s constructor never stops reading.
\<close>

section \<open>Struct images\<close>

definition header_image :: "(nat \<Rightarrow> u8) \<Rightarrow> block_header \<Rightarrow> bytes" where
  "header_image pad h =
     le_enc 4 (h_id h) @ map pad [0..<4] @ le_enc 8 (h_timestamp h) @ le_enc 4 (h_difficulty h) @
     le_enc 4 (h_numTransactions h) @ h_lastBlockHash h @ h_merkleRoot h @ h_nonce h"

definition header_of_image :: "(bytes, block_header) cpp" where
  "header_of_image =
     bindE readNetworkUint32 (\<lambda>id.
     bindE (readNetworkNBytes 4) (\<lambda>_.
     bindE readNetworkUint64 (\<lambda>timestamp.
     bindE readNetworkUint32 (\<lambda>difficulty.
     bindE readNetworkUint32 (\<lambda>numTransactions.
     bindE (readNetworkNBytes 32) (\<lambda>lastBlockHash.
     bindE (readNetworkNBytes 32) (\<lambda>merkleRoot.
     bindE (readNetworkNBytes 32) (\<lambda>nonce.
     ok \<lparr>h_id = id, h_timestamp = timestamp, h_difficulty = difficulty,
         h_numTransactions = numTransactions, h_lastBlockHash = lastBlockHash,
         h_merkleRoot = merkleRoot, h_nonce = nonce\<rparr>))))))))"

definition info_image :: "(nat \<Rightarrow> u8) \<Rightarrow> transaction_info \<Rightarrow> bytes" where
  "info_image pad t =
     ti_signature t @ ti_signingKey t @ le_enc 8 (ti_timestamp t) @ ti_to t @ ti_from t @
     map pad [0..<6] @ le_enc 8 (ti_amount t) @ le_enc 8 (ti_fee t) @
     [if ti_isTransactionFee t then 1 else 0] @ map pad [6..<13]"

definition info_of_image :: "(bytes, transaction_info) cpp" where
  "info_of_image =
     bindE (readNetworkNBytes 64) (\<lambda>signature.
     bindE (readNetworkNBytes 32) (\<lambda>signingKey.
     bindE readNetworkUint64 (\<lambda>timestamp.
     bindE (readNetworkNBytes 25) (\<lambda>to.
     bindE (readNetworkNBytes 25) (\<lambda>from.
     bindE (readNetworkNBytes 6) (\<lambda>_.
     bindE readNetworkUint64 (\<lambda>amount.
     bindE readNetworkUint64 (\<lambda>fee.
     bindE (readNetworkNBytes 1) (\<lambda>flag.
     bindE (readNetworkNBytes 7) (\<lambda>_.
     if 1 < hd flag then throw UB
     else ok \<lparr>ti_signature = signature, ti_signingKey = signingKey, ti_timestamp = timestamp,
              ti_to = to, ti_from = from, ti_amount = amount, ti_fee = fee,
              ti_isTransactionFee = (hd flag = 1)\<rparr>))))))))))"

definition info_image_wf :: "transaction_info \<Rightarrow> bool" where
  "info_image_wf t \<longleftrightarrow> length (ti_signature t) = 64 \<and> length (ti_signingKey t) = 32 \<and>
     length (ti_to t) = 25 \<and> length (ti_from t) = 25"

lemma readNetworkUint_le [cpp_simps]:
  "readNetworkUint32 (le_enc 4 x @ rest) = (Inr x, rest)"
  "readNetworkUint64 (le_enc 8 y @ rest) = (Inr y, rest)"
  by (simp_all add: readNetworkUint32_def readNetworkUint64_def cpp_simps)

interpretation header_image_codec: codec "header_image pad" header_of_image block_header_wf 120 for pad
proof unfold_locales
  fix a :: block_header and rest
  assume wf: "block_header_wf a"
  then show "length (header_image pad a) = 120"
    by (simp add: header_image_def block_header_wf_def)
  show "header_of_image (header_image pad a @ rest) = (Inr a, rest)"
    using wf by (cases a) (simp add: header_of_image_def header_image_def block_header_wf_def
        bindE_Inr cpp_simps del: upt_Suc)
qed

interpretation info_image_codec: codec "info_image pad" info_of_image info_image_wf 184 for pad
proof unfold_locales
  fix a :: transaction_info and rest
  assume wf: "info_image_wf a"
  then show "length (info_image pad a) = 184"
    by (simp add: info_image_def info_image_wf_def)
  have flag: "readNetworkNBytes (Suc 0) (x # xs) = (Inr [x], xs)" for x xs
    by (simp add: readNetworkNBytes_def)
  have tail: "readNetworkNBytes 7 (a # b # c # d # e # f # g # xs) = (Inr [a, b, c, d, e, f, g], xs)"
    for a b c d e f g xs
    by (simp add: readNetworkNBytes_def)
  show "info_of_image (info_image pad a @ rest) = (Inr a, rest)"
    using wf by (cases a) (simp add: info_of_image_def info_image_def info_image_wf_def
        bindE_Inr cpp_simps flag tail del: upt_Suc)
qed

section \<open>Operations\<close>

text \<open>Read a struct from a value of the database.\<close>

definition load :: "(bytes, 'a) cpp \<Rightarrow> bytes \<Rightarrow> ('d, 'a) cpp" where
  "load rd v d = (fst (rd v), d)"

definition text_bytes :: "string \<Rightarrow> bytes" where
  "text_bytes s = map (\<lambda>c. of_nat (of_char c)) s"

definition bytes_text :: "bytes \<Rightarrow> string" where
  "bytes_text v = map (\<lambda>b. char_of (unat b)) v"

definition BLOCK_COUNT_KEY :: bytes where
  "BLOCK_COUNT_KEY = text_bytes ''BLOCK_COUNT''"

definition TOTAL_WORK_KEY :: bytes where
  "TOTAL_WORK_KEY = text_bytes ''TOTAL_WORK''"

definition block_key :: "u32 \<Rightarrow> bytes" where
  "block_key blockId = le_enc 4 blockId"

definition tx_key :: "u32 \<Rightarrow> nat \<Rightarrow> bytes" where
  "tx_key blockId i = le_enc 4 blockId @ le_enc 4 (of_nat i :: u32)"

definition setBlockCount :: "'d kv \<Rightarrow> u64 \<Rightarrow> ('d, unit) cpp" where
  "setBlockCount L num =
     kv_write L ''Could not write block count to DB : '' BLOCK_COUNT_KEY (le_enc 8 num)"

definition getBlockCount :: "'d kv \<Rightarrow> ('d, u64) cpp" where
  "getBlockCount L d =
     (case kv_get L d BLOCK_COUNT_KEY of
        None \<Rightarrow> (Inl (Runtime ''Could not read block count from DB : ''), d)
      | Some v \<Rightarrow> load readNetworkUint64 v d)"

definition setTotalWork :: "'d kv \<Rightarrow> bigint \<Rightarrow> ('d, unit) cpp" where
  "setTotalWork L work =
     kv_write L ''Could not write block count to DB : '' TOTAL_WORK_KEY (text_bytes (bi_to_string work))"

definition getTotalWork :: "'d kv \<Rightarrow> ('d, bigint) cpp" where
  "getTotalWork L d =
     (case kv_get L d TOTAL_WORK_KEY of
        None \<Rightarrow> (Inl (Runtime ''Could not read block count from DB : ''), d)
      | Some v \<Rightarrow>
          (case bi_of_string (bytes_text v) of None \<Rightarrow> (Inl UB, d) | Some b \<Rightarrow> (Inr b, d)))"

text \<open>The value \<open>hasBlockCount\<close> loads before it looks at the status is never used.\<close>

definition hasBlockCount :: "'d kv \<Rightarrow> 'd \<Rightarrow> bool" where
  "hasBlockCount L d = (kv_get L d BLOCK_COUNT_KEY \<noteq> None)"

definition hasBlock :: "'d kv \<Rightarrow> u32 \<Rightarrow> 'd \<Rightarrow> bool" where
  "hasBlock L blockId d = (kv_get L d (block_key blockId) \<noteq> None)"

definition store_getBlockHeader :: "'d kv \<Rightarrow> u32 \<Rightarrow> ('d, block_header) cpp" where
  "store_getBlockHeader L blockId d =
     (case kv_get L d (block_key blockId) of
        None \<Rightarrow> (Inl (Runtime ''Could not read block header''), d)
      | Some v \<Rightarrow> load header_of_image v d)"

text \<open>The loops read transactions \<open>i\<close> to \<open>i + n - 1\<close>.\<close>

fun read_infos :: "'d kv \<Rightarrow> u32 \<Rightarrow> nat \<Rightarrow> nat \<Rightarrow> ('d, transaction_info list) cpp" where
  "read_infos L blockId i 0 d = (Inr [], d)"
| "read_infos L blockId i (Suc n) d =
     (case kv_get L d (tx_key blockId i) of
        None \<Rightarrow> (Inl (Runtime ''Could not read transaction from BlockStore db : ''), d)
      | Some v \<Rightarrow> bindE (load info_of_image v) (\<lambda>t.
                   bindE (read_infos L blockId (Suc i) n) (\<lambda>ts. ok (t # ts))) d)"

definition getBlockTransactions :: "'d kv \<Rightarrow> block_header \<Rightarrow> ('d, transaction_info list) cpp" where
  "getBlockTransactions L block = read_infos L (h_id block) 0 (unat (h_numTransactions block))"

text \<open>
  \<open>getRawData\<close> copies the struct out of the value before it looks at the status; for a
  missing transaction the value is empty.
\<close>

fun raw_infos :: "'d kv \<Rightarrow> u32 \<Rightarrow> nat \<Rightarrow> nat \<Rightarrow> ('d, bytes) cpp" where
  "raw_infos L blockId i 0 d = (Inr [], d)"
| "raw_infos L blockId i (Suc n) d =
     (case kv_get L d (tx_key blockId i) of
        None \<Rightarrow> (Inl UB, d)
      | Some v \<Rightarrow> bindE (load info_of_image v) (\<lambda>t.
                   bindE (raw_infos L blockId (Suc i) n) (\<lambda>bs.
                   ok (transactionInfoToBuffer t @ bs))) d)"

definition getRawData :: "'d kv \<Rightarrow> u32 \<Rightarrow> ('d, bytes) cpp" where
  "getRawData L blockId =
     bindE (store_getBlockHeader L blockId) (\<lambda>block.
     bindE (raw_infos L blockId 0 (unat (h_numTransactions block))) (\<lambda>bs.
     ok (blockHeaderToBuffer block @ bs)))"

text \<open>
  \<open>mem i\<close> is the memory the \<open>i\<close>-th transaction is built in, \<open>mem' i\<close> that of its copy in the
  block.
\<close>

primrec infos_to_transactions :: "(nat \<Rightarrow> transaction) \<Rightarrow> transaction_info list \<Rightarrow> transaction list" where
  "infos_to_transactions mem [] = []"
| "infos_to_transactions mem (t # ts) =
     transaction_of_info (mem 0) t # infos_to_transactions (\<lambda>i. mem (Suc i)) ts"

definition store_getBlock ::
  "'d kv \<Rightarrow> (nat \<Rightarrow> transaction) \<Rightarrow> (nat \<Rightarrow> transaction) \<Rightarrow> u32 \<Rightarrow> ('d, block) cpp" where
  "store_getBlock L mem mem' blockId =
     bindE (store_getBlockHeader L blockId) (\<lambda>block.
     bindE (getBlockTransactions L block) (\<lambda>transactionInfo.
     ok (block_of_header mem' block (infos_to_transactions mem transactionInfo))))"

definition wallet_key :: "wallet \<Rightarrow> hash \<Rightarrow> bytes" where
  "wallet_key addr txId = addr @ txId"

text \<open>\<open>it->Seek(startSlice)\<close>, then on until the end of the database or \<open>endSlice\<close>.\<close>

definition store_getTransactionsForWallet :: "'d kv \<Rightarrow> wallet \<Rightarrow> ('d, hash list) cpp" where
  "store_getTransactionsForWallet L wallet d =
     (let startKey = wallet_key wallet (replicate 32 0);
          endKey = wallet_key wallet (replicate 32 (- 1));
          keys = takeWhile (\<lambda>k. k < endKey) (dropWhile (\<lambda>k. k < startKey) (map fst (kv_entries L d)))
      in if \<forall>k \<in> set keys. 57 \<le> length k
         then (Inr (map (\<lambda>k. take 32 (drop 25 k)) keys), d)
         else (Inl UB, d))"

definition removeBlockWalletTransactions ::
  "crypto \<Rightarrow> 'd kv \<Rightarrow> (nat \<Rightarrow> transaction) \<Rightarrow> block \<Rightarrow> ('d, unit) cpp" where
  "removeBlockWalletTransactions C L mem block =
     forE (copy_list mem (b_transactions block)) (\<lambda>t.
       (let txid = hashContents C t in
        bindE (kv_remove L ''Could not remove transaction from wallet in blockstore db : ''
                 (wallet_key (t_from t) txid)) (\<lambda>_.
        kv_remove L ''Could not remove transaction from wallet in blockstore db : ''
          (wallet_key (t_to t) txid))))"

definition set_transaction ::
  "crypto \<Rightarrow> 'd kv \<Rightarrow> (nat \<Rightarrow> u8) \<Rightarrow> u32 \<Rightarrow> nat \<Rightarrow> transaction \<Rightarrow> ('d, unit) cpp" where
  "set_transaction C L pad blockId i tx =
     (let t = tx_serialize tx; txid = hashContents C tx in
      bindE (kv_write L ''Could not write transaction to BlockStore db : ''
               (tx_key blockId i) (info_image pad t)) (\<lambda>_.
      bindE (kv_write L ''Could not write wallet transactions to BlockStore db : ''
               (wallet_key (ti_from t) txid) []) (\<lambda>_.
      kv_write L ''Could not write wallet transactions to BlockStore db : ''
        (wallet_key (ti_to t) txid) [])))"

fun set_transactions ::
  "crypto \<Rightarrow> 'd kv \<Rightarrow> (nat \<Rightarrow> nat \<Rightarrow> u8) \<Rightarrow> u32 \<Rightarrow> nat \<Rightarrow> transaction list \<Rightarrow> ('d, unit) cpp" where
  "set_transactions C L pad blockId i [] = ok ()"
| "set_transactions C L pad blockId i (t # ts) =
     bindE (set_transaction C L (pad (Suc i)) blockId i t) (\<lambda>_.
     set_transactions C L pad blockId (Suc i) ts)"

definition setBlock :: "crypto \<Rightarrow> 'd kv \<Rightarrow> (nat \<Rightarrow> nat \<Rightarrow> u8) \<Rightarrow> block \<Rightarrow> ('d, unit) cpp" where
  "setBlock C L pad block =
     bindE (kv_write L ''Could not write block to BlockStore db : ''
              (block_key (b_id block)) (header_image (pad 0) (block_serialize block))) (\<lambda>_.
     set_transactions C L pad (b_id block) 0 (b_transactions block))"

section \<open>Keys\<close>

text \<open>The five kinds of keys have different lengths.\<close>

lemma length_keys [simp]:
  "length (block_key i) = 4" "length (tx_key i j) = 8" "length BLOCK_COUNT_KEY = 11"
  "length TOTAL_WORK_KEY = 10" "length (wallet_key w h) = length w + length h"
  by (simp_all add: block_key_def tx_key_def BLOCK_COUNT_KEY_def TOTAL_WORK_KEY_def text_bytes_def
      wallet_key_def)

lemma le_enc4_inj [simp]: "le_enc 4 x = le_enc 4 (y :: u32) \<longleftrightarrow> x = y"
  by (rule le_enc_inj) simp

lemma block_key_inj [simp]: "block_key i = block_key j \<longleftrightarrow> i = j"
  by (simp add: block_key_def)

lemma tx_key_inj [simp]:
  "tx_key i j = tx_key i' j' \<longleftrightarrow> i = i' \<and> (of_nat j :: u32) = of_nat j'"
  by (simp add: tx_key_def)

lemma of_nat_u32_inj: "j < 2 ^ 32 \<Longrightarrow> k < 2 ^ 32 \<Longrightarrow> (of_nat j :: u32) = of_nat k \<longleftrightarrow> j = k"
  by (simp add: word_of_nat_eq_iff take_bit_nat_eq_self)

lemma wallet_key_inj: "length w = length w' \<Longrightarrow> wallet_key w h = wallet_key w' h' \<longleftrightarrow> w = w' \<and> h = h'"
  by (simp add: wallet_key_def)

lemma text_bytes_inv [simp]: "bytes_text (text_bytes s) = s"
proof -
  have "char_of (unat (of_nat (of_char c) :: u8)) = c" for c
  proof -
    have "(of_char c :: nat) < 256" by simp
    then have "unat (of_nat (of_char c) :: u8) = of_char c"
      by (simp add: unsigned_of_nat take_bit_nat_eq_self)
    then show ?thesis by simp
  qed
  then show ?thesis by (simp add: bytes_text_def text_bytes_def comp_def)
qed

text \<open>A wallet key of a transaction: the sender's or the receiver's.\<close>

definition indexed :: "crypto \<Rightarrow> transaction \<Rightarrow> bytes \<Rightarrow> bool" where
  "indexed C t k \<longleftrightarrow> k = wallet_key (t_from t) (hashContents C t) \<or> k = wallet_key (t_to t) (hashContents C t)"

lemma indexed_length:
  "crypto_ok C \<Longrightarrow> transaction_wf t \<Longrightarrow> indexed C t k \<Longrightarrow> length k = 57"
  by (auto simp: indexed_def transaction_wf_def hashContents_def length_sha256)

section \<open>What the writers leave in the database\<close>

lemma set_transaction_get:
  assumes "kv_ok L" "set_transaction C L pad blockId i t d = (Inr (), d')"
    and "crypto_ok C" "transaction_wf t"
  shows "kv_get L d' = (\<lambda>k. if indexed C t k then Some []
    else if k = tx_key blockId i then Some (info_image pad (tx_serialize t)) else kv_get L d k)"
proof -
  have "length (wallet_key (t_from t) (hashContents C t)) = 57"
    "length (wallet_key (t_to t) (hashContents C t)) = 57"
    using assms(3,4) by (simp_all add: transaction_wf_def hashContents_def length_sha256)
  then have "tx_key blockId i \<noteq> wallet_key (t_from t) (hashContents C t)"
    "tx_key blockId i \<noteq> wallet_key (t_to t) (hashContents C t)"
    by (auto dest!: arg_cong [of _ _ length])
  then show ?thesis using assms(1,2)
    by (auto simp: set_transaction_def Let_def bindE_eq_Inr tx_serialize_def indexed_def fun_eq_iff
        dest!: kv_write_Inr [OF assms(1)])
qed

lemma set_transactions_get:
  assumes "kv_ok L" "crypto_ok C" "set_transactions C L pad blockId i ts d = (Inr (), d')"
    and "\<forall>t \<in> set ts. transaction_wf t" "i + length ts \<le> 2 ^ 32"
  shows "(\<forall>k. length k = 57 \<longrightarrow> kv_get L d' k =
            (if \<exists>t \<in> set ts. indexed C t k then Some [] else kv_get L d k)) \<and>
         (\<forall>j < length ts. kv_get L d' (tx_key blockId (i + j)) =
            Some (info_image (pad (Suc (i + j))) (tx_serialize (ts ! j)))) \<and>
         (\<forall>k. length k \<noteq> 57 \<longrightarrow> (\<forall>j < length ts. k \<noteq> tx_key blockId (i + j)) \<longrightarrow>
            kv_get L d' k = kv_get L d k)"
  using assms(3-5)
proof (induction ts arbitrary: i d)
  case Nil
  then show ?case by simp
next
  case (Cons t ts)
  then obtain e where e: "set_transaction C L (pad (Suc i)) blockId i t d = (Inr (), e)"
    "set_transactions C L pad blockId (Suc i) ts e = (Inr (), d')"
    by (auto simp: bindE_eq_Inr)
  note IH = Cons.IH [OF e(2)]
  have wf: "transaction_wf t" using Cons.prems(2) by simp
  note g = set_transaction_get [OF assms(1) e(1) assms(2) wf]
  have len: "indexed C t k \<Longrightarrow> length k = 57" for k using indexed_length [OF assms(2) wf] by blast
  have ih: "(\<forall>k. length k = 57 \<longrightarrow> kv_get L d' k =
            (if \<exists>t \<in> set ts. indexed C t k then Some [] else kv_get L e k))"
    "(\<forall>j < length ts. kv_get L d' (tx_key blockId (Suc i + j)) =
            Some (info_image (pad (Suc (Suc i + j))) (tx_serialize (ts ! j))))"
    "(\<forall>k. length k \<noteq> 57 \<longrightarrow> (\<forall>j < length ts. k \<noteq> tx_key blockId (Suc i + j)) \<longrightarrow>
            kv_get L d' k = kv_get L e k)"
    using IH Cons.prems by auto
  have "kv_get L d' (tx_key blockId i) = kv_get L e (tx_key blockId i)"
  proof -
    have "tx_key blockId i \<noteq> tx_key blockId (Suc i + j)" if "j < length ts" for j
      using that Cons.prems(3) of_nat_u32_inj [of i "Suc i + j"] by simp
    then show ?thesis using ih(3) by simp
  qed
  also have "\<dots> = Some (info_image (pad (Suc i)) (tx_serialize t))"
    using g len [of "tx_key blockId i"] by auto
  finally have first: "kv_get L d' (tx_key blockId i) = Some (info_image (pad (Suc i)) (tx_serialize t))" .
  show ?case
  proof (intro conjI allI impI)
    fix k :: bytes assume k: "length k = 57"
    then have "k \<noteq> tx_key blockId i" by auto
    then show "kv_get L d' k = (if \<exists>t \<in> set (t # ts). indexed C t k then Some [] else kv_get L d k)"
      using ih(1) k g by simp
  next
    fix j assume "j < length (t # ts)"
    then show "kv_get L d' (tx_key blockId (i + j)) =
        Some (info_image (pad (Suc (i + j))) (tx_serialize ((t # ts) ! j)))"
      using first ih(2) by (cases j) auto
  next
    fix k :: bytes assume k: "length k \<noteq> 57" "\<forall>j < length (t # ts). k \<noteq> tx_key blockId (i + j)"
    have "k \<noteq> tx_key blockId (Suc i + j)" if "j < length ts" for j
      using k(2) that by (metis Suc_less_eq add_Suc_shift length_Cons)
    then have "kv_get L d' k = kv_get L e k" using ih(3) k(1) by blast
    also have "\<dots> = kv_get L d k" using g len [of k] k by (metis add.right_neutral length_Cons zero_less_Suc)
    finally show "kv_get L d' k = kv_get L d k" .
  qed
qed

lemma setBlock_get:
  assumes "kv_ok L" "crypto_ok C" "setBlock C L pad b d = (Inr (), d')"
    and "\<forall>t \<in> set (b_transactions b). transaction_wf t" "length (b_transactions b) \<le> 2 ^ 32"
  shows "kv_get L d' (block_key (b_id b)) = Some (header_image (pad 0) (block_serialize b))"
    and "length k = 57 \<Longrightarrow> kv_get L d' k =
           (if \<exists>t \<in> set (b_transactions b). indexed C t k then Some [] else kv_get L d k)"
    and "j < length (b_transactions b) \<Longrightarrow> kv_get L d' (tx_key (b_id b) j) =
           Some (info_image (pad (Suc j)) (tx_serialize (b_transactions b ! j)))"
    and "length k \<noteq> 57 \<Longrightarrow> k \<noteq> block_key (b_id b) \<Longrightarrow>
         \<forall>j < length (b_transactions b). k \<noteq> tx_key (b_id b) j \<Longrightarrow> kv_get L d' k = kv_get L d k"
proof -
  from assms(3) obtain e where e:
    "kv_get L e = (kv_get L d)(block_key (b_id b) \<mapsto> header_image (pad 0) (block_serialize b))"
    "set_transactions C L pad (b_id b) 0 (b_transactions b) e = (Inr (), d')"
    by (auto simp: setBlock_def bindE_eq_Inr dest: kv_write_Inr [OF assms(1)])
  note g = set_transactions_get [OF assms(1,2) e(2) assms(4)]
  have ne: "block_key (b_id b) \<noteq> tx_key (b_id b) j" "length k = 57 \<Longrightarrow> k \<noteq> block_key (b_id b)" for j k
    by (auto dest: arg_cong [of _ _ length])
  from g assms(5) ne(1) e(1)
  show "kv_get L d' (block_key (b_id b)) = Some (header_image (pad 0) (block_serialize b))" by simp
  from g assms(5) ne(2) [of k] e(1)
  show "length k = 57 \<Longrightarrow> kv_get L d' k =
           (if \<exists>t \<in> set (b_transactions b). indexed C t k then Some [] else kv_get L d k)" by simp
  from g assms(5)
  show "j < length (b_transactions b) \<Longrightarrow> kv_get L d' (tx_key (b_id b) j) =
           Some (info_image (pad (Suc j)) (tx_serialize (b_transactions b ! j)))" by simp
  from g assms(5) e(1)
  show "length k \<noteq> 57 \<Longrightarrow> k \<noteq> block_key (b_id b) \<Longrightarrow>
         \<forall>j < length (b_transactions b). k \<noteq> tx_key (b_id b) j \<Longrightarrow> kv_get L d' k = kv_get L d k"
    by simp
qed

lemma bindE_total: "\<exists>d'. m d = (Inr (), d') \<Longrightarrow> (\<And>e. \<exists>d'. f () e = (Inr (), d')) \<Longrightarrow>
    \<exists>d'. bindE m f d = (Inr (), d')"
  by (auto simp: bindE_Inr)

lemma setBlock_total:
  assumes "kv_writes L" shows "\<exists>d'. setBlock C L pad b d = (Inr (), d')"
proof -
  note total = kv_write_total [OF assms]
  have t: "\<exists>d'. set_transaction C L p bid i t e = (Inr (), d')" for p bid i t e
    unfolding set_transaction_def Let_def by (intro bindE_total total)
  have "\<exists>d'. set_transactions C L pad (b_id b) i ts e = (Inr (), d')" for i ts e
    by (induction ts arbitrary: i e) (simp, simp only: set_transactions.simps, intro bindE_total t, blast)
  then show ?thesis unfolding setBlock_def by (intro bindE_total total)
qed

section \<open>What the readers return\<close>

lemma load_codec: "codec wr rd ok_rec n \<Longrightarrow> ok_rec a \<Longrightarrow> load rd (wr a) d = (Inr a, d)"
  using codec.rd_wr [of wr rd ok_rec n a "[]"] by (simp add: load_def)

lemmas load_header = load_codec [OF header_image_codec.codec_axioms]
lemmas load_info = load_codec [OF info_image_codec.codec_axioms]

lemma snd_load [simp]: "snd (load rd v d) = d"
  by (simp add: load_def)

lemma read_infos_ok:
  assumes "\<forall>j < length ts. kv_get L d (tx_key bid (i + j)) = Some (info_image (p j) (ts ! j))"
    and "\<forall>t \<in> set ts. info_image_wf t"
  shows "read_infos L bid i (length ts) d = (Inr ts, d) \<and>
    raw_infos L bid i (length ts) d = (Inr (concat (map transactionInfoToBuffer ts)), d)"
  using assms
proof (induction ts arbitrary: i p)
  case Nil
  then show ?case by simp
next
  case (Cons t ts)
  have s: "kv_get L d (tx_key bid i) = Some (info_image (p 0) t)" using Cons.prems(1) by force
  have r: "\<forall>j < length ts. kv_get L d (tx_key bid (Suc i + j)) = Some (info_image (p (Suc j)) (ts ! j))"
    using Cons.prems(1) by force
  have l: "load info_of_image (info_image (p 0) t) d = (Inr t, d)"
    using Cons.prems(2) by (intro load_info) simp
  show ?case using s l Cons.IH [OF r] Cons.prems(2) by (simp add: bindE_Inr)
qed

lemma store_getBlockHeader_ok:
  "kv_get L d (block_key i) = Some (header_image p h) \<Longrightarrow> block_header_wf h \<Longrightarrow>
   store_getBlockHeader L i d = (Inr h, d)"
  by (simp add: store_getBlockHeader_def load_header)

text \<open>The readers look at the keys of one block only.\<close>

lemma read_infos_cong:
  assumes "\<forall>j. kv_get L d' (tx_key bid j) = kv_get L d (tx_key bid j)"
  shows "\<exists>r. read_infos L bid i n d' = (r, d') \<and> read_infos L bid i n d = (r, d)"
proof (induction n arbitrary: i)
  case (Suc n)
  from Suc [of "Suc i"] obtain r where
    "read_infos L bid (Suc i) n d' = (r, d')" "read_infos L bid (Suc i) n d = (r, d)" by blast
  then show ?case using assms
    by (cases r) (auto simp: bindE_def load_def split: option.split sum.split)
qed simp

lemma raw_infos_cong:
  assumes "\<forall>j. kv_get L d' (tx_key bid j) = kv_get L d (tx_key bid j)"
  shows "\<exists>r. raw_infos L bid i n d' = (r, d') \<and> raw_infos L bid i n d = (r, d)"
proof (induction n arbitrary: i)
  case (Suc n)
  from Suc [of "Suc i"] obtain r where
    "raw_infos L bid (Suc i) n d' = (r, d')" "raw_infos L bid (Suc i) n d = (r, d)" by blast
  then show ?case using assms
    by (cases r) (auto simp: bindE_def load_def split: option.split sum.split)
qed simp

lemma store_getBlockHeader_cong:
  "kv_get L d' (block_key i) = kv_get L d (block_key i) \<Longrightarrow>
   \<exists>r. store_getBlockHeader L i d' = (r, d') \<and> store_getBlockHeader L i d = (r, d)"
  by (simp add: store_getBlockHeader_def load_def split: option.split)

lemma store_getBlock_cong:
  assumes "kv_get L d' (block_key i) = kv_get L d (block_key i)"
    and "\<And>j. kv_get L d' (tx_key i j) = kv_get L d (tx_key i j)"
    and "\<And>h. fst (store_getBlockHeader L i d) = Inr h \<Longrightarrow> h_id h = i"
  shows "\<exists>r. store_getBlock L mem mem' i d' = (r, d') \<and> store_getBlock L mem mem' i d = (r, d)"
proof -
  obtain h where h: "store_getBlockHeader L i d' = (h, d')" "store_getBlockHeader L i d = (h, d)"
    using store_getBlockHeader_cong [OF assms(1)] by blast
  show ?thesis
  proof (cases h)
    case (Inr a)
    then have "h_id a = i" using h assms(3) by simp
    with h Inr show ?thesis
      using read_infos_cong [of L d' i d 0 "unat (h_numTransactions a)"] assms(2)
      by (auto simp: store_getBlock_def bindE_def getBlockTransactions_def split: sum.splits)
  qed (use h in \<open>simp add: store_getBlock_def bindE_def\<close>)
qed

section \<open>The wallet index\<close>

text \<open>The transactions the index has for a wallet.\<close>

definition wallet_txids :: "'d kv \<Rightarrow> 'd \<Rightarrow> wallet \<Rightarrow> hash set" where
  "wallet_txids L d w = {h. length h = 32 \<and> kv_get L d (wallet_key w h) \<noteq> None}"

text \<open>No key but those of the index is longer than an address.\<close>

definition index_ok :: "'d kv \<Rightarrow> 'd \<Rightarrow> bool" where
  "index_ok L d \<longleftrightarrow> kv_ok L \<and> (\<forall>k \<in> dom (kv_get L d). length k \<le> 25 \<or> length k = 57)"

lemma append_less_cancel [simp]: "w @ a < w @ b \<longleftrightarrow> a < (b :: 'a::linorder list)"
  by (induction w) auto

lemma append_le_cancel [simp]: "w @ a \<le> w @ b \<longleftrightarrow> a \<le> (b :: 'a::linorder list)"
  by (induction w) auto

lemma between_prefix:
  "w @ a \<le> k \<Longrightarrow> k < w @ b \<Longrightarrow> \<exists>c. k = w @ c \<and> a \<le> c \<and> c < (b :: 'a::linorder list)"
proof (induction w arbitrary: k)
  case (Cons x w)
  then show ?case by (cases k) auto
qed simp

lemma replicate_least: "length c = n \<Longrightarrow> replicate n (0 :: u8) \<le> c"
proof (induction n arbitrary: c)
  case (Suc n)
  then show ?case by (cases c) (auto simp: word_gt_0)
qed simp

lemma less_replicate_max: "length c = n \<Longrightarrow> c < replicate n (- 1 :: u8) \<longleftrightarrow> c \<noteq> replicate n (- 1)"
proof (induction n arbitrary: c)
  case (Suc n)
  have "x < (- 1 :: u8) \<longleftrightarrow> x \<noteq> - 1" for x
    using word_n1_ge [of x] by (auto simp: less_le)
  with Suc show ?case by (cases c) auto
qed simp

lemma set_range_sorted:
  "sorted_wrt (<) ks \<Longrightarrow> set (takeWhile (\<lambda>k. k < e) (dropWhile (\<lambda>k. k < s) ks)) =
     {k \<in> set ks. s \<le> k \<and> k < (e :: 'a::linorder)}"
proof (induction ks)
  case (Cons k ks)
  have lo: "s \<le> k \<Longrightarrow> dropWhile (\<lambda>k. k < s) ks = ks"
    using Cons.prems by (cases ks) auto
  have hi: "\<not> k < e \<Longrightarrow> {j \<in> set (k # ks). s \<le> j \<and> j < e} = {}"
    using Cons.prems by auto
  show ?case
  proof (cases "k < s")
    case True
    then show ?thesis using Cons by auto
  next
    case False
    then show ?thesis using Cons lo hi by (cases "k < e") auto
  qed
qed simp

lemma distinct_range_sorted:
  "sorted_wrt (<) ks \<Longrightarrow> distinct (takeWhile (\<lambda>k. k < e) (dropWhile (\<lambda>k. k < s) (ks :: 'a::linorder list)))"
  by (intro distinct_takeWhile distinct_dropWhile) (simp add: strict_sorted_iff)

lemma store_getTransactionsForWallet_ok:
  assumes "index_ok L d" "length w = 25"
  shows "\<exists>hs. store_getTransactionsForWallet L w d = (Inr hs, d) \<and> distinct hs \<and>
    set hs = wallet_txids L d w - {replicate 32 (- 1)}"
proof -
  let ?s = "wallet_key w (replicate 32 0)" and ?e = "wallet_key w (replicate 32 (- 1))"
  let ?ks = "takeWhile (\<lambda>k. k < ?e) (dropWhile (\<lambda>k. k < ?s) (map fst (kv_entries L d)))"
  let ?f = "\<lambda>k :: bytes. take 32 (drop 25 k)"
  have L: "kv_ok L" using assms(1) by (simp add: index_ok_def)
  have sorted: "sorted_wrt (<) (map fst (kv_entries L d))"
    using kv_entries_wf [OF L, of d] by (simp add: omap_wf_def)
  have keys: "set ?ks = {k. \<exists>h. k = w @ h \<and> h \<in> wallet_txids L d w - {replicate 32 (- 1)}}"
  proof -
    have "k \<in> set ?ks \<longleftrightarrow> (\<exists>h. k = w @ h \<and> h \<in> wallet_txids L d w - {replicate 32 (- 1)})" for k
    proof
      assume "k \<in> set ?ks"
      then have k: "k \<in> dom (kv_get L d)" "?s \<le> k" "k < ?e"
        using set_range_sorted [OF sorted] kv_keys [OF L, of d] by auto
      from between_prefix [of w _ k] k(2,3) obtain h where
        h: "k = w @ h" "replicate 32 0 \<le> h" "h < replicate 32 (- 1)"
        unfolding wallet_key_def by blast
      from h(2) have "h \<noteq> []" by auto
      with h(1) k(1) assms have "length h = 32" by (force simp: index_ok_def)
      with h k(1) show "\<exists>h. k = w @ h \<and> h \<in> wallet_txids L d w - {replicate 32 (- 1)}"
        by (auto simp: wallet_txids_def wallet_key_def)
    next
      assume "\<exists>h. k = w @ h \<and> h \<in> wallet_txids L d w - {replicate 32 (- 1)}"
      then obtain h where h: "k = w @ h" "length h = 32" "h \<noteq> replicate 32 (- 1)" "k \<in> dom (kv_get L d)"
        by (auto simp: wallet_txids_def wallet_key_def)
      have "?s \<le> k" "k < ?e"
        unfolding wallet_key_def h(1)
        using replicate_least [OF h(2)] less_replicate_max [OF h(2)] h(3) by simp_all
      then show "k \<in> set ?ks" using set_range_sorted [OF sorted] kv_keys [OF L, of d] h(4) by auto
    qed
    then show ?thesis by blast
  qed
  have len: "\<forall>k \<in> set ?ks. 57 \<le> length k"
    unfolding keys using assms(2) by (auto simp: wallet_txids_def)
  have "set (map ?f ?ks) = wallet_txids L d w - {replicate 32 (- 1)}"
    unfolding set_map keys using assms(2) by (force simp: wallet_txids_def image_iff)
  moreover have "distinct (map ?f ?ks)"
    unfolding distinct_map keys using distinct_range_sorted [OF sorted] assms(2)
    by (auto simp: inj_on_def wallet_txids_def)
  moreover have "store_getTransactionsForWallet L w d = (Inr (map ?f ?ks), d)"
    using len by (simp add: store_getTransactionsForWallet_def Let_def)
  ultimately show ?thesis by blast
qed

lemma indexed_wallet_key:
  assumes "crypto_ok C" "transaction_wf t" "length w = 25"
  shows "indexed C t (wallet_key w h) \<longleftrightarrow> (w = t_from t \<or> w = t_to t) \<and> h = hashContents C t"
  using assms by (auto simp: indexed_def wallet_key_inj transaction_wf_def)

lemma setBlock_index:
  assumes "index_ok L d" "crypto_ok C" "setBlock C L pad b d = (Inr (), d')"
    and "\<forall>t \<in> set (b_transactions b). transaction_wf t" "length (b_transactions b) \<le> 2 ^ 32"
    and "length w = 25"
  shows "wallet_txids L d' w = wallet_txids L d w \<union>
    {hashContents C t | t. t \<in> set (b_transactions b) \<and> (w = t_from t \<or> w = t_to t)}" (is "_ = _ \<union> ?new")
    and "index_ok L d'"
proof -
  have L: "kv_ok L" using assms(1) by (simp add: index_ok_def)
  note g = setBlock_get [OF L assms(2-5)]
  have h: "length (hashContents C t) = 32" for t
    using assms(2) by (simp add: hashContents_def length_sha256)
  have upd: "kv_get L d' (wallet_key w x) \<noteq> None \<longleftrightarrow> x \<in> ?new \<or> kv_get L d (wallet_key w x) \<noteq> None"
    if "length x = 32" for x
    using g(2) [of "wallet_key w x"] that assms(4,6) indexed_wallet_key [OF assms(2) _ assms(6)] by auto
  have collect: "{x. P x \<and> Q x} = {x. P x \<and> R x} \<union> N"
    if "\<And>x. P x \<Longrightarrow> Q x \<longleftrightarrow> x \<in> N \<or> R x" "\<And>x. x \<in> N \<Longrightarrow> P x" for P Q R and N :: "hash set"
    using that by blast
  show "wallet_txids L d' w = wallet_txids L d w \<union> ?new"
    unfolding wallet_txids_def by (rule collect) (use upd h in auto)
  have "length k \<le> 25 \<or> length k = 57" if "k \<in> dom (kv_get L d')" for k
  proof (rule ccontr)
    assume k: "\<not> (length k \<le> 25 \<or> length k = 57)"
    then have "k \<noteq> block_key (b_id b)" "\<forall>j < length (b_transactions b). k \<noteq> tx_key (b_id b) j" by auto
    with g(4) k that have "k \<in> dom (kv_get L d)" by auto
    with assms(1) k show False by (auto simp: index_ok_def)
  qed
  with L show "index_ok L d'" by (simp add: index_ok_def)
qed

lemma removeBlockWalletTransactions_get:
  assumes "kv_ok L" "removeBlockWalletTransactions C L mem b d = (Inr (), d')"
  shows "kv_get L d' = (\<lambda>k. if \<exists>t \<in> set (copy_list mem (b_transactions b)). indexed C t k then None
    else kv_get L d k)"
proof -
  define f where "f = (\<lambda>t. let txid = hashContents C t in
    bindE (kv_remove L ''Could not remove transaction from wallet in blockstore db : ''
             (wallet_key (t_from t) txid)) (\<lambda>_.
    kv_remove L ''Could not remove transaction from wallet in blockstore db : ''
      (wallet_key (t_to t) txid)))"
  have step: "kv_get L e = (\<lambda>k. if indexed C t k then None else kv_get L d k)"
    if "f t d = (Inr (), e)" for t d e
    using that unfolding f_def Let_def bindE_eq_Inr indexed_def
    by (auto dest!: kv_remove_Inr [OF assms(1)])
  have "kv_get L d' = (\<lambda>k. if \<exists>t \<in> set ts. indexed C t k then None else kv_get L d k)"
    if "forE ts f d = (Inr (), d')" for ts
    using that
  proof (induction ts arbitrary: d)
    case (Cons t ts)
    then obtain e where "f t d = (Inr (), e)" "forE ts f e = (Inr (), d')"
      by (auto simp: bindE_eq_Inr)
    with step Cons.IH show ?case by (auto simp: fun_eq_iff)
  qed simp
  then show ?thesis using assms(2) unfolding removeBlockWalletTransactions_def f_def by blast
qed

section \<open>Properties\<close>

lemma infos_wf: "\<forall>t \<in> set ts. transaction_wf t \<Longrightarrow> \<forall>i \<in> set (map tx_serialize ts). info_image_wf i"
  by (auto simp: info_image_wf_def tx_serialize_def transaction_wf_def)

lemma tx_eq_read_back: "tx_eq (tx_copy m' (transaction_of_info m (tx_serialize t))) t"
  by (simp add: tx_eq_iff transaction_of_info_def tx_serialize_def)

lemma read_back_list:
  "list_all2 tx_eq (copy_list m' (infos_to_transactions m (map tx_serialize ts))) ts"
  by (induction ts arbitrary: m m') (auto simp: tx_eq_read_back)

lemma setBlock_reads:
  assumes "kv_ok L" "crypto_ok C" "setBlock C L pad b d = (Inr (), d')"
    and "block_header_wf (block_serialize b)" "\<forall>t \<in> set (b_transactions b). transaction_wf t"
    and "length (b_transactions b) < 2 ^ 32"
  shows "store_getBlockHeader L (b_id b) d' = (Inr (block_serialize b), d')"
    and "read_infos L (b_id b) 0 (unat (h_numTransactions (block_serialize b))) d' =
           (Inr (map tx_serialize (b_transactions b)), d')"
    and "raw_infos L (b_id b) 0 (unat (h_numTransactions (block_serialize b))) d' =
           (Inr (concat (map transactionInfoToBuffer (map tx_serialize (b_transactions b)))), d')"
proof -
  note g = setBlock_get [OF assms(1-3,5) less_imp_le [OF assms(6)]]
  show "store_getBlockHeader L (b_id b) d' = (Inr (block_serialize b), d')"
    by (rule store_getBlockHeader_ok [OF g(1) assms(4)])
  have n: "unat (h_numTransactions (block_serialize b)) = length (map tx_serialize (b_transactions b))"
    using assms(6) by (simp add: block_serialize_def unsigned_of_nat take_bit_nat_eq_self)
  have "\<forall>j < length (map tx_serialize (b_transactions b)). kv_get L d' (tx_key (b_id b) (0 + j)) =
      Some (info_image (pad (Suc j)) (map tx_serialize (b_transactions b) ! j))"
    using g(3) by simp
  from read_infos_ok [OF this infos_wf [OF assms(5)]]
  show "read_infos L (b_id b) 0 (unat (h_numTransactions (block_serialize b))) d' =
           (Inr (map tx_serialize (b_transactions b)), d')"
    and "raw_infos L (b_id b) 0 (unat (h_numTransactions (block_serialize b))) d' =
           (Inr (concat (map transactionInfoToBuffer (map tx_serialize (b_transactions b)))), d')"
    unfolding n by simp_all
qed

lemma read_back_tx_wf:
  "transaction_wf m \<Longrightarrow> transaction_wf t \<Longrightarrow>
   transaction_wf (tx_copy m' (transaction_of_info m (tx_serialize t)))"
  by (simp add: transaction_wf_def transaction_of_info_def tx_serialize_def)

lemma read_back_wf:
  assumes "\<forall>i. transaction_wf (m i)" "\<forall>t \<in> set ts. transaction_wf t"
  shows "\<forall>t \<in> set (copy_list m' (infos_to_transactions m (map tx_serialize ts))). transaction_wf t"
  using assms
proof (induction ts arbitrary: m m')
  case (Cons t ts)
  have "\<forall>i. transaction_wf (m (Suc i))" using Cons.prems(1) by blast
  from Cons.IH [OF this, of "\<lambda>i. m' (Suc i)"] Cons.prems show ?case
    by (simp add: read_back_tx_wf)
qed simp

lemma setBlock_read_back:
  assumes "kv_ok L" "crypto_ok C" "setBlock C L pad b d = (Inr (), d')"
    and "block_header_wf (block_serialize b)" "\<forall>t \<in> set (b_transactions b). transaction_wf t"
    and "length (b_transactions b) < 2 ^ 32"
  shows "\<exists>b'. store_getBlock L mem mem' (b_id b) d' = (Inr b', d') \<and> block_eq b' b \<and>
    block_getHash C b' = block_getHash C b \<and>
    ((\<forall>i. transaction_wf (mem i)) \<longrightarrow> (\<forall>t \<in> set (b_transactions b'). transaction_wf t))"
proof -
  let ?b = "block_of_header mem' (block_serialize b)
    (infos_to_transactions mem (map tx_serialize (b_transactions b)))"
  have "store_getBlock L mem mem' (b_id b) d' = (Inr ?b, d')"
    using setBlock_reads(1,2) [OF assms]
    by (simp add: store_getBlock_def getBlockTransactions_def bindE_Inr block_serialize_def)
  moreover have "block_eq ?b b"
    by (simp add: block_eq_iff block_of_header_def block_serialize_def read_back_list)
  moreover have "\<forall>t \<in> set (b_transactions ?b). transaction_wf t" if "\<forall>i. transaction_wf (mem i)"
    using read_back_wf [OF that assms(5), of mem'] by (simp only: block_of_header_def block.select_convs)
  moreover have "block_getHash C ?b = block_getHash C b"
    by (simp add: block_getHash_def block_contents_def block_of_header_def block_serialize_def)
  ultimately show ?thesis by (intro exI [of _ ?b] conjI impI)
qed

text \<open>
  C26. A block written with \<open>setBlock\<close> is there: \<open>getRawData\<close> returns exactly its wire form and
  \<open>getBlock\<close> a block that is equal to it (in the sense of the code's \<open>==\<close>) and has its hash.
\<close>

theorem block_store_roundtrip:
  assumes "kv_ok L" "crypto_ok C" "setBlock C L pad b d = (Inr (), d')"
    and "block_header_wf (block_serialize b)" "\<forall>t \<in> set (b_transactions b). transaction_wf t"
    and "length (b_transactions b) < 2 ^ 32"
  shows "hasBlock L (b_id b) d' \<and> getRawData L (b_id b) d' = (Inr (block_to_buffer b), d') \<and>
    (\<exists>b'. store_getBlock L mem mem' (b_id b) d' = (Inr b', d') \<and> block_eq b' b \<and>
          block_getHash C b' = block_getHash C b)"
proof -
  note r = setBlock_reads [OF assms]
  have "hasBlock L (b_id b) d'"
    using setBlock_get(1) [OF assms(1-3,5) less_imp_le [OF assms(6)]] by (simp add: hasBlock_def)
  moreover have "getRawData L (b_id b) d' = (Inr (block_to_buffer b), d')"
    using r(1,3) by (simp add: getRawData_def bindE_Inr block_to_buffer_def comp_def)
  ultimately show ?thesis using setBlock_read_back [OF assms] by blast
qed

lemma block_store_roundtrip_witness:
  "\<exists>d'. setBlock sample_crypto mem_kv (\<lambda>_ _. 7) (sample_block 2 [sample_transfer 1 2 30 5, sample_fee 3 50]) []
          = (Inr (), d') \<and>
     getRawData mem_kv 2 d' =
       (Inr (block_to_buffer (sample_block 2 [sample_transfer 1 2 30 5, sample_fee 3 50])), d')"
proof -
  let ?b = "sample_block 2 [sample_transfer 1 2 30 5, sample_fee 3 50]"
  obtain d' where d': "setBlock sample_crypto mem_kv (\<lambda>_ _. 7) ?b [] = (Inr (), d')"
    using setBlock_total [OF mem_kv_writes] by blast
  have "block_header_wf (block_serialize ?b)" "\<forall>t \<in> set (b_transactions ?b). transaction_wf t"
    "length (b_transactions ?b) < 2 ^ 32"
    by (simp_all add: block_header_wf_def block_serialize_def sample_block_def block_default_def
        NULL_SHA256_HASH_def transaction_wf_def sample_transfer_def sample_fee_def sample_wallet_def
        sample_key_def NULL_ADDRESS_def)
  from block_store_roundtrip [OF mem_kv_ok sample_crypto_ok d' this] d' show ?thesis
    by (auto simp: sample_block_def)
qed

text \<open>
  Writing a block changes no other: every other block stored under its own id reads as
  before, also in wire form, and so do the block count and the total work.
\<close>

lemma block_store_frame:
  assumes "kv_ok L" "crypto_ok C" "setBlock C L pad b d = (Inr (), d')"
    and "\<forall>t \<in> set (b_transactions b). transaction_wf t" "length (b_transactions b) < 2 ^ 32"
    and "i \<noteq> b_id b" "\<And>h. fst (store_getBlockHeader L i d) = Inr h \<Longrightarrow> h_id h = i"
  shows "hasBlock L i d' = hasBlock L i d \<and>
    fst (store_getBlock L mem mem' i d') = fst (store_getBlock L mem mem' i d) \<and>
    fst (getRawData L i d') = fst (getRawData L i d) \<and>
    fst (getBlockCount L d') = fst (getBlockCount L d) \<and>
    fst (getTotalWork L d') = fst (getTotalWork L d)"
proof -
  note g = setBlock_get(4) [OF assms(1-4) less_imp_le [OF assms(5)]]
  have other: "BLOCK_COUNT_KEY \<noteq> block_key (b_id b)" "TOTAL_WORK_KEY \<noteq> block_key (b_id b)"
    "block_key i \<noteq> tx_key (b_id b) j" "BLOCK_COUNT_KEY \<noteq> tx_key (b_id b) j" "TOTAL_WORK_KEY \<noteq> tx_key (b_id b) j"
    "tx_key i k \<noteq> block_key (b_id b)" for j k
    by (auto dest: arg_cong [of _ _ length])
  have same: "kv_get L d' (block_key i) = kv_get L d (block_key i)"
    "kv_get L d' BLOCK_COUNT_KEY = kv_get L d BLOCK_COUNT_KEY"
    "kv_get L d' TOTAL_WORK_KEY = kv_get L d TOTAL_WORK_KEY"
    "kv_get L d' (tx_key i j) = kv_get L d (tx_key i j)" for j
    using g assms(6) other by simp_all
  have "fst (store_getBlock L mem mem' i d') = fst (store_getBlock L mem mem' i d)"
    using store_getBlock_cong [OF same(1,4) assms(7), of mem mem'] by auto
  moreover have "fst (getRawData L i d') = fst (getRawData L i d)"
  proof -
    obtain h where h: "store_getBlockHeader L i d' = (h, d')" "store_getBlockHeader L i d = (h, d)"
      using store_getBlockHeader_cong [OF same(1)] by blast
    show ?thesis
    proof (cases h)
      case (Inr a)
      with h show ?thesis
        using raw_infos_cong [of L d' i d 0 "unat (h_numTransactions a)"] same(4)
        by (auto simp: getRawData_def bindE_def split: sum.splits)
    qed (use h in \<open>simp add: getRawData_def bindE_def\<close>)
  qed
  ultimately show ?thesis using same
    by (auto simp: hasBlock_def getBlockCount_def getTotalWork_def load_def split: option.split)
qed

lemma block_store_frame_witness:
  "\<exists>d'. setBlock sample_crypto mem_kv (\<lambda>_ _. 0) (sample_block 2 [sample_fee 3 50])
          [(BLOCK_COUNT_KEY, le_enc 8 (1 :: u64))] = (Inr (), d') \<and>
     fst (getBlockCount mem_kv d') = Inr 1"
proof -
  let ?b = "sample_block 2 [sample_fee 3 50]" and ?d = "[(BLOCK_COUNT_KEY, le_enc 8 (1 :: u64))]"
  obtain d' where d': "setBlock sample_crypto mem_kv (\<lambda>_ _. 0) ?b ?d = (Inr (), d')"
    using setBlock_total [OF mem_kv_writes] by blast
  have wf: "\<forall>t \<in> set (b_transactions ?b). transaction_wf t" "length (b_transactions ?b) < 2 ^ 32"
    by (simp_all add: sample_block_def transaction_wf_def sample_transfer_def sample_fee_def
        sample_wallet_def sample_key_def NULL_ADDRESS_def)
  have "(1 :: u32) \<noteq> b_id ?b" by (simp add: sample_block_def)
  moreover have "fst (store_getBlockHeader mem_kv 1 ?d) = Inr h \<Longrightarrow> h_id h = 1" for h
  proof -
    have "block_key 1 \<noteq> BLOCK_COUNT_KEY" by (auto dest: arg_cong [of _ _ length])
    then show "fst (store_getBlockHeader mem_kv 1 ?d) = Inr h \<Longrightarrow> h_id h = 1"
      by (simp add: store_getBlockHeader_def)
  qed
  ultimately have "fst (getBlockCount mem_kv d') = fst (getBlockCount mem_kv ?d)"
    using block_store_frame [OF mem_kv_ok sample_crypto_ok d' wf, of 1] by blast
  also have "\<dots> = Inr 1"
    using readNetworkUint_le(2) [of 1 "[]"] by (simp add: getBlockCount_def load_def)
  finally show ?thesis using d' by blast
qed

text \<open>
  C27. The wallet index: after \<open>setBlock\<close>, \<open>getTransactionsForWallet\<close> returns, each once, the
  transactions it returned before and those of the block that the wallet sends or receives; the
  one hash it can never return is 32 bytes 255, because the end key is exclusive.
\<close>

theorem wallet_index_exact:
  assumes "index_ok L d" "crypto_ok C" "setBlock C L pad b d = (Inr (), d')"
    and "\<forall>t \<in> set (b_transactions b). transaction_wf t" "length (b_transactions b) < 2 ^ 32"
    and "length w = 25"
  shows "\<exists>hs hs'. store_getTransactionsForWallet L w d = (Inr hs, d) \<and>
    store_getTransactionsForWallet L w d' = (Inr hs', d') \<and> distinct hs' \<and>
    set hs' = set hs \<union> {hashContents C t | t. t \<in> set (b_transactions b) \<and>
                          (w = t_from t \<or> w = t_to t) \<and> hashContents C t \<noteq> replicate 32 (- 1)}"
proof -
  note i = setBlock_index [OF assms(1-4) less_imp_le [OF assms(5)] assms(6)]
  obtain hs where hs: "store_getTransactionsForWallet L w d = (Inr hs, d)"
    "set hs = wallet_txids L d w - {replicate 32 (- 1)}"
    using store_getTransactionsForWallet_ok [OF assms(1,6)] by blast
  obtain hs' where hs': "store_getTransactionsForWallet L w d' = (Inr hs', d')" "distinct hs'"
    "set hs' = wallet_txids L d' w - {replicate 32 (- 1)}"
    using store_getTransactionsForWallet_ok [OF i(2) assms(6)] by blast
  have "set hs' = set hs \<union> {hashContents C t | t. t \<in> set (b_transactions b) \<and>
      (w = t_from t \<or> w = t_to t) \<and> hashContents C t \<noteq> replicate 32 (- 1)}"
    unfolding hs'(3) hs(2) i(1) by auto
  with hs(1) hs'(1,2) show ?thesis by blast
qed

lemma wallet_index_exact_witness:
  "\<exists>d' hs'. setBlock sample_crypto mem_kv (\<lambda>_ _. 0) (sample_block 2 [sample_transfer 1 2 30 5]) [] = (Inr (), d') \<and>
     store_getTransactionsForWallet mem_kv (sample_wallet 2) d' = (Inr hs', d') \<and>
     set hs' = {hashContents sample_crypto (sample_transfer 1 2 30 5)}"
proof -
  let ?t = "sample_transfer 1 2 30 5" let ?b = "sample_block 2 [?t]"
  obtain d' where d': "setBlock sample_crypto mem_kv (\<lambda>_ _. 0) ?b [] = (Inr (), d')"
    using setBlock_total [OF mem_kv_writes] by blast
  have "index_ok mem_kv []" by (simp add: index_ok_def)
  moreover have "\<forall>t \<in> set (b_transactions ?b). transaction_wf t" "length (b_transactions ?b) < 2 ^ 32"
    "length (sample_wallet 2) = 25"
    by (simp_all add: sample_block_def transaction_wf_def sample_transfer_def sample_wallet_def
        sample_key_def)
  ultimately obtain hs hs' where
    r: "store_getTransactionsForWallet mem_kv (sample_wallet 2) [] = (Inr hs, [])"
    "store_getTransactionsForWallet mem_kv (sample_wallet 2) d' = (Inr hs', d')"
    "set hs' = set hs \<union> {hashContents sample_crypto t | t. t \<in> set (b_transactions ?b) \<and>
      (sample_wallet 2 = t_from t \<or> sample_wallet 2 = t_to t) \<and>
      hashContents sample_crypto t \<noteq> replicate 32 (- 1)}"
    using wallet_index_exact [OF _ sample_crypto_ok d'] by blast
  have "hs = []" using r(1) by (simp add: store_getTransactionsForWallet_def Let_def)
  moreover have "hashContents sample_crypto ?t \<noteq> replicate 32 (- 1)" by code_simp
  ultimately have "set hs' = {hashContents sample_crypto ?t}"
    using r(3) by (auto simp: sample_block_def sample_transfer_def)
  with d' r(2) show ?thesis by blast
qed

lemma copy_list_set: "t \<in> set (copy_list mem ts) \<longleftrightarrow> (\<exists>i < length ts. t = tx_copy (mem i) (ts ! i))"
  by (auto simp: in_set_conv_nth nth_copy_list)

text \<open>
  Removing a block from the wallet index removes, for every transaction of the block, the
  hash of the copy the loop makes of it. The copy's nonce is whatever the memory held: the
  entries \<open>setBlock\<close> wrote are the ones removed if the nonces happen to agree.
\<close>

lemma wallet_index_removed:
  assumes "index_ok L d" "crypto_ok C" "removeBlockWalletTransactions C L mem b d = (Inr (), d')"
    and "\<forall>t \<in> set (b_transactions b). transaction_wf t" "length w = 25"
  shows "\<exists>hs hs'. store_getTransactionsForWallet L w d = (Inr hs, d) \<and>
    store_getTransactionsForWallet L w d' = (Inr hs', d') \<and>
    set hs' = set hs - {hashContents C (tx_copy (mem i) (b_transactions b ! i)) | i.
      i < length (b_transactions b) \<and> w \<in> {t_from (b_transactions b ! i), t_to (b_transactions b ! i)}} \<and>
    ((\<forall>i < length (b_transactions b). t_nonce (mem i) = t_nonce (b_transactions b ! i)) \<longrightarrow>
      set hs' = set hs - {hashContents C t | t. t \<in> set (b_transactions b) \<and> w \<in> {t_from t, t_to t}})"
proof -
  let ?ts = "b_transactions b"
  let ?gone = "{hashContents C t | t. t \<in> set (copy_list mem ?ts) \<and> w \<in> {t_from t, t_to t}}"
  have L: "kv_ok L" using assms(1) by (simp add: index_ok_def)
  note g = removeBlockWalletTransactions_get [OF L assms(3)]
  have wf: "transaction_wf t" if "t \<in> set (copy_list mem ?ts)" for t
    using that assms(4) by (auto simp: copy_list_set transaction_wf_def)
  have idx: "index_ok L d'" using assms(1) by (auto simp: index_ok_def g split: if_splits)
  obtain hs' where hs': "store_getTransactionsForWallet L w d' = (Inr hs', d')"
    "set hs' = wallet_txids L d' w - {replicate 32 (- 1)}"
    using store_getTransactionsForWallet_ok [OF idx assms(5)] by blast
  obtain hs where hs: "store_getTransactionsForWallet L w d = (Inr hs, d)"
    "set hs = wallet_txids L d w - {replicate 32 (- 1)}"
    using store_getTransactionsForWallet_ok [OF assms(1,5)] by blast
  have "kv_get L d' (wallet_key w x) \<noteq> None \<longleftrightarrow> kv_get L d (wallet_key w x) \<noteq> None \<and> x \<notin> ?gone" for x
    unfolding g using indexed_wallet_key [OF assms(2) wf assms(5), of _ x] by auto
  then have all: "set hs' = set hs - ?gone" unfolding hs(2) hs'(2) by (auto simp: wallet_txids_def)
  have "?gone = {hashContents C (tx_copy (mem i) (?ts ! i)) | i.
      i < length ?ts \<and> w \<in> {t_from (?ts ! i), t_to (?ts ! i)}}"
    by (auto simp: copy_list_set)
  note all [unfolded this]
  moreover have "set hs' = set hs - {hashContents C t | t. t \<in> set ?ts \<and> w \<in> {t_from t, t_to t}}"
    if "\<forall>i < length ?ts. t_nonce (mem i) = t_nonce (?ts ! i)"
    using all copy_list_id [of ?ts mem] that by simp
  ultimately show ?thesis
    by (intro exI [of _ hs] exI [of _ hs'] conjI impI hs(1) hs'(1))
qed

lemma wallet_index_removed_witness:
  "\<exists>hs'. removeBlockWalletTransactions sample_crypto mem_kv sample_mem (sample_block 2 [sample_transfer 1 2 30 5]) [] = (Inr (), []) \<and>
     store_getTransactionsForWallet mem_kv (sample_wallet 2) [] = (Inr hs', []) \<and>
     hashContents sample_crypto (tx_copy (sample_mem 0) (sample_transfer 1 2 30 5)) \<notin> set hs'"
proof -
  let ?b = "sample_block 2 [sample_transfer 1 2 30 5]"
  have r: "removeBlockWalletTransactions sample_crypto mem_kv sample_mem ?b [] = (Inr (), [])"
    by (simp add: removeBlockWalletTransactions_def sample_block_def Let_def kv_remove_def bindE_def)
  have "index_ok mem_kv []" by (simp add: index_ok_def)
  moreover have "\<forall>t \<in> set (b_transactions ?b). transaction_wf t" "length (sample_wallet 2) = 25"
    by (simp_all add: sample_block_def transaction_wf_def sample_transfer_def sample_wallet_def sample_key_def)
  ultimately obtain hs' where
    "store_getTransactionsForWallet mem_kv (sample_wallet 2) [] = (Inr hs', [])"
    "set hs' = {} - {hashContents sample_crypto (tx_copy (sample_mem i) (b_transactions ?b ! i)) | i.
      i < length (b_transactions ?b) \<and> sample_wallet 2 \<in> {t_from (b_transactions ?b ! i), t_to (b_transactions ?b ! i)}}"
    using wallet_index_removed [OF _ sample_crypto_ok r]
    by (auto simp: store_getTransactionsForWallet_def Let_def)
  with r show ?thesis by auto
qed

text \<open>
  The block count and the total work read back as written, next to each other: the count
  exactly, the work as a number of the same value.
\<close>

lemma chain_totals_stored:
  assumes "kv_ok L" "bi_ok w" "setTotalWork L w d = (Inr (), d1)" "setBlockCount L n d1 = (Inr (), d2)"
  shows "hasBlockCount L d2 \<and> getBlockCount L d2 = (Inr n, d2) \<and>
    (\<exists>w'. getTotalWork L d2 = (Inr w', d2) \<and> bi_ok w' \<and> bi_val w' = bi_val w)"
proof -
  have "kv_get L d1 = (kv_get L d)(TOTAL_WORK_KEY \<mapsto> text_bytes (bi_to_string w))"
    "kv_get L d2 = (kv_get L d1)(BLOCK_COUNT_KEY \<mapsto> le_enc 8 n)"
    using assms(3,4) by (simp_all add: setTotalWork_def setBlockCount_def kv_write_Inr [OF assms(1)])
  moreover have "TOTAL_WORK_KEY \<noteq> BLOCK_COUNT_KEY" by (auto dest: arg_cong [of _ _ length])
  ultimately have g: "kv_get L d2 BLOCK_COUNT_KEY = Some (le_enc 8 n)"
    "kv_get L d2 TOTAL_WORK_KEY = Some (text_bytes (bi_to_string w))" by simp_all
  obtain w' where "bi_of_string (bi_to_string w) = Some w'" "bi_ok w'" "bi_val w' = bi_val w"
    using bi_text_roundtrip [OF assms(2)] by blast
  then show ?thesis
    using g readNetworkUint_le(2) [of n "[]"]
    by (simp add: hasBlockCount_def getBlockCount_def getTotalWork_def load_def)
qed

lemma chain_totals_stored_witness:
  "\<exists>d w'. getBlockCount mem_kv d = (Inr 7, d) \<and> getTotalWork mem_kv d = (Inr w', d) \<and> bi_val w' = 65536"
proof -
  obtain d1 where d1: "setTotalWork mem_kv (bi_of_int 65536) [] = (Inr (), d1)"
    unfolding setTotalWork_def using kv_write_total [OF mem_kv_writes] by blast
  obtain d2 where d2: "setBlockCount mem_kv 7 d1 = (Inr (), d2)"
    unfolding setBlockCount_def using kv_write_total [OF mem_kv_writes] by blast
  have "bi_ok (bi_of_int 65536)" "bi_val (bi_of_int 65536) = 65536"
    using bi_of_int_ok [of 65536] by auto
  with chain_totals_stored [OF mem_kv_ok _ d1 d2] show ?thesis by metis
qed

end
