(* ===== verification/Emission.thy ===== *)
theory Emission
  imports Prelude
begin

text \<open>
  The mining fee and the coin supply (\<open>server/blockchain.cpp\<close>, \<open>getCurrentMiningFee\<close> and
  \<open>getSupply\<close>, and \<open>PDN\<close> of \<open>core/helpers.cpp\<close>), which the code computes with \<open>double\<close>.

  A non-negative finite \<open>double\<close> is a pair of a significand and an exponent, standing for
  \<open>m * 2 ^ e\<close>. Products and sums are rounded to 53 bits, to the nearest value and to even
  on a tie, with exponents not below -1074 (IEEE 754 binary64). No value here is near the
  upper end of the range. The literals are the nearest doubles.
\<close>

section \<open>Doubles\<close>

type_synonym dbl = "int \<times> int"

function bits :: "int \<Rightarrow> int" where
  "bits n = (if n \<le> 0 then 0 else 1 + bits (n div 2))"
  by pat_completeness auto
termination
  by (relation "measure nat") auto

declare bits.simps [simp del]

definition round_half_even :: "int \<Rightarrow> nat \<Rightarrow> int" where
  "round_half_even m s =
     (if s = 0 then m
      else let q = m div 2 ^ s; r = m mod 2 ^ s; h = 2 ^ (s - 1) in
        if r < h \<or> (r = h \<and> q mod 2 = 0) then q else q + 1)"

definition round_dbl :: "int \<Rightarrow> int \<Rightarrow> dbl" where
  "round_dbl m e =
     (let s = nat (max (bits m - 53) (- 1074 - e)) in (round_half_even m s, e + int s))"

definition dbl_mul :: "dbl \<Rightarrow> dbl \<Rightarrow> dbl" where
  "dbl_mul x y = round_dbl (fst x * fst y) (snd x + snd y)"

definition dbl_add :: "dbl \<Rightarrow> dbl \<Rightarrow> dbl" where
  "dbl_add x y =
     (let e = min (snd x) (snd y) in
      round_dbl (fst x * 2 ^ nat (snd x - e) + fst y * 2 ^ nat (snd y - e)) e)"

definition dbl_trunc :: "dbl \<Rightarrow> int" where
  "dbl_trunc x =
     (if 0 \<le> snd x then fst x * 2 ^ nat (snd x) else fst x div 2 ^ nat (- snd x))"

definition dbl_of_int :: "int \<Rightarrow> dbl" where
  "dbl_of_int n = round_dbl n 0"

text \<open>The value of the expression \<open>2.0/3.0\<close>.\<close>

definition two_thirds :: dbl where
  "two_thirds = (6004799503160661, - 53)"

section \<open>Amounts\<close>

definition DECIMAL_SCALE_FACTOR :: int where
  "DECIMAL_SCALE_FACTOR = 10000"

definition PDN :: "dbl \<Rightarrow> amount" where
  "PDN amount = word_of_int (dbl_trunc (dbl_mul amount (dbl_of_int DECIMAL_SCALE_FACTOR)))"

function mining_fee_loop :: "u64 \<Rightarrow> dbl \<Rightarrow> dbl" where
  "mining_fee_loop logicalBlock amount =
     (if 666666 \<le> logicalBlock then mining_fee_loop (logicalBlock - 666666) (dbl_mul amount two_thirds)
      else amount)"
  by pat_completeness auto
termination
  by (relation "measure (\<lambda>(l, a). unat l)")
    (auto simp: unat_sub word_le_nat_alt)

declare mining_fee_loop.simps [simp del]

definition getCurrentMiningFee :: "u64 \<Rightarrow> u32" where
  "getCurrentMiningFee blockId =
     (let logicalBlock = blockId + 125180 + 7750 + 18000 in
      ucast (PDN (mining_fee_loop logicalBlock (dbl_of_int 50))))"

function supply_loop :: "u64 \<Rightarrow> dbl \<Rightarrow> dbl \<Rightarrow> dbl" where
  "supply_loop blocks amount supply' =
     (if 666666 \<le> blocks
      then supply_loop (blocks - 666666) (dbl_mul amount two_thirds)
             (dbl_add supply' (dbl_mul (dbl_of_int 666666) amount))
      else dbl_add supply' (dbl_mul (dbl_of_int (uint blocks)) amount))"
  by pat_completeness auto
termination
  by (relation "measure (\<lambda>(l, a, s). unat l)")
    (auto simp: unat_sub word_le_nat_alt)

declare supply_loop.simps [simp del]

text \<open>\<open>getSupply\<close> without its lock; \<open>numBlocks\<close> is converted from \<open>int\<close>.\<close>

definition getSupply :: "int \<Rightarrow> dbl" where
  "getSupply numBlocks =
     dbl_add (supply_loop (word_of_int numBlocks) (dbl_of_int 50) (dbl_of_int 0))
       (7137674990584857, - 30)"

section \<open>The schedule\<close>

text \<open>The amount after \<open>k\<close> reductions.\<close>

definition fee_after :: "nat \<Rightarrow> dbl" where
  "fee_after k = ((\<lambda>a. dbl_mul a two_thirds) ^^ k) (dbl_of_int 50)"

lemma mining_fee_loop_iter:
  "mining_fee_loop l a = ((\<lambda>a. dbl_mul a two_thirds) ^^ (unat l div 666666)) a"
proof (induction l a rule: mining_fee_loop.induct)
  case (1 l a)
  show ?case
  proof (cases "666666 \<le> l")
    case True
    then have "unat (l - 666666) = unat l - 666666" "666666 \<le> unat l"
      by (simp_all add: unat_sub word_le_nat_alt)
    then have "unat l div 666666 = Suc (unat (l - 666666) div 666666)"
      by (simp add: le_div_geq)
    with 1 True show ?thesis by (subst mining_fee_loop.simps) (simp del: funpow.simps add: funpow_Suc_right)
  next
    case False
    then have "unat l div 666666 = 0" by (simp add: word_le_nat_alt)
    with False show ?thesis by (subst mining_fee_loop.simps) simp
  qed
qed

definition era :: "u64 \<Rightarrow> nat" where
  "era blockId = unat (blockId + 150930) div 666666"

lemma getCurrentMiningFee_era: "getCurrentMiningFee b = ucast (PDN (fee_after (era b)))"
  by (simp add: getCurrentMiningFee_def mining_fee_loop_iter fee_after_def era_def add.assoc)

text \<open>The fees of the eras in which the fee is not yet 0.\<close>

definition fee_table :: "int list" where
  "fee_table = [500000, 333333, 222222, 148148, 98765, 65843, 43895, 29263, 19509, 13006, 8670,
     5780, 3853, 2569, 1712, 1141, 761, 507, 338, 225, 150, 100, 66, 44, 29, 19, 13, 8, 5, 3, 2,
     1, 1]"

primrec fee_chain :: "nat \<Rightarrow> dbl \<Rightarrow> int list" where
  "fee_chain 0 a = []"
| "fee_chain (Suc n) a =
     dbl_trunc (dbl_mul a (dbl_of_int DECIMAL_SCALE_FACTOR)) # fee_chain n (dbl_mul a two_thirds)"

lemma fee_chain_eval: "fee_chain 36 (dbl_of_int 50) = fee_table @ [0, 0, 0]"
  by code_simp

lemma fee_chain_nth:
  "k < n \<Longrightarrow> fee_chain n a ! k =
     dbl_trunc (dbl_mul (((\<lambda>a. dbl_mul a two_thirds) ^^ k) a) (dbl_of_int DECIMAL_SCALE_FACTOR))"
proof (induction n arbitrary: a k)
  case 0
  then show ?case by simp
next
  case (Suc n)
  show ?case
  proof (cases k)
    case 0
    then show ?thesis by simp
  next
    case (Suc j)
    with Suc.IH [of j] Suc.prems show ?thesis by (simp del: funpow.simps add: funpow_Suc_right)
  qed
qed

lemma bits_le: "n < 2 ^ k \<Longrightarrow> bits n \<le> int k"
proof (induction k arbitrary: n)
  case 0
  then show ?case by (subst bits.simps) simp
next
  case (Suc k)
  then have "bits (n div 2) \<le> int k" by (intro Suc.IH) (simp add: div_less_iff_less_mult)
  then show ?case by (subst bits.simps) simp
qed

lemma less_bits: "n < 2 ^ nat (bits n)"
proof (induction n rule: bits.induct)
  case (1 n)
  show ?case
  proof (cases "n \<le> 0")
    case True
    then show ?thesis by (subst bits.simps) simp
  next
    case False
    have b: "0 \<le> bits m" for m by (induction m rule: bits.induct) (subst bits.simps, simp)
    have "n < 2 * 2 ^ nat (bits (n div 2))" using 1 False by simp
    also have "\<dots> = 2 ^ nat (1 + bits (n div 2))" using b [of "n div 2"] by (simp add: nat_add_distrib)
    finally show ?thesis using False by (subst bits.simps) simp
  qed
qed

lemma round_half_even_le:
  assumes "m \<le> n * 2 ^ s" shows "round_half_even m s \<le> n"
proof -
  define q r where "q = m div 2 ^ s" and "r = m mod 2 ^ s"
  have m: "m = q * 2 ^ s + r" using div_mult_mod_eq [of m "2 ^ s"] by (simp add: q_def r_def)
  have r: "0 \<le> r" by (simp add: r_def)
  have "q * 2 ^ s \<le> n * 2 ^ s" using assms m r by linarith
  then have "q \<le> n" by simp
  moreover have "q + 1 \<le> n" if "0 < r"
  proof (rule ccontr)
    assume "\<not> q + 1 \<le> n"
    with \<open>q \<le> n\<close> have "n = q" by simp
    with assms m that show False by simp
  qed
  ultimately have n: "q \<le> n" "0 < r \<Longrightarrow> q + 1 \<le> n" by auto
  show ?thesis
  proof (cases "s = 0")
    case True
    with assms show ?thesis by (simp add: round_half_even_def)
  next
    case False
    have "0 < r \<or> r < 2 ^ (s - 1)" using r by (cases "r = 0") auto
    with n False show ?thesis
      by (auto simp: round_half_even_def q_def [symmetric] r_def [symmetric] Let_def)
  qed
qed

lemma round_half_even_nonneg: "0 \<le> m \<Longrightarrow> 0 \<le> round_half_even m s"
  by (auto simp: round_half_even_def Let_def pos_imp_zdiv_nonneg_iff)

text \<open>An amount whose scaled value is below 1 stays so in every later era.\<close>

definition small :: "dbl \<Rightarrow> bool" where
  "small x \<longleftrightarrow> 0 \<le> fst x \<and> fst x \<le> 2 ^ 53 \<and> - 1074 \<le> snd x \<and> snd x \<le> - 67"

lemma le_int_nat: "z \<le> int (nat z)"
  by simp

lemma fee_after_Suc: "fee_after (Suc k) = dbl_mul (fee_after k) two_thirds"
  by (simp add: fee_after_def)

lemma small_step:
  assumes "small x" shows "small (dbl_mul x two_thirds)"
proof -
  obtain m e where x: "x = (m, e)" by (cases x)
  let ?m = "m * 6004799503160661"
  have m: "0 \<le> m" "m \<le> 2 ^ 53" and e: "- 1074 \<le> e" "e \<le> - 67" using assms by (auto simp: small_def x)
  define s where "s = nat (max (bits ?m - 53) (- 1074 - (e - 53)))"
  have "?m \<le> 2 ^ 53 * 6004799503160661" using m(2) by (intro mult_right_mono) auto
  then have "?m < 2 ^ 106" by simp
  then have "bits ?m \<le> 106" using bits_le [of ?m 106] by simp
  with e have s: "s \<le> 53" by (simp add: s_def)
  have d: "dbl_mul x two_thirds = (round_half_even ?m s, e - 53 + int s)"
    by (simp add: dbl_mul_def two_thirds_def x round_dbl_def s_def Let_def)
  have "- 1074 - (e - 53) \<le> int s"
    unfolding s_def by (rule order_trans [OF max.cobounded2 le_int_nat])
  then have lo: "- 1074 \<le> e - 53 + int s" by simp
  have "nat (bits ?m) \<le> 53 + s" by (simp add: s_def)
  then have "(2 :: int) ^ nat (bits ?m) \<le> 2 ^ (53 + s)" by (intro power_increasing) auto
  with less_bits [of ?m] have "?m \<le> 2 ^ 53 * 2 ^ s" by (simp add: power_add)
  then have "round_half_even ?m s \<le> 2 ^ 53" by (rule round_half_even_le)
  moreover have "0 \<le> round_half_even ?m s" using m by (simp add: round_half_even_nonneg)
  ultimately show ?thesis using lo s e by (simp add: small_def d)
qed

lemma small_fee:
  assumes "small x" shows "dbl_trunc (dbl_mul x (dbl_of_int DECIMAL_SCALE_FACTOR)) = 0"
proof -
  obtain m e where x: "x = (m, e)" by (cases x)
  let ?m = "m * 10000"
  have m: "0 \<le> m" "m \<le> 2 ^ 53" and e: "- 1074 \<le> e" "e \<le> - 67" using assms by (auto simp: small_def x)
  define s where "s = nat (max (bits ?m - 53) (- 1074 - e))"
  have "dbl_of_int DECIMAL_SCALE_FACTOR = (10000, 0)" by code_simp
  then have d: "dbl_mul x (dbl_of_int DECIMAL_SCALE_FACTOR) = (round_half_even ?m s, e + int s)"
    by (simp add: dbl_mul_def x round_dbl_def s_def Let_def)
  have "?m \<le> 2 ^ 53 * 10000" using m(2) by (intro mult_right_mono) auto
  then have m67: "?m \<le> 2 ^ 67 - 2 ^ 14" by simp
  then have "?m < 2 ^ 67" by simp
  then have "bits ?m \<le> 67" using bits_le [of ?m 67] by simp
  with e have s: "s \<le> 14" by (simp add: s_def)
  define k where "k = nat (- (e + int s))"
  have "int k = - (e + int s)" using e s by (simp add: k_def)
  then have ks: "67 \<le> k + s" using e by simp
  have "(2 ^ k - 1) * 2 ^ s = 2 ^ (k + s) - (2 :: int) ^ s" by (simp add: power_add algebra_simps)
  moreover have "(2 :: int) ^ 67 \<le> 2 ^ (k + s)" using ks by (intro power_increasing) auto
  moreover have "(2 :: int) ^ s \<le> 2 ^ 14" using s by (intro power_increasing) auto
  ultimately have "?m \<le> (2 ^ k - 1) * 2 ^ s" using m67 by linarith
  then have "round_half_even ?m s \<le> 2 ^ k - 1" by (rule round_half_even_le)
  moreover have "0 \<le> round_half_even ?m s" using m by (simp add: round_half_even_nonneg)
  ultimately have "round_half_even ?m s div 2 ^ k = 0" by (intro div_pos_pos_trivial) auto
  then show ?thesis using e s by (simp add: d dbl_trunc_def k_def)
qed

primrec amount_chain :: "nat \<Rightarrow> dbl \<Rightarrow> dbl" where
  "amount_chain 0 a = a"
| "amount_chain (Suc n) a = amount_chain n (dbl_mul a two_thirds)"

lemma amount_chain_iter: "amount_chain n a = ((\<lambda>a. dbl_mul a two_thirds) ^^ n) a"
  by (induction n arbitrary: a) (simp_all del: funpow.simps add: funpow_Suc_right funpow_0)

lemma fee_after_35: "small (fee_after 35)"
proof -
  have "amount_chain 35 (dbl_of_int 50) = (5067405364834800, - 67)" by code_simp
  then show ?thesis by (simp add: fee_after_def amount_chain_iter [symmetric] small_def)
qed

lemma small_later: "small (fee_after (35 + n))"
proof (induction n)
  case 0
  then show ?case using fee_after_35 by simp
next
  case (Suc n)
  have "fee_after (35 + Suc n) = dbl_mul (fee_after (35 + n)) two_thirds"
    using fee_after_Suc [of "35 + n"] by simp
  with Suc small_step show ?case by metis
qed

lemma fee_after_value:
  "dbl_trunc (dbl_mul (fee_after k) (dbl_of_int DECIMAL_SCALE_FACTOR)) =
     (if k < 33 then fee_table ! k else 0)"
proof (cases "k < 36")
  case True
  have "dbl_trunc (dbl_mul (fee_after k) (dbl_of_int DECIMAL_SCALE_FACTOR)) =
      fee_chain 36 (dbl_of_int 50) ! k"
    using True by (simp add: fee_chain_nth fee_after_def)
  also have "\<dots> = (fee_table @ [0, 0, 0]) ! k" by (simp only: fee_chain_eval)
  also have "\<dots> = (if k < 33 then fee_table ! k else 0)"
    using True by (auto simp: nth_append fee_table_def nth_Cons split: nat.splits)
  finally show ?thesis .
next
  case False
  then have "k = 35 + (k - 35)" by simp
  then have "small (fee_after k)" using small_later [of "k - 35"] by simp
  from small_fee [OF this] False show ?thesis by simp
qed

lemma getCurrentMiningFee_table:
  "uint (getCurrentMiningFee b) = (if era b < 33 then fee_table ! era b else 0)"
proof -
  have f: "PDN (fee_after (era b)) = word_of_int (if era b < 33 then fee_table ! era b else 0)"
    by (simp only: PDN_def fee_after_value)
  have t: "0 \<le> fee_table ! k \<and> fee_table ! k < 2 ^ 32" if "k < 33" for k
  proof -
    have "\<forall>x \<in> set fee_table. 0 \<le> x \<and> x < 2 ^ 32" by (simp add: fee_table_def)
    moreover have "fee_table ! k \<in> set fee_table" using that by (intro nth_mem) (simp add: fee_table_def)
    ultimately show ?thesis by blast
  qed
  show ?thesis
  proof (cases "era b < 33")
    case True
    have "getCurrentMiningFee b = ucast (word_of_int (fee_table ! era b) :: u64)"
      by (simp only: getCurrentMiningFee_era f True if_True)
    also have "\<dots> = word_of_int (fee_table ! era b)"
      by (simp add: unsigned_of_int take_bit_int_eq_self t [OF True, THEN conjunct1]
          less_trans [OF t [OF True, THEN conjunct2]])
    finally show ?thesis
      using t [OF True] True by (simp add: unsigned_of_int take_bit_int_eq_self)
  next
    case False
    then show ?thesis by (simp only: getCurrentMiningFee_era f if_False) simp
  qed
qed

section \<open>Properties\<close>

text \<open>
  The emission schedule: the double-precision loop of \<open>getCurrentMiningFee\<close> pays the
  table's fee in era \<open>(blockId + 150930) div 666666\<close>, and nothing from the 34th era on. Block
  515735 is the last one paid 50 coins; the README names 515736.
\<close>

lemma mining_fee_schedule:
  "uint (getCurrentMiningFee b) =
     (let k = unat (b + 150930) div 666666 in if k < 33 then fee_table ! k else 0) \<and>
   uint (getCurrentMiningFee 515735) = 500000 \<and> uint (getCurrentMiningFee 515736) = 333333"
proof (intro conjI)
  show "uint (getCurrentMiningFee b) =
     (let k = unat (b + 150930) div 666666 in if k < 33 then fee_table ! k else 0)"
    unfolding getCurrentMiningFee_table by (simp add: era_def Let_def)
  have e: "era 515735 = 0" "era 515736 = 1" by (simp_all add: era_def)
  show "uint (getCurrentMiningFee 515735) = 500000" "uint (getCurrentMiningFee 515736) = 333333"
    unfolding getCurrentMiningFee_table e by (simp_all add: fee_table_def)
qed

lemma card_div: "card {b \<in> {1..n :: nat}. (b + c) div d = k} \<le> d" if "0 < d"
proof -
  have "(\<lambda>b. b + c) ` {b \<in> {1..n}. (b + c) div d = k} \<subseteq> {k * d ..< k * d + d}"
  proof (rule image_subsetI)
    fix b assume "b \<in> {b \<in> {1..n}. (b + c) div d = k}"
    then have "b + c = k * d + (b + c) mod d" using div_mult_mod_eq [of "b + c" d] by simp
    moreover have "(b + c) mod d < d" using that by simp
    ultimately show "b + c \<in> {k * d ..< k * d + d}" by simp
  qed
  then have "card ((\<lambda>b. b + c) ` {b \<in> {1..n}. (b + c) div d = k}) \<le> card {k * d ..< k * d + d}"
    by (intro card_mono) auto
  then show ?thesis by (simp add: card_image)
qed

text \<open>
  All mining fees ever paid stay below one million million units (100 million coins), so the supply
  never comes near the 64-bit limit of a balance.
\<close>

lemma total_emission_bound:
  assumes "n < 2 ^ 63"
  shows "(\<Sum>b = 1..n. uint (getCurrentMiningFee (of_nat b))) \<le> 999986333346"
proof -
  let ?f = "\<lambda>k. if k < 33 then fee_table ! k else 0"
  let ?g = "\<lambda>b. (b + 150930) div 666666"
  have e: "era (of_nat b) = ?g b" if "b \<in> {1..n}" for b
  proof -
    have "b + 150930 < 2 ^ 64" using that assms by simp
    then have "unat (of_nat (b + 150930) :: u64) = b + 150930"
      by (simp only: unsigned_of_nat) (simp add: take_bit_nat_eq_self)
    moreover have "of_nat b + 150930 = (of_nat (b + 150930) :: u64)" by simp
    ultimately show ?thesis by (simp only: era_def)
  qed
  have t: "0 \<le> ?f k" for k
  proof -
    have "\<forall>k < 33. 0 \<le> fee_table ! k" by code_simp
    then show ?thesis by simp
  qed
  have "(\<Sum>b = 1..n. uint (getCurrentMiningFee (of_nat b))) = (\<Sum>b = 1..n. ?f (?g b))"
    by (rule sum.cong) (simp_all only: getCurrentMiningFee_table e)
  also have "\<dots> = (\<Sum>k \<in> {..?g n}. \<Sum>b \<in> {b \<in> {1..n}. ?g b = k}. ?f (?g b))"
    by (rule sum.group [symmetric]) (auto intro: div_le_mono)
  also have "\<dots> = (\<Sum>k \<in> {..?g n}. int (card {b \<in> {1..n}. ?g b = k}) * ?f k)"
    by (rule sum.cong) auto
  also have "\<dots> \<le> (\<Sum>k \<in> {..?g n}. 666666 * ?f k)"
    by (intro sum_mono mult_right_mono t) (use card_div [of 666666 n 150930] in auto)
  also have "\<dots> \<le> (\<Sum>k \<in> {..<33} \<union> {..?g n}. 666666 * ?f k)"
    using t by (intro sum_mono2) auto
  also have "\<dots> = (\<Sum>k \<in> {..<33}. 666666 * ?f k)"
    by (rule sum.mono_neutral_right) auto
  also have "\<dots> = 999986333346"
  proof -
    have "(\<Sum>k \<in> {..<33}. 666666 * ?f k) = 666666 * (\<Sum>k \<in> {..<33}. fee_table ! k)"
      by (simp add: sum_distrib_left)
    also have "(\<Sum>k \<in> {..<33}. fee_table ! k) = sum_list fee_table"
    proof -
      have "length fee_table = 33" by code_simp
      then show ?thesis by (simp only: sum_list_sum_nth atLeast0LessThan)
    qed
    also have "666666 * sum_list fee_table = 999986333346" by code_simp
    finally show ?thesis .
  qed
  finally show ?thesis .
qed

lemma total_emission_bound_witness:
  "(\<Sum>b = 1..3. uint (getCurrentMiningFee (of_nat b))) \<le> 999986333346"
  by (rule total_emission_bound) simp

end
