(* ===== verification/Difficulty.thy ===== *)
theory Difficulty
  imports Prelude
begin

text \<open>
  \<open>computeDifficulty\<close> of \<open>server/blockchain.cpp\<close>. The arguments and the factor \<open>k\<close> are C
  \<open>int\<close>s, modelled as integers with the range written out: \<open>None\<close> is signed overflow,
  which is undefined. The difficulty is a \<open>uint32_t\<close>.
\<close>

definition in_int32 :: "int \<Rightarrow> bool" where
  "in_int32 x \<longleftrightarrow> - (2 ^ 31) \<le> x \<and> x < 2 ^ 31"

text \<open>C division rounds towards zero; \<open>c_abs_diff a b\<close> is \<open>abs(a - b)\<close>.\<close>

definition c_div :: "int \<Rightarrow> int \<Rightarrow> int" where
  "c_div a k = sgn a * (\<bar>a\<bar> div k)"

definition c_abs_diff :: "int \<Rightarrow> int \<Rightarrow> int option" where
  "c_abs_diff a b = (if in_int32 a \<and> in_int32 (a - b) \<and> in_int32 \<bar>a - b\<bar> then Some \<bar>a - b\<bar> else None)"

function lower_difficulty :: "int \<Rightarrow> int \<Rightarrow> u32 \<Rightarrow> int \<Rightarrow> int \<Rightarrow> u32 option" where
  "lower_difficulty elapsed expected d k lastK =
     (if 6 < d then
        (case (c_abs_diff (c_div elapsed k) expected, c_abs_diff (c_div elapsed lastK) expected) of
           (Some x, Some y) \<Rightarrow>
             if y < x then Some d
             else if in_int32 (2 * k) then lower_difficulty elapsed expected (d - 1) (2 * k) k
             else None
         | _ \<Rightarrow> None)
      else Some d)"
  by pat_completeness auto
termination
proof (relation "measure (\<lambda>(e, x, d, k, l). unat d)", goal_cases)
  case (2 elapsed expected d k lastK)
  then have "1 \<le> d" by (simp add: word_le_nat_alt word_less_nat_alt)
  then have "unat (d - 1) = unat d - 1" by (simp add: unat_sub)
  with 2 show ?case by (simp add: word_less_nat_alt)
qed simp

function raise_difficulty :: "int \<Rightarrow> int \<Rightarrow> u32 \<Rightarrow> int \<Rightarrow> int \<Rightarrow> u32 option" where
  "raise_difficulty elapsed expected d k lastK =
     (if d < 254 then
        (case (c_abs_diff (elapsed * k) expected, c_abs_diff (elapsed * lastK) expected) of
           (Some x, Some y) \<Rightarrow>
             if y < x then Some d
             else if in_int32 (2 * k) then raise_difficulty elapsed expected (d + 1) (2 * k) k
             else None
         | _ \<Rightarrow> None)
      else Some d)"
  by pat_completeness auto
termination
proof (relation "measure (\<lambda>(e, x, d, k, l). 254 - unat d)", goal_cases)
  case (2 elapsed expected d k lastK)
  then have d: "unat d < 254" by (simp add: word_less_nat_alt)
  then have "unat (d + 1) = unat d + 1" by (simp add: unat_word_ariths)
  with d show ?case by simp
qed simp

declare lower_difficulty.simps [simp del] raise_difficulty.simps [simp del]

definition computeDifficulty :: "int \<Rightarrow> int \<Rightarrow> int \<Rightarrow> u32 option" where
  "computeDifficulty currentDifficulty elapsedTime expectedTime =
     (if expectedTime < elapsedTime
      then lower_difficulty elapsedTime expectedTime (word_of_int currentDifficulty) 2 1
      else raise_difficulty elapsedTime expectedTime (word_of_int currentDifficulty) 2 1)"

lemma double_in_int32: "0 < p \<Longrightarrow> p < 2 ^ 30 \<Longrightarrow> in_int32 (2 * p)"
  by (simp add: in_int32_def)

section \<open>The loops\<close>

text \<open>
  Distance from the expected time after \<open>i\<close> halvings or doublings. The loops go on as long as
  the distance does not grow.
\<close>

definition slow_dist :: "int \<Rightarrow> int \<Rightarrow> nat \<Rightarrow> int" where
  "slow_dist elapsed expected i = \<bar>elapsed div 2 ^ i - expected\<bar>"

definition fast_dist :: "int \<Rightarrow> int \<Rightarrow> nat \<Rightarrow> int" where
  "fast_dist elapsed expected i = \<bar>elapsed * 2 ^ i - expected\<bar>"

lemma pred_u32: "6 < (d :: u32) \<Longrightarrow> unat (d - 1) = unat d - 1 \<and> 6 < unat d"
proof -
  assume "6 < d"
  then have d: "6 < unat d" by (simp add: word_less_nat_alt)
  then have "1 \<le> d" by (simp add: word_le_nat_alt)
  then show ?thesis using d by (simp add: unat_sub)
qed

lemma succ_u32: "d < (254 :: u32) \<Longrightarrow> unat (d + 1) = unat d + 1 \<and> unat d < 254"
  by (simp add: word_less_nat_alt unat_word_ariths)

lemma c_div_pos: "0 \<le> a \<Longrightarrow> c_div a k = a div k"
  by (cases "a = 0") (simp_all add: c_div_def)

lemma ball_from_Suc: "P i \<Longrightarrow> \<forall>j \<in> {Suc i..<Suc i + n}. P j \<Longrightarrow> \<forall>j \<in> {i..<i + Suc n}. P j"
  by (metis Suc_leI add_Suc add_Suc_right atLeastLessThan_iff order_le_imp_less_or_eq)

lemma slow_abs_diff:
  assumes "0 \<le> e" "in_int32 e" "0 \<le> x" "in_int32 x"
  shows "c_abs_diff (c_div e (2 ^ i)) x = Some (slow_dist e x i)"
proof -
  have "0 \<le> e div 2 ^ i" using assms(1) by (simp add: pos_imp_zdiv_nonneg_iff)
  moreover have "e div 2 ^ i \<le> e" using assms(1) zdiv_mono2 [of e 1 "2 ^ i"] by simp
  ultimately show ?thesis using assms
    by (auto simp: c_abs_diff_def c_div_pos slow_dist_def in_int32_def)
qed

lemma halve_again: "e div 2 ^ Suc i = e div 2 ^ i div (2 :: int)"
proof -
  have "e div 2 ^ Suc i = e div (2 ^ i * 2)" by (simp add: mult.commute)
  also have "\<dots> = e div 2 ^ i div 2" by (rule zdiv_zmult2_eq) simp
  finally show ?thesis .
qed

lemma slow_stops:
  assumes "1 \<le> e div 2 ^ i" "e div 2 ^ i \<le> x"
  shows "slow_dist e x i < slow_dist e x (Suc i)"
proof -
  have "e div 2 ^ Suc i < e div 2 ^ i" using assms(1) halve_again [of e i] by linarith
  then show ?thesis using assms(2) by (simp add: slow_dist_def)
qed

lemma slow_goes_on:
  assumes "x < e div 2 ^ i" "1 \<le> (x :: int)"
  shows "1 \<le> e div 2 ^ Suc i"
proof -
  show ?thesis using assms halve_again [of e i] by linarith
qed

lemma slow_few_steps:
  assumes "4 \<le> e div 2 ^ i" "e < (2 :: int) ^ 31"
  shows "i \<le> 28"
proof (rule ccontr)
  assume "\<not> i \<le> 28"
  then have "(2 :: int) ^ 29 \<le> 2 ^ i" by (intro power_increasing) auto
  moreover have "0 \<le> e"
  proof (rule ccontr)
    assume "\<not> 0 \<le> e"
    then have "e div 2 ^ i < 0" by (simp add: div_neg_pos_less0)
    with assms(1) show False by simp
  qed
  ultimately have "e div 2 ^ i \<le> e div 2 ^ 29" by (intro zdiv_mono2) auto
  with assms show False by simp
qed

text \<open>
  A run of the loops: the distance did not grow in the \<open>n\<close> steps taken, and would in the next
  one if the bound was not reached.
\<close>

lemma lower_difficulty_run:
  assumes "4 \<le> x" "x < 2 ^ 31" "0 \<le> e" "e < 2 ^ 31" "1 \<le> e div 2 ^ i"
  shows "\<exists>r n. lower_difficulty e x d (2 ^ Suc i) (2 ^ i) = Some r \<and> unat r + n = unat d \<and>
               (\<forall>j \<in> {i..<i + n}. slow_dist e x (Suc j) \<le> slow_dist e x j) \<and>
               (n > 0 \<longrightarrow> 6 \<le> unat r) \<and>
               (6 < r \<longrightarrow> slow_dist e x (i + n) < slow_dist e x (Suc (i + n)))"
  using assms
proof (induction "unat d" arbitrary: d i rule: less_induct)
  case less
  have in32: "in_int32 e" "in_int32 x" using less.prems by (auto simp: in_int32_def)
  have dist: "c_abs_diff (c_div e (2 ^ Suc i)) x = Some (slow_dist e x (Suc i))"
    "c_abs_diff (c_div e (2 ^ i)) x = Some (slow_dist e x i)"
    using slow_abs_diff [of e x] less.prems in32 by (simp_all only:)
  consider "\<not> 6 < d" | "6 < d" "slow_dist e x i < slow_dist e x (Suc i)"
    | "6 < d" "\<not> slow_dist e x i < slow_dist e x (Suc i)" by blast
  then show ?case
  proof cases
    case 3
    have big: "x < e div 2 ^ i" using slow_stops [OF less.prems(5)] 3(2) by (meson not_less)
    then have "i \<le> 28" using slow_few_steps [of e i] less.prems by simp
    then have "(2 :: int) ^ Suc (Suc i) \<le> 2 ^ 30" by (intro power_increasing) auto
    then have room: "in_int32 (2 * 2 ^ Suc i)" by (intro double_in_int32) simp_all
    have d: "unat (d - 1) = unat d - 1" "6 < unat d" using pred_u32 [OF 3(1)] by simp_all
    have low: "1 \<le> e div 2 ^ Suc i" using slow_goes_on [OF big] less.prems(1) by simp
    obtain r n where run: "lower_difficulty e x (d - 1) (2 ^ Suc (Suc i)) (2 ^ Suc i) = Some r"
      "unat r + n = unat (d - 1)"
      "\<forall>j \<in> {Suc i..<Suc i + n}. slow_dist e x (Suc j) \<le> slow_dist e x j"
      "n > 0 \<longrightarrow> 6 \<le> unat r"
      "6 < r \<longrightarrow> slow_dist e x (Suc i + n) < slow_dist e x (Suc (Suc i + n))"
      using less.hyps [of "d - 1" "Suc i"] d less.prems low by auto
    have "lower_difficulty e x d (2 ^ Suc i) (2 ^ i) = Some r"
      using 3 dist room run(1) by (subst lower_difficulty.simps) (simp add: mult.commute)
    moreover have "\<forall>j \<in> {i..<i + Suc n}. slow_dist e x (Suc j) \<le> slow_dist e x j"
      using run(3) 3(2) by (intro ball_from_Suc) (auto simp: not_less)
    moreover have "6 \<le> unat r" using run(2,4) d by (cases "n = 0") auto
    moreover have "unat r + Suc n = unat d" using run(2) d by simp
    ultimately show ?thesis using run(5) by (intro exI [of _ r] exI [of _ "Suc n"]) simp
  qed (use dist in \<open>(subst lower_difficulty.simps, simp)+\<close>)
qed

lemma fast_abs_diff:
  assumes "0 \<le> e * 2 ^ i" "e * 2 ^ i < 2 ^ 31" "0 \<le> x" "in_int32 x"
  shows "c_abs_diff (e * 2 ^ i) x = Some (fast_dist e x i)"
  using assms by (auto simp: c_abs_diff_def fast_dist_def in_int32_def)

lemma fast_stops:
  assumes "0 < e" "x \<le> e * 2 ^ i"
  shows "fast_dist e x i < fast_dist e x (Suc i)"
proof -
  have "0 < e * 2 ^ i" "e * 2 ^ Suc i = 2 * (e * 2 ^ i)" using assms(1) by simp_all
  then show ?thesis using assms(2) unfolding fast_dist_def by linarith
qed

lemma raise_difficulty_run:
  assumes "0 < e" "0 \<le> x" "x < 2 ^ 29" "e * 2 ^ i < 2 * x"
  shows "\<exists>r n. raise_difficulty e x d (2 ^ Suc i) (2 ^ i) = Some r \<and> unat r = unat d + n \<and>
               (\<forall>j \<in> {i..<i + n}. fast_dist e x (Suc j) \<le> fast_dist e x j) \<and>
               (n > 0 \<longrightarrow> unat r \<le> 254) \<and>
               (r < 254 \<longrightarrow> fast_dist e x (i + n) < fast_dist e x (Suc (i + n)))"
  using assms
proof (induction "254 - unat d" arbitrary: d i rule: less_induct)
  case less
  have "in_int32 x" "0 \<le> e * 2 ^ i" "e * 2 ^ Suc i < 2 ^ 31" "0 \<le> e * 2 ^ Suc i" "e * 2 ^ i < 2 ^ 31"
    using less.prems by (auto simp: in_int32_def)
  then have dist: "c_abs_diff (e * 2 ^ Suc i) x = Some (fast_dist e x (Suc i))"
    "c_abs_diff (e * 2 ^ i) x = Some (fast_dist e x i)"
    using fast_abs_diff [of e _ x] less.prems by (simp_all only:)
  consider "\<not> d < 254" | "d < 254" "fast_dist e x i < fast_dist e x (Suc i)"
    | "d < 254" "\<not> fast_dist e x i < fast_dist e x (Suc i)" by blast
  then show ?case
  proof cases
    case 3
    have low: "e * 2 ^ i < x" using fast_stops [OF less.prems(1)] 3(2) by (meson not_less)
    have "(2 :: int) ^ i \<le> e * 2 ^ i" using less.prems(1) by simp
    then have "(2 :: int) ^ i < 2 ^ 29" using low less.prems(3) by linarith
    then have room: "in_int32 (2 * 2 ^ Suc i)" by (intro double_in_int32) simp_all
    have d: "unat (d + 1) = unat d + 1" "unat d < 254" using succ_u32 [OF 3(1)] by simp_all
    obtain r n where run: "raise_difficulty e x (d + 1) (2 ^ Suc (Suc i)) (2 ^ Suc i) = Some r"
      "unat r = unat (d + 1) + n"
      "\<forall>j \<in> {Suc i..<Suc i + n}. fast_dist e x (Suc j) \<le> fast_dist e x j"
      "n > 0 \<longrightarrow> unat r \<le> 254"
      "r < 254 \<longrightarrow> fast_dist e x (Suc i + n) < fast_dist e x (Suc (Suc i + n))"
      using less.hyps [OF _ less.prems(1-3), of "d + 1" "Suc i"] d low by fastforce
    have "raise_difficulty e x d (2 ^ Suc i) (2 ^ i) = Some r"
      using 3 dist room run(1) by (subst raise_difficulty.simps) (simp add: mult.commute)
    moreover have "\<forall>j \<in> {i..<i + Suc n}. fast_dist e x (Suc j) \<le> fast_dist e x j"
      using run(3) 3(2) by (intro ball_from_Suc) (auto simp: not_less)
    moreover have "unat r \<le> 254" using run(2,4) d by (cases "n = 0") auto
    ultimately show ?thesis using run(2,5) d by (intro exI [of _ r] exI [of _ "Suc n"]) simp
  qed (use dist in \<open>(subst raise_difficulty.simps, simp)+\<close>)
qed

text \<open>With no time elapsed the doubling never changes the distance, and \<open>k\<close> overflows.\<close>

lemma raise_difficulty_zero:
  "0 \<le> x \<Longrightarrow> in_int32 x \<Longrightarrow> unat d + (30 - i) \<le> 253 \<Longrightarrow> i \<le> 29 \<Longrightarrow>
   raise_difficulty 0 x d (2 ^ Suc i) (2 ^ i) = None"
proof (induction "29 - i" arbitrary: d i)
  case 0
  then have "i = 29" "unat d < 254" by simp_all
  then show ?case using 0
    by (subst raise_difficulty.simps) (simp add: word_less_nat_alt c_abs_diff_def in_int32_def)
next
  case (Suc m)
  then have i: "i < 29" "unat d < 254" by simp_all
  then have d: "d < 254" "unat (d + 1) = unat d + 1"
    by (simp_all add: word_less_nat_alt unat_word_ariths)
  have "(2 :: int) ^ Suc (Suc i) \<le> 2 ^ 30" using i by (intro power_increasing) auto
  then have room: "in_int32 (2 * 2 ^ Suc i)" by (intro double_in_int32) simp_all
  have "raise_difficulty 0 x (d + 1) (2 ^ Suc (Suc i)) (2 ^ Suc i) = None"
    using Suc.hyps(1) [of "Suc i" "d + 1"] Suc.hyps(2) Suc.prems i d by simp
  then show ?case using d(1) room Suc.prems
    by (subst raise_difficulty.simps) (auto simp: c_abs_diff_def in_int32_def)
qed

section \<open>Properties\<close>



lemma computeDifficulty_example:
  "computeDifficulty 16 36000 9000 = Some 14 \<and> computeDifficulty 16 2000 9000 = Some 18"
  by (simp add: computeDifficulty_def lower_difficulty.simps raise_difficulty.simps
      c_abs_diff_def c_div_def in_int32_def)

text \<open>
  A window of blocks that all carry one timestamp retargets over an elapsed time of 0: the
  doubling loop never gets further from the target, so it runs until \<open>int k\<close> overflows.
\<close>

lemma computeDifficulty_no_time:
  assumes "0 \<le> d" "d \<le> 223" "0 \<le> expected" "expected < 2 ^ 31"
  shows "computeDifficulty d 0 expected = None"
proof -
  have "unat (word_of_int d :: u32) = nat d" using assms
    by (simp add: unat_eq_nat_uint uint_word_of_int)
  then show ?thesis
    using raise_difficulty_zero [of expected "word_of_int d" 0] assms
    by (simp add: computeDifficulty_def in_int32_def)
qed

lemma computeDifficulty_no_time_witness: "computeDifficulty 16 0 9000 = None"
  by (rule computeDifficulty_no_time) simp_all

end
