(* ===== verification/MemPool.thy ===== *)
theory MemPool
  imports Block
begin

text \<open>
  \<open>server/mempool.hpp\<close> and the part of \<open>server/mempool.cpp\<close> that needs no chain: the queue
  of waiting transactions, ordered by fee and then by hash, and the amounts the wallets
  still have to pay. \<open>addTransaction\<close>, which asks the chain, is in the theory \<open>Admission\<close>.

  The \<open>std::set\<close> is the list of its elements in order; a lookup compares the key with every
  element, which finds what the search in the tree finds as long as the list is ordered.
  Inserting copies the transaction: the position is that of the original, the node is
  built in the memory \<open>mem\<close>.
\<close>

section \<open>The queue\<close>

record mempool =
  mp_queue :: "transaction list"
  mp_outgoing :: "(wallet \<times> amount) list"
  mp_nonces :: "(wallet \<times> u64) list"
  mp_toSend :: "transaction list"

definition mempool_new :: mempool where
  "mempool_new = \<lparr>mp_queue = [], mp_outgoing = [], mp_nonces = [], mp_toSend = []\<rparr>"

definition MIN_FEE_TO_ENTER_MEMPOOL :: amount where
  "MIN_FEE_TO_ENTER_MEMPOOL = 1"

definition TransactionComparator :: "crypto \<Rightarrow> transaction \<Rightarrow> transaction \<Rightarrow> bool" where
  "TransactionComparator C a b =
     (if t_fee a \<noteq> t_fee b then t_fee b < t_fee a else tx_getHash C a < tx_getHash C b)"

definition same_key :: "crypto \<Rightarrow> transaction \<Rightarrow> transaction \<Rightarrow> bool" where
  "same_key C a b \<longleftrightarrow> \<not> TransactionComparator C a b \<and> \<not> TransactionComparator C b a"

fun queue_insert :: "crypto \<Rightarrow> transaction \<Rightarrow> transaction \<Rightarrow> transaction list \<Rightarrow> transaction list" where
  "queue_insert C mem t [] = [tx_copy mem t]"
| "queue_insert C mem t (x # xs) =
     (if TransactionComparator C t x then tx_copy mem t # x # xs
      else if TransactionComparator C x t then x # queue_insert C mem t xs
      else x # xs)"

definition queue_count :: "crypto \<Rightarrow> transaction \<Rightarrow> transaction list \<Rightarrow> bool" where
  "queue_count C t q = list_ex (same_key C t) q"

fun queue_erase :: "crypto \<Rightarrow> transaction \<Rightarrow> transaction list \<Rightarrow> transaction list" where
  "queue_erase C t [] = []"
| "queue_erase C t (x # xs) = (if same_key C t x then xs else x # queue_erase C t xs)"

section \<open>Operations\<close>

text \<open>\<open>mempoolOutgoing[w]\<close> and \<open>walletNonces[w]\<close>: a missing entry is 0.\<close>

definition entry :: "wallet \<Rightarrow> (wallet \<times> u64) list \<Rightarrow> u64" where
  "entry w m = (case map_of m w of None \<Rightarrow> 0 | Some v \<Rightarrow> v)"

definition mp_hasTransaction :: "crypto \<Rightarrow> transaction \<Rightarrow> transaction \<Rightarrow> mempool \<Rightarrow> bool" where
  "mp_hasTransaction C mem t p = queue_count C (tx_copy mem t) (mp_queue p)"

definition mp_size :: "mempool \<Rightarrow> nat" where
  "mp_size p = length (mp_queue p)"

definition mp_getTransactions :: "(nat \<Rightarrow> transaction) \<Rightarrow> mempool \<Rightarrow> transaction list" where
  "mp_getTransactions mem p = copy_list mem (mp_queue p)"

definition mp_getRaw :: "mempool \<Rightarrow> bytes" where
  "mp_getRaw p = concat (map (\<lambda>tx. transactionInfoToBuffer (tx_serialize tx)) (mp_queue p))"

text \<open>\<open>mempoolOutgoing[w]\<close> on the right of an assignment: it enters a missing wallet.\<close>

definition touch :: "wallet \<Rightarrow> (wallet \<times> u64) list \<Rightarrow> (wallet \<times> u64) list" where
  "touch w m = (if map_of m w = None then omap_put w 0 m else m)"

definition debit_pending :: "transaction \<Rightarrow> (wallet \<times> amount) list \<Rightarrow> (wallet \<times> amount) list" where
  "debit_pending t out = omap_put (t_from t) (entry (t_from t) out - (t_amount t + t_fee t)) out"

definition finish_transaction :: "crypto \<Rightarrow> transaction \<Rightarrow> mempool \<Rightarrow> mempool" where
  "finish_transaction C tx p =
     (if queue_count C tx (mp_queue p) then
        (let p' = p\<lparr>mp_queue := queue_erase C tx (mp_queue p)\<rparr> in
         if \<not> t_isTransactionFee tx then
           (let out = debit_pending tx (mp_outgoing p') in
            p'\<lparr>mp_outgoing := (if entry (t_from tx) out = 0 then omap_del (t_from tx) out else out)\<rparr>)
         else p')
      else p)"

definition finishBlock :: "crypto \<Rightarrow> block \<Rightarrow> mempool \<Rightarrow> mempool" where
  "finishBlock C b p = fold (finish_transaction C) (b_transactions b) p"

fun cleanup_queue ::
  "u64 \<Rightarrow> transaction list \<Rightarrow> (wallet \<times> amount) list \<Rightarrow> transaction list \<times> (wallet \<times> amount) list" where
  "cleanup_queue now [] out = ([], out)"
| "cleanup_queue now (t # q) out =
     (if isExpired now t
      then cleanup_queue now q (if \<not> t_isTransactionFee t then debit_pending t out else out)
      else (let (q', out') = cleanup_queue now q out in (t # q', out')))"

definition cleanupExpiredTransactions :: "u64 \<Rightarrow> mempool \<Rightarrow> mempool" where
  "cleanupExpiredTransactions now p =
     (let (q, out) = cleanup_queue now (mp_queue p) (mp_outgoing p) in
      p\<lparr>mp_queue := q, mp_outgoing := out\<rparr>)"

section \<open>The amounts still to pay\<close>

text \<open>What the queued transfers of a wallet take from it, modulo \<open>2 ^ 64\<close>.\<close>

definition owes :: "wallet \<Rightarrow> transaction \<Rightarrow> amount" where
  "owes w t = (if \<not> t_isTransactionFee t \<and> t_from t = w then t_amount t + t_fee t else 0)"

definition owed :: "wallet \<Rightarrow> transaction list \<Rightarrow> amount" where
  "owed w q = sum_list (map (owes w) q)"

definition pool_ok :: "mempool \<Rightarrow> bool" where
  "pool_ok p \<longleftrightarrow> omap_wf (mp_outgoing p) \<and> (\<forall>w. entry w (mp_outgoing p) = owed w (mp_queue p))"

lemma entry_put: "omap_wf m \<Longrightarrow> entry w (omap_put v x m) = (if w = v then x else entry w m)"
  by (simp add: entry_def omap.get_put)

lemma entry_del: "omap_wf m \<Longrightarrow> entry w (omap_del v m) = (if w = v then 0 else entry w m)"
  by (simp add: entry_def omap.get_del)

lemma entry_debit: "omap_wf out \<Longrightarrow> \<not> t_isTransactionFee t \<Longrightarrow>
    entry w (debit_pending t out) = entry w out - owes w t"
  by (simp add: debit_pending_def entry_put owes_def)

lemma debit_pending_wf [simp]: "omap_wf out \<Longrightarrow> omap_wf (debit_pending t out)"
  by (simp add: debit_pending_def)

lemma owes_copy [simp]: "owes w (tx_copy m t) = owes w t"
  by (simp add: owes_def)

lemma owed_simps [simp]: "owed w [] = 0" "owed w (t # q) = owes w t + owed w q"
  by (simp_all add: owed_def)

lemma pool_ok_new [simp]: "pool_ok mempool_new"
  by (simp add: pool_ok_def mempool_new_def entry_def)

lemma owed_insert:
  "\<not> queue_count C t q \<Longrightarrow> owed w (queue_insert C mem t q) = owes w t + owed w q"
  by (induction q) (auto simp: queue_count_def same_key_def)

text \<open>
  Equal keys in the queue and in the block must be the same payment. This is freedom from
  hash collisions on the transactions at hand.
\<close>

definition same_payments :: "crypto \<Rightarrow> transaction list \<Rightarrow> transaction list \<Rightarrow> bool" where
  "same_payments C ts q \<longleftrightarrow> (\<forall>t \<in> set ts. \<forall>u \<in> set q. same_key C t u \<longrightarrow>
     t_isTransactionFee t = t_isTransactionFee u \<and> (\<forall>w. owes w t = owes w u))"

lemma owed_erase:
  assumes "queue_count C t q" "\<forall>u \<in> set q. same_key C t u \<longrightarrow> owes w t = owes w u"
  shows "owed w (queue_erase C t q) = owed w q - owes w t"
  using assms by (induction q) (auto simp: queue_count_def)

lemma set_queue_erase: "set (queue_erase C t q) \<subseteq> set q"
  by (induction q) auto

lemma finish_transaction_ok:
  assumes "pool_ok p" "same_payments C [t] (mp_queue p)"
  shows "pool_ok (finish_transaction C t p) \<and> set (mp_queue (finish_transaction C t p)) \<subseteq> set (mp_queue p)"
proof -
  have "owed w (queue_erase C t (mp_queue p)) = owed w (mp_queue p) - owes w t"
    if "queue_count C t (mp_queue p)" for w
    using owed_erase [OF that] assms(2) by (simp add: same_payments_def)
  moreover have "owes w t = 0" if "t_isTransactionFee t" for w using that by (simp add: owes_def)
  ultimately show ?thesis using assms(1) set_queue_erase [of C t "mp_queue p"]
    by (auto simp: finish_transaction_def pool_ok_def entry_debit entry_del Let_def)
qed

lemma finish_fold_ok:
  "pool_ok p \<Longrightarrow> same_payments C ts (mp_queue p) \<Longrightarrow> pool_ok (fold (finish_transaction C) ts p)"
proof (induction ts arbitrary: p)
  case (Cons t ts)
  have "same_payments C [t] (mp_queue p)" using Cons.prems(2) by (simp add: same_payments_def)
  note f = finish_transaction_ok [OF Cons.prems(1) this]
  then have "same_payments C ts (mp_queue (finish_transaction C t p))"
    using Cons.prems(2) by (auto simp: same_payments_def)
  with f Cons.IH show ?case by simp
qed simp

lemma cleanup_queue_ok:
  "omap_wf out \<Longrightarrow> cleanup_queue now q out = (q', out') \<Longrightarrow>
   omap_wf out' \<and> q' = filter (\<lambda>t. \<not> isExpired now t) q \<and>
   entry w out' - owed w q' = entry w out - owed w q"
proof (induction q arbitrary: out q' out')
  case (Cons t q)
  show ?case
  proof (cases "isExpired now t")
    case False
    then show ?thesis using Cons by (auto split: prod.splits)
  next
    case True
    let ?o = "if \<not> t_isTransactionFee t then debit_pending t out else out"
    have "omap_wf ?o" "entry w ?o = entry w out - owes w t"
      using Cons.prems(1) by (auto simp: entry_debit owes_def)
    moreover have "cleanup_queue now q ?o = (q', out')" using Cons.prems(2) True by simp
    ultimately have "omap_wf out' \<and> q' = filter (\<lambda>t. \<not> isExpired now t) q \<and>
        entry w out' - owed w q' = entry w out - owes w t - owed w q"
      using Cons.IH [of ?o q' out'] by (auto simp del: if_split)
    then show ?thesis using True by (simp add: algebra_simps)
  qed
qed simp

section \<open>Properties\<close>

text \<open>
  The amounts a wallet still has to pay are, at any time, those of its queued transfers:
  removing the transactions of a block or the expired ones from the queue takes exactly what
  they owe from the books, and expiry keeps every transaction that has not expired.
\<close>

lemma pool_books_kept:
  assumes "pool_ok p"
  shows "(same_payments C (b_transactions b) (mp_queue p) \<longrightarrow> pool_ok (finishBlock C b p)) \<and>
    pool_ok (cleanupExpiredTransactions now p) \<and>
    mp_queue (cleanupExpiredTransactions now p) = filter (\<lambda>t. \<not> isExpired now t) (mp_queue p)"
proof (intro conjI impI)
  show "pool_ok (finishBlock C b p)" if "same_payments C (b_transactions b) (mp_queue p)"
    using finish_fold_ok [OF assms that] by (simp add: finishBlock_def)
  obtain q out where r: "cleanup_queue now (mp_queue p) (mp_outgoing p) = (q, out)" by fastforce
  have wf: "omap_wf (mp_outgoing p)" and e: "\<And>w. entry w (mp_outgoing p) = owed w (mp_queue p)"
    using assms by (auto simp: pool_ok_def)
  note c = cleanup_queue_ok [OF wf r]
  then show "pool_ok (cleanupExpiredTransactions now p)"
    using e r by (auto simp: pool_ok_def cleanupExpiredTransactions_def)
  show "mp_queue (cleanupExpiredTransactions now p) = filter (\<lambda>t. \<not> isExpired now t) (mp_queue p)"
    using c r by (simp add: cleanupExpiredTransactions_def)
qed

lemma pool_books_kept_witness:
  "mp_queue (cleanupExpiredTransactions 9000
     \<lparr>mp_queue = [sample_transfer 1 2 30 5], mp_outgoing = [(sample_wallet 1, 35)], mp_nonces = [], mp_toSend = []\<rparr>) = []"
proof -
  let ?p = "\<lparr>mp_queue = [sample_transfer 1 2 30 5], mp_outgoing = [(sample_wallet 1, 35)], mp_nonces = [], mp_toSend = []\<rparr>"
  have "pool_ok ?p" by (auto simp: pool_ok_def entry_def owes_def sample_transfer_def)
  from pool_books_kept [OF this, of sample_crypto "sample_block 2 []" 9000]
  show ?thesis by (simp add: isExpired_iff sample_transfer_def)
qed

end
