(* ===== verification/Chain.thy ===== *)
theory Chain
  imports Undo MerkleTree BlockStore Emission Difficulty MemPool
begin

text \<open>
  \<open>server/blockchain.cpp\<close>: the state of a \<open>BlockChain\<close> and its operations, composed of the
  executor, the stores, the Merkle tree, the emission and the difficulty.

  The mutex \<open>lock\<close> is not recursive: \<open>c_locked\<close> says that the running thread owns it, and
  locking it again never returns (\<open>Deadlock\<close>). A \<open>unique_lock\<close> releases it on every way out,
  also on an exception. All databases have one type \<open>'d\<close> and one interface \<open>L\<close>. The number
  of blocks is far from the limit of an \<open>int\<close>, whose overflow is not modelled here.

  What an operation gets from outside is its argument \<open>E\<close>: the network's time, the block in
  \<open>genesis.json\<close>, and the memory that uninitialised objects find: \<open>e_mem E k\<close> is that of the
  \<open>k\<close>-th place where an operation copies transactions.
\<close>

section \<open>State\<close>

record env =
  e_now :: u64
  e_genesis :: "block option"
  e_mem :: "nat \<Rightarrow> nat \<Rightarrow> transaction"
  e_pad :: "nat \<Rightarrow> nat \<Rightarrow> u8"
  e_wallet :: wallet

record 'd blockchain =
  c_isSyncing :: bool
  c_memPool :: "mempool option"
  c_numBlocks :: int
  c_totalWork :: bigint
  c_blockStore :: 'd
  c_ledger :: "'d ledger"
  c_txdb :: 'd
  c_lastHash :: hash
  c_difficulty :: int
  c_targetBlockCount :: int
  c_locked :: bool
  c_invalid :: "(u64 \<times> string) list"
  c_pfcache :: 'd
  c_retries :: int

definition MAX_TRANSACTIONS_PER_BLOCK :: nat where
  "MAX_TRANSACTIONS_PER_BLOCK = 25000"

definition DIFFICULTY_LOOKBACK :: int where
  "DIFFICULTY_LOOKBACK = 100"

definition DESIRED_BLOCK_TIME_SEC :: u32 where
  "DESIRED_BLOCK_TIME_SEC = 90"

section \<open>Access to the parts\<close>

definition on_store :: "('d, 'a) cpp \<Rightarrow> ('d blockchain, 'a) cpp" where
  "on_store m = zoom c_blockStore (\<lambda>d c. c\<lparr>c_blockStore := d\<rparr>) m"

definition on_txdb :: "('d, 'a) cpp \<Rightarrow> ('d blockchain, 'a) cpp" where
  "on_txdb m = zoom c_txdb (\<lambda>d c. c\<lparr>c_txdb := d\<rparr>) m"

definition on_db :: "('d, 'a) cpp \<Rightarrow> ('d blockchain, 'a) cpp" where
  "on_db m = zoom (\<lambda>c. l_db (c_ledger c)) (\<lambda>d c. c\<lparr>c_ledger := (c_ledger c)\<lparr>l_db := d\<rparr>\<rparr>) m"

definition on_cache :: "('d, 'a) cpp \<Rightarrow> ('d blockchain, 'a) cpp" where
  "on_cache m = zoom c_pfcache (\<lambda>d c. c\<lparr>c_pfcache := d\<rparr>) m"

text \<open>A call of the executor with a fresh, local \<open>deltas\<close>; it returns the deltas as well.\<close>

definition with_deltas :: "('d exec, 'a) cpp \<Rightarrow> ('d blockchain, 'a \<times> (wallet \<times> amount) list) cpp" where
  "with_deltas m c =
     (case m \<lparr>x_db = l_db (c_ledger c), x_deltas = [], x_invalid = c_invalid c\<rparr> of
        (r, x) \<Rightarrow> (map_sum id (\<lambda>a. (a, x_deltas x)) r,
                   c\<lparr>c_ledger := (c_ledger c)\<lparr>l_db := x_db x\<rparr>, c_invalid := x_invalid x\<rparr>))"

definition with_lock :: "('d blockchain, 'a) cpp \<Rightarrow> ('d blockchain, 'a) cpp" where
  "with_lock m c =
     (if c_locked c then (Inl Deadlock, c)
      else case m (c\<lparr>c_locked := True\<rparr>) of
        (Inl Deadlock, c') \<Rightarrow> (Inl Deadlock, c')
      | (r, c') \<Rightarrow> (r, c'\<lparr>c_locked := False\<rparr>))"

section \<open>Queries\<close>

text \<open>\<open>blockId > this->numBlocks\<close> compares a \<open>uint32_t\<close> with an \<open>int\<close>: as unsigned numbers.\<close>

definition block_in_range :: "u32 \<Rightarrow> 'd blockchain \<Rightarrow> bool" where
  "block_in_range blockId c \<longleftrightarrow> \<not> (blockId \<le> 0 \<or> word_of_int (c_numBlocks c) < blockId)"

definition chain_getRaw :: "'d kv \<Rightarrow> u32 \<Rightarrow> ('d blockchain, bytes) cpp" where
  "chain_getRaw L blockId =
     bindE getS (\<lambda>c.
       if \<not> block_in_range blockId c then throw (Runtime ''Invalid block'')
       else on_store (getRawData L blockId))"

definition chain_getBlockHeader :: "'d kv \<Rightarrow> u32 \<Rightarrow> ('d blockchain, block_header) cpp" where
  "chain_getBlockHeader L blockId =
     bindE getS (\<lambda>c.
       if \<not> block_in_range blockId c then throw (Runtime ''Invalid block'')
       else on_store (store_getBlockHeader L blockId))"

definition chain_getBlock :: "'d kv \<Rightarrow> env \<Rightarrow> u32 \<Rightarrow> ('d blockchain, block) cpp" where
  "chain_getBlock L E blockId =
     bindE getS (\<lambda>c.
       if \<not> block_in_range blockId c then throw (Runtime ''Invalid block'')
       else on_store (store_getBlock L (e_mem E 0) (e_mem E 1) blockId))"

definition chain_getWalletValue :: "'d kv \<Rightarrow> wallet \<Rightarrow> ('d blockchain, amount) cpp" where
  "chain_getWalletValue L addr = on_db (getWalletValue L addr)"

definition chain_getDifficulty :: "'d blockchain \<Rightarrow> u8" where
  "chain_getDifficulty c = word_of_int (c_difficulty c)"

definition getBlockCount32 :: "'d blockchain \<Rightarrow> u32" where
  "getBlockCount32 c = word_of_int (c_numBlocks c)"

definition findBlockForTransactionId :: "'d kv \<Rightarrow> hash \<Rightarrow> ('d blockchain, u32) cpp" where
  "findBlockForTransactionId L txid = on_txdb (blockForTransactionId L txid)"

definition findBlockForTransaction :: "crypto \<Rightarrow> 'd kv \<Rightarrow> transaction \<Rightarrow> ('d blockchain, u32) cpp" where
  "findBlockForTransaction C L t = on_txdb (blockForTransaction C L t)"

definition chain_getWalletNonce :: "wallet \<Rightarrow> ('d blockchain, u64) cpp" where
  "chain_getWalletNonce wallet =
     with_lock (bindE getS (\<lambda>c. ok (ledger_getWalletNonce wallet (c_ledger c))))"

definition chain_getSupply :: "('d blockchain, dbl) cpp" where
  "chain_getSupply = with_lock (bindE getS (\<lambda>c. ok (getSupply (c_numBlocks c))))"

primrec mapE :: "'a list \<Rightarrow> ('a \<Rightarrow> ('s, 'b) cpp) \<Rightarrow> ('s, 'b list) cpp" where
  "mapE [] f = ok []"
| "mapE (x # xs) f = bindE (f x) (\<lambda>y. bindE (mapE xs f) (\<lambda>ys. ok (y # ys)))"

text \<open>The first transaction of a block with the given hash, as the inner loop finds it.\<close>

definition find_in_block :: "crypto \<Rightarrow> env \<Rightarrow> hash \<Rightarrow> block \<Rightarrow> transaction list" where
  "find_in_block C E txid b =
     (case find (\<lambda>tx. hashContents C tx = txid) (copy_list (e_mem E 2) (b_transactions b)) of
        None \<Rightarrow> [] | Some tx \<Rightarrow> [tx])"

definition chain_getTransactionsForWallet ::
  "crypto \<Rightarrow> 'd kv \<Rightarrow> env \<Rightarrow> wallet \<Rightarrow> ('d blockchain, transaction list) cpp" where
  "chain_getTransactionsForWallet C L E addr =
     bindE (on_store (store_getTransactionsForWallet L addr)) (\<lambda>txids.
     bindE (mapE txids (\<lambda>txid.
       bindE (on_txdb (blockForTransactionId L txid)) (\<lambda>blockId.
       if 0 < blockId
       then bindE (on_store (store_getBlock L (e_mem E 0) (e_mem E 1) blockId)) (\<lambda>b.
              ok (find_in_block C E txid b))
       else ok []))) (\<lambda>found. ok (concat found)))"

section \<open>Adding a block\<close>

text \<open>\<open>int32_t\<close> from the difference of two 64-bit times.\<close>

definition elapsed_time :: "u64 \<Rightarrow> u64 \<Rightarrow> int" where
  "elapsed_time lastTime firstTime = sint (ucast (lastTime - firstTime) :: u32)"

definition updateDifficulty :: "'d kv \<Rightarrow> env \<Rightarrow> ('d blockchain, unit) cpp" where
  "updateDifficulty L E =
     bindE getS (\<lambda>c.
       if c_numBlocks c \<le> DIFFICULTY_LOOKBACK * 2 then ok ()
       else if c_numBlocks c mod DIFFICULTY_LOOKBACK \<noteq> 0 then ok ()
       else
         (let firstID = c_numBlocks c - DIFFICULTY_LOOKBACK; lastID = c_numBlocks c in
          bindE (chain_getBlock L E (word_of_int firstID)) (\<lambda>firstBlock.
          bindE (chain_getBlock L E (word_of_int lastID)) (\<lambda>lastBlock.
          (let elapsed = elapsed_time (b_timestamp lastBlock) (b_timestamp firstBlock);
               numBlocksElapsed = word_of_int (lastID - firstID);
               target = sint (numBlocksElapsed * DESIRED_BLOCK_TIME_SEC);
               difficulty = sint (b_difficulty lastBlock) in
           case computeDifficulty difficulty elapsed target of
             None \<Rightarrow> throw UB
           | Some d \<Rightarrow> modS (\<lambda>c. c\<lparr>c_difficulty := sint d\<rparr>))))))"

text \<open>The median of the last ten blocks' times: an even number of them.\<close>

definition median_time :: "u64 list \<Rightarrow> u64" where
  "median_time blockTimes =
     (let n = length blockTimes; ts = sort blockTimes in
      if n mod 2 = 0 then (ts ! (n div 2) + ts ! (n div 2 - 1)) div 2 else ts ! (n div 2))"

definition check_timestamp :: "'d kv \<Rightarrow> env \<Rightarrow> block \<Rightarrow> ('d blockchain, execution_status option) cpp" where
  "check_timestamp L E blk =
     (if b_id blk = 1 then ok None
      else if e_now E + 120 * 60 < b_timestamp blk then ok (Some BLOCK_TIMESTAMP_IN_FUTURE)
      else bindE getS (\<lambda>c.
        if 10 < c_numBlocks c then
          bindE (mapE (map int [0..<10]) (\<lambda>i.
            bindE (chain_getBlock L E (word_of_int (c_numBlocks c - i))) (\<lambda>b.
            ok (b_timestamp b)))) (\<lambda>blockTimes.
          ok (if b_timestamp blk < median_time blockTimes then Some BLOCK_TIMESTAMP_TOO_OLD else None))
        else ok None))"

text \<open>Blocks 536100 to 536200 may have difficulty 27 instead of the expected one.\<close>

definition difficulty_accepted :: "block \<Rightarrow> 'd blockchain \<Rightarrow> bool" where
  "difficulty_accepted blk c \<longleftrightarrow>
     b_difficulty blk = word_of_int (c_difficulty c) \<or>
     (536100 \<le> b_id blk \<and> b_id blk \<le> 536200 \<and> b_difficulty blk = 27)"

text \<open>
  The checks in front of the execution. Computing the Merkle root sorts the transactions of
  the block itself, so the block comes back with them sorted (and copied).
\<close>

definition check_block ::
  "crypto \<Rightarrow> 'd kv \<Rightarrow> env \<Rightarrow> block \<Rightarrow> ('d blockchain, execution_status + block) cpp" where
  "check_block C L E blk =
     bindE getS (\<lambda>c.
       if MAX_TRANSACTIONS_PER_BLOCK < length (b_transactions blk) then ok (Inl INVALID_TRANSACTION_COUNT)
       else if b_id blk \<noteq> word_of_int (c_numBlocks c + 1) then ok (Inl INVALID_BLOCK_ID)
       else if \<not> difficulty_accepted blk c then ok (Inl INVALID_DIFFICULTY)
       else
         bindE (on_cache (verifyNonce C L blk)) (\<lambda>nonceOk.
         if \<not> nonceOk then ok (Inl INVALID_NONCE)
         else if b_lastBlockHash blk \<noteq> c_lastHash c then ok (Inl INVALID_LASTBLOCK_HASH)
         else
           bindE (check_timestamp L E blk) (\<lambda>r.
           case r of Some s \<Rightarrow> ok (Inl s) | None \<Rightarrow>
           (case setItems C (e_mem E 3) (e_mem E 4) (b_transactions blk) of
              Inl e \<Rightarrow> throw e
            | Inr (m, sorted_items) \<Rightarrow>
                if b_merkleRoot blk \<noteq> getRootHash m then ok (Inl INVALID_MERKLE_ROOT)
                else ok (Inr (blk\<lparr>b_transactions := sorted_items\<rparr>))))))"

text \<open>What \<open>addBlock\<close> does after a successful execution.\<close>

definition commit_block :: "crypto \<Rightarrow> 'd kv \<Rightarrow> env \<Rightarrow> block \<Rightarrow> ('d blockchain, unit) cpp" where
  "commit_block C L E blk =
     bindE (modS (\<lambda>c. c\<lparr>c_memPool := map_option (finishBlock C blk) (c_memPool c)\<rparr>)) (\<lambda>_.
     bindE (forE (copy_list (e_mem E 7) (b_transactions blk)) (\<lambda>t.
       on_txdb (insertTransaction C L t (b_id blk)))) (\<lambda>_.
     bindE (on_store (setBlock C L (e_pad E) blk)) (\<lambda>_.
     bindE (modS (\<lambda>c. c\<lparr>c_numBlocks := c_numBlocks c + 1\<rparr>)) (\<lambda>_.
     bindE getS (\<lambda>c.
     bindE (case addWork (c_totalWork c) (b_difficulty blk) of
              None \<Rightarrow> throw UB | Some w \<Rightarrow> modS (\<lambda>c. c\<lparr>c_totalWork := w\<rparr>)) (\<lambda>_.
     bindE getS (\<lambda>c.
     bindE (on_store (setTotalWork L (c_totalWork c))) (\<lambda>_.
     bindE (on_store (setBlockCount L (word_of_int (c_numBlocks c)))) (\<lambda>_.
     bindE (modS (\<lambda>c. c\<lparr>c_lastHash := block_getHash C blk\<rparr>)) (\<lambda>_.
     updateDifficulty L E))))))))))"

definition execute_block :: "crypto \<Rightarrow> 'd kv \<Rightarrow> env \<Rightarrow> block \<Rightarrow> ('d blockchain, execution_status) cpp" where
  "execute_block C L E blk =
     bindE getS (\<lambda>c.
     bindE (with_deltas (ExecuteBlock C L (e_mem E 5) (e_mem E 6) blk (c_txdb c)
              (ucast (getCurrentMiningFee (ucast (b_id blk)))))) (\<lambda>(status, deltas).
     bindE (if status \<noteq> SUCCESS then on_db (Rollback L deltas) else commit_block C L E blk) (\<lambda>_.
     ok status)))"

definition addBlock_body :: "crypto \<Rightarrow> 'd kv \<Rightarrow> env \<Rightarrow> block \<Rightarrow> ('d blockchain, execution_status) cpp" where
  "addBlock_body C L E blk =
     bindE (on_db (getState L)) (\<lambda>snapshot.
     bindE (check_block C L E blk) (\<lambda>r.
     case r of Inl s \<Rightarrow> ok s | Inr blk \<Rightarrow> execute_block C L E blk))"

definition addBlock :: "crypto \<Rightarrow> 'd kv \<Rightarrow> env \<Rightarrow> block \<Rightarrow> ('d blockchain, execution_status) cpp" where
  "addBlock C L E blk = with_lock (addBlock_body C L E blk)"

definition addBlockSync :: "crypto \<Rightarrow> 'd kv \<Rightarrow> env \<Rightarrow> block \<Rightarrow> ('d blockchain, execution_status) cpp" where
  "addBlockSync C L E blk =
     bindE getS (\<lambda>c.
       if c_isSyncing c then ok IS_SYNCING else with_lock (addBlock C L E blk))"

section \<open>Starting, resetting, popping\<close>

definition resetChain :: "crypto \<Rightarrow> 'd kv \<Rightarrow> env \<Rightarrow> ('d blockchain, unit) cpp" where
  "resetChain C L E =
     bindE (modS (\<lambda>c. c\<lparr>c_difficulty := 16, c_targetBlockCount := 1, c_numBlocks := 0,
                       c_totalWork := bi_assign 0 (c_totalWork c), c_lastHash := NULL_SHA256_HASH\<rparr>)) (\<lambda>_.
     bindE (on_db (ledger_clear L)) (\<lambda>_.
     bindE (on_store (datastore_clear L)) (\<lambda>_.
     bindE (on_txdb (datastore_clear L)) (\<lambda>_.
     case e_genesis E of
       None \<Rightarrow> throw Exit
     | Some genesis \<Rightarrow>
         bindE (addBlock C L E genesis) (\<lambda>status.
         if status \<noteq> SUCCESS then throw (Runtime ''Could not load genesis block: '') else ok ())))))"

definition initChain :: "crypto \<Rightarrow> 'd kv \<Rightarrow> env \<Rightarrow> ('d blockchain, unit) cpp" where
  "initChain C L E =
     bindE (modS (\<lambda>c. c\<lparr>c_isSyncing := False\<rparr>)) (\<lambda>_.
     bindE getS (\<lambda>c.
     if hasBlockCount L (c_blockStore c) then
       bindE (on_store (getBlockCount L)) (\<lambda>count.
       bindE (modS (\<lambda>c. c\<lparr>c_numBlocks := sint (ucast count :: u32),
                         c_targetBlockCount := sint (ucast count :: u32)\<rparr>)) (\<lambda>_.
       bindE (on_store (store_getBlock L (e_mem E 0) (e_mem E 1) (ucast count))) (\<lambda>lastBlock.
       bindE (on_store (getTotalWork L)) (\<lambda>work.
       modS (\<lambda>c. c\<lparr>c_totalWork := work, c_difficulty := sint (b_difficulty lastBlock),
                   c_lastHash := block_getHash C lastBlock\<rparr>)))))
     else
       bindE (resetChain C L E) (\<lambda>_.
       modS (\<lambda>c. c\<lparr>c_difficulty := uint MIN_DIFFICULTY\<rparr>))))"

definition on_ledger_and_txdb :: "('d \<times> 'd, 'a) cpp \<Rightarrow> ('d blockchain, 'a) cpp" where
  "on_ledger_and_txdb m =
     zoom (\<lambda>c. (l_db (c_ledger c), c_txdb c))
       (\<lambda>(d, t) c. c\<lparr>c_ledger := (c_ledger c)\<lparr>l_db := d\<rparr>, c_txdb := t\<rparr>) m"

definition popBlock :: "crypto \<Rightarrow> 'd kv \<Rightarrow> env \<Rightarrow> ('d blockchain, unit) cpp" where
  "popBlock C L E =
     bindE getS (\<lambda>c.
     bindE (chain_getBlock L E (getBlockCount32 c)) (\<lambda>lastBlock.
     bindE (on_ledger_and_txdb (RollbackBlock C L (e_wallet E) (e_mem E 8) lastBlock)) (\<lambda>_.
     bindE (modS (\<lambda>c. c\<lparr>c_numBlocks := c_numBlocks c - 1\<rparr>)) (\<lambda>_.
     bindE (case removeWork (c_totalWork c) (b_difficulty lastBlock) of
              None \<Rightarrow> throw UB | Some w \<Rightarrow> modS (\<lambda>c. c\<lparr>c_totalWork := w\<rparr>)) (\<lambda>_.
     bindE getS (\<lambda>c.
     bindE (on_store (setTotalWork L (c_totalWork c))) (\<lambda>_.
     bindE (on_store (setBlockCount L (word_of_int (c_numBlocks c)))) (\<lambda>_.
     bindE (on_store (removeBlockWalletTransactions C L (e_mem E 9) lastBlock)) (\<lambda>_.
     if 1 < getBlockCount32 c then
       bindE (chain_getBlock L E (getBlockCount32 c)) (\<lambda>newLast.
       bindE (updateDifficulty L E) (\<lambda>_.
       modS (\<lambda>c. c\<lparr>c_lastHash := block_getHash C newLast\<rparr>)))
     else resetChain C L E)))))))))"

section \<open>Verifying a single transaction\<close>

definition verifyTransaction ::
  "crypto \<Rightarrow> 'd kv \<Rightarrow> env \<Rightarrow> transaction \<Rightarrow> ('d blockchain, execution_status) cpp" where
  "verifyTransaction C L E t =
     bindE getS (\<lambda>c.
     if c_isSyncing c then ok IS_SYNCING
     else if t_isTransactionFee t then ok EXTRA_MINING_FEE
     else if \<not> signatureValid C t then ok INVALID_SIGNATURE
     else
       bindE (chain_getWalletNonce (t_from t)) (\<lambda>expectedNonce.
       if t_nonce t \<noteq> expectedNonce then ok INVALID_NONCE
       else with_lock (
         bindE (on_db (getState L)) (\<lambda>snapshot.
         bindE (with_deltas (ExecuteTransaction C L (e_mem E 0 0) t)) (\<lambda>(status, deltas).
         bindE (on_db (Rollback L deltas)) (\<lambda>_.
         bindE getS (\<lambda>c.
         ok (if tx_hasTransaction C L t (c_txdb c) then EXPIRED_TRANSACTION else status))))))))"

section \<open>Recomputing the ledger\<close>

definition recompute_block :: "crypto \<Rightarrow> 'd kv \<Rightarrow> env \<Rightarrow> int \<Rightarrow> ('d blockchain, unit) cpp" where
  "recompute_block C L E i =
     bindE (chain_getBlock L E (word_of_int i)) (\<lambda>block.
     bindE getS (\<lambda>c.
     bindE (with_deltas (ExecuteBlock C L (e_mem E 5) (e_mem E 6) block (c_txdb c)
              (ucast (getCurrentMiningFee (word_of_int i))))) (\<lambda>(addResult, deltas).
     bindE (forE (copy_list (e_mem E 7) (b_transactions block)) (\<lambda>t.
       if \<not> t_isTransactionFee t then on_txdb (insertTransaction C L t (b_id block)) else ok ())) (\<lambda>_.
     if addResult \<noteq> SUCCESS then throw Exit else ok ()))))"

definition recomputeLedger :: "crypto \<Rightarrow> 'd kv \<Rightarrow> env \<Rightarrow> ('d blockchain, unit) cpp" where
  "recomputeLedger C L E =
     bindE (modS (\<lambda>c. c\<lparr>c_isSyncing := True\<rparr>)) (\<lambda>_.
     with_lock (
       bindE (on_db (ledger_clear L)) (\<lambda>_.
       bindE (on_txdb (datastore_clear L)) (\<lambda>_.
       bindE getS (\<lambda>c.
       bindE (forE (map int [1..<nat (c_numBlocks c) + 1]) (recompute_block C L E)) (\<lambda>_.
       modS (\<lambda>c. c\<lparr>c_isSyncing := False\<rparr>)))))))"

end
