(* ===== verification/ChainBlocks.thy ===== *)
theory ChainBlocks
  imports Chain
begin

text \<open>
  Adding and popping blocks: what \<open>addBlock\<close> checks and leaves behind, that a block that is
  not accepted changes no balance and no store, that the money supply grows by the mining
  fee, what \<open>popBlock\<close> undoes and what it does not, and what a restart reads back.
\<close>

section \<open>Statements that only read\<close>

definition quiet :: "('s, 'a) cpp \<Rightarrow> bool" where
  "quiet m \<longleftrightarrow> (\<forall>c. snd (m c) = c)"

named_theorems quiets \<open>statements that leave the state alone\<close>

lemma quietD: "quiet m \<Longrightarrow> m c = (r, c') \<Longrightarrow> c' = c"
  by (metis quiet_def snd_conv)

lemma quiet_ok [quiets]: "quiet (ok a)" "quiet (throw e)" "quiet getS"
  by (simp_all add: quiet_def)

lemma quiet_bind [quiets]: "quiet m \<Longrightarrow> (\<And>a. quiet (f a)) \<Longrightarrow> quiet (bindE m f)"
  by (auto simp: quiet_def bindE_def split: prod.splits sum.splits) (metis snd_conv)+

lemma quiet_if [quiets]: "quiet m \<Longrightarrow> quiet m' \<Longrightarrow> quiet (if b then m else m')"
  by simp

lemma quiet_mapE [quiets]: "(\<And>x. quiet (f x)) \<Longrightarrow> quiet (mapE xs f)"
  by (induction xs) (auto intro!: quiets)

lemma quiet_zoom: "quiet m \<Longrightarrow> (\<And>s. p (g s) s = s) \<Longrightarrow> quiet (zoom g p m)"
  by (auto simp: quiet_def zoom_def split: prod.splits) (metis snd_conv)

lemma quiet_on [quiets]:
  "quiet m \<Longrightarrow> quiet (on_store m)" "quiet m \<Longrightarrow> quiet (on_txdb m)" "quiet m \<Longrightarrow> quiet (on_db m)"
  by (auto simp: on_store_def on_txdb_def on_db_def intro!: quiet_zoom)

lemma quiet_getBlockHeader [quiets]: "quiet (store_getBlockHeader L i)"
  by (auto simp: quiet_def store_getBlockHeader_def load_def split: option.splits)

lemma quiet_read_infos [quiets]: "quiet (read_infos L i j n)" "quiet (raw_infos L i j n)"
proof -
  have "snd (read_infos L i j n d) = d" "snd (raw_infos L i j n d) = d" for d
    using read_infos_cong [of L d i d j n] raw_infos_cong [of L d i d j n] by auto
  then show "quiet (read_infos L i j n)" "quiet (raw_infos L i j n)" by (simp_all add: quiet_def)
qed

lemma quiet_store_getBlock [quiets]: "quiet (store_getBlock L mem mem' i)"
  unfolding store_getBlock_def getBlockTransactions_def by (intro quiets)

lemma quiet_chain_getBlock [quiets]: "quiet (chain_getBlock L E i)"
  unfolding chain_getBlock_def by (intro quiets)

lemma quiet_getState [quiets]: "quiet (getState L)"
  by (simp add: quiet_def getState_def)

lemma quiet_check_timestamp [quiets]: "quiet (check_timestamp L E blk)"
  unfolding check_timestamp_def by (intro quiets)

lemma bindE_InrE:
  assumes "bindE m f s = (Inr b, s'')"
  obtains a s' where "m s = (Inr a, s')" "f a s' = (Inr b, s'')"
  using assms by (auto simp: bindE_eq_Inr)

section \<open>What the parts of \<open>addBlock\<close> do to the state\<close>

lemma with_lock_Inr:
  "with_lock m c = (Inr a, c') \<longleftrightarrow>
     \<not> c_locked c \<and> (\<exists>c1. m (c\<lparr>c_locked := True\<rparr>) = (Inr a, c1) \<and> c' = c1\<lparr>c_locked := False\<rparr>)"
  by (auto simp: with_lock_def split: prod.splits sum.splits exn.splits)

lemma with_lock_locked: "c_locked c \<Longrightarrow> with_lock m c = (Inl Deadlock, c)"
  by (simp add: with_lock_def)

lemma with_lock_Inl:
  "with_lock m c = (Inl (Runtime e), c') \<longleftrightarrow>
     \<not> c_locked c \<and> (\<exists>c1. m (c\<lparr>c_locked := True\<rparr>) = (Inl (Runtime e), c1) \<and> c' = c1\<lparr>c_locked := False\<rparr>)"
  by (auto simp: with_lock_def split: prod.splits sum.splits exn.splits)

lemma on_store_eq: "on_store m c = (r, c') \<longleftrightarrow> (\<exists>d. m (c_blockStore c) = (r, d) \<and> c' = c\<lparr>c_blockStore := d\<rparr>)"
  by (simp add: on_store_def zoom_eq)

lemma on_db_eq: "on_db m c = (r, c') \<longleftrightarrow>
    (\<exists>d. m (l_db (c_ledger c)) = (r, d) \<and> c' = c\<lparr>c_ledger := (c_ledger c)\<lparr>l_db := d\<rparr>\<rparr>)"
  by (simp add: on_db_def zoom_eq)

lemma on_txdb_eq: "on_txdb m c = (r, c') \<longleftrightarrow> (\<exists>d. m (c_txdb c) = (r, d) \<and> c' = c\<lparr>c_txdb := d\<rparr>)"
  by (simp add: on_txdb_def zoom_eq)

lemma on_cache_eq: "on_cache m c = (r, c') \<longleftrightarrow> (\<exists>d. m (c_pfcache c) = (r, d) \<and> c' = c\<lparr>c_pfcache := d\<rparr>)"
  by (simp add: on_cache_def zoom_eq)

lemma with_deltas_eq:
  "with_deltas m c = (r, c') \<longleftrightarrow>
    (\<exists>q x. m \<lparr>x_db = l_db (c_ledger c), x_deltas = [], x_invalid = c_invalid c\<rparr> = (q, x) \<and>
       r = map_sum id (\<lambda>a. (a, x_deltas x)) q \<and>
       c' = c\<lparr>c_ledger := (c_ledger c)\<lparr>l_db := x_db x\<rparr>, c_invalid := x_invalid x\<rparr>)"
  by (auto simp: with_deltas_def split: prod.splits)

lemma updateDifficulty_state:
  assumes "updateDifficulty L E c = (r, c')"
  shows "\<exists>df. c' = c\<lparr>c_difficulty := df\<rparr>"
proof -
  have same: "\<exists>df. c = c\<lparr>c_difficulty := df\<rparr>" for c :: "'a blockchain"
    by (rule exI [of _ "c_difficulty c"]) simp
  show ?thesis using assms
    by (auto simp: same updateDifficulty_def Let_def bindE_def
      dest!: quietD [OF quiet_chain_getBlock] split: if_splits prod.splits sum.splits option.splits)
qed

lemma check_block_Inr:
  assumes "check_block C L E blk c = (Inr r, c')"
  shows "(\<exists>d. c' = c\<lparr>c_pfcache := d\<rparr>) \<and>
    (case r of
       Inl s \<Rightarrow> s \<noteq> SUCCESS
     | Inr blk' \<Rightarrow>
         length (b_transactions blk) \<le> MAX_TRANSACTIONS_PER_BLOCK \<and>
         b_id blk = word_of_int (c_numBlocks c + 1) \<and> difficulty_accepted blk c \<and>
         b_lastBlockHash blk = c_lastHash c \<and>
         fst (verifyNonce C L blk (c_pfcache c)) = Inr True \<and>
         (b_id blk \<noteq> 1 \<longrightarrow> b_timestamp blk \<le> e_now E + 120 * 60) \<and>
         (\<exists>m ts. setItems C (e_mem E 3) (e_mem E 4) (b_transactions blk) = Inr (m, ts) \<and>
            b_merkleRoot blk = getRootHash m \<and> blk' = blk\<lparr>b_transactions := ts\<rparr>))"
proof -
  have ts: "(\<exists>s. r = Some s \<and> s \<noteq> SUCCESS) \<and> d = c \<or>
      r = None \<and> d = c \<and> (b_id blk \<noteq> 1 \<longrightarrow> b_timestamp blk \<le> e_now E + 120 * 60)"
    if "check_timestamp L E blk c = (Inr r, d)" for r d c
    using quietD [OF quiet_check_timestamp that] that
    by (auto simp: check_timestamp_def bindE_eq_Inr split: if_splits)
  have same: "\<exists>d. c = c\<lparr>c_pfcache := d\<rparr>" for c :: "'a blockchain"
    by (rule exI [of _ "c_pfcache c"]) simp
  show ?thesis using assms
    by (auto simp: same check_block_def bindE_eq_Inr on_cache_eq dest!: ts
        split: if_splits option.splits sum.splits prod.splits)
qed

lemma forE_insert_state:
  assumes "forE ts (\<lambda>t. on_txdb (f t)) c = (Inr (), c')"
  shows "\<exists>d. forE ts f (c_txdb c) = (Inr (), d) \<and> c' = c\<lparr>c_txdb := d\<rparr>"
  using assms
proof (induction ts arbitrary: c)
  case (Cons t ts)
  then obtain c1 where c1: "on_txdb (f t) c = (Inr (), c1)" "forE ts (\<lambda>t. on_txdb (f t)) c1 = (Inr (), c')"
    by (auto simp: bindE_eq_Inr)
  from Cons.IH [OF c1(2)] c1(1) show ?case by (auto simp: on_txdb_eq bindE_Inr)
qed simp

text \<open>The state after a commit.\<close>

lemma commit_block_Inr:
  assumes "commit_block C L E blk c = (Inr (), c')"
  shows "\<exists>td sd w sd1 sd2 df.
    setBlock C L (e_pad E) blk (c_blockStore c) = (Inr (), sd) \<and>
    addWork (c_totalWork c) (b_difficulty blk) = Some w \<and>
    setTotalWork L w sd = (Inr (), sd1) \<and>
    setBlockCount L (word_of_int (c_numBlocks c + 1)) sd1 = (Inr (), sd2) \<and>
    c' = c\<lparr>c_memPool := map_option (finishBlock C blk) (c_memPool c), c_txdb := td,
       c_numBlocks := c_numBlocks c + 1, c_totalWork := w, c_blockStore := sd2,
       c_lastHash := block_getHash C blk, c_difficulty := df\<rparr> \<and>
    forE (copy_list (e_mem E 7) (b_transactions blk)) (\<lambda>t. insertTransaction C L t (b_id blk)) (c_txdb c) =
       (Inr (), td)"
  using assms unfolding commit_block_def
  by (elim bindE_InrE)
    (auto simp: on_store_eq dest!: forE_insert_state updateDifficulty_state split: option.splits)

section \<open>Accepted blocks\<close>

text \<open>The state in which a block is executed.\<close>

abbreviation exec_of :: "'d blockchain \<Rightarrow> 'd exec" where
  "exec_of c \<equiv> \<lparr>x_db = l_db (c_ledger c), x_deltas = [], x_invalid = c_invalid c\<rparr>"

lemma execute_block_Inr:
  assumes "execute_block C L E blk c = (Inr s, c')"
  shows "\<exists>x. ExecuteBlock C L (e_mem E 5) (e_mem E 6) blk (c_txdb c)
       (ucast (getCurrentMiningFee (ucast (b_id blk)))) (exec_of c) = (Inr s, x) \<and>
    (if s \<noteq> SUCCESS then on_db (Rollback L (x_deltas x)) else commit_block C L E blk)
      (c\<lparr>c_ledger := (c_ledger c)\<lparr>l_db := x_db x\<rparr>, c_invalid := x_invalid x\<rparr>) = (Inr (), c')"
proof -
  from assms obtain status deltas c1 where
    e: "with_deltas (ExecuteBlock C L (e_mem E 5) (e_mem E 6) blk (c_txdb c)
         (ucast (getCurrentMiningFee (ucast (b_id blk))))) c = (Inr (status, deltas), c1)" and
    r: "bindE (if status \<noteq> SUCCESS then on_db (Rollback L deltas) else commit_block C L E blk) (\<lambda>_.
     ok status) c1 = (Inr s, c')"
    unfolding execute_block_def bindE_getS by (rule bindE_InrE) auto
  from r have s: "status = s" and
    "(if status \<noteq> SUCCESS then on_db (Rollback L deltas) else commit_block C L E blk) c1 = (Inr (), c')"
    by (auto simp: bindE_eq_Inr)
  moreover from e obtain q x where q: "ExecuteBlock C L (e_mem E 5) (e_mem E 6) blk (c_txdb c)
       (ucast (getCurrentMiningFee (ucast (b_id blk)))) (exec_of c) = (q, x)"
    "Inr (status, deltas) = map_sum id (\<lambda>a. (a, x_deltas x)) q"
    "c1 = c\<lparr>c_ledger := (c_ledger c)\<lparr>l_db := x_db x\<rparr>, c_invalid := x_invalid x\<rparr>"
    unfolding with_deltas_eq by blast
  ultimately show ?thesis by (cases q) auto
qed

lemma addBlock_parts:
  assumes "addBlock C L E blk c = (Inr s, c')"
  obtains q cc c1 where "\<not> c_locked c" "c' = c1\<lparr>c_locked := False\<rparr>"
    "check_block C L E blk (c\<lparr>c_locked := True\<rparr>) = (Inr q, c\<lparr>c_locked := True, c_pfcache := cc\<rparr>)"
    "(case q of Inl s \<Rightarrow> ok s | Inr blk \<Rightarrow> execute_block C L E blk)
       (c\<lparr>c_locked := True, c_pfcache := cc\<rparr>) = (Inr s, c1)"
proof -
  from assms obtain c1 where nl: "\<not> c_locked c" and
    b: "addBlock_body C L E blk (c\<lparr>c_locked := True\<rparr>) = (Inr s, c1)" "c' = c1\<lparr>c_locked := False\<rparr>"
    by (auto simp: addBlock_def with_lock_Inr)
  from b(1) obtain snap c2 where g: "on_db (getState L) (c\<lparr>c_locked := True\<rparr>) = (Inr snap, c2)" and
    r: "bindE (check_block C L E blk) (\<lambda>r. case r of Inl s \<Rightarrow> ok s | Inr blk \<Rightarrow> execute_block C L E blk) c2
      = (Inr s, c1)"
    unfolding addBlock_body_def by (rule bindE_InrE)
  have c2: "c2 = c\<lparr>c_locked := True\<rparr>" using quietD [OF quiet_on(3) [OF quiet_getState] g] .
  from r obtain q c3 where q: "check_block C L E blk c2 = (Inr q, c3)"
    "(case q of Inl s \<Rightarrow> ok s | Inr blk \<Rightarrow> execute_block C L E blk) c3 = (Inr s, c1)"
    by (rule bindE_InrE)
  from check_block_Inr [OF q(1)] obtain cc where "c3 = c2\<lparr>c_pfcache := cc\<rparr>" by blast
  with q that nl b(2) show thesis unfolding c2 by simp
qed

lemma addBlock_SUCCESS:
  assumes "addBlock C L E blk c = (Inr SUCCESS, c')"
  shows "\<exists>m ts x cc c1. \<not> c_locked c \<and> fst (verifyNonce C L blk (c_pfcache c)) = Inr True \<and>
    length (b_transactions blk) \<le> MAX_TRANSACTIONS_PER_BLOCK \<and>
    b_id blk = word_of_int (c_numBlocks c + 1) \<and> difficulty_accepted blk c \<and>
    b_lastBlockHash blk = c_lastHash c \<and>
    (b_id blk \<noteq> 1 \<longrightarrow> b_timestamp blk \<le> e_now E + 120 * 60) \<and>
    setItems C (e_mem E 3) (e_mem E 4) (b_transactions blk) = Inr (m, ts) \<and>
    b_merkleRoot blk = getRootHash m \<and>
    ExecuteBlock C L (e_mem E 5) (e_mem E 6) (blk\<lparr>b_transactions := ts\<rparr>) (c_txdb c)
       (ucast (getCurrentMiningFee (ucast (b_id blk)))) (exec_of c) = (Inr SUCCESS, x) \<and>
    commit_block C L E (blk\<lparr>b_transactions := ts\<rparr>) (c\<lparr>c_locked := True, c_pfcache := cc,
       c_ledger := (c_ledger c)\<lparr>l_db := x_db x\<rparr>, c_invalid := x_invalid x\<rparr>) = (Inr (), c1) \<and>
    c' = c1\<lparr>c_locked := False\<rparr>"
proof -
  from addBlock_parts [OF assms] obtain q cc c1 where
    a: "\<not> c_locked c" "c' = c1\<lparr>c_locked := False\<rparr>"
    "check_block C L E blk (c\<lparr>c_locked := True\<rparr>) = (Inr q, c\<lparr>c_locked := True, c_pfcache := cc\<rparr>)"
    "(case q of Inl s \<Rightarrow> ok s | Inr blk \<Rightarrow> execute_block C L E blk)
       (c\<lparr>c_locked := True, c_pfcache := cc\<rparr>) = (Inr SUCCESS, c1)" .
  note cb = conjunct2 [OF check_block_Inr [OF a(3)]]
  from cb a(4) obtain blk' where q: "q = Inr blk'" by (cases q) auto
  with cb obtain m ts where
    m: "setItems C (e_mem E 3) (e_mem E 4) (b_transactions blk) = Inr (m, ts)"
       "b_merkleRoot blk = getRootHash m" "blk' = blk\<lparr>b_transactions := ts\<rparr>" by auto
  from a(4) q have "execute_block C L E blk' (c\<lparr>c_locked := True, c_pfcache := cc\<rparr>) = (Inr SUCCESS, c1)" by simp
  from execute_block_Inr [OF this] m(3) obtain x where
    "ExecuteBlock C L (e_mem E 5) (e_mem E 6) (blk\<lparr>b_transactions := ts\<rparr>) (c_txdb c)
       (ucast (getCurrentMiningFee (ucast (b_id blk)))) (exec_of c) = (Inr SUCCESS, x)"
    "commit_block C L E (blk\<lparr>b_transactions := ts\<rparr>) (c\<lparr>c_locked := True, c_pfcache := cc,
       c_ledger := (c_ledger c)\<lparr>l_db := x_db x\<rparr>, c_invalid := x_invalid x\<rparr>) = (Inr (), c1)"
    by auto
  moreover have "fst (verifyNonce C L blk (c_pfcache c)) = Inr True"
    "length (b_transactions blk) \<le> MAX_TRANSACTIONS_PER_BLOCK"
    "b_id blk = word_of_int (c_numBlocks c + 1)" "difficulty_accepted blk c"
    "b_lastBlockHash blk = c_lastHash c" "b_id blk \<noteq> 1 \<longrightarrow> b_timestamp blk \<le> e_now E + 120 * 60"
    using cb q by (auto simp: difficulty_accepted_def)
  ultimately show ?thesis using a(1,2) m(1,2)
    by (intro exI [of _ m] exI [of _ ts] exI [of _ x] exI [of _ cc] exI [of _ c1] conjI) blast+
qed

lemma unlocked_same [simp]: "\<not> c_locked c \<Longrightarrow> c\<lparr>c_locked := False\<rparr> = c"
  by (cases c) simp

lemma exec_ok_start: "ledger_ok L (l_db (c_ledger c)) \<Longrightarrow> exec_ok L (exec_of c)"
  by (simp add: exec_ok_def)

lemma tracks_start: "ledger_ok L (l_db (c_ledger c)) \<Longrightarrow> tracks L (bal L (l_db (c_ledger c))) (exec_of c)"
  by (simp add: tracks_def exec_ok_start delta_def xbal_def)

text \<open>A status other than \<open>SUCCESS\<close> leaves the chain as it was.\<close>

lemma addBlock_rejected:
  assumes "addBlock C L E blk c = (Inr s, c')" "s \<noteq> SUCCESS" "ledger_ok L (l_db (c_ledger c))"
  shows "\<exists>cc d inv. c' = c\<lparr>c_ledger := (c_ledger c)\<lparr>l_db := d\<rparr>, c_invalid := inv, c_pfcache := cc\<rparr> \<and>
    ledger_ok L d \<and> wbal (bal L d) = wbal (bal L (l_db (c_ledger c)))"
proof -
  from addBlock_parts [OF assms(1)] obtain q cc c1 where
    a: "\<not> c_locked c" "c' = c1\<lparr>c_locked := False\<rparr>"
    "(case q of Inl s \<Rightarrow> ok s | Inr blk \<Rightarrow> execute_block C L E blk)
       (c\<lparr>c_locked := True, c_pfcache := cc\<rparr>) = (Inr s, c1)" .
  show ?thesis
  proof (cases q)
    case (Inl r)
    with a have "c' = c\<lparr>c_ledger := (c_ledger c)\<lparr>l_db := l_db (c_ledger c)\<rparr>, c_invalid := c_invalid c, c_pfcache := cc\<rparr>"
      by (cases c) auto
    with assms(3) show ?thesis by blast
  next
    case (Inr b)
    with a(3) have "execute_block C L E b (c\<lparr>c_locked := True, c_pfcache := cc\<rparr>) = (Inr s, c1)" by simp
    from execute_block_Inr [OF this] assms(2) obtain x where
      x: "ExecuteBlock C L (e_mem E 5) (e_mem E 6) b (c_txdb c)
       (ucast (getCurrentMiningFee (ucast (b_id b)))) (exec_of c) = (Inr s, x)"
      "on_db (Rollback L (x_deltas x)) (c\<lparr>c_locked := True, c_pfcache := cc,
         c_ledger := (c_ledger c)\<lparr>l_db := x_db x\<rparr>, c_invalid := x_invalid x\<rparr>) = (Inr (), c1)"
      by auto
    note t = bookkeeping_tracks(1) [OF bookkeeping_ExecuteBlock tracks_start [OF assms(3)] x(1)]
    from x(2) obtain d where d: "Rollback L (x_deltas x) (x_db x) = (Inr (), d)"
      "c1 = c\<lparr>c_locked := True, c_pfcache := cc, c_ledger := (c_ledger c)\<lparr>l_db := d\<rparr>, c_invalid := x_invalid x\<rparr>"
      by (auto simp: on_db_eq)
    have "c' = c\<lparr>c_ledger := (c_ledger c)\<lparr>l_db := d\<rparr>, c_invalid := x_invalid x, c_pfcache := cc\<rparr>"
      using a(1,2) d(2) by (cases c) auto
    with Rollback_returns [OF t d(1)] show ?thesis by blast
  qed
qed

lemma commit_block_frame:
  assumes "commit_block C L E blk c = (Inr (), c')"
  shows "c_ledger c' = c_ledger c \<and> c_numBlocks c' = c_numBlocks c + 1 \<and>
    c_lastHash c' = block_getHash C blk \<and>
    addWork (c_totalWork c) (b_difficulty blk) = Some (c_totalWork c') \<and>
    c_memPool c' = map_option (finishBlock C blk) (c_memPool c)"
  using commit_block_Inr [OF assms] by auto

lemma block_getHash_txs [simp]: "block_getHash C (b\<lparr>b_transactions := ts\<rparr>) = block_getHash C b"
  by (simp add: block_getHash_def block_contents_def)

lemma block_ids: "b_id (b\<lparr>b_transactions := ts\<rparr>) = b_id b"
  and block_ts: "b_transactions (b\<lparr>b_transactions := ts\<rparr>) = ts"
  by simp_all

lemma addBlock_supply:
  assumes "addBlock C L E blk c = (Inr SUCCESS, c')" "ledger_ok L (l_db (c_ledger c))" "b_id blk \<noteq> 1"
  shows "ledger_ok L (l_db (c_ledger c')) \<and>
    total_supply (bal L (l_db (c_ledger c'))) =
      total_supply (bal L (l_db (c_ledger c))) + uint (getCurrentMiningFee (ucast (b_id blk)))"
proof -
  from addBlock_SUCCESS [OF assms(1)] obtain ts x cc c1 where
    x: "ExecuteBlock C L (e_mem E 5) (e_mem E 6) (blk\<lparr>b_transactions := ts\<rparr>) (c_txdb c)
       (ucast (getCurrentMiningFee (ucast (b_id blk)))) (exec_of c) = (Inr SUCCESS, x)" and
    k: "commit_block C L E (blk\<lparr>b_transactions := ts\<rparr>) (c\<lparr>c_locked := True, c_pfcache := cc,
       c_ledger := (c_ledger c)\<lparr>l_db := x_db x\<rparr>, c_invalid := x_invalid x\<rparr>) = (Inr (), c1)" and
    c': "c' = c1\<lparr>c_locked := False\<rparr>" by blast
  have db: "l_db (c_ledger c') = x_db x" using commit_block_frame [OF k] c' by simp
  obtain miner where one: "fee_txs ts = 1" and
    r: "run_transactions C L miner (ucast (getCurrentMiningFee (ucast (b_id blk)))) (b_id blk)
          (copy_list (e_mem E 6) ts) (exec_of c) = (Inr SUCCESS, x)"
    using ExecuteBlock_parts [OF x] that by (metis block_ids block_ts)
  have "uint (ucast (getCurrentMiningFee (ucast (b_id blk))) :: u64) = uint (getCurrentMiningFee (ucast (b_id blk)))"
    by (simp add: uint_up_ucast is_up)
  with run_transactions_supply [OF r exec_ok_start [OF assms(2)] assms(3)] one show ?thesis
    unfolding db by (simp add: exec_ok_def xbal_def)
qed

section \<open>The block on top\<close>

text \<open>
  \<open>stored_top\<close>: the database holds, under the number of blocks, a block that reads back with
  the chain's last hash.
\<close>

definition stored_top :: "crypto \<Rightarrow> 'd kv \<Rightarrow> u32 \<Rightarrow> hash \<Rightarrow> 'd \<Rightarrow> bool" where
  "stored_top C L i h d \<longleftrightarrow>
     (\<forall>hd. fst (store_getBlockHeader L i d) = Inr hd \<longrightarrow> h_id hd = i) \<and>
     (\<forall>mem mem'. \<exists>b. fst (store_getBlock L mem mem' i d) = Inr b \<and> block_getHash C b = h)"

lemma getBlock_same_keys:
  assumes "\<And>k. length k = 4 \<or> length k = 8 \<Longrightarrow> kv_get L d' k = kv_get L d k"
    and "\<And>h. fst (store_getBlockHeader L i d) = Inr h \<Longrightarrow> h_id h = i"
  shows "fst (store_getBlock L mem mem' i d') = fst (store_getBlock L mem mem' i d)"
    and "fst (store_getBlockHeader L i d') = fst (store_getBlockHeader L i d)"
proof -
  have k: "kv_get L d' (block_key i) = kv_get L d (block_key i)"
    "kv_get L d' (tx_key i j) = kv_get L d (tx_key i j)" for j
    using assms(1) by simp_all
  from store_getBlock_cong [OF k assms(2)]
  show "fst (store_getBlock L mem mem' i d') = fst (store_getBlock L mem mem' i d)" by (metis fst_conv)
  from store_getBlockHeader_cong [OF k(1)]
  show "fst (store_getBlockHeader L i d') = fst (store_getBlockHeader L i d)" by (metis fst_conv)
qed

lemma stored_top_cong:
  assumes "\<And>k. length k = 4 \<or> length k = 8 \<Longrightarrow> kv_get L d' k = kv_get L d k" "stored_top C L i h d"
  shows "stored_top C L i h d'"
  using assms getBlock_same_keys [OF assms(1), of i] unfolding stored_top_def by metis

lemma totals_same_keys:
  assumes "kv_ok L" "setTotalWork L w d = (Inr (), d1)" "setBlockCount L n d1 = (Inr (), d2)"
    and "length k = 4 \<or> length k = 8"
  shows "kv_get L d2 k = kv_get L d k"
proof -
  have "kv_get L d2 = (kv_get L d)(TOTAL_WORK_KEY \<mapsto> text_bytes (bi_to_string w), BLOCK_COUNT_KEY \<mapsto> le_enc 8 n)"
    using kv_write_Inr [OF assms(1) assms(2) [unfolded setTotalWork_def]]
      kv_write_Inr [OF assms(1) assms(3) [unfolded setBlockCount_def]] by simp
  then show ?thesis using assms(4) by auto
qed

lemma removal_same_keys:
  assumes "kv_ok L" "crypto_ok C" "removeBlockWalletTransactions C L mem b d = (Inr (), d')"
    and "\<forall>t \<in> set (b_transactions b). transaction_wf t" "length k = 4 \<or> length k = 8"
  shows "kv_get L d' k = kv_get L d k"
proof -
  have "\<not> indexed C t k" if "t \<in> set (copy_list mem (b_transactions b))" for t
  proof
    assume "indexed C t k"
    moreover have "transaction_wf t" using that assms(4) by (auto simp: copy_list_set transaction_wf_def)
    ultimately have "length k = 57" using indexed_length [OF assms(2)] by blast
    with assms(5) show False by simp
  qed
  then show ?thesis by (auto simp: removeBlockWalletTransactions_get [OF assms(1,3)])
qed

lemma chain_getBlock_in_range:
  "block_in_range i c \<Longrightarrow> chain_getBlock L E i c = (fst (store_getBlock L (e_mem E 0) (e_mem E 1) i (c_blockStore c)), c)"
proof -
  assume r: "block_in_range i c"
  have "store_getBlock L (e_mem E 0) (e_mem E 1) i d =
      (fst (store_getBlock L (e_mem E 0) (e_mem E 1) i d), d)" for d
    using quiet_store_getBlock [of L "e_mem E 0" "e_mem E 1" i] by (simp add: quiet_def prod_eq_iff)
  then have "on_store (store_getBlock L (e_mem E 0) (e_mem E 1) i) c =
      (fst (store_getBlock L (e_mem E 0) (e_mem E 1) i (c_blockStore c)), c)"
    unfolding on_store_eq by (intro exI [of _ "c_blockStore c"]) simp
  with r show ?thesis by (simp add: chain_getBlock_def bindE_getS)
qed

lemma in_range_int: "1 \<le> i \<Longrightarrow> i \<le> c_numBlocks c \<Longrightarrow> c_numBlocks c < 2 ^ 31 \<Longrightarrow> block_in_range (word_of_int i) c"
proof -
  assume i: "1 \<le> i" "i \<le> c_numBlocks c" "c_numBlocks c < 2 ^ 31"
  then have "uint (word_of_int i :: u32) = i" "uint (word_of_int (c_numBlocks c) :: u32) = c_numBlocks c"
    by (simp_all add: uint_word_of_int)
  with i show ?thesis by (simp add: block_in_range_def word_le_def word_less_def)
qed

lemma updateDifficulty_off_boundary:
  "c_numBlocks c \<le> 200 \<or> c_numBlocks c mod 100 \<noteq> 0 \<Longrightarrow> updateDifficulty L E c = (Inr (), c)"
  by (auto simp: updateDifficulty_def bindE_getS DIFFICULTY_LOOKBACK_def)

lemma popBlock_returns:
  assumes L: "kv_ok L" "kv_writes L" "crypto_ok C"
    and n: "3 \<le> c_numBlocks c" "c_numBlocks c < 2 ^ 31"
    and top: "fst (store_getBlock L (e_mem E 0) (e_mem E 1) (word_of_int (c_numBlocks c)) (c_blockStore c)) = Inr b"
    and wf: "\<forall>t \<in> set (b_transactions b). transaction_wf t"
    and undo: "RollbackBlock C L (e_wallet E) (e_mem E 8) b (l_db (c_ledger c), c_txdb c) = (Inr (), (d, tx'))"
    and work: "removeWork (c_totalWork c) (b_difficulty b) = Some w"
    and prev: "stored_top C L (word_of_int (c_numBlocks c - 1)) h (c_blockStore c)"
    and off: "c_numBlocks c - 1 \<le> 200 \<or> (c_numBlocks c - 1) mod 100 \<noteq> 0"
  shows "\<exists>sd. popBlock C L E c = (Inr (), c\<lparr>c_ledger := (c_ledger c)\<lparr>l_db := d\<rparr>, c_txdb := tx',
    c_numBlocks := c_numBlocks c - 1, c_totalWork := w, c_blockStore := sd, c_lastHash := h\<rparr>)"
proof -
  let ?c1 = "c\<lparr>c_ledger := (c_ledger c)\<lparr>l_db := d\<rparr>, c_txdb := tx', c_numBlocks := c_numBlocks c - 1, c_totalWork := w\<rparr>"
  obtain s1 where s1: "setTotalWork L w (c_blockStore c) = (Inr (), s1)"
    using kv_write_total [OF L(2)] unfolding setTotalWork_def by blast
  obtain s2 where s2: "setBlockCount L (word_of_int (c_numBlocks c - 1)) s1 = (Inr (), s2)"
    using kv_write_total [OF L(2)] unfolding setBlockCount_def by blast
  have "\<exists>s3. removeBlockWalletTransactions C L (e_mem E 9) b s2 = (Inr (), s3)"
  proof -
    have "\<exists>s3. forE ts (\<lambda>t. let txid = hashContents C t in
        bindE (kv_remove L m (wallet_key (t_from t) txid)) (\<lambda>_.
        kv_remove L m (wallet_key (t_to t) txid))) s = (Inr (), s3)" for ts m s
      by (induction ts arbitrary: s) (simp, simp only: forE.simps Let_def, intro bindE_total kv_remove_total [OF L(2)], blast)
    then show ?thesis unfolding removeBlockWalletTransactions_def by blast
  qed
  then obtain s3 where s3: "removeBlockWalletTransactions C L (e_mem E 9) b s2 = (Inr (), s3)" by blast
  have "stored_top C L (word_of_int (c_numBlocks c - 1)) h s3"
    by (rule stored_top_cong [OF _ prev])
      (metis removal_same_keys [OF L(1,3) s3 wf] totals_same_keys [OF L(1) s1 s2])
  then obtain nb where nb: "fst (store_getBlock L (e_mem E 0) (e_mem E 1) (word_of_int (c_numBlocks c - 1)) s3) = Inr nb"
    "block_getHash C nb = h" unfolding stored_top_def by blast
  have g1: "chain_getBlock L E (word_of_int (c_numBlocks c)) c = (Inr b, c)"
    using chain_getBlock_in_range [OF in_range_int [of "c_numBlocks c" c]] n top by simp
  have g2: "chain_getBlock L E (word_of_int (c_numBlocks c - 1)) (?c1\<lparr>c_blockStore := s3\<rparr>) =
      (Inr nb, ?c1\<lparr>c_blockStore := s3\<rparr>)"
    using chain_getBlock_in_range [OF in_range_int [of "c_numBlocks c - 1" "?c1\<lparr>c_blockStore := s3\<rparr>"]] n nb
    by simp
  have u: "updateDifficulty L E (?c1\<lparr>c_blockStore := s3\<rparr>) = (Inr (), ?c1\<lparr>c_blockStore := s3\<rparr>)"
    by (rule updateDifficulty_off_boundary) (use off in simp)
  have more: "1 < (word_of_int (c_numBlocks c - 1) :: u32)"
  proof -
    have "uint (word_of_int (c_numBlocks c - 1) :: u32) = c_numBlocks c - 1"
      using n by (simp only: uint_word_of_int) simp
    then show ?thesis unfolding word_less_def using n by simp
  qed
  have r: "on_ledger_and_txdb (RollbackBlock C L (e_wallet E) (e_mem E 8) b) c =
      (Inr (), c\<lparr>c_ledger := (c_ledger c)\<lparr>l_db := d\<rparr>, c_txdb := tx'\<rparr>)"
    using undo by (simp add: on_ledger_and_txdb_def zoom_def)
  have "popBlock C L E c = (Inr (), (?c1\<lparr>c_blockStore := s3\<rparr>)\<lparr>c_lastHash := h\<rparr>)"
    using g1 r work s1 s2 s3 g2 u more nb(2)
    by (simp add: popBlock_def bindE_Inr cpp_simps on_store_def getBlockCount32_def)
  then show ?thesis by (intro exI [of _ s3]) simp
qed

lemma setItems_items:
  "setItems C m m' ts = Inr (t, us) \<Longrightarrow> us = copy_list m (std_sort (hash_order C) ts)"
  by (auto simp: setItems_def Let_def split: sum.splits)

lemma sorted_copy_wf:
  "setItems C m m' ts = Inr (t, us) \<Longrightarrow> \<forall>t \<in> set ts. transaction_wf t \<Longrightarrow>
   (\<forall>t \<in> set us. transaction_wf t) \<and> length us = length ts"
  by (auto dest!: setItems_items simp: copy_list_set transaction_wf_def)
    (metis length_std_sort nth_mem set_std_sort)+

lemma setBlock_stored_top:
  assumes "kv_ok L" "crypto_ok C" "setBlock C L pad b d = (Inr (), d')"
    and "block_header_wf (block_serialize b)" "\<forall>t \<in> set (b_transactions b). transaction_wf t"
    and "length (b_transactions b) < 2 ^ 32"
  shows "stored_top C L (b_id b) (block_getHash C b) d'"
  unfolding stored_top_def using setBlock_read_back [OF assms] setBlock_reads(1) [OF assms]
  by (auto simp: block_serialize_def) (metis fst_conv)

text \<open>The block an extension has put on top reads back.\<close>

lemma committed_top:
  assumes "kv_ok L" "crypto_ok C" "commit_block C L E blk c = (Inr (), c')"
    and "block_header_wf (block_serialize blk)" "\<forall>t \<in> set (b_transactions blk). transaction_wf t"
    and "length (b_transactions blk) < 2 ^ 32"
  shows "stored_top C L (b_id blk) (c_lastHash c') (c_blockStore c')"
    and "\<exists>b. fst (store_getBlock L mem mem' (b_id blk) (c_blockStore c')) = Inr b \<and> block_eq b blk \<and>
           ((\<forall>i. transaction_wf (mem i)) \<longrightarrow> (\<forall>t \<in> set (b_transactions b). transaction_wf t))"
    and "i \<noteq> b_id blk \<Longrightarrow> stored_top C L i h (c_blockStore c) \<Longrightarrow> stored_top C L i h (c_blockStore c')"
proof -
  from commit_block_Inr [OF assms(3)] obtain sd w sd1 where
    s: "setBlock C L (e_pad E) blk (c_blockStore c) = (Inr (), sd)" "setTotalWork L w sd = (Inr (), sd1)"
    "setBlockCount L (word_of_int (c_numBlocks c + 1)) sd1 = (Inr (), c_blockStore c')"
    and h: "c_lastHash c' = block_getHash C blk" by auto
  note keys = totals_same_keys [OF assms(1) s(2,3)]
  note read = setBlock_read_back [OF assms(1,2) s(1) assms(4-6)]
  note st = setBlock_stored_top [OF assms(1,2) s(1) assms(4-6)]
  then have hdr: "fst (store_getBlockHeader L (b_id blk) sd) = Inr hd \<Longrightarrow> h_id hd = b_id blk" for hd
    by (simp add: stored_top_def)
  from st have "stored_top C L (b_id blk) (c_lastHash c') sd" by (simp add: h)
  then show "stored_top C L (b_id blk) (c_lastHash c') (c_blockStore c')"
    using stored_top_cong [OF keys] by blast
  from read [of mem mem'] obtain b where "fst (store_getBlock L mem mem' (b_id blk) sd) = Inr b"
    "block_eq b blk" "(\<forall>i. transaction_wf (mem i)) \<longrightarrow> (\<forall>t \<in> set (b_transactions b). transaction_wf t)"
    by (metis fst_conv)
  with getBlock_same_keys(1) [OF keys hdr]
  show "\<exists>b. fst (store_getBlock L mem mem' (b_id blk) (c_blockStore c')) = Inr b \<and> block_eq b blk \<and>
      ((\<forall>i. transaction_wf (mem i)) \<longrightarrow> (\<forall>t \<in> set (b_transactions b). transaction_wf t))" by auto
  assume i: "i \<noteq> b_id blk" and t: "stored_top C L i h (c_blockStore c)"
  have "block_key i \<noteq> tx_key (b_id blk) j" "tx_key i k \<noteq> block_key (b_id blk)" for j k
    by (auto dest: arg_cong [of _ _ length])
  then have k: "kv_get L sd (block_key i) = kv_get L (c_blockStore c) (block_key i)"
    "kv_get L sd (tx_key i j) = kv_get L (c_blockStore c) (tx_key i j)" for j
    using setBlock_get(4) [OF assms(1,2) s(1) assms(5) less_imp_le [OF assms(6)]] i by simp_all
  from t have ids: "fst (store_getBlockHeader L i (c_blockStore c)) = Inr hd \<Longrightarrow> h_id hd = i" for hd
    by (simp add: stored_top_def)
  have "stored_top C L i h sd"
    using t store_getBlock_cong [OF k ids] store_getBlockHeader_cong [OF k(1)]
    unfolding stored_top_def by (metis fst_conv)
  then show "stored_top C L i h (c_blockStore c')" using stored_top_cong [OF keys] by blast
qed

definition memory_ok :: "env \<Rightarrow> bool" where
  "memory_ok E \<longleftrightarrow> (\<forall>k i. transaction_wf (e_mem E k i))"

lemma block_eq_same_txs: "block_eq b blk \<Longrightarrow> list_all2 tx_eq (b_transactions b) (b_transactions blk)"
  by (simp add: block_eq_iff)

section \<open>Valid blocks are accepted\<close>

lemma commit_block_total:
  assumes "kv_writes L" "addWork (c_totalWork c) (b_difficulty blk) = Some w"
    and "c_numBlocks c + 1 \<le> 200 \<or> (c_numBlocks c + 1) mod 100 \<noteq> 0"
  shows "\<exists>c'. commit_block C L E blk c = (Inr (), c')"
proof -
  let ?c0 = "c\<lparr>c_memPool := map_option (finishBlock C blk) (c_memPool c)\<rparr>"
  have "\<exists>td. forE ts (\<lambda>t. on_txdb (insertTransaction C L t (b_id blk))) c0 = (Inr (), c0\<lparr>c_txdb := td\<rparr>)" for ts c0
  proof (induction ts arbitrary: c0)
    case Nil
    show ?case by (rule exI [of _ "c_txdb c0"]) simp
  next
    case (Cons t ts)
    obtain d where "insertTransaction C L t (b_id blk) (c_txdb c0) = (Inr (), d)"
      using kv_write_total [OF assms(1)] unfolding insertTransaction_def by blast
    then have "on_txdb (insertTransaction C L t (b_id blk)) c0 = (Inr (), c0\<lparr>c_txdb := d\<rparr>)"
      by (simp add: on_txdb_eq)
    then show ?case using Cons.IH [of "c0\<lparr>c_txdb := d\<rparr>"] by (simp add: bindE_Inr)
  qed
  then obtain td where td: "forE (copy_list (e_mem E 7) (b_transactions blk))
      (\<lambda>t. on_txdb (insertTransaction C L t (b_id blk))) ?c0 = (Inr (), ?c0\<lparr>c_txdb := td\<rparr>)" by blast
  obtain sd where sd: "setBlock C L (e_pad E) blk (c_blockStore c) = (Inr (), sd)"
    using setBlock_total [OF assms(1)] by blast
  obtain s1 where s1: "setTotalWork L w sd = (Inr (), s1)"
    using kv_write_total [OF assms(1)] unfolding setTotalWork_def by blast
  obtain s2 where s2: "setBlockCount L (word_of_int (c_numBlocks c + 1)) s1 = (Inr (), s2)"
    using kv_write_total [OF assms(1)] unfolding setBlockCount_def by blast
  have "updateDifficulty L E s = (Inr (), s)" if "c_numBlocks s = c_numBlocks c + 1" for s
    by (rule updateDifficulty_off_boundary) (use assms(3) that in simp)
  then show ?thesis using td sd s1 s2 assms(2)
    by (simp add: commit_block_def bindE_Inr cpp_simps on_store_def)
qed

text \<open>
  The time of a block against the ten last ones, which the chain looks at when it has more: they can
  be read, and their median is not later.
\<close>

definition recent_times :: "'d kv \<Rightarrow> env \<Rightarrow> 'd blockchain \<Rightarrow> u64 list" where
  "recent_times L E c =
     map (\<lambda>i. case fst (chain_getBlock L E (word_of_int (c_numBlocks c - i)) c) of Inl e \<Rightarrow> 0 | Inr b \<Rightarrow> b_timestamp b) [0..9]"

definition not_too_old :: "'d kv \<Rightarrow> env \<Rightarrow> u64 \<Rightarrow> 'd blockchain \<Rightarrow> bool" where
  "not_too_old L E t c \<longleftrightarrow> c_numBlocks c \<le> 10 \<or>
     (\<forall>i \<in> set [0..9]. \<not> isl (fst (chain_getBlock L E (word_of_int (c_numBlocks c - i)) c))) \<and>
     median_time (recent_times L E c) \<le> t"

text \<open>What a block has to satisfy in the state it is offered to.\<close>

definition valid_next :: "crypto \<Rightarrow> 'd kv \<Rightarrow> env \<Rightarrow> block \<Rightarrow> 'd blockchain \<Rightarrow> bool" where
  "valid_next C L E blk c \<longleftrightarrow>
     length (b_transactions blk) \<le> MAX_TRANSACTIONS_PER_BLOCK \<and>
     b_id blk = word_of_int (c_numBlocks c + 1) \<and> b_difficulty blk = word_of_int (c_difficulty c) \<and>
     fst (verifyNonce C L blk (c_pfcache c)) = Inr True \<and>
     b_lastBlockHash blk = c_lastHash c \<and> b_timestamp blk \<le> e_now E + 120 * 60 \<and>
     (case setItems C (e_mem E 3) (e_mem E 4) (b_transactions blk) of
        Inl e \<Rightarrow> False
      | Inr (m, ts) \<Rightarrow> b_merkleRoot blk = getRootHash m \<and>
          fst (ExecuteBlock C L (e_mem E 5) (e_mem E 6) (blk\<lparr>b_transactions := ts\<rparr>) (c_txdb c)
            (ucast (getCurrentMiningFee (ucast (b_id blk)))) (exec_of c)) = Inr SUCCESS)"

lemma mapE_reads:
  "(\<And>x. x \<in> set xs \<Longrightarrow> f x c = (Inr (g x), c)) \<Longrightarrow> mapE xs f c = (Inr (map g xs), c)"
  by (induction xs) (simp_all add: bindE_Inr)

lemma check_timestamp_passed:
  assumes "not_too_old L E (b_timestamp blk) c" "b_timestamp blk \<le> e_now E + 120 * 60"
  shows "check_timestamp L E blk c = (Inr None, c)"
proof (cases "c_numBlocks c \<le> 10")
  case True
  with assms(2) show ?thesis by (simp add: check_timestamp_def bindE_getS not_less [symmetric])
next
  case False
  let ?f = "\<lambda>i. bindE (chain_getBlock L E (word_of_int (c_numBlocks c - i))) (\<lambda>b. ok (b_timestamp b))"
  have r: "\<not> isl (fst (chain_getBlock L E (word_of_int (c_numBlocks c - i)) c))" if "i \<in> set [0..9]" for i
    using assms(1) that False unfolding not_too_old_def by blast
  have m: "median_time (recent_times L E c) \<le> b_timestamp blk"
    using assms(1) False unfolding not_too_old_def by blast
  have "?f i c = (Inr (case fst (chain_getBlock L E (word_of_int (c_numBlocks c - i)) c) of
      Inl e \<Rightarrow> 0 | Inr b \<Rightarrow> b_timestamp b), c)" if "i \<in> set [0..9]" for i
    using r [OF that] quietD [OF quiet_chain_getBlock, of L E "word_of_int (c_numBlocks c - i)" c]
    by (cases "chain_getBlock L E (word_of_int (c_numBlocks c - i)) c") (auto simp: bindE_def ok_def split: sum.splits)
  then have "mapE [0..9] ?f c = (Inr (recent_times L E c), c)"
    unfolding recent_times_def by (rule mapE_reads)
  moreover have "map int [0..<10] = [0..9]" by code_simp
  ultimately show ?thesis
    using assms(2) False m by (simp add: check_timestamp_def bindE_getS bindE_Inr not_less [symmetric])
qed

lemma not_too_old_locked:
  "not_too_old L E t (c\<lparr>c_locked := l, c_pfcache := p\<rparr>) \<longleftrightarrow> not_too_old L E t c"
proof -
  have "fst (chain_getBlock L E i (c\<lparr>c_locked := l, c_pfcache := p\<rparr>)) = fst (chain_getBlock L E i c)" for i
    by (simp add: chain_getBlock_def bindE_getS block_in_range_def on_store_def zoom_def cpp_simps split: prod.splits)
  then show ?thesis by (simp add: not_too_old_def recent_times_def)
qed

lemma addBlock_valid:
  assumes "kv_writes L" "\<not> c_locked c" "valid_next C L E blk c"
    and "not_too_old L E (b_timestamp blk) c" "c_numBlocks c + 1 \<le> 200 \<or> (c_numBlocks c + 1) mod 100 \<noteq> 0"
    and "fst (getState L (l_db (c_ledger c))) = Inr st"
    and "bi_ok (c_totalWork c)" "canonical (c_totalWork c)"
    and "1 \<le> unat (b_difficulty blk)" "unat (b_difficulty blk) < 2 ^ 31"
  shows "\<exists>c'. addBlock C L E blk c = (Inr SUCCESS, c')"
proof -
  let ?c = "c\<lparr>c_locked := True\<rparr>"
  from assms(3) obtain m ts where v: "setItems C (e_mem E 3) (e_mem E 4) (b_transactions blk) = Inr (m, ts)"
    "b_merkleRoot blk = getRootHash m"
    "fst (ExecuteBlock C L (e_mem E 5) (e_mem E 6) (blk\<lparr>b_transactions := ts\<rparr>) (c_txdb c)
            (ucast (getCurrentMiningFee (ucast (b_id blk)))) (exec_of c)) = Inr SUCCESS"
    by (auto simp: valid_next_def split: sum.splits)
  let ?b = "blk\<lparr>b_transactions := ts\<rparr>"
  obtain cc where cc: "verifyNonce C L blk (c_pfcache c) = (Inr True, cc)"
    using assms(3) by (auto simp: valid_next_def prod_eq_iff)
  let ?c1 = "?c\<lparr>c_pfcache := cc\<rparr>"
  have ts: "check_timestamp L E blk ?c1 = (Inr None, ?c1)"
    using assms(3,4) by (intro check_timestamp_passed) (simp_all add: valid_next_def not_too_old_locked)
  have vn: "on_cache (verifyNonce C L blk) ?c = (Inr True, ?c1)"
    using cc by (simp add: on_cache_eq)
  have ch: "check_block C L E blk ?c = (Inr (Inr ?b), ?c1)"
    using assms(3) ts vn v(1,2)
    by (simp add: check_block_def bindE_getS bindE_Inr valid_next_def difficulty_accepted_def not_less [symmetric])
  obtain x where x: "ExecuteBlock C L (e_mem E 5) (e_mem E 6) ?b (c_txdb c)
      (ucast (getCurrentMiningFee (ucast (b_id blk)))) (exec_of c) = (Inr SUCCESS, x)"
    using v(3) by (metis prod.collapse)
  let ?c2 = "?c1\<lparr>c_ledger := (c_ledger c)\<lparr>l_db := x_db x\<rparr>, c_invalid := x_invalid x\<rparr>"
  have wd: "with_deltas (ExecuteBlock C L (e_mem E 5) (e_mem E 6) ?b (c_txdb c)
      (ucast (getCurrentMiningFee (ucast (b_id blk))))) ?c1 = (Inr (SUCCESS, x_deltas x), ?c2)"
    using x by (simp add: with_deltas_def)
  obtain w where w: "addWork (c_totalWork c) (b_difficulty blk) = Some w"
    using addWork_correct [OF assms(7-10)] by blast
  obtain c3 where "commit_block C L E ?b ?c2 = (Inr (), c3)"
    using commit_block_total [OF assms(1), of ?c2 ?b w C E] w assms(5) by auto
  with wd have ex: "execute_block C L E ?b ?c1 = (Inr SUCCESS, c3)"
    by (simp add: execute_block_def bindE_getS bindE_Inr)
  have gs: "on_db (getState L) ?c = (Inr st, ?c)"
    using assms(6) quiet_getState [of L] unfolding on_db_eq quiet_def
    by (intro exI [of _ "l_db (c_ledger c)"]) (simp add: prod_eq_iff)
  have "addBlock_body C L E blk ?c = (Inr SUCCESS, c3)"
    using gs ch ex by (simp add: addBlock_body_def bindE_Inr)
  then show ?thesis using assms(2) by (simp add: addBlock_def with_lock_def)
qed

end
