(* ===== verification/ChainProperties.thy ===== *)
theory ChainProperties
  imports ChainBlocks
begin

text \<open>
  The properties of \<open>BlockChain::addBlock\<close> and \<open>BlockChain::popBlock\<close>: what an accepted block
  has satisfied and what it changes, that a refused block changes nothing, that a valid block
  is accepted, and that popping undoes adding. The samples are a chain of two blocks and a
  block that extends it.
\<close>

section \<open>An accepted block\<close>

lemma uint_suc_id: "0 \<le> n \<Longrightarrow> n + 1 < 2 ^ 31 \<Longrightarrow> uint (word_of_int (n + 1) :: u32) = n + 1"
  unfolding uint_word_of_int by (rule mod_pos_pos_trivial) simp_all

lemma sint_of_int32: "- (2 ^ 31) \<le> i \<Longrightarrow> i < 2 ^ 31 \<Longrightarrow> sint (word_of_int i :: u32) = i"
  by (simp add: sint_sbintrunc' signed_take_bit_int_eq_self_iff)

lemma added_block_parts:
  assumes "addBlock C L E blk c = (Inr SUCCESS, c')"
  obtains ts x c1 m where "\<not> c_locked c" "c' = c1\<lparr>c_locked := False\<rparr>"
    "b_id blk = word_of_int (c_numBlocks c + 1)"
    "setItems C (e_mem E 3) (e_mem E 4) (b_transactions blk) = Inr (m, ts)"
    "ExecuteBlock C L (e_mem E 5) (e_mem E 6) (blk\<lparr>b_transactions := ts\<rparr>) (c_txdb c)
       (ucast (getCurrentMiningFee (ucast (b_id blk)))) (exec_of c) = (Inr SUCCESS, x)"
    "\<exists>cc. commit_block C L E (blk\<lparr>b_transactions := ts\<rparr>) (c\<lparr>c_locked := True, c_pfcache := cc,
       c_ledger := (c_ledger c)\<lparr>l_db := x_db x\<rparr>, c_invalid := x_invalid x\<rparr>) = (Inr (), c1)"
  using addBlock_SUCCESS [OF assms] by blast

text \<open>What the block store holds after a block was added: the block, the count and the work.\<close>

lemma added_block_stored:
  assumes "kv_ok L" "crypto_ok C" "0 \<le> c_numBlocks c" "c_numBlocks c + 1 < 2 ^ 31" "bi_ok (c_totalWork c')"
    and "block_header_wf (block_serialize blk)" "\<forall>t \<in> set (b_transactions blk). transaction_wf t"
    and "addBlock C L E blk c = (Inr SUCCESS, c')"
  shows "\<exists>b. fst (store_getBlock L mem mem' (b_id blk) (c_blockStore c')) = Inr b \<and>
      b_difficulty b = b_difficulty blk \<and> block_getHash C b = c_lastHash c'"
    and "hasBlockCount L (c_blockStore c')"
    and "getBlockCount L (c_blockStore c') = (Inr (word_of_int (c_numBlocks c')), c_blockStore c')"
    and "\<exists>w. getTotalWork L (c_blockStore c') = (Inr w, c_blockStore c') \<and> bi_ok w \<and> bi_val w = bi_val (c_totalWork c')"
proof -
  from added_block_parts [OF assms(8)] obtain ts x c1 m where "\<not> c_locked c"
    and c': "c' = c1\<lparr>c_locked := False\<rparr>" and "b_id blk = word_of_int (c_numBlocks c + 1)"
    and it: "setItems C (e_mem E 3) (e_mem E 4) (b_transactions blk) = Inr (m, ts)"
    and "ExecuteBlock C L (e_mem E 5) (e_mem E 6) (blk\<lparr>b_transactions := ts\<rparr>) (c_txdb c)
       (ucast (getCurrentMiningFee (ucast (b_id blk)))) (exec_of c) = (Inr SUCCESS, x)"
    and "\<exists>cc. commit_block C L E (blk\<lparr>b_transactions := ts\<rparr>) (c\<lparr>c_locked := True, c_pfcache := cc,
       c_ledger := (c_ledger c)\<lparr>l_db := x_db x\<rparr>, c_invalid := x_invalid x\<rparr>) = (Inr (), c1)" .
  then obtain cc where cm: "commit_block C L E (blk\<lparr>b_transactions := ts\<rparr>) (c\<lparr>c_locked := True, c_pfcache := cc,
       c_ledger := (c_ledger c)\<lparr>l_db := x_db x\<rparr>, c_invalid := x_invalid x\<rparr>) = (Inr (), c1)" by blast
  let ?b = "blk\<lparr>b_transactions := ts\<rparr>"
  note sc = sorted_copy_wf [OF it assms(7)]
  have len: "length (b_transactions ?b) < 2 ^ 32"
    using sc addBlock_SUCCESS [OF assms(8)] by (auto simp: MAX_TRANSACTIONS_PER_BLOCK_def)
  have hwf: "block_header_wf (block_serialize ?b)"
    using assms(6) sc by (simp add: block_serialize_def block_header_wf_def)
  have "\<forall>t \<in> set (b_transactions ?b). transaction_wf t" using sc by simp
  from committed_top(2) [OF assms(1,2) cm hwf this len, of mem mem']
  have top: "\<exists>b. fst (store_getBlock L mem mem' (b_id ?b) (c_blockStore c1)) = Inr b \<and> block_eq b ?b" by blast
  have "block_getHash C b = block_getHash C blk" if "block_eq b ?b" for b
    using that by (simp add: block_eq_iff block_getHash_def block_contents_def)
  with top show "\<exists>b. fst (store_getBlock L mem mem' (b_id blk) (c_blockStore c')) = Inr b \<and>
      b_difficulty b = b_difficulty blk \<and> block_getHash C b = c_lastHash c'"
    using commit_block_frame [OF cm] by (auto simp: c' block_eq_iff)
  from commit_block_Inr [OF cm] obtain sd w sd1 where s: "setTotalWork L w sd = (Inr (), sd1)"
    "setBlockCount L (word_of_int (c_numBlocks c + 1)) sd1 = (Inr (), c_blockStore c')"
    "c_totalWork c' = w" "c_numBlocks c' = c_numBlocks c + 1" by (auto simp: c')
  from chain_totals_stored [OF assms(1) _ s(1,2)] assms(5) s(3,4)
  show "hasBlockCount L (c_blockStore c')"
    "getBlockCount L (c_blockStore c') = (Inr (word_of_int (c_numBlocks c')), c_blockStore c')"
    "\<exists>w. getTotalWork L (c_blockStore c') = (Inr w, c_blockStore c') \<and> bi_ok w \<and> bi_val w = bi_val (c_totalWork c')"
    by simp_all
qed

section \<open>A sample chain\<close>

definition sample_env :: env where
  "sample_env = \<lparr>e_now = 5000, e_genesis = None, e_mem = (\<lambda>k i. sample_mem i), e_pad = (\<lambda>k i. 0),
     e_wallet = NULL_ADDRESS\<rparr>"

definition sample_top :: block where
  "sample_top = sample_block 2 [sample_fee 3 50]"

definition sample_chain :: "(bytes \<times> bytes) list blockchain" where
  "sample_chain =
     \<lparr>c_isSyncing = False, c_memPool = None, c_numBlocks = 2, c_totalWork = bi_of_int 128,
      c_blockStore = snd (setBlock sample_crypto mem_kv (\<lambda>_ _. 0) sample_top []),
      c_ledger = \<lparr>l_db = [(sample_wallet 1, le_enc 8 (100 :: u64))], l_nonces = []\<rparr>,
      c_txdb = [], c_lastHash = block_getHash sample_crypto sample_top, c_difficulty = 6,
      c_targetBlockCount = 2, c_locked = False, c_invalid = [], c_pfcache = [], c_retries = 0\<rparr>"

definition sample_txs :: "transaction list" where
  "sample_txs = [sample_transfer 1 2 30 5, sample_fee 3 500000]"

definition sample_next :: "transaction list \<Rightarrow> block" where
  "sample_next ts = (sample_block 3 ts)\<lparr>b_timestamp := 3000,
     b_merkleRoot := (case setItems sample_crypto sample_mem sample_mem ts of
       Inr (m, us) \<Rightarrow> getRootHash m | Inl e \<Rightarrow> []),
     b_lastBlockHash := block_getHash sample_crypto sample_top\<rparr>"

lemma sample_chain_ledger [simp]: "l_db (c_ledger sample_chain) = x_db sample_exec"
  by (simp add: sample_chain_def sample_exec_def)

lemma sample_valid: "valid_next sample_crypto mem_kv sample_env (sample_next sample_txs) sample_chain"
  by code_simp

lemma sample_work: "bi_ok (c_totalWork sample_chain)" "canonical (c_totalWork sample_chain)"
  by code_simp+

lemma sample_difficulty: "unat (b_difficulty (sample_next ts)) = 6"
  by (simp add: sample_next_def sample_block_def block_default_def MIN_DIFFICULTY_def)

lemma sample_unlocked: "\<not> c_locked sample_chain" "c_numBlocks sample_chain = 2"
  by (simp_all add: sample_chain_def)

lemma sample_state: "\<exists>st. fst (getState mem_kv (l_db (c_ledger sample_chain))) = Inr st"
proof -
  have "\<not> isl (fst (getState mem_kv (l_db (c_ledger (sample_chain)))))"
    unfolding sample_chain_ledger sample_exec_def by code_simp
  then show ?thesis using sum.collapse(2) by metis
qed

lemma sample_accepted:
  "\<exists>c'. addBlock sample_crypto mem_kv sample_env (sample_next sample_txs) sample_chain = (Inr SUCCESS, c')"
proof -
  obtain st where "fst (getState mem_kv (l_db (c_ledger sample_chain))) = Inr st" using sample_state by blast
  from addBlock_valid [OF mem_kv_writes sample_unlocked(1) sample_valid _ _ this sample_work] show ?thesis
    by (simp add: sample_difficulty sample_unlocked not_too_old_def)
qed

lemma sample_wrong_id:
  "\<exists>c'. addBlock sample_crypto mem_kv sample_env ((sample_next [])\<lparr>b_id := 5\<rparr>) sample_chain =
     (Inr INVALID_BLOCK_ID, c')"
proof -
  let ?c = "sample_chain\<lparr>c_locked := True\<rparr>" and ?b = "(sample_next [])\<lparr>b_id := 5\<rparr>"
  obtain st where "fst (getState mem_kv (l_db (c_ledger ?c))) = Inr st" using sample_state by auto
  then have "on_db (getState mem_kv) ?c = (Inr st, ?c)"
    using quiet_getState [of mem_kv] unfolding on_db_eq quiet_def
    by (intro exI [of _ "l_db (c_ledger ?c)"]) (simp add: prod_eq_iff)
  moreover have "check_block sample_crypto mem_kv sample_env ?b ?c = (Inr (Inl INVALID_BLOCK_ID), ?c)"
    by (simp add: check_block_def bindE_getS sample_unlocked sample_next_def sample_block_def cpp_simps)
  ultimately have "addBlock_body sample_crypto mem_kv sample_env ?b ?c = (Inr INVALID_BLOCK_ID, ?c)"
    by (simp add: addBlock_body_def bindE_Inr)
  then show ?thesis by (simp add: addBlock_def with_lock_def sample_unlocked)
qed

lemma sample_memory: "memory_ok sample_env"
  by (simp add: memory_ok_def sample_env_def sample_mem_def transaction_wf_def sample_fee_def sample_transfer_def sample_wallet_def
      sample_key_def NULL_ADDRESS_def)

lemma sample_next_wf:
  "block_header_wf (block_serialize (sample_next sample_txs))"
  "\<forall>t \<in> set (b_transactions (sample_next sample_txs)). transaction_wf t"
  by code_simp+

lemma sample_top_stored:
  "stored_top sample_crypto mem_kv 2 (c_lastHash sample_chain) (c_blockStore sample_chain)"
proof -
  obtain d where d: "setBlock sample_crypto mem_kv (\<lambda>_ _. 0) sample_top [] = (Inr (), d)"
    using setBlock_total [OF mem_kv_writes] by blast
  have "stored_top sample_crypto mem_kv (b_id sample_top) (block_getHash sample_crypto sample_top) d"
    by (rule setBlock_stored_top [OF mem_kv_ok sample_crypto_ok d])
      (simp_all add: sample_top_def sample_block_def block_header_wf_def block_serialize_def block_default_def
        NULL_SHA256_HASH_def transaction_wf_def sample_fee_def sample_transfer_def sample_wallet_def sample_key_def NULL_ADDRESS_def)
  then show ?thesis using d by (simp add: sample_chain_def sample_top_def sample_block_def)
qed

section \<open>Properties\<close>



text \<open>
  C2. A block that \<open>addBlock\<close> answers with any other status leaves no trace: block count, work,
  last hash, difficulty, stored blocks, transaction index and mempool stay what they were, and
  every wallet has its balance.
\<close>

theorem addBlock_rejects:
  assumes "addBlock C L E blk c = (Inr s, c')" "s \<noteq> SUCCESS" "ledger_ok L (l_db (c_ledger c))"
  shows "c_numBlocks c' = c_numBlocks c \<and> c_totalWork c' = c_totalWork c \<and> c_lastHash c' = c_lastHash c \<and>
    c_difficulty c' = c_difficulty c \<and> c_blockStore c' = c_blockStore c \<and> c_txdb c' = c_txdb c \<and>
    c_memPool c' = c_memPool c \<and> c_locked c' = c_locked c \<and>
    ledger_ok L (l_db (c_ledger c')) \<and>
    wbal (bal L (l_db (c_ledger c'))) = wbal (bal L (l_db (c_ledger c)))"
  using addBlock_rejected [OF assms] by auto

lemma addBlock_rejects_witness:
  "\<exists>c'. addBlock sample_crypto mem_kv sample_env ((sample_next [])\<lparr>b_id := 5\<rparr>) sample_chain =
     (Inr INVALID_BLOCK_ID, c') \<and> c_numBlocks c' = 2"
proof -
  obtain c' where a: "addBlock sample_crypto mem_kv sample_env ((sample_next [])\<lparr>b_id := 5\<rparr>) sample_chain =
      (Inr INVALID_BLOCK_ID, c')" using sample_wrong_id by blast
  have "ledger_ok mem_kv (l_db (c_ledger sample_chain))" by simp
  from addBlock_rejects [OF a _ this] a show ?thesis by (simp add: sample_unlocked)
qed

text \<open>
  C3. Money is created by blocks only, at the emission schedule: an accepted block after the
  genesis block raises the total of all balances by the mining fee of its number.
\<close>

theorem addBlock_mints:
  assumes "addBlock C L E blk c = (Inr SUCCESS, c')" "ledger_ok L (l_db (c_ledger c))" "b_id blk \<noteq> 1"
  shows "ledger_ok L (l_db (c_ledger c')) \<and>
    total_supply (bal L (l_db (c_ledger c'))) =
      total_supply (bal L (l_db (c_ledger c))) + uint (getCurrentMiningFee (ucast (b_id blk)))"
  by (rule addBlock_supply [OF assms])

lemma addBlock_mints_witness:
  "\<exists>c'. addBlock sample_crypto mem_kv sample_env (sample_next sample_txs) sample_chain = (Inr SUCCESS, c') \<and>
     total_supply (bal mem_kv (l_db (c_ledger c'))) = 500100"
proof -
  obtain c' where a: "addBlock sample_crypto mem_kv sample_env (sample_next sample_txs) sample_chain = (Inr SUCCESS, c')"
    using sample_accepted by blast
  moreover have "b_id (sample_next sample_txs) = 3" by (simp add: sample_next_def sample_block_def)
  moreover have "uint (getCurrentMiningFee 3) = 500000" by code_simp
  moreover have "total_supply (bal mem_kv (x_db sample_exec)) = 100"
    using sample_supply by (simp add: xbal_def)
  ultimately show ?thesis using addBlock_mints [OF a] by (auto simp: xbal_def)
qed

text \<open>
  C4. A valid block is accepted: \<open>addBlock\<close> returns \<open>SUCCESS\<close> for every block that satisfies the
  conditions of an extension and is not older than the median of the last ten, if the lock is free,
  the database takes writes, and the new block is not one at which the difficulty is set anew.
\<close>

theorem addBlock_accepts_valid:
  assumes "kv_writes L" "\<not> c_locked c" "valid_next C L E blk c"
    and "not_too_old L E (b_timestamp blk) c" "c_numBlocks c + 1 \<le> 200 \<or> (c_numBlocks c + 1) mod 100 \<noteq> 0"
    and "fst (getState L (l_db (c_ledger c))) = Inr st"
    and "bi_ok (c_totalWork c)" "canonical (c_totalWork c)"
    and "1 \<le> unat (b_difficulty blk)" "unat (b_difficulty blk) < 2 ^ 31"
  shows "\<exists>c'. addBlock C L E blk c = (Inr SUCCESS, c')"
  by (rule addBlock_valid [OF assms])

lemma addBlock_accepts_valid_witness:
  "\<exists>c'. addBlock sample_crypto mem_kv sample_env (sample_next sample_txs) sample_chain = (Inr SUCCESS, c')"
proof -
  obtain st where "fst (getState mem_kv (l_db (c_ledger sample_chain))) = Inr st" using sample_state by blast
  from addBlock_accepts_valid [OF mem_kv_writes sample_unlocked(1) sample_valid _ _ this sample_work] show ?thesis
    by (simp add: sample_difficulty sample_unlocked not_too_old_def)
qed

text \<open>
  C6. Restarting: \<open>initChain\<close> on the block store that \<open>addBlock\<close> has left behind returns, and gives
  the block count, the last hash and the value of the total work the chain had. The difficulty is
  that of the last block. Ledger and databases are not touched.
\<close>

theorem restart_restores:
  assumes "kv_ok L" "crypto_ok C" "0 \<le> c_numBlocks c" "c_numBlocks c + 1 < 2 ^ 31"
    and "bi_ok (c_totalWork c)" "canonical (c_totalWork c)"
    and "1 \<le> unat (b_difficulty blk)" "unat (b_difficulty blk) < 2 ^ 31"
    and "block_header_wf (block_serialize blk)" "\<forall>t \<in> set (b_transactions blk). transaction_wf t"
    and "addBlock C L E blk c = (Inr SUCCESS, c')" "c_blockStore c0 = c_blockStore c'"
  shows "\<exists>c''. initChain C L E' c0 = (Inr (), c'') \<and> c_numBlocks c'' = c_numBlocks c' \<and>
    c_lastHash c'' = c_lastHash c' \<and> bi_val (c_totalWork c'') = bi_val (c_totalWork c') \<and>
    c_difficulty c'' = sint (b_difficulty blk) \<and> c_blockStore c'' = c_blockStore c' \<and>
    c_ledger c'' = c_ledger c0 \<and> c_txdb c'' = c_txdb c0"
proof -
  note e = addBlock_SUCCESS [OF assms(11)]
  have n: "b_id blk = word_of_int (c_numBlocks c')" "c_numBlocks c' = c_numBlocks c + 1"
    and w: "addWork (c_totalWork c) (b_difficulty blk) = Some (c_totalWork c')"
    using e commit_block_frame by (fastforce simp del: of_int_add)+
  have "bi_ok (c_totalWork c')" using addWork_correct [OF assms(5-8)] w pos_canonicalD by auto
  note st = added_block_stored [OF assms(1-4) this assms(9-11)]
  obtain b where b: "fst (store_getBlock L (e_mem E' 0) (e_mem E' 1) (b_id blk) (c_blockStore c')) = Inr b"
    "b_difficulty b = b_difficulty blk" "block_getHash C b = c_lastHash c'" using st(1) by blast
  obtain v where v: "getTotalWork L (c_blockStore c') = (Inr v, c_blockStore c')" "bi_val v = bi_val (c_totalWork c')"
    using st(4) by blast
  have "ucast (word_of_int (c_numBlocks c') :: u64) = b_id blk"
    by (simp add: n(1) word_uint_eq_iff uint_word_of_int unsigned_ucast_eq take_bit_eq_mod mod_mod_cancel)
  moreover have "sint (b_id blk) = c_numBlocks c'"
    unfolding n(1) by (rule sint_of_int32) (use assms(3,4) n(2) in simp_all)
  moreover have "store_getBlock L (e_mem E' 0) (e_mem E' 1) (b_id blk) (c_blockStore c') = (Inr b, c_blockStore c')"
    using b(1) quietD [OF quiet_store_getBlock] by (metis prod.collapse)
  ultimately show ?thesis
    using st(2,3) b v(2) assms(12)
    by (simp add: initChain_def bindE_getS bindE_modS bindE_Inr on_store_eq v(1) cpp_simps)
qed

lemma restart_restores_witness:
  "\<exists>c' c''. addBlock sample_crypto mem_kv sample_env (sample_next sample_txs) sample_chain = (Inr SUCCESS, c') \<and>
     initChain sample_crypto mem_kv sample_env c' = (Inr (), c'') \<and> c_numBlocks c'' = 3 \<and>
     c_lastHash c'' = c_lastHash c'"
proof -
  obtain c' where a: "addBlock sample_crypto mem_kv sample_env (sample_next sample_txs) sample_chain = (Inr SUCCESS, c')"
    using sample_accepted by blast
  moreover have "c_numBlocks c' = 3" using addBlock_SUCCESS [OF a] commit_block_frame sample_unlocked by fastforce
  ultimately show ?thesis
    using restart_restores [OF mem_kv_ok sample_crypto_ok _ _ sample_work _ _ sample_next_wf a refl]
    by (simp add: sample_unlocked sample_difficulty) blast
qed

text \<open>
  C5. Popping undoes adding: after a block has been added to a chain of at least two blocks,
  away from a retarget boundary, \<open>popBlock\<close> returns and restores block count, last hash, total
  work and every balance. The difficulty it leaves is the one after the addition.
\<close>

theorem add_then_pop:
  assumes L: "kv_ok L" "kv_writes L" "crypto_ok C" "memory_ok E'" "ledger_ok L (l_db (c_ledger c))"
    and w: "bi_ok (c_totalWork c)" "canonical (c_totalWork c)"
    and n: "2 \<le> c_numBlocks c" "c_numBlocks c + 1 < 2 ^ 31" "c_numBlocks c \<le> 200 \<or> c_numBlocks c mod 100 \<noteq> 0"
    and wf: "block_header_wf (block_serialize blk)" "\<forall>t \<in> set (b_transactions blk). transaction_wf t"
    and d: "1 \<le> unat (b_difficulty blk)" "unat (b_difficulty blk) < 2 ^ 31"
    and top: "stored_top C L (word_of_int (c_numBlocks c)) (c_lastHash c) (c_blockStore c)"
    and add: "addBlock C L E blk c = (Inr SUCCESS, c')"
  shows "\<exists>c''. popBlock C L E' c' = (Inr (), c'') \<and>
    c_numBlocks c'' = c_numBlocks c \<and> c_lastHash c'' = c_lastHash c \<and>
    ledger_ok L (l_db (c_ledger c'')) \<and>
    wbal (bal L (l_db (c_ledger c''))) = wbal (bal L (l_db (c_ledger c))) \<and>
    bi_ok (c_totalWork c'') \<and> bi_val (c_totalWork c'') = bi_val (c_totalWork c) \<and>
    c_difficulty c'' = c_difficulty c'"
proof -
  from added_block_parts [OF add] obtain ts x c1 m cc where
    nl: "\<not> c_locked c" "c' = c1\<lparr>c_locked := False\<rparr>" and id: "b_id blk = word_of_int (c_numBlocks c + 1)" and
    it: "setItems C (e_mem E 3) (e_mem E 4) (b_transactions blk) = Inr (m, ts)" and
    ex: "ExecuteBlock C L (e_mem E 5) (e_mem E 6) (blk\<lparr>b_transactions := ts\<rparr>) (c_txdb c)
       (ucast (getCurrentMiningFee (ucast (b_id blk)))) (exec_of c) = (Inr SUCCESS, x)" and
    cm: "commit_block C L E (blk\<lparr>b_transactions := ts\<rparr>) (c\<lparr>c_locked := True, c_pfcache := cc,
       c_ledger := (c_ledger c)\<lparr>l_db := x_db x\<rparr>, c_invalid := x_invalid x\<rparr>) = (Inr (), c1)"
    by metis
  let ?b = "blk\<lparr>b_transactions := ts\<rparr>"
  have ub: "uint (b_id blk) = c_numBlocks c + 1" using id uint_suc_id n(1,2) by simp
  have ub1: "uint (word_of_int (c_numBlocks c) :: u32) = c_numBlocks c" using n(1,2) by (simp add: uint_word_of_int)
  have ne1: "b_id ?b \<noteq> 1" using ub n(1) by auto
  have nei: "word_of_int (c_numBlocks c) \<noteq> b_id ?b" using ub ub1 by auto
  have len: "length (b_transactions ?b) < 2 ^ 32"
    using sorted_copy_wf [OF it wf(2)] addBlock_SUCCESS [OF add] by (auto simp: MAX_TRANSACTIONS_PER_BLOCK_def)
  have twf: "\<forall>t \<in> set (b_transactions ?b). transaction_wf t" using sorted_copy_wf [OF it wf(2)] by simp
  have hwf: "block_header_wf (block_serialize ?b)"
    using wf(1) sorted_copy_wf [OF it wf(2)] by (simp add: block_serialize_def block_header_wf_def)
  note f = commit_block_frame [OF cm]
  note ct = committed_top [OF L(1,3) cm hwf twf len]
  obtain b where b: "fst (store_getBlock L (e_mem E' 0) (e_mem E' 1) (b_id ?b) (c_blockStore c1)) = Inr b"
    "block_eq b ?b" "\<forall>t \<in> set (b_transactions b). transaction_wf t"
    using ct(2) [of "e_mem E' 0" "e_mem E' 1"] L(4) by (auto simp: memory_ok_def)
  have db: "b_difficulty b = b_difficulty blk" using b(2) by (simp add: block_eq_iff)
  obtain d tx' where u: "RollbackBlock C L (e_wallet E') (e_mem E' 8) b (x_db x, c_txdb c1) = (Inr (), (d, tx'))"
    "ledger_ok L d" "wbal (bal L d) = wbal (xbal L (exec_of c))"
    using ExecuteBlock_undone [OF L(2) exec_ok_start [OF L(5)] ne1 ex block_eq_same_txs [OF b(2)]] by blast
  obtain w1 where w1: "addWork (c_totalWork c) (b_difficulty blk) = Some w1" "pos_canonical w1"
    "bi_val w1 = bi_val (c_totalWork c) + 2 ^ unat (b_difficulty blk)"
    using addWork_correct [OF w d] by blast
  have cw: "c_totalWork c1 = w1" using f w1 by simp
  have "0 \<le> bi_val (c_totalWork c)" using w(1) by (simp add: bi_val_def bi_ok_def bval_nonneg)
  then obtain w2 where w2: "removeWork w1 (b_difficulty b) = Some w2" "bi_ok w2" "bi_val w2 = bi_val (c_totalWork c)"
    using removeWork_correct [OF w1(2) d] w1(3) db by auto
  have prev: "stored_top C L (word_of_int (c_numBlocks c)) (c_lastHash c) (c_blockStore c1)"
    using ct(3) [OF nei] top by simp
  have "\<exists>sd. popBlock C L E' c' = (Inr (), c'\<lparr>c_ledger := (c_ledger c')\<lparr>l_db := d\<rparr>, c_txdb := tx',
    c_numBlocks := c_numBlocks c' - 1, c_totalWork := w2, c_blockStore := sd, c_lastHash := c_lastHash c\<rparr>)"
    by (rule popBlock_returns [OF L(1-3) _ _ _ b(3)])
      (use n b(1) u(1) f w2(1) cw prev nl(2) id in \<open>simp_all\<close>)
  then show ?thesis using u(2,3) w2(2,3) f nl(2) by (auto simp: xbal_def)
qed

lemma add_then_pop_witness:
  "\<exists>c' c''. addBlock sample_crypto mem_kv sample_env (sample_next sample_txs) sample_chain = (Inr SUCCESS, c') \<and>
     popBlock sample_crypto mem_kv sample_env c' = (Inr (), c'') \<and> c_numBlocks c'' = 2 \<and>
     wbal (bal mem_kv (l_db (c_ledger c''))) (sample_wallet 1) = 100"
proof -
  obtain c' where a: "addBlock sample_crypto mem_kv sample_env (sample_next sample_txs) sample_chain = (Inr SUCCESS, c')"
    using sample_accepted by blast
  have w: "wbal (bal mem_kv (x_db sample_exec)) (sample_wallet 1) = 100"
    using sample_xbal by (simp add: xbal_def wbal_def)
  show ?thesis
    using add_then_pop [OF mem_kv_ok mem_kv_writes sample_crypto_ok sample_memory _ sample_work _ _ _
        sample_next_wf _ _ _ a] a w sample_top_stored
    by (auto simp: sample_unlocked sample_difficulty)
qed

end
