(* ===== verification/Admission.thy ===== *)
theory Admission
  imports ChainProperties
begin

text \<open>
  The part of \<open>server/mempool.cpp\<close> that asks the chain: \<open>MemPool::addTransaction\<close> and one
  iteration of the thread \<open>MemPool::mempool_sync\<close>; and what \<open>BlockChain::verifyTransaction\<close>
  makes of them. The mempool is the one the chain points to, \<open>c_memPool\<close>.

  \<open>Executor::Rollback\<close> cannot undo a transaction by which its sender loses money, and
  \<open>verifyTransaction\<close> runs it after every successful check: it throws, with the sender debited.
  So no transaction is ever admitted, and \<open>node_step\<close>, all that happens to the chain and the
  mempool of a node, keeps the queue and the list of transactions to send empty.
\<close>

section \<open>Adding a transaction\<close>

definition pool_get :: "('d blockchain, mempool) cpp" where
  "pool_get = bindE getS (\<lambda>c. case c_memPool c of None \<Rightarrow> throw UB | Some p \<Rightarrow> ok p)"

definition pool_mod :: "(mempool \<Rightarrow> mempool) \<Rightarrow> ('d blockchain, unit) cpp" where
  "pool_mod f = modS (\<lambda>c. c\<lparr>c_memPool := map_option f (c_memPool c)\<rparr>)"

text \<open>
  The two branches behind the first checks; \<open>p\<close> is the mempool, which nobody else changes as
  its mutex is held. \<open>mem'\<close> is the memory of the node of the set.
\<close>

definition admit_transfer ::
  "crypto \<Rightarrow> 'd kv \<Rightarrow> env \<Rightarrow> transaction \<Rightarrow> mempool \<Rightarrow> transaction \<Rightarrow> ('d blockchain, execution_status) cpp" where
  "admit_transfer C L E mem' p t =
     (let totalRequired = t_amount t + t_fee t; from = t_from t in
      bindE (chain_getWalletValue L from) (\<lambda>currentBalance.
      bindE (pool_mod (\<lambda>p. p\<lparr>mp_outgoing := touch from (mp_outgoing p)\<rparr>)) (\<lambda>_.
      bindE (verifyTransaction C L E t) (\<lambda>status.
      if status \<noteq> SUCCESS then ok status
      else if currentBalance < totalRequired + entry from (mp_outgoing p) then ok BALANCE_TOO_LOW
      else
        bindE (pool_mod (\<lambda>p. p\<lparr>mp_nonces := touch from (mp_nonces p)\<rparr>)) (\<lambda>_.
        if t_nonce t \<noteq> entry from (mp_nonces p) then ok INVALID_NONCE
        else
          bindE (pool_mod (\<lambda>p. p\<lparr>
            mp_outgoing := omap_put from (entry from (mp_outgoing p) + totalRequired) (mp_outgoing p),
            mp_queue := queue_insert C mem' t (mp_queue p),
            mp_nonces := omap_put from (entry from (mp_nonces p) + 1) (mp_nonces p)\<rparr>)) (\<lambda>_.
          ok SUCCESS))))))"

definition admit_fee ::
  "crypto \<Rightarrow> 'd kv \<Rightarrow> env \<Rightarrow> transaction \<Rightarrow> transaction \<Rightarrow> ('d blockchain, execution_status) cpp" where
  "admit_fee C L E mem' t =
     bindE (verifyTransaction C L E t) (\<lambda>status.
     if status \<noteq> SUCCESS then ok status
     else bindE (pool_mod (\<lambda>p. p\<lparr>mp_queue := queue_insert C mem' t (mp_queue p)\<rparr>)) (\<lambda>_.
          ok SUCCESS))"

text \<open>\<open>mem\<close> is the memory of the parameter, which is passed by value.\<close>

definition mp_addTransaction ::
  "crypto \<Rightarrow> 'd kv \<Rightarrow> env \<Rightarrow> u64 \<Rightarrow> transaction \<Rightarrow> transaction \<Rightarrow> transaction \<Rightarrow>
   ('d blockchain, execution_status) cpp" where
  "mp_addTransaction C L E now mem mem' t =
     (let t = tx_copy mem t in
      bindE pool_get (\<lambda>p.
      if isExpired now t then ok EXPIRED_TRANSACTION
      else if queue_count C t (mp_queue p) then ok ALREADY_IN_QUEUE
      else if t_fee t < MIN_FEE_TO_ENTER_MEMPOOL then ok TRANSACTION_FEE_TOO_LOW
      else if \<not> t_isTransactionFee t then admit_transfer C L E mem' p t
      else admit_fee C L E mem' t))"

section \<open>One iteration of the sending thread\<close>

text \<open>The transactions that still verify; an exception counts as not verifying.\<close>

fun revalidate :: "crypto \<Rightarrow> 'd kv \<Rightarrow> env \<Rightarrow> transaction list \<Rightarrow> ('d blockchain, transaction list) cpp" where
  "revalidate C L E [] = ok []"
| "revalidate C L E (t # q) =
     bindE (catchE (bindE (verifyTransaction C L E t) (\<lambda>status. ok (status = SUCCESS))) (ok False)) (\<lambda>keep.
     bindE (revalidate C L E q) (\<lambda>q'. ok (if keep then t # q' else q')))"

definition MAX_AGE_OF_FAILURE :: int where
  "MAX_AGE_OF_FAILURE = 24 * 60 * 60 * 10 ^ 9"

text \<open>The neighbours that are as high as the highest of them; without any, \<open>maxIter\<close> is \<open>end()\<close>.\<close>

definition highest_neighbors :: "(string \<Rightarrow> int) \<Rightarrow> string list \<Rightarrow> string list option" where
  "highest_neighbors height ns =
     (if ns = [] then None
      else Some (filter (\<lambda>n. \<not> height n < Max (height ` set ns)) ns))"

text \<open>
  What the other nodes do is given by the arguments: the neighbours and their heights, and
  which sends succeed within the three attempts. \<open>failed\<close> is the thread's own map of failures
  with their times in nanoseconds; \<open>later\<close> is the time at which new failures are noted.
\<close>

definition mempool_sync_step ::
  "crypto \<Rightarrow> 'd kv \<Rightarrow> env \<Rightarrow> (nat \<Rightarrow> transaction) \<Rightarrow> int \<Rightarrow> int \<Rightarrow> string list \<Rightarrow> (string \<Rightarrow> int) \<Rightarrow>
   (string \<Rightarrow> nat \<Rightarrow> bool) \<Rightarrow> (string \<times> int) list \<Rightarrow> ('d blockchain, (string \<times> int) list) cpp" where
  "mempool_sync_step C L E mem now later neighbors height sent failed =
     bindE pool_get (\<lambda>p.
     if mp_toSend p = [] then ok failed
     else
       (let txs = copy_list mem (mp_toSend p) in
        bindE (pool_mod (\<lambda>p. p\<lparr>mp_toSend := []\<rparr>)) (\<lambda>_.
        bindE (revalidate C L E (mp_queue p)) (\<lambda>q.
        bindE (pool_mod (\<lambda>p. p\<lparr>mp_queue := q\<rparr>)) (\<lambda>_.
        if q = [] then ok failed
        else
          (let failed = filter (\<lambda>(n, at). \<not> MAX_AGE_OF_FAILURE < now - at) failed in
           case highest_neighbors height neighbors of
             None \<Rightarrow> throw UB
           | Some ns \<Rightarrow>
               (let tried = filter (\<lambda>n. map_of failed n = None) ns;
                    bad = filter (\<lambda>n. \<exists>i \<in> set [0..<length txs]. \<not> sent n i) tried in
                bindE (if bad \<noteq> [] then pool_mod (\<lambda>p. p\<lparr>mp_toSend := mp_toSend p @ copy_list mem txs\<rparr>)
                       else ok ()) (\<lambda>_.
                ok (fold (\<lambda>n m. omap_put n later m) bad failed))))))))) "

section \<open>What a check of a transaction does\<close>

lemma forE_withdraw_any:
  assumes "forE ds (\<lambda>it. ledger_withdraw L (fst it) (snd it)) d = (r, d')" "ledger_ok L d"
  shows "ledger_ok L d' \<and> (\<forall>w. (\<forall>(u, a) \<in> set ds. u = w \<longrightarrow> \<not> a \<le> wbal (bal L d) w) \<longrightarrow>
    bal L d' w = bal L d w)"
  using assms
proof (induction ds arbitrary: d)
  case (Cons p ds)
  obtain u b where p: "p = (u, b)" by (cases p)
  show ?case
  proof (cases "ledger_withdraw L u b d")
    case (Pair q t)
    show ?thesis
    proof (cases q)
      case (Inl e)
      with Pair Cons.prems withdraw.op_throws [of L d u b e t] show ?thesis by (auto simp: p bindE_def)
    next
      case (Inr x)
      with Pair Cons.prems(1) have r: "forE ds (\<lambda>it. ledger_withdraw L (fst it) (snd it)) t = (r, d')"
        by (simp add: p bindE_def)
      from Inr Pair withdraw.op_returns [OF Cons.prems(2), of u b t] obtain v where
        t: "ledger_ok L t" "bal L d u = Some v" "b \<le> v" "bal L t = (bal L d)(u \<mapsto> v - b)"
        by (auto simp: sub_checked_def split: if_splits)
      have "bal L d' w = bal L d w" if n: "\<forall>(u, a) \<in> set (p # ds). u = w \<longrightarrow> \<not> a \<le> wbal (bal L d) w" for w
      proof -
        have "u \<noteq> w" using n t(2,3) by (auto simp: p wbal_def)
        then have "bal L t w = bal L d w" by (simp add: t(4))
        with Cons.IH [OF r t(1)] n show ?thesis by (auto simp: wbal_def)
      qed
      with Cons.IH [OF r t(1)] show ?thesis by blast
    qed
  qed
qed simp

text \<open>A rollback that meets a wallet that lost money leaves that wallet as it is.\<close>

lemma Rollback_loser:
  assumes "tracks L m0 x" "Rollback L (x_deltas x) (x_db x) = (r, d)"
    and "wbal (xbal L x) w < wbal m0 w"
  shows "bal L d w = xbal L x w"
proof -
  have ok: "ledger_ok L (x_db x)" "distinct (map fst (x_deltas x))"
    using assms(1) by (auto simp: tracks_def exec_ok_def omap_wf_distinct)
  have "\<not> a \<le> wbal (bal L (x_db x)) w" if "(w, a) \<in> set (x_deltas x)" for a
  proof -
    have "delta x w = a" using that ok(2) by (simp add: delta_def)
    then have "wbal (xbal L x) w = wbal m0 w + a" using assms(1) by (simp add: tracks_def)
    with assms(3) word_le_sum_iff [of a "wbal m0 w"] show ?thesis by (auto simp: xbal_def)
  qed
  with forE_withdraw_any [OF assms(2) [unfolded Rollback_def] ok(1)] show ?thesis
    by (auto simp: xbal_def)
qed

lemma pay_loss:
  assumes "pay m from to miner amt fee = Some m'" "0 < fee" "from \<noteq> miner"
  shows "wbal m' from < wbal m from"
    and "from \<noteq> to \<Longrightarrow> wbal m' from = wbal m from - (amt + fee)"
proof -
  from assms(1,2) obtain m1 m2 m3 where d: "debit m from amt = Some m1" "credit m1 to amt = Some m2"
    "debit m2 from fee = Some m3" "credit m3 miner fee = Some m'"
    by (auto simp: pay_def split: bind_splits)
  have 4: "wbal m' from = wbal m2 from - fee" "fee \<le> wbal m2 from"
    using wbal_credit [OF d(4)] wbal_debit [OF d(3)] assms(3) d(3)
    by (auto simp: wbal_def debit_def split: option.splits if_splits)
  have 2: "wbal m2 from = (if from = to then wbal m from else wbal m from - amt)" "amt \<le> wbal m from"
    using wbal_credit [OF d(2)] wbal_debit [OF d(1)] d(1)
    by (auto simp: wbal_def debit_def split: option.splits if_splits)
  have "wbal m2 from \<le> wbal m from" using 2 by (simp add: word_sub_le)
  moreover have "wbal m2 from - fee < wbal m2 from"
    using 4(2) assms(2) by (simp add: word_less_nat_alt word_le_nat_alt unat_sub)
  ultimately show "wbal m' from < wbal m from" using 4(1) by simp
  show "from \<noteq> to \<Longrightarrow> wbal m' from = wbal m from - (amt + fee)" using 2 4 by (simp add: algebra_simps)
qed

text \<open>No key has the address that consists of zeros: it would need a hash of zeros.\<close>

definition no_null_wallet :: "crypto \<Rightarrow> bool" where
  "no_null_wallet C \<longleftrightarrow> (\<forall>k. walletAddressFromPublicKey C k \<noteq> NULL_ADDRESS)"

lemma ExecuteTransaction_loss:
  assumes "t_from t \<noteq> NULL_ADDRESS" "exec_ok L x" "ExecuteTransaction C L mem t x = (Inr SUCCESS, x')"
    and "\<not> t_isTransactionFee t" "0 < t_fee t"
  shows "wbal (xbal L x') (t_from t) < wbal (xbal L x) (t_from t) \<and>
    (t_from t \<noteq> t_to t \<longrightarrow> wbal (xbal L x') (t_from t) = wbal (xbal L x) (t_from t) - (t_amount t + t_fee t))"
proof -
  let ?t = "tx_copy mem t"
  have u: "updateLedger C L ?t NULL_ADDRESS 0 0 x = (Inr SUCCESS, x')"
    using assms(3,4) by (auto simp: ExecuteTransaction_def Let_def split: if_splits)
  have "pay (xbal L x) (t_from t) (t_to t) NULL_ADDRESS (t_amount t) (t_fee t) = Some (xbal L x')"
    using updateLedger_transfer_success [OF assms(2) _ _ u] assms(4) by simp
  from pay_loss [OF this assms(5,1)] show ?thesis by blast
qed

lemma ExecuteTransaction_sender:
  "ExecuteTransaction C L mem t x = (Inr SUCCESS, x') \<Longrightarrow> \<not> t_isTransactionFee t \<Longrightarrow>
   walletAddressFromPublicKey C (t_signingKey t) = t_from t"
  by (auto simp: ExecuteTransaction_def Let_def split: if_splits)

lemma with_deltas_Inr:
  "with_deltas m c = (Inr (a, ds), c') \<longleftrightarrow>
    (\<exists>x. m (exec_of c) = (Inr a, x) \<and> ds = x_deltas x \<and>
       c' = c\<lparr>c_ledger := (c_ledger c)\<lparr>l_db := x_db x\<rparr>, c_invalid := x_invalid x\<rparr>)"
proof (cases "m (exec_of c)")
  case (Pair q x)
  then show ?thesis by (cases q) (auto simp: with_deltas_def)
qed

lemma verifyTransaction_never:
  assumes "no_null_wallet C" "ledger_ok L (l_db (c_ledger c))" "0 < t_fee t"
  shows "fst (verifyTransaction C L E t c) \<noteq> Inr SUCCESS"
proof
  assume "fst (verifyTransaction C L E t c) = Inr SUCCESS"
  then obtain c' where v: "verifyTransaction C L E t c = (Inr SUCCESS, c')" by (metis prod.collapse)
  then have nf: "\<not> t_isTransactionFee t" by (auto simp: verifyTransaction_def bindE_getS split: if_splits)
  from v obtain n c1 where n: "chain_getWalletNonce (t_from t) c = (Inr n, c1)"
    and w: "with_lock (bindE (on_db (getState L)) (\<lambda>snapshot.
         bindE (with_deltas (ExecuteTransaction C L (e_mem E 0 0) t)) (\<lambda>(status, deltas).
         bindE (on_db (Rollback L deltas)) (\<lambda>_.
         bindE getS (\<lambda>c.
         ok (if tx_hasTransaction C L t (c_txdb c) then EXPIRED_TRANSACTION else status)))))) c1 = (Inr SUCCESS, c')"
    by (auto simp: verifyTransaction_def bindE_getS bindE_eq_Inr [where m = "chain_getWalletNonce _"] split: if_splits)
  from n have c1: "c_ledger c1 = c_ledger c"
    by (auto simp: chain_getWalletNonce_def with_lock_Inr bindE_getS)
  from w obtain st c2 status deltas c3 c4 where
    s: "on_db (getState L) (c1\<lparr>c_locked := True\<rparr>) = (Inr st, c2)" and
    e: "with_deltas (ExecuteTransaction C L (e_mem E 0 0) t) c2 = (Inr (status, deltas), c3)" and
    r: "on_db (Rollback L deltas) c3 = (Inr (), c4)" and
    su: "status = SUCCESS"
    by (auto simp: with_lock_Inr bindE_eq_Inr bindE_getS split: if_splits prod.splits)
  have c2: "c_ledger c2 = c_ledger c" using quietD [OF quiet_on(3) [OF quiet_getState] s] c1 by simp
  from e obtain x where x: "ExecuteTransaction C L (e_mem E 0 0) t (exec_of c2) = (Inr SUCCESS, x)"
    "deltas = x_deltas x" "l_db (c_ledger c3) = x_db x"
    by (auto simp: with_deltas_Inr su)
  have ok2: "exec_ok L (exec_of c2)" "tracks L (bal L (l_db (c_ledger c))) (exec_of c2)"
    using exec_ok_start [of L c2] tracks_start [of L c2] assms(2) c2 by simp_all
  note tr = bookkeeping_tracks(1) [OF bookkeeping_ExecuteTransaction ok2(2) x(1)]
  have "t_from t \<noteq> NULL_ADDRESS"
    using ExecuteTransaction_sender [OF x(1) nf] assms(1) by (auto simp: no_null_wallet_def)
  from ExecuteTransaction_loss [OF this ok2(1) x(1) nf assms(3)]
  have "wbal (xbal L x) (t_from t) < wbal (bal L (l_db (c_ledger c))) (t_from t)" by (simp add: xbal_def c2)
  from Rollback_throws [OF tr this] r x(2,3) show False by (auto simp: on_db_eq)
qed

section \<open>What is kept by everything a node does\<close>

definition node_ok :: "'d kv \<Rightarrow> 'd blockchain \<Rightarrow> bool" where
  "node_ok L c \<longleftrightarrow> ledger_ok L (l_db (c_ledger c)) \<and>
     (\<forall>p. c_memPool c = Some p \<longrightarrow> mp_queue p = [] \<and> mp_toSend p = [])"

lemma quiet_getWalletValue [quiets]: "quiet (getWalletValue L w)"
  by (auto simp: quiet_def getWalletValue_def load_def split: option.splits)

lemma keeps_quiet: "quiet m \<Longrightarrow> keeps I m"
  by (auto simp: quiet_def keeps_def)

lemma node_ok_same:
  "c_ledger c' = c_ledger c \<Longrightarrow> c_memPool c' = c_memPool c \<Longrightarrow> node_ok L c' = node_ok L c"
  by (simp add: node_ok_def)

lemma keeps_on [keeping]:
  "keeps (node_ok L) (on_store m)" "keeps (node_ok L) (on_txdb m)" "keeps (node_ok L) (on_cache m)"
  "keeps (ledger_ok L) m' \<Longrightarrow> keeps (node_ok L) (on_db m')"
  by (rule keepsI, auto simp: on_store_eq on_txdb_eq on_cache_eq on_db_eq node_ok_def dest: keepsD)+

lemma keeps_with_deltas [keeping]:
  assumes "bookkeeping L m"
  shows "keeps (node_ok L) (with_deltas m)"
proof (rule keepsI)
  fix c r c' assume i: "node_ok L c" and w: "with_deltas m c = (r, c')"
  from w obtain q x where x: "m (exec_of c) = (q, x)"
    "c' = c\<lparr>c_ledger := (c_ledger c)\<lparr>l_db := x_db x\<rparr>, c_invalid := x_invalid x\<rparr>"
    by (auto simp: with_deltas_eq)
  have "exec_ok L (exec_of c)" using i by (intro exec_ok_start) (simp add: node_ok_def)
  with assms x(1) have "exec_ok L x" by (auto simp: bookkeeping_def evolves_def)
  with i x(2) show "node_ok L c'" by (simp add: node_ok_def exec_ok_def)
qed

lemma keeps_with_lock [keeping]: "keeps (node_ok L) m \<Longrightarrow> keeps (node_ok L) (with_lock m)"
proof (rule keepsI)
  fix c r c' assume k: "keeps (node_ok L) m" and i: "node_ok L c" and w: "with_lock m c = (r, c')"
  have "node_ok L (snd (m (c\<lparr>c_locked := True\<rparr>)))"
    using k i by (simp add: keeps_def node_ok_same [of "c\<lparr>c_locked := True\<rparr>" c])
  then show "node_ok L c'" using w i
    by (auto simp: with_lock_def node_ok_def split: if_splits prod.splits sum.splits exn.splits)
qed

lemma keeps_ledger [keeping]:
  "keeps (ledger_ok L) (Rollback L ds)" "keeps (ledger_ok L) (revertSend L w a)"
  "keeps (ledger_ok L) (revertDeposit L w a)" "keeps (ledger_ok L) (getState L)"
proof -
  show "keeps (ledger_ok L) (Rollback L ds)"
    by (rule keepsI) (simp add: Rollback_def, drule (1) forE_withdraw_any, simp)
  show "keeps (ledger_ok L) (revertSend L w a)"
  proof (rule keepsI)
    fix d r d' assume "ledger_ok L d" "revertSend L w a d = (r, d')"
    then show "ledger_ok L d'"
      by (cases r) (auto dest: revert_send.op_returns revert_send.op_throws)
  qed
  show "keeps (ledger_ok L) (revertDeposit L w a)"
  proof (rule keepsI)
    fix d r d' assume "ledger_ok L d" "revertDeposit L w a d = (r, d')"
    then show "ledger_ok L d'"
      by (cases r) (auto dest: revert_deposit.op_returns revert_deposit.op_throws)
  qed
  show "keeps (ledger_ok L) (getState L)" by (rule keeps_quiet [OF quiet_getState])
qed

lemma ledger_ok_del: "ledger_ok L d \<Longrightarrow> kv_del L d k = Some d' \<Longrightarrow> ledger_ok L d'"
  by (auto simp: ledger_ok_def kv_ok_def split: if_splits)

lemma keeps_ledger_clear [keeping]: "keeps (ledger_ok L) (ledger_clear L)"
proof (rule keepsI)
  fix d r d' assume i: "ledger_ok L d" and c: "ledger_clear L d = (r, d')"
  have "ledger_ok L (fold (\<lambda>k d. case kv_del L d k of None \<Rightarrow> d | Some d' \<Rightarrow> d') ks d)" for ks
    using i by (induction ks arbitrary: d) (auto split: option.splits dest: ledger_ok_del)
  with c show "ledger_ok L d'" by (auto simp: ledger_clear_def)
qed

lemma keeps_chain [keeping]:
  "keeps (node_ok L) (chain_getBlock L E i)" "keeps (node_ok L) (check_timestamp L E blk)"
  "keeps (node_ok L) (chain_getWalletNonce w)"
  by (auto intro!: keeps_quiet quiets keeping simp: chain_getWalletNonce_def)

lemma keeps_verifyTransaction [keeping]: "keeps (node_ok L) (verifyTransaction C L E t)"
  unfolding verifyTransaction_def by (intro keeping booking)


lemma finishBlock_empty: "mp_queue p = [] \<Longrightarrow> finishBlock C b p = p"
proof -
  have "fold (finish_transaction C) ts p = p" if "mp_queue p = []" for ts
    using that by (induction ts) (simp_all add: finish_transaction_def queue_count_def)
  then show "mp_queue p = [] \<Longrightarrow> finishBlock C b p = p" by (simp add: finishBlock_def)
qed

lemma keeps_blocks [keeping]:
  "keeps (node_ok L) (updateDifficulty L E)" "keeps (node_ok L) (commit_block C L E blk)"
  "keeps (node_ok L) (check_block C L E blk)"
proof -
  show u: "keeps (node_ok L) (updateDifficulty L E)"
    unfolding updateDifficulty_def Let_def by (intro keeping) (simp add: node_ok_def)
  show "keeps (node_ok L) (commit_block C L E blk)"
    unfolding commit_block_def by (intro keeping u) (auto simp: node_ok_def finishBlock_empty)
  show "keeps (node_ok L) (check_block C L E blk)"
    unfolding check_block_def by (intro keeping)
qed

lemma keeps_addBlock [keeping]: "keeps (node_ok L) (addBlock C L E blk)"
  unfolding addBlock_def addBlock_body_def execute_block_def by (intro keeping booking)

lemma keeps_resetChain [keeping]: "keeps (node_ok L) (resetChain C L E)"
  unfolding resetChain_def by (intro keeping) (simp add: node_ok_def)

lemma keeps_rollbackLedger [keeping]: "keeps (ledger_ok L) (rollbackLedger L t miner)"
  unfolding rollbackLedger_def Let_def by (intro keeping)

lemma keeps_undo [keeping]: "keeps (node_ok L) (on_ledger_and_txdb (RollbackBlock C L junk mem b))"
proof -
  have "keeps (\<lambda>s. ledger_ok L (fst s)) (zoom fst (\<lambda>d s. (d, snd s)) (rollbackLedger L t w))" for t w
    by (rule keeps_zoom [OF keeps_rollbackLedger]) simp_all
  moreover have "keeps (\<lambda>s. ledger_ok L (fst s)) (zoom snd (\<lambda>d s. (fst s, d)) m)" for m
    by (rule keeps_zoom [where J = "\<lambda>_. True"]) (simp_all add: keeps_def)
  ultimately have "keeps (\<lambda>s. ledger_ok L (fst s)) (RollbackBlock C L junk mem b)"
    unfolding RollbackBlock_def Let_def by (intro keeping)
  then show ?thesis unfolding on_ledger_and_txdb_def
    by (rule keeps_zoom) (auto simp: node_ok_def)
qed

lemma keeps_popBlock [keeping]: "keeps (node_ok L) (popBlock C L E)"
  unfolding popBlock_def by (intro keeping) (simp_all add: node_ok_def)

lemma keeps_recomputeLedger [keeping]: "keeps (node_ok L) (recomputeLedger C L E)"
  unfolding recomputeLedger_def recompute_block_def
  by (intro keeping booking) (simp_all add: node_ok_def)

lemma keeps_initChain [keeping]: "keeps (node_ok L) (initChain C L E)"
  unfolding initChain_def by (intro keeping) (simp_all add: node_ok_def)

lemma keeps_cleanup [keeping]: "keeps (node_ok L) (pool_mod (cleanupExpiredTransactions now))"
  unfolding pool_mod_def
  by (intro keeping) (auto simp: node_ok_def cleanupExpiredTransactions_def)

text \<open>A statement that asks for a verification and stops at every answer but \<open>SUCCESS\<close>.\<close>

lemma after_verify:
  assumes "no_null_wallet C" "ledger_ok L (l_db (c_ledger c))" "0 < t_fee t"
    and "bindE (verifyTransaction C L E t) (\<lambda>status. if status \<noteq> SUCCESS then ok status else K) c = (r, c')"
  shows "r \<noteq> Inr SUCCESS \<and> (node_ok L c \<longrightarrow> node_ok L c')"
proof -
  obtain q c1 where v: "verifyTransaction C L E t c = (q, c1)" by fastforce
  have "q \<noteq> Inr SUCCESS" using verifyTransaction_never [OF assms(1-3), of E] v by simp
  moreover have "node_ok L c \<Longrightarrow> node_ok L c1" by (rule keepsD [OF keeps_verifyTransaction v])
  ultimately show ?thesis using assms(4) v by (cases q) (auto simp: bindE_def split: if_splits)
qed

lemma admit_transfer_refuses:
  assumes "no_null_wallet C" "ledger_ok L (l_db (c_ledger c))" "0 < t_fee t"
    and a: "admit_transfer C L E mem' p t c = (r, c')"
  shows "r \<noteq> Inr SUCCESS \<and> (node_ok L c \<longrightarrow> node_ok L c')"
proof -
  obtain q c1 where g: "chain_getWalletValue L (t_from t) c = (q, c1)" by fastforce
  then have c1: "c1 = c" unfolding chain_getWalletValue_def
    by (rule quietD [OF quiet_on(3) [OF quiet_getWalletValue]])
  let ?c2 = "c\<lparr>c_memPool := map_option (\<lambda>p. p\<lparr>mp_outgoing := touch (t_from t) (mp_outgoing p)\<rparr>) (c_memPool c)\<rparr>"
  have n2: "node_ok L c \<Longrightarrow> node_ok L ?c2" by (auto simp: node_ok_def)
  show ?thesis
  proof (cases q)
    case (Inl e)
    with a g c1 show ?thesis by (auto simp: admit_transfer_def Let_def bindE_Inl)
  next
    case (Inr v)
    have "ledger_ok L (l_db (c_ledger ?c2))" using assms(2) by simp
    note av = after_verify [OF assms(1) this assms(3)]
    from a g c1 Inr have "bindE (verifyTransaction C L E t) (\<lambda>status. if status \<noteq> SUCCESS then ok status
        else if v < t_amount t + t_fee t + entry (t_from t) (mp_outgoing p) then ok BALANCE_TOO_LOW
        else bindE (pool_mod (\<lambda>p. p\<lparr>mp_nonces := touch (t_from t) (mp_nonces p)\<rparr>)) (\<lambda>_.
          if t_nonce t \<noteq> entry (t_from t) (mp_nonces p) then ok INVALID_NONCE
          else bindE (pool_mod (\<lambda>p. p\<lparr>
            mp_outgoing := omap_put (t_from t) (entry (t_from t) (mp_outgoing p) + (t_amount t + t_fee t)) (mp_outgoing p),
            mp_queue := queue_insert C mem' t (mp_queue p),
            mp_nonces := omap_put (t_from t) (entry (t_from t) (mp_nonces p) + 1) (mp_nonces p)\<rparr>)) (\<lambda>_.
          ok SUCCESS))) ?c2 = (r, c')"
      by (simp add: admit_transfer_def Let_def bindE_Inr pool_mod_def bindE_modS)
    from av [OF this] n2 show ?thesis by blast
  qed
qed

lemma mp_addTransaction_refuses:
  assumes "no_null_wallet C" "ledger_ok L (l_db (c_ledger c))"
    and a: "mp_addTransaction C L E now mem mem' t c = (r, c')"
  shows "r \<noteq> Inr SUCCESS \<and> (node_ok L c \<longrightarrow> node_ok L c')"
proof (cases "c_memPool c")
  case None
  with a show ?thesis by (auto simp: mp_addTransaction_def pool_get_def bindE_def Let_def)
next
  case (Some p)
  let ?t = "tx_copy mem t"
  have pg: "bindE pool_get f c = f p c" for f :: "mempool \<Rightarrow> ('a blockchain, execution_status) cpp"
    by (simp add: pool_get_def bindE_def Some)
  have fee: "0 < t_fee ?t" if "\<not> t_fee ?t < MIN_FEE_TO_ENTER_MEMPOOL"
    using that by (auto simp: MIN_FEE_TO_ENTER_MEMPOOL_def word_gt_0)
  consider "r \<noteq> Inr SUCCESS" "c' = c"
    | "0 < t_fee ?t" "admit_transfer C L E mem' p ?t c = (r, c')"
    | "0 < t_fee ?t" "admit_fee C L E mem' ?t c = (r, c')"
    using a fee by (auto simp: mp_addTransaction_def Let_def pg split: if_splits)
  then show ?thesis
  proof cases
    case 2
    show ?thesis by (rule admit_transfer_refuses [OF assms(1,2) 2])
  next
    case 3
    from after_verify [OF assms(1,2) 3(1) 3(2) [unfolded admit_fee_def]] show ?thesis .
  qed simp
qed

lemma keeps_sync_step [keeping]: "keeps (node_ok L) (mempool_sync_step C L E mem now later ns height sent failed)"
proof (rule keepsI)
  fix c r c' assume i: "node_ok L c"
    and s: "mempool_sync_step C L E mem now later ns height sent failed c = (r, c')"
  then have "c' = c"
    by (cases "c_memPool c") (auto simp: mempool_sync_step_def pool_get_def bindE_def node_ok_def)
  with i show "node_ok L c'" by simp
qed

section \<open>The node as a state machine\<close>

text \<open>Everything that happens to the chain and its mempool, with any result.\<close>

inductive node_step :: "crypto \<Rightarrow> 'd kv \<Rightarrow> 'd blockchain \<Rightarrow> 'd blockchain \<Rightarrow> bool" for C L where
  submit: "mp_addTransaction C L E now mem mem' t c = (r, c') \<Longrightarrow> node_step C L c c'"
| clean: "pool_mod (cleanupExpiredTransactions now) c = (u, c') \<Longrightarrow> node_step C L c c'"
| send: "mempool_sync_step C L E smem at later ns height sent failed c = (f, c') \<Longrightarrow> node_step C L c c'"
| verify: "verifyTransaction C L E t c = (r, c') \<Longrightarrow> node_step C L c c'"
| extend: "addBlock C L E blk c = (r, c') \<Longrightarrow> node_step C L c c'"
| shrink: "popBlock C L E c = (u, c') \<Longrightarrow> node_step C L c c'"
| reset: "resetChain C L E c = (u, c') \<Longrightarrow> node_step C L c c'"
| recompute: "recomputeLedger C L E c = (u, c') \<Longrightarrow> node_step C L c c'"
| restart: "initChain C L E c = (u, c') \<Longrightarrow> node_step C L c c'"

inductive_cases node_stepE: "node_step C L c c'"

lemma node_step_ok:
  assumes "no_null_wallet C" "node_step C L c c'" "node_ok L c"
  shows "node_ok L c'"
  using assms(2)
proof (rule node_stepE)
  fix E now mem mem' t r assume a: "mp_addTransaction C L E now mem mem' t c = (r, c')"
  from mp_addTransaction_refuses [OF assms(1) _ a] assms(3) show ?thesis by (simp add: node_ok_def)
qed (erule keepsE [where I = "node_ok L"], intro keeping, rule assms(3))+

lemma node_steps_ok:
  assumes "no_null_wallet C" "(node_step C L)\<^sup>*\<^sup>* c c'" "node_ok L c"
  shows "node_ok L c'"
  using assms(2,3) by (induction rule: rtranclp_induct) (auto intro: node_step_ok [OF assms(1)])

section \<open>A node with a mempool\<close>

text \<open>A crypto interface without a key of address zero, and a chain on which key 1 owns 100.\<close>

definition sample_crypto1 :: crypto where
  "sample_crypto1 = sample_crypto\<lparr>ripemd160 := (\<lambda>m. replicate 20 1)\<rparr>"

definition sample_node :: "(bytes \<times> bytes) list blockchain" where
  "sample_node = sample_chain\<lparr>c_memPool := Some mempool_new,
     c_ledger := \<lparr>l_db = [(walletAddressFromPublicKey sample_crypto1 (sample_key 1), le_enc 8 (100 :: u64))],
                  l_nonces = []\<rparr>\<rparr>"

definition sample_submission :: transaction where
  "sample_submission = (sample_transfer 1 2 30 5)
     \<lparr>t_from := walletAddressFromPublicKey sample_crypto1 (sample_key 1), t_timestamp := 4000\<rparr>"

definition sample_submitted :: "(bytes \<times> bytes) list blockchain" where
  "sample_submitted = snd (mp_addTransaction sample_crypto1 mem_kv sample_env 4100 (sample_mem 0) (sample_mem 1)
     sample_submission sample_node)"

lemma sample_no_null: "no_null_wallet sample_crypto1"
proof -
  have "walletAddressFromPublicKey sample_crypto1 k ! 1 \<noteq> NULL_ADDRESS ! 1" for k
    by (simp add: walletAddressFromPublicKey_def sample_crypto1_def sample_crypto_def NULL_ADDRESS_def Let_def nth_append)
  then show ?thesis by (metis no_null_wallet_def)
qed

section \<open>Properties\<close>

text \<open>
  C10. The node as a state machine: from a chain with an empty mempool, whatever transactions
  are submitted, checked, sent or expired and whatever blocks are added or popped, in any
  order and with any result, the queue and the list of transactions to send stay empty, and
  submitting a transaction never returns \<open>SUCCESS\<close>.
\<close>

theorem mempool_stays_empty:
  assumes "no_null_wallet C" "(node_step C L)\<^sup>*\<^sup>* c c'"
    and "c_memPool c = Some mempool_new" "ledger_ok L (l_db (c_ledger c))"
  shows "(\<forall>p. c_memPool c' = Some p \<longrightarrow> mp_queue p = [] \<and> mp_toSend p = []) \<and>
    ledger_ok L (l_db (c_ledger c')) \<and>
    fst (mp_addTransaction C L E now mem mem' t c') \<noteq> Inr SUCCESS"
proof -
  have "node_ok L c" using assms(3,4) by (simp add: node_ok_def mempool_new_def)
  from node_steps_ok [OF assms(1,2) this] have n: "node_ok L c'" .
  then have "ledger_ok L (l_db (c_ledger c'))" by (simp add: node_ok_def)
  from mp_addTransaction_refuses [OF assms(1) this, of E now mem mem' t] n show ?thesis
    by (auto simp: node_ok_def) (metis prod.collapse)
qed

lemma mempool_stays_empty_witness:
  "map_option mp_queue (c_memPool sample_submitted) = Some [] \<and>
   wbal (bal mem_kv (l_db (c_ledger sample_submitted))) (t_from sample_submission) = 65 \<and>
   fst (mp_addTransaction sample_crypto1 mem_kv sample_env 4100 (sample_mem 0) (sample_mem 1)
     sample_submission sample_submitted) \<noteq> Inr SUCCESS"
proof -
  have "node_step sample_crypto1 mem_kv sample_node sample_submitted"
    by (rule node_step.submit) (simp add: sample_submitted_def prod_eq_iff)
  then have st: "(node_step sample_crypto1 mem_kv)\<^sup>*\<^sup>* sample_node sample_submitted" by simp
  have "c_memPool sample_node = Some mempool_new" "ledger_ok mem_kv (l_db (c_ledger sample_node))"
    by (simp_all add: sample_node_def ledger_ok_def)
  note m = mempool_stays_empty [OF sample_no_null st this]
  have "c_memPool sample_submitted \<noteq> None"
    "wbal (bal mem_kv (l_db (c_ledger sample_submitted))) (t_from sample_submission) = 65" by code_simp+
  with m show ?thesis by auto
qed



end
