(* ===== verification/Json.thy ===== *)
theory Json
  imports Emission Bigint Block "HOL-Library.Char_ord"
begin

text \<open>
  JSON values as \<open>external/json.hpp\<close> gives them to the node, the conversions of transactions
  and blocks (\<open>core/transaction.cpp\<close>, \<open>core/block.cpp\<close>), the text of 64-bit numbers
  (\<open>core/helpers.cpp\<close>) and \<open>core/user.cpp\<close>. The text of a JSON value is not modelled: the node
  only hands it to the library.

  An object is the list of its members in the order of their names, as \<open>std::map\<close> keeps them.
  A type that does not fit is an exception of the library. A number that is read as another
  number type is converted as \<open>static_cast\<close> does.
\<close>

section \<open>Values\<close>

datatype json =
    JNull
  | JBool bool
  | JInt int
  | JDouble dbl
  | JStr string
  | JArr "json list"
  | JObj "(string \<times> json) list"

definition type_error :: exn where
  "type_error = Runtime ''type_error''"

definition and_then :: "exn + 'a \<Rightarrow> ('a \<Rightarrow> exn + 'b) \<Rightarrow> exn + 'b" where
  "and_then r f = (case r of Inl e \<Rightarrow> Inl e | Inr a \<Rightarrow> f a)"

text \<open>\<open>j[k]\<close> as a value: a missing member is null; and \<open>j[k] = v\<close>.\<close>

definition jget :: "json \<Rightarrow> string \<Rightarrow> exn + json" where
  "jget j k =
     (case j of
        JObj m \<Rightarrow> Inr (case map_of m k of None \<Rightarrow> JNull | Some v \<Rightarrow> v)
      | JNull \<Rightarrow> Inr JNull
      | _ \<Rightarrow> Inl type_error)"

definition jobject :: "(string \<times> json) list \<Rightarrow> json" where
  "jobject kvs = JObj (fold (\<lambda>(k, v) m. omap_put k v m) kvs [])"

definition as_string :: "json \<Rightarrow> exn + string" where
  "as_string j = (case j of JStr s \<Rightarrow> Inr s | _ \<Rightarrow> Inl type_error)"

definition as_word :: "json \<Rightarrow> exn + 'a::len word" where
  "as_word j =
     (case j of
        JInt i \<Rightarrow> Inr (word_of_int i)
      | JBool b \<Rightarrow> Inr (if b then 1 else 0)
      | JDouble d \<Rightarrow>
          if - 1 < dbl_trunc d \<and> dbl_trunc d < 2 ^ LENGTH('a) then Inr (word_of_int (dbl_trunc d)) else Inl UB
      | _ \<Rightarrow> Inl type_error)"

text \<open>The elements a range \<open>for\<close> visits: those of an array, the values of an object, a single value.\<close>

definition elements :: "json \<Rightarrow> json list" where
  "elements j =
     (case j of JNull \<Rightarrow> [] | JArr js \<Rightarrow> js | JObj m \<Rightarrow> map snd m | _ \<Rightarrow> [j])"

definition get_string :: "json \<Rightarrow> string \<Rightarrow> exn + string" where
  "get_string j k = and_then (jget j k) as_string"

definition get_word :: "json \<Rightarrow> string \<Rightarrow> exn + 'a::len word" where
  "get_word j k = and_then (jget j k) as_word"

section \<open>The text of 64-bit numbers\<close>

definition uint64ToString :: "u64 \<Rightarrow> string" where
  "uint64ToString t = dec (unat t)"

text \<open>
  \<open>stream >> t\<close> leaves \<open>t\<close> as it is (\<open>mem\<close>) when there is nothing but white space, sets it to 0
  when no digit follows and to the largest value when the number does not fit.
\<close>

definition stringToUint64 :: "u64 \<Rightarrow> string \<Rightarrow> u64" where
  "stringToUint64 mem input =
     (case dropWhile c_isspace input of
        [] \<Rightarrow> mem
      | c # r \<Rightarrow>
          (let ds = takeWhile is_digit (if c = CHR ''-'' \<or> c = CHR ''+'' then r else c # r);
               v = digits_val (rev ds) in
           if ds = [] then 0
           else if 2 ^ 64 \<le> v then - 1
           else if c = CHR ''-'' then - word_of_int v else word_of_int v))"

section \<open>Transactions and blocks\<close>

definition transaction_toJson :: "crypto \<Rightarrow> transaction \<Rightarrow> json" where
  "transaction_toJson C t =
     jobject ([(''to'', JStr (walletAddressToString (t_to t))),
               (''amount'', JInt (uint (t_amount t))),
               (''timestamp'', JStr (uint64ToString (t_timestamp t))),
               (''fee'', JInt (uint (t_fee t))),
               (''txid'', JStr (SHA256toString (hashContents C t)))] @
              (if \<not> t_isTransactionFee t
               then [(''from'', JStr (walletAddressToString (t_from t))),
                     (''signingKey'', JStr (publicKeyToString (t_signingKey t))),
                     (''signature'', JStr (signatureToString (t_signature t)))]
               else [(''from'', JStr [])]))"

text \<open>The constructor; \<open>mem\<close> is the memory of the object, \<open>mem64\<close> that of the number read from text.\<close>

definition transaction_of_json :: "transaction \<Rightarrow> u64 \<Rightarrow> json \<Rightarrow> exn + transaction" where
  "transaction_of_json mem mem64 data =
     and_then (get_string data ''timestamp'') (\<lambda>time.
     and_then (and_then (get_string data ''to'') stringToWalletAddress) (\<lambda>to.
     and_then (get_word data ''fee'') (\<lambda>fee.
     and_then (jget data ''from'') (\<lambda>from.
     let t = mem\<lparr>t_timestamp := stringToUint64 mem64 time, t_to := to, t_fee := fee\<rparr> in
     if from = JStr [] then
       and_then (get_word data ''amount'') (\<lambda>amount.
       Inr (t\<lparr>t_amount := amount, t_isTransactionFee := True\<rparr>))
     else
       and_then (and_then (as_string from) stringToWalletAddress) (\<lambda>from.
       and_then (and_then (get_string data ''signature'') (stringToSignature (t_signature mem))) (\<lambda>signature.
       and_then (get_word data ''amount'') (\<lambda>amount.
       and_then (and_then (get_string data ''signingKey'') stringToPublicKey) (\<lambda>key.
       Inr (t\<lparr>t_from := from, t_signature := signature, t_amount := amount,
              t_isTransactionFee := False, t_signingKey := key\<rparr>)))))))))"

text \<open>The loop over the transactions copies each of them, into the memory \<open>mem\<close>.\<close>

definition block_toJson :: "crypto \<Rightarrow> (nat \<Rightarrow> transaction) \<Rightarrow> block \<Rightarrow> json" where
  "block_toJson C mem b =
     jobject [(''id'', JInt (uint (b_id b))),
              (''hash'', JStr (SHA256toString (block_getHash C b))),
              (''difficulty'', JInt (uint (b_difficulty b))),
              (''nonce'', JStr (SHA256toString (b_nonce b))),
              (''timestamp'', JStr (uint64ToString (b_timestamp b))),
              (''merkleRoot'', JStr (SHA256toString (b_merkleRoot b))),
              (''lastBlockHash'', JStr (SHA256toString (b_lastBlockHash b))),
              (''transactions'', JArr (map (transaction_toJson C) (copy_list mem (b_transactions b))))]"

text \<open>Every transaction is built in \<open>mem\<close> and copied into the vector, in the memory \<open>mem'\<close>.\<close>

primrec transactions_of_json ::
  "(nat \<Rightarrow> transaction) \<Rightarrow> (nat \<Rightarrow> transaction) \<Rightarrow> u64 \<Rightarrow> json list \<Rightarrow> exn + transaction list" where
  "transactions_of_json mem mem' mem64 [] = Inr []"
| "transactions_of_json mem mem' mem64 (j # js) =
     and_then (transaction_of_json (mem 0) mem64 j) (\<lambda>t.
     and_then (transactions_of_json (\<lambda>i. mem (Suc i)) (\<lambda>i. mem' (Suc i)) mem64 js) (\<lambda>ts.
     Inr (tx_copy (mem' 0) t # ts)))"

definition block_of_json ::
  "(nat \<Rightarrow> transaction) \<Rightarrow> (nat \<Rightarrow> transaction) \<Rightarrow> u64 \<Rightarrow> json \<Rightarrow> exn + block" where
  "block_of_json mem mem' mem64 j =
     and_then (and_then (get_string j ''nonce'') stringToSHA256) (\<lambda>nonce.
     and_then (and_then (get_string j ''merkleRoot'') stringToSHA256) (\<lambda>root.
     and_then (and_then (get_string j ''lastBlockHash'') stringToSHA256) (\<lambda>prev.
     and_then (get_word j ''id'') (\<lambda>id.
     and_then (get_word j ''difficulty'') (\<lambda>difficulty.
     and_then (get_string j ''timestamp'') (\<lambda>time.
     and_then (jget j ''transactions'') (\<lambda>txs.
     and_then (transactions_of_json mem mem' mem64 (elements txs)) (\<lambda>ts.
     Inr \<lparr>b_id = id, b_timestamp = stringToUint64 mem64 time, b_difficulty = difficulty,
          b_transactions = ts, b_merkleRoot = root, b_lastBlockHash = prev, b_nonce = nonce\<rparr>))))))))"

section \<open>Lemmas\<close>

lemma and_then_simps [simp]: "and_then (Inr a) f = f a" "and_then (Inl e) f = Inl e"
  by (simp_all add: and_then_def)

lemma as_word_uint [simp]: "as_word (JInt (uint (w :: 'a::len word))) = Inr w"
  by (simp add: as_word_def)

lemma jget_jobject:
  "distinct (map fst kvs) \<Longrightarrow> jget (jobject kvs) k = Inr (case map_of kvs k of None \<Rightarrow> JNull | Some v \<Rightarrow> v)"
proof -
  have "map_of (fold (\<lambda>(k, v) m. omap_put k v m) kvs m) k =
      (case map_of kvs k of None \<Rightarrow> map_of m k | Some v \<Rightarrow> Some v)"
    if "omap_wf m" "distinct (map fst kvs)" for m
    using that
  proof (induction kvs arbitrary: m)
    case (Cons p kvs)
    have "k = fst p \<Longrightarrow> map_of kvs k = None" using Cons.prems(2) by (simp add: map_of_eq_None_iff)
    with Cons.IH [of "omap_put (fst p) (snd p) m"] Cons.prems show ?case
      by (auto simp: omap.get_put split_beta split: option.splits)
  qed simp
  from this [of "[]"] show "distinct (map fst kvs) \<Longrightarrow> ?thesis"
    by (simp add: jget_def jobject_def split: option.splits)
qed

lemma digit_not_space: "is_digit c \<Longrightarrow> \<not> c_isspace c \<and> c \<noteq> CHR ''-'' \<and> c \<noteq> CHR ''+''"
  by (auto simp: is_digit_def c_isspace_def)

lemma stringToUint64_toString: "stringToUint64 mem (uint64ToString t) = t"
proof -
  let ?s = "dec (unat t)"
  obtain c r where s: "?s = c # r" using dec_not_Nil by (cases ?s) auto
  have d: "\<forall>x \<in> set ?s. is_digit x" by (rule dec_digits)
  then have c: "is_digit c" "\<not> c_isspace c" "c \<noteq> CHR ''-''" "c \<noteq> CHR ''+''"
    using s digit_not_space [of c] by auto
  have "takeWhile is_digit (c # r) = c # r" "takeWhile is_digit r = r"
    using d s by (simp_all add: takeWhile_eq_all_conv)
  moreover have v: "digits_val (rev (c # r)) = int (unat t)" using digits_val_dec [of "unat t"] s by simp
  moreover have "int (unat t) < 2 ^ 64" using unsigned_less [of t] by (simp add: uint_nat [symmetric])
  ultimately show ?thesis using c s
    by (simp add: stringToUint64_def uint64ToString_def Let_def del: takeWhile_eq_all_conv)
qed

lemma transaction_json_back:
  assumes "transaction_wf t" "transaction_wf mem"
  shows "\<exists>u. transaction_of_json mem mem64 (transaction_toJson C t) = Inr u \<and> tx_eq u t"
proof -
  have w: "walletAddressToString (t_from t) \<noteq> []"
    using assms(1) by (cases "t_from t") (simp_all add: walletAddressToString_def transaction_wf_def)
  have l: "length (t_signature t) = 64" "length (t_signingKey t) = 32" "length (t_to t) = 25"
    "length (t_from t) = 25" "length (t_signature mem) = 64"
    using assms by (simp_all add: transaction_wf_def)
  show ?thesis
    by (cases "t_isTransactionFee t")
      (simp_all add: transaction_of_json_def transaction_toJson_def jget_jobject get_string_def get_word_def
        as_string_def text_back l w stringToUint64_toString tx_eq_iff Let_def)
qed

lemma transactions_json_back:
  assumes "\<forall>t \<in> set ts. transaction_wf t" "\<forall>i. transaction_wf (mem i)"
  shows "\<exists>us. transactions_of_json mem mem' mem64 (map (transaction_toJson C) (copy_list m ts)) = Inr us \<and>
    list_all2 tx_eq us ts"
  using assms
proof (induction ts arbitrary: mem mem' m)
  case (Cons t ts)
  have "transaction_wf (tx_copy (m 0) t)" "transaction_wf (mem 0)"
    using Cons.prems by (simp_all add: transaction_wf_def)
  from transaction_json_back [OF this] obtain u where
    "transaction_of_json (mem 0) mem64 (transaction_toJson C (tx_copy (m 0) t)) = Inr u" and e: "tx_eq u (tx_copy (m 0) t)"
    by blast
  moreover have "tx_eq (tx_copy (mem' 0) u) t" using e by (auto simp: tx_eq_iff)
  moreover have "\<exists>us. transactions_of_json (\<lambda>i. mem (Suc i)) (\<lambda>i. mem' (Suc i)) mem64
      (map (transaction_toJson C) (copy_list (\<lambda>i. m (Suc i)) ts)) = Inr us \<and> list_all2 tx_eq us ts"
    using Cons.prems by (intro Cons.IH) simp_all
  ultimately show ?case by auto
qed simp

section \<open>Users\<close>

record user =
  u_publicKey :: public_key
  u_privateKey :: private_key

definition user_new :: "crypto \<Rightarrow> bytes \<Rightarrow> user" where
  "user_new C buf = (let (pub, priv) = generateKeyPair C buf in \<lparr>u_publicKey = pub, u_privateKey = priv\<rparr>)"

definition user_of_json :: "json \<Rightarrow> exn + user" where
  "user_of_json u =
     and_then (and_then (get_string u ''publicKey'') stringToPublicKey) (\<lambda>pub.
     and_then (and_then (get_string u ''privateKey'') stringToPrivateKey) (\<lambda>priv.
     Inr \<lparr>u_publicKey = pub, u_privateKey = priv\<rparr>))"

definition user_toJson :: "user \<Rightarrow> json" where
  "user_toJson u =
     jobject [(''publicKey'', JStr (publicKeyToString (u_publicKey u))),
              (''privateKey'', JStr (privateKeyToString (u_privateKey u)))]"

definition getAddress :: "crypto \<Rightarrow> user \<Rightarrow> wallet" where
  "getAddress C u = walletAddressFromPublicKey C (u_publicKey u)"

definition mine :: "crypto \<Rightarrow> transaction \<Rightarrow> u64 \<Rightarrow> user \<Rightarrow> transaction" where
  "mine C mem now u = new_fee mem now (getAddress C u) (PDN (dbl_of_int 50))"

definition signTransaction :: "crypto \<Rightarrow> transaction \<Rightarrow> user \<Rightarrow> transaction" where
  "signTransaction C t u = tx_sign C (u_publicKey u) (u_privateKey u) t"

text \<open>A transfer without a fee; \<open>now\<close> is the time the constructor takes.\<close>

definition user_send :: "crypto \<Rightarrow> transaction \<Rightarrow> u64 \<Rightarrow> user \<Rightarrow> user \<Rightarrow> amount \<Rightarrow> transaction" where
  "user_send C mem now u to amount =
     signTransaction C (new_transfer mem (getAddress C u) (getAddress C to) amount (u_publicKey u) 0 now) u"

section \<open>Properties\<close>

text \<open>
  C33. The JSON forms read back: a well-formed block that is printed and read again is an equal
  block (in the sense of the code's \<open>==\<close>) with the same hash, and a user keeps both keys.
\<close>

theorem json_roundtrip:
  assumes "\<forall>t \<in> set (b_transactions b). transaction_wf t" "\<forall>i. transaction_wf (mem i)"
    and "length (b_nonce b) = 32" "length (b_merkleRoot b) = 32" "length (b_lastBlockHash b) = 32"
    and "length (u_publicKey u) = 32" "length (u_privateKey u) = 64"
  shows "(\<exists>b'. block_of_json mem mem' mem64 (block_toJson C m b) = Inr b' \<and> block_eq b' b \<and>
      block_getHash C b' = block_getHash C b) \<and>
    user_of_json (user_toJson u) = Inr u"
proof -
  from transactions_json_back [OF assms(1,2)] obtain us where
    us: "transactions_of_json mem mem' mem64 (map (transaction_toJson C) (copy_list m (b_transactions b))) = Inr us"
      "list_all2 tx_eq us (b_transactions b)" by blast
  have "\<exists>b'. block_of_json mem mem' mem64 (block_toJson C m b) = Inr b' \<and> block_eq b' b \<and>
      block_getHash C b' = block_getHash C b"
    using assms(3-5) us
    by (simp add: block_of_json_def block_toJson_def jget_jobject get_string_def get_word_def as_string_def
        elements_def text_back stringToUint64_toString block_eq_iff block_getHash_def block_contents_def)
  moreover have "user_of_json (user_toJson u) = Inr u"
    using assms(6,7)
    by (simp add: user_of_json_def user_toJson_def jget_jobject get_string_def as_string_def text_back)
  ultimately show ?thesis by blast
qed

lemma json_roundtrip_witness:
  "(\<exists>b'. block_of_json sample_mem sample_mem 0 (block_toJson sample_crypto sample_mem
      (sample_block 2 [sample_transfer 1 2 30 5, sample_fee 3 50])) = Inr b' \<and>
     block_eq b' (sample_block 2 [sample_transfer 1 2 30 5, sample_fee 3 50])) \<and>
   user_of_json (user_toJson \<lparr>u_publicKey = replicate 32 1, u_privateKey = replicate 64 2\<rparr>) =
     Inr \<lparr>u_publicKey = replicate 32 1, u_privateKey = replicate 64 2\<rparr>"
proof -
  let ?b = "sample_block 2 [sample_transfer 1 2 30 5, sample_fee 3 50]"
  have "\<forall>t \<in> set (b_transactions ?b). transaction_wf t" "\<forall>i. transaction_wf (sample_mem i)"
    "length (b_nonce ?b) = 32" "length (b_merkleRoot ?b) = 32" "length (b_lastBlockHash ?b) = 32"
    by (simp_all add: sample_block_def block_default_def NULL_SHA256_HASH_def sample_mem_def transaction_wf_def
        sample_fee_def sample_transfer_def sample_wallet_def sample_key_def NULL_ADDRESS_def)
  from json_roundtrip [OF this, of "\<lparr>u_publicKey = replicate 32 1, u_privateKey = replicate 64 2\<rparr>"
      sample_mem 0 sample_crypto sample_mem] show ?thesis by auto
qed

end
