(* ===== verification/Api.thy ===== *)
theory Api
  imports BlockStore Json
begin

text \<open>
  \<open>core/api.cpp\<close>: the requests a node sends to its peers and what it makes of the answers. The
  HTTP library is the parameter \<open>send\<close>, which maps a request to the body of the answer or to the
  exception it throws. Requests whose answer is JSON text are modelled up to their body.

  Parsing the body of \<open>/sync\<close>, whole blocks one after the other, must invert what a node
  writes; the length of the body is only looked at between blocks.
\<close>

section \<open>Requests\<close>

datatype http_request = GET string | POST string bytes

definition int_text :: "int \<Rightarrow> string" where
  "int_text i = (if i < 0 then ''-'' @ dec (nat (- i)) else dec (nat i))"

text \<open>\<open>std::stoi\<close>: what follows the number is ignored.\<close>

definition stoi :: "string \<Rightarrow> exn + int" where
  "stoi s =
     (let t = dropWhile c_isspace s;
          sgn = (t \<noteq> [] \<and> (hd t = CHR ''-'' \<or> hd t = CHR ''+''));
          ds = takeWhile is_digit (if sgn then tl t else t);
          v = (if sgn \<and> hd t = CHR ''-'' then - digits_val (rev ds) else digits_val (rev ds)) in
      if ds = [] then Inl (Runtime ''stoi'')
      else if v < - (2 ^ 31) \<or> 2 ^ 31 \<le> v then Inl (Runtime ''stoi'')
      else Inr v)"

definition getCurrentBlockCount :: "(http_request \<Rightarrow> exn + bytes) \<Rightarrow> string \<Rightarrow> exn + u32" where
  "getCurrentBlockCount send host =
     and_then (send (GET (host @ ''/block_count''))) (\<lambda>body.
     and_then (stoi (bytes_text body)) (\<lambda>n. Inr (word_of_int n)))"

text \<open>A body without a number keeps the constructor of \<open>Bigint\<close> busy for ever.\<close>

definition api_getTotalWork :: "(http_request \<Rightarrow> exn + bytes) \<Rightarrow> string \<Rightarrow> exn + bigint" where
  "api_getTotalWork send host =
     and_then (send (GET (host @ ''/total_work''))) (\<lambda>body.
     case bi_of_string (bytes_text body) of None \<Rightarrow> Inl UB | Some w \<Rightarrow> Inr w)"

text \<open>Calls that hand the JSON of the answer to their caller; \<open>parse\<close> reads its text.\<close>

definition getName :: "(http_request \<Rightarrow> exn + bytes) \<Rightarrow> (bytes \<Rightarrow> exn + json) \<Rightarrow> string \<Rightarrow> exn + json" where
  "getName send parse host = and_then (send (GET (host @ ''/name''))) parse"

definition getBlockData ::
  "(http_request \<Rightarrow> exn + bytes) \<Rightarrow> (bytes \<Rightarrow> exn + json) \<Rightarrow> string \<Rightarrow> int \<Rightarrow> exn + json" where
  "getBlockData send parse host idx = and_then (send (GET (host @ ''/block?blockId='' @ int_text idx))) parse"

definition getMiningProblem ::
  "(http_request \<Rightarrow> exn + bytes) \<Rightarrow> (bytes \<Rightarrow> exn + json) \<Rightarrow> string \<Rightarrow> exn + json" where
  "getMiningProblem send parse host = and_then (send (GET (host @ ''/mine''))) parse"

text \<open>The transactions are copied in the loop, which changes nothing that is sent.\<close>

definition submitBlock_request :: "(nat \<Rightarrow> transaction) \<Rightarrow> string \<Rightarrow> block \<Rightarrow> http_request" where
  "submitBlock_request mem host b =
     POST (host @ ''/submit'')
       (blockHeaderToBuffer (block_serialize b) @
        concat (map (\<lambda>t. transactionInfoToBuffer (tx_serialize t)) (copy_list mem (b_transactions b))))"

definition sendTransaction_request :: "string \<Rightarrow> transaction \<Rightarrow> http_request" where
  "sendTransaction_request host t =
     POST (host @ ''/add_transaction'') (transactionInfoToBuffer (tx_serialize t))"

definition sendTransactions_request :: "string \<Rightarrow> transaction list \<Rightarrow> http_request" where
  "sendTransactions_request host ts =
     POST (host @ ''/add_transaction'') (concat (map (\<lambda>t. transactionInfoToBuffer (tx_serialize t)) ts))"

text \<open>The image of the C struct, with the bytes \<open>pad\<close> between its members.\<close>

definition verifyTransaction_request :: "(nat \<Rightarrow> u8) \<Rightarrow> string \<Rightarrow> transaction \<Rightarrow> http_request" where
  "verifyTransaction_request pad host t =
     POST (host @ ''/verify_transaction'') (info_image pad (tx_serialize t))"

definition pingPeer_info :: "string \<Rightarrow> u64 \<Rightarrow> string \<Rightarrow> string \<Rightarrow> json" where
  "pingPeer_info peer_url networkTime version networkName =
     jobject [(''address'', JStr peer_url), (''networkName'', JStr networkName),
              (''time'', JInt (uint networkTime)), (''version'', JStr version)]"

section \<open>Answers\<close>

definition readRawHeaders ::
  "(http_request \<Rightarrow> exn + bytes) \<Rightarrow> string \<Rightarrow> int \<Rightarrow> int \<Rightarrow> exn + block_header list" where
  "readRawHeaders send host startId endId =
     and_then (send (GET (host @ ''/block_headers?start='' @ int_text startId @ ''&end='' @ int_text endId))) (\<lambda>body.
     fst (timesE (length body div BLOCKHEADER_BUFFER_SIZE) blockHeaderFromBuffer body))"

text \<open>
  The loop over the blocks of a body. Block \<open>k\<close> is built from transactions read into the memory
  \<open>mem k\<close> and copied into the memory \<open>mem' k\<close>. Reading behind the end of the body is undefined;
  every block consumes at least its header.
\<close>

lemma readNetworkNBytes_rest: "readNetworkNBytes n s = (Inr a, s') \<Longrightarrow> length s' + n = length s"
  by (auto simp: readNetworkNBytes_def split: if_splits)

lemma read_info_rest: "transactionInfoFromBuffer C s = (Inr a, s') \<Longrightarrow> length s' \<le> length s"
  by (auto simp: transactionInfoFromBuffer_def bindE_eq_Inr readNetworkUint64_def readNetworkUint32_def
      readNetworkPublicWalletAddress_def Let_def dest!: readNetworkNBytes_rest)

lemma read_infos_rest: "timesE n (transactionInfoFromBuffer C) s = (Inr ts, s') \<Longrightarrow> length s' \<le> length s"
  by (induction n arbitrary: s ts) (auto simp: bindE_eq_Inr dest!: read_info_rest intro: order_trans)

lemma read_header_rest: "blockHeaderFromBuffer s = (Inr a, s') \<Longrightarrow> length s' < length s"
  by (auto simp: blockHeaderFromBuffer_def bindE_eq_Inr readNetworkUint64_def readNetworkUint32_def
      readNetworkSHA256_def dest!: readNetworkNBytes_rest)

lemma read_block_rest: "read_block C s = (Inr a, s') \<Longrightarrow> length s' < length s"
  by (auto simp: read_block_def bindE_eq_Inr dest!: read_header_rest read_infos_rest)

function parse_blocks ::
  "crypto \<Rightarrow> (nat \<Rightarrow> nat \<Rightarrow> transaction) \<Rightarrow> (nat \<Rightarrow> nat \<Rightarrow> transaction) \<Rightarrow> nat \<Rightarrow> bytes \<Rightarrow> exn + block list" where
  "parse_blocks C mem mem' k buf =
     (case read_block C buf of
        (Inl e, rest) \<Rightarrow> Inl e
      | (Inr (h, infos), rest) \<Rightarrow>
          (let b = block_of_header (mem' k) h (infos_to_transactions (mem k) infos) in
           if rest = [] then Inr [b]
           else and_then (parse_blocks C mem mem' (Suc k) rest) (\<lambda>bs. Inr (b # bs))))"
  by pat_completeness auto
termination
  by (relation "measure (\<lambda>(C, mem, mem', k, buf). length buf)") (auto dest: read_block_rest [OF sym])

declare parse_blocks.simps [simp del]

definition readRawBlocks ::
  "crypto \<Rightarrow> (nat \<Rightarrow> nat \<Rightarrow> transaction) \<Rightarrow> (nat \<Rightarrow> nat \<Rightarrow> transaction) \<Rightarrow>
   (http_request \<Rightarrow> exn + bytes) \<Rightarrow> string \<Rightarrow> int \<Rightarrow> int \<Rightarrow> exn + block list" where
  "readRawBlocks C mem mem' send host startId endId =
     and_then (send (GET (host @ ''/sync?start='' @ int_text startId @ ''&end='' @ int_text endId))) (\<lambda>body.
     if length body < BLOCKHEADER_BUFFER_SIZE then Inl (Runtime ''Invalid data for block'')
     else parse_blocks C mem mem' 0 body)"

definition readRawTransactions ::
  "crypto \<Rightarrow> (nat \<Rightarrow> transaction) \<Rightarrow> (http_request \<Rightarrow> exn + bytes) \<Rightarrow> string \<Rightarrow> exn + transaction list" where
  "readRawTransactions C mem send host =
     and_then (send (GET (host @ ''/gettx''))) (\<lambda>body.
     map_sum id (infos_to_transactions mem)
       (fst (timesE (length body div TRANSACTIONINFO_BUFFER_SIZE) (transactionInfoFromBuffer C) body)))"

section \<open>Reading what a node sends\<close>

definition block_wf :: "crypto \<Rightarrow> block \<Rightarrow> bool" where
  "block_wf C b \<longleftrightarrow> block_header_wf (block_serialize b) \<and> length (b_transactions b) < 2 ^ 32 \<and>
     (\<forall>t \<in> set (b_transactions b). transaction_info_wf C (tx_serialize t))"

lemma block_to_buffer_length: "block_wf C b \<Longrightarrow> BLOCKHEADER_BUFFER_SIZE \<le> length (block_to_buffer b)"
  by (simp add: block_wf_def block_to_buffer_def header_codec.length_wr)

lemma read_block_back:
  "block_eq (block_of_header m' (block_serialize b) (infos_to_transactions m (map tx_serialize (b_transactions b)))) b"
  by (simp add: block_eq_iff block_of_header_def block_serialize_def read_back_list)

lemma infos_read_back: "list_all2 tx_eq (infos_to_transactions m (map tx_serialize ts)) ts"
  by (induction ts arbitrary: m) (auto simp: tx_eq_iff transaction_of_info_def tx_serialize_def)

lemma tx_serialize_copies:
  "map (\<lambda>t. transactionInfoToBuffer (tx_serialize t)) (copy_list m ts) =
   map (\<lambda>t. transactionInfoToBuffer (tx_serialize t)) ts"
  by (induction ts arbitrary: m) (simp_all add: tx_serialize_def)

lemma parse_blocks_back:
  "\<forall>b \<in> set bs. block_wf C b \<Longrightarrow> bs \<noteq> [] \<Longrightarrow>
   \<exists>us. parse_blocks C mem mem' k (concat (map block_to_buffer bs)) = Inr us \<and> list_all2 block_eq us bs"
proof (induction bs arbitrary: k)
  case (Cons b bs)
  let ?u = "block_of_header (mem' k) (block_serialize b)
    (infos_to_transactions (mem k) (map tx_serialize (b_transactions b)))"
  have wf: "block_wf C b" using Cons.prems by simp
  have r: "read_block C (block_to_buffer b @ rest) =
      (Inr (block_serialize b, map tx_serialize (b_transactions b)), rest)" for rest
    using wf by (intro block_wire_roundtrip) (simp_all add: block_wf_def)
  show ?case
  proof (cases "concat (map block_to_buffer bs) = []")
    case True
    then have "bs = []"
      using Cons.prems(1) block_to_buffer_length [of C] by (cases bs) (force simp: BLOCKHEADER_BUFFER_SIZE_def)+
    then show ?thesis using r [of "[]"] by (simp add: parse_blocks.simps read_block_back)
  next
    case False
    then have "bs \<noteq> []" by auto
    with Cons obtain us where "parse_blocks C mem mem' (Suc k) (concat (map block_to_buffer bs)) = Inr us"
      "list_all2 block_eq us bs" by fastforce
    with r False show ?thesis by (simp add: parse_blocks.simps [of C mem mem' k] read_block_back del: concat_eq_Nil_conv)
  qed
qed simp

section \<open>Properties\<close>

text \<open>
  What one node sends another reads: the blocks of an answer to \<open>/sync\<close>, one after the
  other, come back in order as equal blocks; the headers of \<open>/block_headers\<close> and the
  transactions of \<open>/gettx\<close> come back as sent; and the body of a submission is the wire form of
  the block.
\<close>

lemma peers_read_back:
  assumes "\<forall>b \<in> set bs. block_wf C b" "bs \<noteq> []" "\<forall>h \<in> set hs. block_header_wf h"
    and "\<forall>t \<in> set ts. transaction_info_wf C (tx_serialize t)"
    and "send (GET (host @ ''/sync?start='' @ int_text i @ ''&end='' @ int_text j)) =
           Inr (concat (map block_to_buffer bs))"
    and "send (GET (host @ ''/block_headers?start='' @ int_text i @ ''&end='' @ int_text j)) =
           Inr (concat (map blockHeaderToBuffer hs))"
    and "send (GET (host @ ''/gettx'')) = Inr (concat (map (\<lambda>t. transactionInfoToBuffer (tx_serialize t)) ts))"
  shows "(\<exists>us. readRawBlocks C mem mem' send host i j = Inr us \<and> list_all2 block_eq us bs) \<and>
    readRawHeaders send host i j = Inr hs \<and>
    (\<exists>us. readRawTransactions C m send host = Inr us \<and> list_all2 tx_eq us ts) \<and>
    submitBlock_request m' host b = POST (host @ ''/submit'') (block_to_buffer b)"
proof (intro conjI)
  obtain b0 bs0 where bs: "bs = b0 # bs0" using assms(2) by (cases bs) auto
  then have "\<not> length (concat (map block_to_buffer bs)) < BLOCKHEADER_BUFFER_SIZE"
    using block_to_buffer_length [of C b0] assms(1) by simp
  then show "\<exists>us. readRawBlocks C mem mem' send host i j = Inr us \<and> list_all2 block_eq us bs"
    using parse_blocks_back [OF assms(1,2)] assms(5) by (simp add: readRawBlocks_def)
  show "readRawHeaders send host i j = Inr hs"
    using header_codec.read_whole_batch [of hs] assms(3,6)
    by (simp add: readRawHeaders_def BLOCKHEADER_BUFFER_SIZE_def)
  have "\<forall>a \<in> set (map tx_serialize ts). transaction_info_wf C a" using assms(4) by simp
  from tx_codec.read_whole_batch [OF _ this]
  have "timesE (length (concat (map (\<lambda>t. transactionInfoToBuffer (tx_serialize t)) ts)) div TRANSACTIONINFO_BUFFER_SIZE)
      (transactionInfoFromBuffer C) (concat (map (\<lambda>t. transactionInfoToBuffer (tx_serialize t)) ts)) =
      (Inr (map tx_serialize ts), [])"
    by (simp add: comp_def TRANSACTIONINFO_BUFFER_SIZE_def)
  then show "\<exists>us. readRawTransactions C m send host = Inr us \<and> list_all2 tx_eq us ts"
    using assms(7) by (simp add: readRawTransactions_def infos_read_back)
  show "submitBlock_request m' host b = POST (host @ ''/submit'') (block_to_buffer b)"
    by (simp add: submitBlock_request_def block_to_buffer_def tx_serialize_copies)
qed

definition sample_peer :: "http_request \<Rightarrow> exn + bytes" where
  "sample_peer r =
     (case r of
        GET u \<Rightarrow>
          if take 6 u = ''h/sync'' then
            Inr (concat (map block_to_buffer [sample_block 2 [sample_transfer 1 2 30 5], sample_block 3 []]))
          else if take 7 u = ''h/block'' then
            Inr (concat (map blockHeaderToBuffer [block_serialize (sample_block 2 [])]))
          else Inr (concat (map (\<lambda>t. transactionInfoToBuffer (tx_serialize t)) [sample_fee 3 50]))
      | POST u body \<Rightarrow> Inl (Runtime ''refused''))"

lemma peers_read_back_witness:
  "(\<exists>us. readRawBlocks sample_crypto (\<lambda>_. sample_mem) (\<lambda>_. sample_mem) sample_peer ''h'' 2 3 = Inr us \<and>
     list_all2 block_eq us [sample_block 2 [sample_transfer 1 2 30 5], sample_block 3 []]) \<and>
   readRawHeaders sample_peer ''h'' 2 3 = Inr [block_serialize (sample_block 2 [])]"
proof -
  let ?bs = "[sample_block 2 [sample_transfer 1 2 30 5], sample_block 3 []]"
  have "\<forall>b \<in> set ?bs. block_wf sample_crypto b" "\<forall>h \<in> set [block_serialize (sample_block 2 [])]. block_header_wf h"
    "\<forall>t \<in> set [sample_fee 3 50]. transaction_info_wf sample_crypto (tx_serialize t)"
    by (simp_all add: block_wf_def block_header_wf_def block_serialize_def sample_block_def block_default_def
        NULL_SHA256_HASH_def transaction_info_wf_def tx_serialize_def sample_transfer_def sample_fee_def
        sample_wallet_def sample_key_def)
  then have "(\<exists>us. readRawBlocks sample_crypto (\<lambda>_. sample_mem) (\<lambda>_. sample_mem) sample_peer ''h'' 2 3 = Inr us \<and>
      list_all2 block_eq us ?bs) \<and>
    readRawHeaders sample_peer ''h'' 2 3 = Inr [block_serialize (sample_block 2 [])] \<and>
    (\<exists>us. readRawTransactions sample_crypto sample_mem sample_peer ''h'' = Inr us \<and> list_all2 tx_eq us [sample_fee 3 50]) \<and>
    submitBlock_request sample_mem ''h'' (sample_block 3 []) = POST (''h'' @ ''/submit'') (block_to_buffer (sample_block 3 []))"
    by (intro peers_read_back) (simp_all add: sample_peer_def)
  then show ?thesis by blast
qed

end
