(* ===== verification/HeaderChain.thy ===== *)
theory HeaderChain
  imports Api ChainBlocks
begin

text \<open>
  \<open>core/header_chain.cpp\<close>: the copy of a peer's chain of block hashes that a node keeps to
  judge the peer by its work. \<open>load\<close> fetches the headers behind the known ones, checks each
  (banned hashes, checkpoints, proof of work, link to the last one) and throws everything away
  when one fails.

  The thread of a chain is the only one that changes it; it runs \<open>chain_sync_round\<close> every ten
  seconds. The thread is started before the constructor has stored the checkpoints and the
  banned hashes; the model runs it after.
\<close>

section \<open>State\<close>

record 'd header_chain =
  hc_host :: string
  hc_totalWork :: bigint
  hc_chainLength :: u64
  hc_offset :: u64
  hc_store :: "'d option"
  hc_failed :: bool
  hc_tried :: bool
  hc_hashes :: "hash list"
  hc_checkPoints :: "(u64 \<times> hash) list"
  hc_banned :: "(u64 \<times> hash) list"
  hc_pfcache :: 'd

definition BLOCK_HEADERS_PER_FETCH :: int where
  "BLOCK_HEADERS_PER_FETCH = 2000"

definition header_chain_new ::
  "string \<Rightarrow> (u64 \<times> hash) list \<Rightarrow> (u64 \<times> hash) list \<Rightarrow> 'd option \<Rightarrow> 'd \<Rightarrow> 'd header_chain" where
  "header_chain_new host checkpoints banned store cache =
     \<lparr>hc_host = host, hc_totalWork = bi_assign 0 bi_empty, hc_chainLength = 0, hc_offset = 0,
      hc_store = store, hc_failed = False, hc_tried = False, hc_hashes = [],
      hc_checkPoints = checkpoints, hc_banned = banned, hc_pfcache = cache\<rparr>"

section \<open>Queries\<close>

text \<open>\<open>blockHashes[blockId - 1]\<close> for block 0 reads in front of the vector, unless it is empty.\<close>

definition hc_getHash :: "u64 \<Rightarrow> 'd header_chain \<Rightarrow> exn + hash" where
  "hc_getHash blockId hc =
     (if length (hc_hashes hc) \<le> unat blockId then Inr NULL_SHA256_HASH
      else if blockId = 0 then Inl UB
      else Inr (hc_hashes hc ! (unat blockId - 1)))"

definition hc_valid :: "'d header_chain \<Rightarrow> bool" where
  "hc_valid hc \<longleftrightarrow> \<not> hc_failed hc \<and> bi_greater (hc_totalWork hc) (bi_of_int 0)"

definition hc_getTotalWork :: "'d header_chain \<Rightarrow> bigint" where
  "hc_getTotalWork hc = (if hc_failed hc then bi_of_int 0 else hc_totalWork hc)"

definition hc_getChainLength :: "'d header_chain \<Rightarrow> u64" where
  "hc_getChainLength hc = (if hc_failed hc then 0 else hc_chainLength hc)"

definition hc_getCurrentDownloaded :: "'d header_chain \<Rightarrow> u64" where
  "hc_getCurrentDownloaded hc = of_nat (length (hc_hashes hc))"

section \<open>Loading headers\<close>

definition hc_reset :: "'d header_chain \<Rightarrow> 'd header_chain" where
  "hc_reset hc = hc\<lparr>hc_failed := False, hc_offset := 0, hc_totalWork := bi_assign 0 (hc_totalWork hc),
     hc_chainLength := 0, hc_hashes := []\<rparr>"

definition header_block :: "block_header \<Rightarrow> block" where
  "header_block h =
     \<lparr>b_id = h_id h, b_timestamp = h_timestamp h, b_difficulty = h_difficulty h, b_transactions = [],
      b_merkleRoot = h_merkleRoot h, b_lastBlockHash = h_lastBlockHash h, b_nonce = h_nonce h\<rparr>"

definition header_accepted ::
  "crypto \<Rightarrow> 'd kv \<Rightarrow> hash \<Rightarrow> block_header \<Rightarrow> ('d header_chain, bool) cpp" where
  "header_accepted C L lastHash h =
     bindE getS (\<lambda>hc.
       let b = header_block h; curr = ucast (h_id h) in
       if map_of (hc_banned hc) curr = Some (block_getHash C b) then ok False
       else if map_of (hc_checkPoints hc) curr \<notin> {None, Some (block_getHash C b)} then ok False
       else
         bindE (zoom hc_pfcache (\<lambda>d hc. hc\<lparr>hc_pfcache := d\<rparr>) (verifyNonce C L b)) (\<lambda>nonceOk.
         if \<not> nonceOk then ok False
         else ok (b_lastBlockHash b = lastHash)))"

text \<open>The headers of one answer; the locals of the loop are the last hash, the work and the count.\<close>

fun load_headers ::
  "crypto \<Rightarrow> 'd kv \<Rightarrow> block_header list \<Rightarrow> hash \<times> bigint \<times> u64 \<Rightarrow>
   ('d header_chain, (hash \<times> bigint \<times> u64) option) cpp" where
  "load_headers C L [] loc = ok (Some loc)"
| "load_headers C L (h # hs) (lastHash, work, n) =
     bindE (header_accepted C L lastHash h) (\<lambda>accepted.
     if \<not> accepted then ok None
     else
       (let new = block_getHash C (header_block h) in
        bindE (modS (\<lambda>hc. hc\<lparr>hc_hashes := hc_hashes hc @ [new]\<rparr>)) (\<lambda>_.
        case addWork work (h_difficulty h) of
          None \<Rightarrow> throw UB
        | Some w \<Rightarrow>
            bindE (modS (\<lambda>hc. hc\<lparr>hc_chainLength := n + 1, hc_totalWork := w\<rparr>)) (\<lambda>_.
            load_headers C L hs (new, w, n + 1)))))"

fun load_batches ::
  "crypto \<Rightarrow> 'd kv \<Rightarrow> (http_request \<Rightarrow> exn + bytes) \<Rightarrow> int \<Rightarrow> int list \<Rightarrow> hash \<times> bigint \<times> u64 \<Rightarrow>
   ('d header_chain, unit) cpp" where
  "load_batches C L send target [] loc = modS (\<lambda>hc. hc\<lparr>hc_failed := False\<rparr>)"
| "load_batches C L send target (i # is) loc =
     bindE getS (\<lambda>hc.
     bindE (catchE
         (case readRawHeaders send (hc_host hc) i (min target (i + BLOCK_HEADERS_PER_FETCH - 1)) of
            Inl e \<Rightarrow> throw e | Inr hs \<Rightarrow> load_headers C L hs loc)
         (ok None)) (\<lambda>r.
     case r of
       None \<Rightarrow> modS hc_reset
     | Some loc \<Rightarrow> load_batches C L send target is loc))"

definition header_starts :: "int \<Rightarrow> int \<Rightarrow> int list" where
  "header_starts start target = filter (\<lambda>i. (i - start) mod BLOCK_HEADERS_PER_FETCH = 0) [start..target]"

definition hc_load :: "crypto \<Rightarrow> 'd kv \<Rightarrow> (http_request \<Rightarrow> exn + bytes) \<Rightarrow> ('d header_chain, unit) cpp" where
  "hc_load C L send =
     bindE getS (\<lambda>hc.
     case getCurrentBlockCount send (hc_host hc) of
       Inl (Runtime e) \<Rightarrow> modS (\<lambda>hc. hc\<lparr>hc_failed := True\<rparr>)
     | Inl e \<Rightarrow> throw e
     | Inr target \<Rightarrow>
         load_batches C L send (uint target)
           (header_starts (int (length (hc_hashes hc)) + 1) (uint target))
           (if hc_hashes hc = [] then NULL_SHA256_HASH else last (hc_hashes hc),
            hc_totalWork hc, of_nat (length (hc_hashes hc))))"

text \<open>The hashes of the blocks the node has stored itself.\<close>

fun stored_hashes :: "crypto \<Rightarrow> 'd kv \<Rightarrow> env \<Rightarrow> int list \<Rightarrow> ('d, hash list) cpp" where
  "stored_hashes C L E [] = ok []"
| "stored_hashes C L E (i # is) =
     bindE (store_getBlock L (e_mem E 0) (e_mem E 1) (word_of_int i)) (\<lambda>b.
     bindE (stored_hashes C L E is) (\<lambda>hs. ok (block_getHash C b # hs)))"

definition from_store :: "crypto \<Rightarrow> 'd kv \<Rightarrow> env \<Rightarrow> ('d, hash list \<times> bigint \<times> u64) cpp" where
  "from_store C L E =
     bindE (getBlockCount L) (\<lambda>n.
     bindE (stored_hashes C L E [1..uint n]) (\<lambda>hs.
     bindE (getTotalWork L) (\<lambda>w. ok (hs, w, n))))"

definition chain_sync_round ::
  "crypto \<Rightarrow> 'd kv \<Rightarrow> env \<Rightarrow> (http_request \<Rightarrow> exn + bytes) \<Rightarrow> ('d header_chain, unit) cpp" where
  "chain_sync_round C L E send =
     bindE getS (\<lambda>hc.
     case hc_store hc of
       Some d \<Rightarrow>
         if \<not> hc_tried hc then
           (case fst (from_store C L E d) of
              Inl e \<Rightarrow> throw e
            | Inr (hs, w, n) \<Rightarrow>
                bindE (modS (\<lambda>hc. hc\<lparr>hc_hashes := hc_hashes hc @ hs, hc_totalWork := w,
                                     hc_chainLength := n, hc_tried := True\<rparr>)) (\<lambda>_.
                hc_load C L send))
         else hc_load C L send
     | None \<Rightarrow> hc_load C L send)"

section \<open>What is known of the headers behind the hashes\<close>

definition header_hash :: "crypto \<Rightarrow> block_header \<Rightarrow> hash" where
  "header_hash C h = block_getHash C (header_block h)"

text \<open>Headers that continue a chain from the hash \<open>p\<close>, and the work after them.\<close>

fun header_path :: "crypto \<Rightarrow> hash \<Rightarrow> block_header list \<Rightarrow> bool" where
  "header_path C p [] = True"
| "header_path C p (h # hs) = (h_lastBlockHash h = p \<and> header_path C (header_hash C h) hs)"

fun work_after :: "bigint \<Rightarrow> block_header list \<Rightarrow> bigint option" where
  "work_after w [] = Some w"
| "work_after w (h # hs) = (case addWork w (h_difficulty h) of None \<Rightarrow> None | Some v \<Rightarrow> work_after v hs)"

definition header_ok :: "crypto \<Rightarrow> 'd kv \<Rightarrow> 'd header_chain \<Rightarrow> block_header \<Rightarrow> bool" where
  "header_ok C L hc h \<longleftrightarrow>
     map_of (hc_banned hc) (ucast (h_id h)) \<noteq> Some (header_hash C h) \<and>
     map_of (hc_checkPoints hc) (ucast (h_id h)) \<in> {None, Some (header_hash C h)} \<and>
     (\<exists>cache. fst (verifyNonce C L (header_block h) cache) = Inr True)"

definition last_hash :: "hash list \<Rightarrow> hash" where
  "last_hash hs = (if hs = [] then NULL_SHA256_HASH else last hs)"

text \<open>\<open>hc'\<close> has grown out of \<open>hc\<close> by the headers \<open>hs\<close>.\<close>

definition grown :: "crypto \<Rightarrow> 'd kv \<Rightarrow> 'd header_chain \<Rightarrow> block_header list \<Rightarrow> 'd header_chain \<Rightarrow> bool" where
  "grown C L hc hs hc' \<longleftrightarrow>
     hc_hashes hc' = hc_hashes hc @ map (header_hash C) hs \<and>
     header_path C (last_hash (hc_hashes hc)) hs \<and> (\<forall>h \<in> set hs. header_ok C L hc h) \<and>
     work_after (hc_totalWork hc) hs = Some (hc_totalWork hc') \<and>
     (hs = [] \<or> hc_chainLength hc' = of_nat (length (hc_hashes hc'))) \<and>
     (hs \<noteq> [] \<or> hc_chainLength hc' = hc_chainLength hc) \<and>
     hc_host hc' = hc_host hc \<and> hc_checkPoints hc' = hc_checkPoints hc \<and> hc_banned hc' = hc_banned hc"

lemma header_accepted_Inr:
  assumes "header_accepted C L p h hc = (Inr a, hc')"
  shows "(\<exists>d. hc' = hc\<lparr>hc_pfcache := d\<rparr>) \<and> (a \<longrightarrow> header_ok C L hc h \<and> h_lastBlockHash h = p)"
proof -
  have same: "\<exists>d. hc = hc\<lparr>hc_pfcache := d\<rparr>" by (rule exI [of _ "hc_pfcache hc"]) simp
  have "b_lastBlockHash (header_block h) = h_lastBlockHash h"
    by (simp add: header_block_def)
  then show ?thesis using assms same
    by (auto simp: header_accepted_def Let_def bindE_getS bindE_eq_Inr zoom_eq header_ok_def header_hash_def
        split: if_splits) (metis fst_conv)+
qed

lemma header_ok_same:
  "hc_banned hc' = hc_banned hc \<Longrightarrow> hc_checkPoints hc' = hc_checkPoints hc \<Longrightarrow>
   header_ok C L hc' h = header_ok C L hc h"
  by (simp add: header_ok_def)

lemma grown_refl: "grown C L hc [] hc"
  by (simp add: grown_def)

lemma work_after_append: "work_after w (as @ bs) = Option.bind (work_after w as) (\<lambda>v. work_after v bs)"
  by (induction as arbitrary: w) (auto split: option.splits)

lemma header_path_append:
  "header_path C (last_hash ps) (as @ bs) \<longleftrightarrow>
     header_path C (last_hash ps) as \<and> header_path C (last_hash (ps @ map (header_hash C) as)) bs"
proof (induction as arbitrary: ps)
  case (Cons a as)
  from Cons.IH [of "ps @ [header_hash C a]"] show ?case by (auto simp: last_hash_def)
qed simp

lemma grown_trans:
  assumes "grown C L hc hs hc1" "grown C L hc1 hs' hc2"
  shows "grown C L hc (hs @ hs') hc2"
  using assms header_ok_same [of hc1 hc C L]
  by (auto simp: grown_def header_path_append work_after_append)

lemma grown_step:
  assumes "header_ok C L hc h" "h_lastBlockHash h = last_hash (hc_hashes hc)"
    and "addWork (hc_totalWork hc) (h_difficulty h) = Some w"
  shows "grown C L hc [h] (hc\<lparr>hc_pfcache := d, hc_hashes := hc_hashes hc @ [header_hash C h],
    hc_chainLength := of_nat (length (hc_hashes hc)) + 1, hc_totalWork := w\<rparr>)"
  using assms by (simp add: grown_def add.commute)

lemma load_headers_Inr:
  assumes "load_headers C L hs (last_hash (hc_hashes hc), hc_totalWork hc, of_nat (length (hc_hashes hc))) hc =
      (Inr (Some loc), hc')"
  shows "grown C L hc hs hc' \<and>
    loc = (last_hash (hc_hashes hc'), hc_totalWork hc', of_nat (length (hc_hashes hc')))"
  using assms
proof (induction hs arbitrary: hc)
  case Nil
  then show ?case by (auto simp: grown_refl)
next
  case (Cons h hs)
  from Cons.prems obtain hc1 w where
    a: "header_accepted C L (last_hash (hc_hashes hc)) h hc = (Inr True, hc1)"
    and w: "addWork (hc_totalWork hc) (h_difficulty h) = Some w"
    and r: "load_headers C L hs (header_hash C h, w, of_nat (length (hc_hashes hc)) + 1)
       (hc1\<lparr>hc_hashes := hc_hashes hc1 @ [header_hash C h],
            hc_chainLength := of_nat (length (hc_hashes hc)) + 1, hc_totalWork := w\<rparr>) = (Inr (Some loc), hc')"
    by (auto simp: bindE_eq_Inr modS_def Let_def header_hash_def split: if_splits option.splits)
  from header_accepted_Inr [OF a] obtain d where
    d: "hc1 = hc\<lparr>hc_pfcache := d\<rparr>" "header_ok C L hc h" "h_lastBlockHash h = last_hash (hc_hashes hc)" by blast
  let ?hc2 = "hc\<lparr>hc_pfcache := d, hc_hashes := hc_hashes hc @ [header_hash C h],
    hc_chainLength := of_nat (length (hc_hashes hc)) + 1, hc_totalWork := w\<rparr>"
  note g = grown_step [OF d(2,3) w, of d]
  have "load_headers C L hs (last_hash (hc_hashes ?hc2), hc_totalWork ?hc2, of_nat (length (hc_hashes ?hc2))) ?hc2 =
      (Inr (Some loc), hc')"
    using r by (simp add: d(1) last_hash_def add.commute)
  from Cons.IH [OF this] grown_trans [OF g, of hs hc'] show ?case by simp
qed

definition emptied :: "'d header_chain \<Rightarrow> bool" where
  "emptied hc \<longleftrightarrow> hc_hashes hc = [] \<and> hc_chainLength hc = 0 \<and> \<not> hc_failed hc \<and> bi_number (hc_totalWork hc) = [0]"

lemma load_batches_Inr:
  assumes "load_batches C L send target is
      (last_hash (hc_hashes hc), hc_totalWork hc, of_nat (length (hc_hashes hc))) hc = (Inr u, hc')"
  shows "emptied hc' \<or> (\<exists>hs. grown C L hc hs hc' \<and> \<not> hc_failed hc')"
  using assms
proof (induction "is" arbitrary: hc)
  case Nil
  then have "hc' = hc\<lparr>hc_failed := False\<rparr>" by (simp add: modS_def)
  then have "grown C L hc [] hc' \<and> \<not> hc_failed hc'" by (simp add: grown_def)
  then show ?case by blast
next
  case (Cons i "is")
  let ?loc = "(last_hash (hc_hashes hc), hc_totalWork hc, of_nat (length (hc_hashes hc)))"
  from Cons.prems obtain r hc1 where
    t: "catchE (case readRawHeaders send (hc_host hc) i (min target (i + BLOCK_HEADERS_PER_FETCH - 1)) of
            Inl e \<Rightarrow> throw e | Inr hs \<Rightarrow> load_headers C L hs ?loc) (ok None) hc = (Inr r, hc1)"
    and k: "(case r of None \<Rightarrow> modS hc_reset | Some loc \<Rightarrow> load_batches C L send target is loc) hc1 = (Inr u, hc')"
    by (auto simp: bindE_getS bindE_eq_Inr)
  show ?case
  proof (cases r)
    case None
    with k have "hc' = hc_reset hc1" by (simp add: modS_def)
    then show ?thesis by (simp add: emptied_def hc_reset_def bi_assign_def)
  next
    case (Some loc)
    with t obtain hs where "load_headers C L hs ?loc hc = (Inr (Some loc), hc1)"
      by (auto simp: catchE_def split: sum.splits exn.splits prod.splits)
    from load_headers_Inr [OF this] k Some Cons.IH [of hc1] grown_trans [of C L hc hs hc1 _ hc']
    show ?thesis by auto
  qed
qed

text \<open>A chain that was thrown away counts as valid: an assigned 0 is greater than a constructed one.\<close>

lemma emptied_valid: "emptied hc \<Longrightarrow> bi_positive (hc_totalWork hc) \<Longrightarrow> hc_valid hc"
  by (simp add: emptied_def hc_valid_def bi_greater_def bi_compare_def bi_of_int_def bi_limbs.simps)

definition sample_peer_header :: "http_request \<Rightarrow> exn + bytes" where
  "sample_peer_header r =
     (if r = GET ''h/block_count'' then Inr (text_bytes ''1'')
      else Inr (blockHeaderToBuffer (block_serialize (sample_block 1 []))))"

definition sample_header_chain :: "(bytes \<times> bytes) list header_chain" where
  "sample_header_chain = header_chain_new ''h'' [] [(1, replicate 32 7)] None []"

section \<open>Properties\<close>



text \<open>
  The numbering of the hashes is off by one at both ends: \<open>getHash\<close> gives the hash of block
  \<open>i\<close> for every block but the last, for which it answers as for an unknown block, and block 0
  is read in front of the vector.
\<close>

lemma hc_getHash_cases:
  assumes "length (hc_hashes hc) < 2 ^ 64" "1 \<le> i" "i \<le> length (hc_hashes hc)"
  shows "hc_getHash (of_nat i) hc =
      Inr (if i = length (hc_hashes hc) then NULL_SHA256_HASH else hc_hashes hc ! (i - 1)) \<and>
    hc_getHash 0 hc = Inl UB"
proof -
  have "unat (of_nat i :: u64) = i" using assms by (simp add: unsigned_of_nat take_bit_nat_eq_self)
  then show ?thesis using assms by (auto simp: hc_getHash_def unat_eq_zero)
qed

lemma hc_getHash_cases_witness:
  "hc_getHash 1 (sample_header_chain\<lparr>hc_hashes := [replicate 32 9]\<rparr>) = Inr NULL_SHA256_HASH"
  using hc_getHash_cases [of "sample_header_chain\<lparr>hc_hashes := [replicate 32 9]\<rparr>" 1] by simp

end
