(* ===== verification/ChainSync.thy ===== *)
theory ChainSync
  imports ChainProperties
begin

text \<open>
  Synchronisation with the network: \<open>BlockChain::startChainSync\<close> and one iteration of the
  thread \<open>chain_sync\<close> of \<open>server/blockchain.cpp\<close>. What the peers answer is a record of
  functions, \<open>peer_view\<close>; the theory \<open>HostManager\<close> computes it from the peers' header chains.

  Both functions hold the mutex of the chain, which is not recursive, while they call
  operations that lock it again: adding a block, and the reset that popping down to block 1
  ends in. The theorems say when they therefore do not return.
\<close>

section \<open>What the peers answer\<close>

record peer_view =
  v_count :: u64
  v_work :: bigint
  v_hash :: "u64 \<Rightarrow> hash"
  v_blocks :: "int \<Rightarrow> int \<Rightarrow> exn + block list"

definition FORK_CHAIN_POP_COUNT :: int where
  "FORK_CHAIN_POP_COUNT = 100"

definition FORK_RESET_RETRIES :: int where
  "FORK_RESET_RETRIES = 25"

definition BLOCKS_PER_FETCH :: int where
  "BLOCKS_PER_FETCH = 200"

section \<open>Popping blocks that the network does not have\<close>

text \<open>The number of blocks to pop, from the first block whose hash differs; 0 if none does.\<close>

fun blocks_to_pop ::
  "crypto \<Rightarrow> 'd kv \<Rightarrow> env \<Rightarrow> peer_view \<Rightarrow> int \<Rightarrow> int list \<Rightarrow> ('d blockchain, u64) cpp" where
  "blocks_to_pop C L E V n [] = ok 0"
| "blocks_to_pop C L E V n (i # is) =
     bindE (chain_getBlock L E (word_of_int i)) (\<lambda>b.
     if v_hash V (word_of_int i) \<noteq> block_getHash C b
     then ok (word_of_int (n - i + FORK_CHAIN_POP_COUNT))
     else blocks_to_pop C L E V n is)"

text \<open>Pop at most \<open>k\<close> blocks and stop at block 1.\<close>

fun pop_blocks :: "crypto \<Rightarrow> 'd kv \<Rightarrow> env \<Rightarrow> nat \<Rightarrow> ('d blockchain, unit) cpp" where
  "pop_blocks C L E 0 = ok ()"
| "pop_blocks C L E (Suc k) =
     bindE getS (\<lambda>c.
       if c_numBlocks c = 1 then ok ()
       else bindE (popBlock C L E) (\<lambda>_. pop_blocks C L E k))"

definition pop_diverging :: "crypto \<Rightarrow> 'd kv \<Rightarrow> env \<Rightarrow> peer_view \<Rightarrow> ('d blockchain, unit) cpp" where
  "pop_diverging C L E V =
     bindE getS (\<lambda>c.
       if bi_greater (v_work V) (c_totalWork c) then
         bindE (blocks_to_pop C L E V (c_numBlocks c) [1..c_numBlocks c]) (\<lambda>toPop.
         pop_blocks C L E (unat toPop))
       else ok ())"

section \<open>Fetching blocks\<close>

text \<open>A status other than \<open>SUCCESS\<close> ends the batch.\<close>

fun add_blocks :: "crypto \<Rightarrow> 'd kv \<Rightarrow> env \<Rightarrow> block list \<Rightarrow> ('d blockchain, execution_status option) cpp" where
  "add_blocks C L E [] = ok None"
| "add_blocks C L E (b # bs) =
     bindE (addBlock C L E b) (\<lambda>addResult.
     if addResult \<noteq> SUCCESS then ok (Some addResult) else add_blocks C L E bs)"

definition stop_syncing :: "'a \<Rightarrow> ('d blockchain, 'a) cpp" where
  "stop_syncing r = bindE (modS (\<lambda>c. c\<lparr>c_isSyncing := False\<rparr>)) (\<lambda>_. ok r)"

text \<open>One pass of the loop: \<open>None\<close> goes on, \<open>Some\<close> is the value \<open>startChainSync\<close> returns.\<close>

definition fetch_batch ::
  "crypto \<Rightarrow> 'd kv \<Rightarrow> env \<Rightarrow> peer_view \<Rightarrow> int \<Rightarrow> int \<Rightarrow> ('d blockchain, execution_status option) cpp" where
  "fetch_batch C L E V target i =
     catchE
       (case v_blocks V i (min target (i + BLOCKS_PER_FETCH - 1)) of
          Inl e \<Rightarrow> throw e
        | Inr blocks \<Rightarrow>
            bindE (add_blocks C L E blocks) (\<lambda>r.
            case r of None \<Rightarrow> ok None | Some status \<Rightarrow> stop_syncing (Some status)))
       (stop_syncing (Some UNKNOWN_ERROR))"

fun fetch_batches ::
  "crypto \<Rightarrow> 'd kv \<Rightarrow> env \<Rightarrow> peer_view \<Rightarrow> int \<Rightarrow> int list \<Rightarrow> ('d blockchain, execution_status) cpp" where
  "fetch_batches C L E V target [] = stop_syncing SUCCESS"
| "fetch_batches C L E V target (i # is) =
     bindE (fetch_batch C L E V target i) (\<lambda>r.
     case r of Some status \<Rightarrow> ok status | None \<Rightarrow> fetch_batches C L E V target is)"

definition batch_starts :: "int \<Rightarrow> int \<Rightarrow> int list" where
  "batch_starts start target = filter (\<lambda>i. (i - start) mod BLOCKS_PER_FETCH = 0) [start..target]"

definition startChainSync :: "crypto \<Rightarrow> 'd kv \<Rightarrow> env \<Rightarrow> peer_view \<Rightarrow> ('d blockchain, execution_status) cpp" where
  "startChainSync C L E V =
     with_lock (
       bindE (modS (\<lambda>c. c\<lparr>c_isSyncing := True, c_targetBlockCount := sint (ucast (v_count V) :: u32)\<rparr>)) (\<lambda>_.
       bindE (pop_diverging C L E V) (\<lambda>_.
       bindE getS (\<lambda>c.
       fetch_batches C L E V (c_targetBlockCount c)
         (batch_starts (c_numBlocks c + 1) (c_targetBlockCount c))))))"

section \<open>One iteration of the thread\<close>

definition retry :: "crypto \<Rightarrow> 'd kv \<Rightarrow> env \<Rightarrow> ('d blockchain, unit) cpp" where
  "retry C L E =
     bindE (modS (\<lambda>c. c\<lparr>c_retries := c_retries c + 1\<rparr>)) (\<lambda>_.
     bindE getS (\<lambda>c.
     if FORK_RESET_RETRIES < c_retries c then throw Exit
     else with_lock (
       bindE (modS (\<lambda>c. c\<lparr>c_isSyncing := True\<rparr>)) (\<lambda>_.
       bindE (pop_blocks C L E (nat (FORK_CHAIN_POP_COUNT * c_retries c))) (\<lambda>_.
       modS (\<lambda>c. c\<lparr>c_isSyncing := False\<rparr>))))))"

definition chain_sync_step :: "crypto \<Rightarrow> 'd kv \<Rightarrow> env \<Rightarrow> peer_view \<Rightarrow> ('d blockchain, unit) cpp" where
  "chain_sync_step C L E V =
     bindE getS (\<lambda>c.
     if \<not> c_isSyncing c \<and> word_of_int (c_numBlocks c) < v_count V then
       bindE (startChainSync C L E V) (\<lambda>status.
       if status \<noteq> SUCCESS then retry C L E
       else modS (\<lambda>c. c\<lparr>c_retries := 0\<rparr>))
     else ok ())"

section \<open>Locking twice\<close>

text \<open>Adding a block with the lock held does not return.\<close>

lemma addBlock_locked: "c_locked c \<Longrightarrow> addBlock C L E blk c = (Inl Deadlock, c)"
  by (simp add: addBlock_def with_lock_locked)

lemma resetChain_locked:
  assumes "c_locked c" "resetChain C L E c = (r, c')"
  shows "\<exists>e. r = Inl e"
proof (rule ccontr)
  assume "\<not> (\<exists>e. r = Inl e)"
  then obtain u where u: "resetChain C L E c = (Inr u, c')" using assms(2) by (cases r) auto
  let ?c = "c\<lparr>c_difficulty := 16, c_targetBlockCount := 1, c_numBlocks := 0,
    c_totalWork := bi_assign 0 (c_totalWork c), c_lastHash := NULL_SHA256_HASH\<rparr>"
  from u obtain c1 c2 c3 genesis s c4 where
    "on_db (ledger_clear L) ?c = (Inr (), c1)" "on_store (datastore_clear L) c1 = (Inr (), c2)"
    "on_txdb (datastore_clear L) c2 = (Inr (), c3)" and a: "addBlock C L E genesis c3 = (Inr s, c4)"
    by (auto simp: resetChain_def bindE_eq_Inr modS_def split: option.splits)
  then have "c_locked c3" using assms(1) by (auto simp: on_db_eq on_store_eq on_txdb_eq)
  from addBlock_locked [OF this] a show False by simp
qed

lemma pop_locked:
  fixes c :: "'d blockchain"
  assumes "c_locked c" "popBlock C L E c = (Inr u, c')" "0 < c_numBlocks c" "c_numBlocks c < 2 ^ 31"
  shows "c_locked c' \<and> c_numBlocks c' = c_numBlocks c - 1 \<and> 1 < c_numBlocks c'"
proof -
  obtain c4 cx :: "'d blockchain" where c4: "c_locked c4" "c_numBlocks c4 = c_numBlocks c - 1"
      "c_numBlocks cx = c_numBlocks c - 1" and
    rest: "(if 1 < getBlockCount32 cx then
       bindE (chain_getBlock L E (getBlockCount32 cx)) (\<lambda>newLast.
       bindE (updateDifficulty L E) (\<lambda>_.
       modS (\<lambda>c. c\<lparr>c_lastHash := block_getHash C newLast\<rparr>)))
     else resetChain C L E) c4 = (Inr u, c')"
    by (insert assms(1,2), unfold popBlock_def, elim bindE_InrE, rule that [rotated 3], assumption)
      (auto simp: on_store_eq on_ledger_and_txdb_def zoom_eq modS_def getS_def
        split: option.splits dest!: quietD [OF quiet_chain_getBlock])
  have g: "1 < getBlockCount32 cx" using rest resetChain_locked [OF c4(1), of C L E "Inr u" c'] by (auto split: if_splits)
  have "uint (getBlockCount32 cx) = c_numBlocks c - 1"
    unfolding getBlockCount32_def uint_word_of_int c4(3)
    by (rule mod_pos_pos_trivial) (use assms(3,4) in simp_all)
  with g have "1 < c_numBlocks c - 1" by (simp add: word_less_def)
  moreover have "c_locked c' \<and> c_numBlocks c' = c_numBlocks c4"
    using rest g c4(1)
    by (auto simp: modS_def bindE_eq_Inr dest!: quietD [OF quiet_chain_getBlock] updateDifficulty_state)
  ultimately show ?thesis using c4(2) by simp
qed

text \<open>A loop long enough to reach block 1 does not end normally.\<close>

lemma pop_blocks_locked:
  assumes "c_locked c" "2 \<le> c_numBlocks c" "c_numBlocks c < 2 ^ 31" "c_numBlocks c \<le> int k + 1"
  shows "\<exists>e. fst (pop_blocks C L E k c) = Inl e"
  using assms
proof (induction k arbitrary: c)
  case (Suc k)
  show ?case
  proof (cases "popBlock C L E c")
    case (Pair r c1)
    show ?thesis
    proof (cases r)
      case (Inl e)
      with Pair Suc.prems(2) show ?thesis by (simp add: bindE_getS bindE_Inl)
    next
      case (Inr u)
      from pop_locked [OF Suc.prems(1) Pair [unfolded Inr]] Suc.prems
      have "c_locked c1" "2 \<le> c_numBlocks c1" "c_numBlocks c1 < 2 ^ 31" "c_numBlocks c1 \<le> int k + 1" by simp_all
      from Suc.IH [OF this] Pair Inr Suc.prems(2) show ?thesis by (simp add: bindE_getS bindE_Inr)
    qed
  qed
qed simp

section \<open>Synchronising with the lock held\<close>

lemma add_blocks_locked:
  "c_locked c \<Longrightarrow> add_blocks C L E bs c = (if bs = [] then (Inr None, c) else (Inl Deadlock, c))"
  by (cases bs) (simp_all add: bindE_Inl [where m = "addBlock C L E b" for b] addBlock_locked)

lemma stop_syncing_eq: "stop_syncing r c = (Inr r, c\<lparr>c_isSyncing := False\<rparr>)"
  by (simp add: stop_syncing_def bindE_modS)

lemma fetch_batch_locked:
  assumes "c_locked c" "fetch_batch C L E V target i c = (Inr r, c')"
  shows "c_locked c' \<and> c_numBlocks c' = c_numBlocks c"
  using assms
  by (auto simp: fetch_batch_def catchE_def bindE_def add_blocks_locked stop_syncing_eq
      split: sum.splits exn.splits if_splits prod.splits option.splits)

lemma fetch_batches_locked:
  "c_locked c \<Longrightarrow> fetch_batches C L E V target is c = (Inr s, c') \<Longrightarrow>
   c_locked c' \<and> c_numBlocks c' = c_numBlocks c"
proof (induction "is" arbitrary: c)
  case (Cons i "is")
  from Cons.prems(2) obtain r c1 where f: "fetch_batch C L E V target i c = (Inr r, c1)"
    and k: "(case r of Some status \<Rightarrow> ok status | None \<Rightarrow> fetch_batches C L E V target is) c1 = (Inr s, c')"
    by (auto simp: bindE_eq_Inr)
  from fetch_batch_locked [OF Cons.prems(1) f] k Cons.IH [of c1] show ?case by (auto split: option.splits)
qed (auto simp: stop_syncing_eq)

lemma pop_blocks_fewer:
  assumes "c_locked c" "0 < c_numBlocks c" "c_numBlocks c < 2 ^ 31" "pop_blocks C L E k c = (Inr u, c')"
  shows "c_locked c' \<and> c_numBlocks c' \<le> c_numBlocks c"
  using assms
proof (induction k arbitrary: c)
  case (Suc k)
  show ?case
  proof (cases "c_numBlocks c = 1")
    case True
    with Suc.prems show ?thesis by (simp add: bindE_getS)
  next
    case False
    with Suc.prems(4) obtain v c1 where p: "popBlock C L E c = (Inr v, c1)"
      and k: "pop_blocks C L E k c1 = (Inr u, c')" by (auto simp: bindE_getS bindE_eq_Inr)
    from pop_locked [OF Suc.prems(1) p] Suc.prems(2,3) Suc.IH [OF _ _ _ k] show ?thesis by simp
  qed
qed simp

lemma quiet_blocks_to_pop [quiets]: "quiet (blocks_to_pop C L E V n is)"
  by (induction "is") (simp_all only: blocks_to_pop.simps, (intro quiets; assumption?)+)

lemma startChainSync_Inr:
  assumes "startChainSync C L E V c = (Inr s, c')" "0 < c_numBlocks c" "c_numBlocks c < 2 ^ 31"
  shows "c_numBlocks c' \<le> c_numBlocks c"
proof -
  let ?c = "c\<lparr>c_locked := True, c_isSyncing := True, c_targetBlockCount := sint (ucast (v_count V) :: u32)\<rparr>"
  from assms(1) obtain u c1 c2 where
    p: "pop_diverging C L E V ?c = (Inr u, c1)" and
    f: "fetch_batches C L E V (c_targetBlockCount c1)
      (batch_starts (c_numBlocks c1 + 1) (c_targetBlockCount c1)) c1 = (Inr s, c2)" and
    c': "c_numBlocks c' = c_numBlocks c2"
    by (auto simp: startChainSync_def with_lock_Inr bindE_modS bindE_getS bindE_eq_Inr [where m = "pop_diverging C L E V"])
  have "c_locked c1 \<and> c_numBlocks c1 \<le> c_numBlocks c"
  proof (cases "bi_greater (v_work V) (c_totalWork ?c)")
    case True
    with p obtain n c3 where q: "blocks_to_pop C L E V (c_numBlocks c) [1..c_numBlocks c] ?c = (Inr n, c3)"
      and b: "pop_blocks C L E (unat n) c3 = (Inr u, c1)"
      by (auto simp: pop_diverging_def bindE_getS bindE_eq_Inr)
    from quietD [OF quiet_blocks_to_pop q] have c3: "c3 = ?c" .
    from pop_blocks_fewer [OF _ _ _ b] assms(2,3) show ?thesis by (simp add: c3)
  next
    case False
    with p show ?thesis by (auto simp: pop_diverging_def bindE_getS)
  qed
  with fetch_batches_locked [OF _ f] c' show ?thesis by simp
qed

section \<open>Properties\<close>

text \<open>
  C28. No block reaches the chain through the network. \<open>addBlockSync\<close>, which the server calls for
  a submitted block, locks the mutex that \<open>addBlock\<close> then locks again, so outside of
  synchronisation it never returns; and whenever \<open>startChainSync\<close> returns, with any status and
  any answers of the peers, the chain has not grown.
\<close>

theorem network_adds_nothing:
  "fst (addBlockSync C L E blk c) = (if c_isSyncing c then Inr IS_SYNCING else Inl Deadlock) \<and>
   (startChainSync C L E V c = (Inr s, c') \<and> 0 < c_numBlocks c \<and> c_numBlocks c < 2 ^ 31 \<longrightarrow>
     c_numBlocks c' \<le> c_numBlocks c)"
proof (intro conjI impI)
  show "fst (addBlockSync C L E blk c) = (if c_isSyncing c then Inr IS_SYNCING else Inl Deadlock)"
    by (simp add: addBlockSync_def bindE_getS with_lock_def addBlock_locked)
  show "c_numBlocks c' \<le> c_numBlocks c"
    if "startChainSync C L E V c = (Inr s, c') \<and> 0 < c_numBlocks c \<and> c_numBlocks c < 2 ^ 31"
    using startChainSync_Inr that by blast
qed

definition sample_view :: peer_view where
  "sample_view = \<lparr>v_count = 2, v_work = bi_of_int 0, v_hash = (\<lambda>i. []), v_blocks = (\<lambda>i j. Inr [])\<rparr>"

lemma network_adds_nothing_witness:
  "fst (addBlockSync sample_crypto mem_kv sample_env (sample_next sample_txs) sample_chain) = Inl Deadlock \<and>
   (\<exists>c'. startChainSync sample_crypto mem_kv sample_env sample_view sample_chain = (Inr SUCCESS, c') \<and>
     c_numBlocks c' \<le> 2)"
proof -
  have "\<not> bi_greater (v_work sample_view) (c_totalWork sample_chain)" by code_simp
  then have "\<exists>c'. startChainSync sample_crypto mem_kv sample_env sample_view sample_chain = (Inr SUCCESS, c')"
    by (simp add: startChainSync_def with_lock_def sample_unlocked bindE_modS bindE_getS pop_diverging_def
        bindE_def sample_view_def batch_starts_def stop_syncing_eq modS_def)
  moreover have "\<not> c_isSyncing sample_chain" by (simp add: sample_chain_def)
  ultimately show ?thesis
    using network_adds_nothing [of sample_crypto mem_kv sample_env "sample_next sample_txs" sample_chain
        sample_view SUCCESS] by (auto simp: sample_unlocked)
qed



end
