(* ===== verification/Config.thy ===== *)
theory Config
  imports Api
begin

text \<open>
  \<open>core/config.cpp\<close>: the configuration the command line selects, as the JSON object the other
  components read. The number of processor threads and the random default name are arguments.
\<close>

section \<open>The options\<close>

definition has_option :: "string \<Rightarrow> string list \<Rightarrow> bool" where
  "has_option opt args \<longleftrightarrow> opt \<in> set args"

text \<open>The argument behind the first \<open>opt\<close>; there is none behind the last argument.\<close>

definition option_value :: "string \<Rightarrow> string list \<Rightarrow> exn + string option" where
  "option_value opt args =
     (case dropWhile (\<lambda>a. a \<noteq> opt) args of
        [] \<Rightarrow> Inr None
      | [_] \<Rightarrow> Inl UB
      | _ # v # _ \<Rightarrow> Inr (Some v))"

definition string_option :: "string \<Rightarrow> string \<Rightarrow> string list \<Rightarrow> exn + string" where
  "string_option d opt args =
     and_then (option_value opt args) (\<lambda>v. Inr (case v of None \<Rightarrow> d | Some s \<Rightarrow> s))"

definition int_option :: "int \<Rightarrow> string \<Rightarrow> string list \<Rightarrow> exn + int" where
  "int_option d opt args =
     and_then (option_value opt args) (\<lambda>v. case v of None \<Rightarrow> Inr d | Some s \<Rightarrow> stoi s)"

definition json_pair :: "int \<Rightarrow> string \<Rightarrow> json" where
  "json_pair n s = JArr [JInt n, JStr s]"

definition testnet_checkpoints :: "json list" where
  "testnet_checkpoints =
     [json_pair 2 ''0E865D520237B975B8D202FABFB25607458AF4605A74361498B24AEA7BF5CB34'']"

definition mainnet_checkpoints :: "json list" where
  "mainnet_checkpoints =
     [json_pair 1 ''0840EF092D16B7D2D31B6F8CBB855ACF36D73F5778A430B0CEDB93A6E33AF750'',
      json_pair 7774 ''E1DC4CA2F2D634868C12B2C8963B33DD8632F459A1D37701A6B9BE17C0DA99EB'',
      json_pair 14142 ''BC77EB5157A82E1FC684653FEBECAEAF1034F7E0ABE09A10908B4F75D0F66956'',
      json_pair 50000 ''FCB52942BEF47DD21BEAFBB5FE907A893FA5ABCA4659044E0914CCCBF0FB571C'',
      json_pair 100000 ''FCF90CDAD5BF111AE4346FBA3156EE47CAD337A6EA11BE86469994F07ABA49BD'',
      json_pair 150000 ''50601CBBF4701553209C1B9E5E09C3E1F06CC7FD9B4C4B9D9CA82D9F77E44DEB'',
      json_pair 200000 ''1BE4BA317867A587B4ED4480084134CB2BC7998EC9C336E00E46D6CB6DA89A44'',
      json_pair 250000 ''69FBEC9482E099D96C9462DAD765C5E11258344AE986E4E63DCD24030A7CF2C2'',
      json_pair 300000 ''E43270C33F6A029E6104CC2A3A6E59FA55B6C42B49EAF8DA35CD36D082290645'',
      json_pair 350000 ''564A807B18A9C36275E0BCC2478A94005CE53C9E7C160929B2941E0235B50097'']"

definition mainnet_bannedHashes :: "json list" where
  "mainnet_bannedHashes =
     [json_pair 143799 ''60D84E0D3078F3FFD9E54133B450448F3F12B671028B0431F775A37A347FFACA'']"

text \<open>The object built from the values of the options and the flags among the arguments.\<close>

definition network_name :: "string list \<Rightarrow> string \<Rightarrow> string" where
  "network_name args network =
     (if has_option ''--local'' args then ''localnet''
      else if has_option ''--testnet'' args then ''testnet'' else network)"

definition host_sources :: "string list \<Rightarrow> string option \<Rightarrow> string list" where
  "host_sources args source =
     (case source of None \<Rightarrow> [] | Some s \<Rightarrow> [s]) @
     (if has_option ''--local'' args then []
      else if has_option ''--testnet'' args then [''http://65.109.169.45:3000/peers'']
      else [''http://65.108.201.144:3000/peers''])"

definition config_checkpoints :: "string list \<Rightarrow> string \<Rightarrow> json list" where
  "config_checkpoints args network =
     (if has_option ''--testnet'' args then testnet_checkpoints else []) @
     (if network_name args network = ''mainnet'' then mainnet_checkpoints else [])"

definition config_bannedHashes :: "string list \<Rightarrow> string \<Rightarrow> json list" where
  "config_bannedHashes args network =
     (if network_name args network = ''mainnet'' then mainnet_bannedHashes else [])"

definition config_object ::
  "string list \<Rightarrow> int \<Rightarrow> string \<Rightarrow> int \<Rightarrow> string \<Rightarrow> string \<Rightarrow> int \<Rightarrow> string \<Rightarrow> string option \<Rightarrow> json" where
  "config_object args threads wallet priority ip name port network source =
     jobject
       [(''rateLimiter'', JBool (\<not> has_option ''--disable-limiter'' args)),
        (''threads'', JInt threads),
        (''wallet'', JStr wallet),
        (''port'', JInt port),
        (''name'', JStr name),
        (''networkName'', JStr (network_name args network)),
        (''firewall'', JBool (has_option ''--firewall'' args)),
        (''checkpoints'', JArr (config_checkpoints args network)),
        (''bannedHashes'', JArr (config_bannedHashes args network)),
        (''ip'', JStr ip),
        (''thread_priority'', JInt priority),
        (''hostSources'', JArr (map JStr (host_sources args source))),
        (''minHostVersion'', JStr ''0.9.0-alpha''),
        (''showHeaderStats'', JBool True)]"

text \<open>\<open>cores\<close> is \<open>hardware_concurrency()\<close>, \<open>random\<close> the random name of 25 characters.\<close>

definition getConfig :: "int \<Rightarrow> string \<Rightarrow> string list \<Rightarrow> exn + json" where
  "getConfig cores random args =
     and_then (int_option (if cores = 0 then 1 else cores) ''-t'' args) (\<lambda>threads.
     and_then (string_option [] ''--wallet'' args) (\<lambda>customWallet.
     and_then (int_option 0 ''--priority'' args) (\<lambda>thread_priority.
     and_then (string_option [] ''-ip'' args) (\<lambda>customIp.
     and_then (string_option random ''-n'' args) (\<lambda>customName.
     and_then (int_option 3000 ''-p'' args) (\<lambda>customPort.
     and_then (string_option ''mainnet'' ''--network-name'' args) (\<lambda>networkName.
     and_then (option_value ''--host-source'' args) (\<lambda>source.
     Inr (config_object args threads customWallet thread_priority customIp customName customPort
       networkName source)))))))))"

section \<open>Reading a configuration\<close>

definition as_bool :: "json \<Rightarrow> exn + bool" where
  "as_bool j = (case j of JBool b \<Rightarrow> Inr b | _ \<Rightarrow> Inl type_error)"

definition get_bool :: "json \<Rightarrow> string \<Rightarrow> exn + bool" where
  "get_bool j k = and_then (jget j k) as_bool"

definition get_int :: "json \<Rightarrow> string \<Rightarrow> exn + int" where
  "get_int j k = map_sum id sint (get_word j k :: exn + u32)"

text \<open>\<open>j[n]\<close>: an array grows by null values up to \<open>n\<close>.\<close>

definition jnth :: "json \<Rightarrow> nat \<Rightarrow> exn + json" where
  "jnth j n =
     (case j of
        JArr js \<Rightarrow> Inr (if n < length js then js ! n else JNull)
      | JNull \<Rightarrow> Inr JNull
      | _ \<Rightarrow> Inl type_error)"

section \<open>What a configuration holds\<close>

lemma and_then_Inr: "and_then r f = Inr b \<longleftrightarrow> (\<exists>a. r = Inr a \<and> f a = Inr b)"
  by (auto simp: and_then_def split: sum.split)

lemma and_then_ok [simp]: "and_then (Inr a) f = f a" "and_then (Inl e) f = Inl e"
  by (simp_all add: and_then_def)

lemma config_object_members [simp]:
  fixes args threads wallet priority ip name port network source
  defines "config \<equiv> config_object args threads wallet priority ip name port network source"
  shows "jget config ''name'' = Inr (JStr name)" "jget config ''port'' = Inr (JInt port)"
    "jget config ''ip'' = Inr (JStr ip)" "jget config ''firewall'' = Inr (JBool (has_option ''--firewall'' args))"
    "jget config ''networkName'' = Inr (JStr (network_name args network))"
    "jget config ''checkpoints'' = Inr (JArr (config_checkpoints args network))"
    "jget config ''bannedHashes'' = Inr (JArr (config_bannedHashes args network))"
    "jget config ''minHostVersion'' = Inr (JStr ''0.9.0-alpha'')"
    "jget config ''hostSources'' = Inr (JArr (map JStr (host_sources args source)))"
    "jget config ''showHeaderStats'' = Inr (JBool True)"
    "jget config ''rateLimiter'' = Inr (JBool (\<not> has_option ''--disable-limiter'' args))"
  by (simp_all only: config_def config_object_def) (simp_all add: jget_jobject)

lemma getConfig_object:
  assumes "getConfig cores random args = Inr config"
  obtains threads wallet priority ip name port network source where
    "config = config_object args threads wallet priority ip name port network source"
    "string_option ''mainnet'' ''--network-name'' args = Inr network"
    "option_value ''--host-source'' args = Inr source"
  using assms by (auto simp: getConfig_def and_then_Inr)

text \<open>The hashes of the configuration are pairs of a number and 64 hexadecimal digits.\<close>

definition is_hash_pair :: "json \<Rightarrow> bool" where
  "is_hash_pair j \<longleftrightarrow> (\<exists>n s. j = json_pair n s \<and> length s = 64)"

lemma config_hashes:
  "\<forall>j \<in> set (config_checkpoints args network). is_hash_pair j"
  "\<forall>j \<in> set (config_bannedHashes args network). is_hash_pair j"
proof -
  have "\<forall>j \<in> set testnet_checkpoints. is_hash_pair j" "\<forall>j \<in> set mainnet_checkpoints. is_hash_pair j"
    "\<forall>j \<in> set mainnet_bannedHashes. is_hash_pair j"
    by (simp_all add: testnet_checkpoints_def mainnet_checkpoints_def mainnet_bannedHashes_def is_hash_pair_def json_pair_def)
  then show "\<forall>j \<in> set (config_checkpoints args network). is_hash_pair j"
    "\<forall>j \<in> set (config_bannedHashes args network). is_hash_pair j"
    by (auto simp: config_checkpoints_def config_bannedHashes_def split: if_splits)
qed

lemma config_object_reads [simp]:
  fixes args threads wallet priority ip name port network source
  defines "config \<equiv> config_object args threads wallet priority ip name port network source"
  shows "get_string config ''name'' = Inr name" "get_string config ''ip'' = Inr ip"
    "get_int config ''port'' = Inr (sint (word_of_int port :: u32))"
    "get_bool config ''firewall'' = Inr (has_option ''--firewall'' args)"
    "get_string config ''networkName'' = Inr (network_name args network)"
    "get_string config ''minHostVersion'' = Inr ''0.9.0-alpha''"
    "get_bool config ''showHeaderStats'' = Inr True"
    "get_bool config ''rateLimiter'' = Inr (\<not> has_option ''--disable-limiter'' args)"
  by (simp_all add: config_def get_string_def get_int_def get_bool_def get_word_def as_string_def as_bool_def as_word_def)

end
