(* ===== verification/HostManager.thy ===== *)
theory HostManager
  imports HeaderChain ChainSync Config
begin

text \<open>
  \<open>core/host_manager.cpp\<close>: the peers a node knows, the time it agrees on with them, and the
  header chains by which it judges which of them has done the most work.

  The clock (\<open>now\<close>), the answers of \<open>curl\<close> (the body, or \<open>None\<close> when it fails), whether a peer
  answers at all and the global hash cache are arguments. Threads that only send messages are
  modelled by the list of their receivers. A \<open>std::set\<close> of strings is the sorted list of its
  elements, a \<open>std::map\<close> the list of its entries in key order.
\<close>

section \<open>State\<close>

definition RANDOM_GOOD_HOST_COUNT :: nat where
  "RANDOM_GOOD_HOST_COUNT = 9"

definition ADD_PEER_BRANCH_FACTOR :: nat where
  "ADD_PEER_BRANCH_FACTOR = 10"

definition HOST_MIN_FRESHNESS :: u64 where
  "HOST_MIN_FRESHNESS = 180 * 60"

record 'd host_manager =
  hm_currPeers :: "'d header_chain list"
  hm_blockStore :: "'d option"
  hm_disabled :: bool
  hm_firewall :: bool
  hm_ip :: string
  hm_port :: int
  hm_name :: string
  hm_address :: string
  hm_version :: string
  hm_minHostVersion :: string
  hm_networkName :: string
  hm_hostPingTimes :: "(string \<times> u64) list"
  hm_peerClockDeltas :: "(string \<times> int) list"
  hm_checkpoints :: "(u64 \<times> hash) list"
  hm_bannedHashes :: "(u64 \<times> hash) list"
  hm_hostSources :: "string list"
  hm_hosts :: "string list"
  hm_blacklist :: "string list"
  hm_whitelist :: "string list"

section \<open>Addresses\<close>

text \<open>\<open>sscanf\<close> with \<open>%d\<close>: white space, a sign and digits; the rest of the text, if they are there.\<close>

definition scan_int :: "string \<Rightarrow> string option" where
  "scan_int s =
     (let t = dropWhile c_isspace s;
          u = (if t \<noteq> [] \<and> (hd t = CHR ''-'' \<or> hd t = CHR ''+'') then tl t else t) in
      if takeWhile is_digit u = [] then None else Some (dropWhile is_digit u))"

definition scan_dot :: "string \<Rightarrow> string option" where
  "scan_dot s = (case s of [] \<Rightarrow> None | c # r \<Rightarrow> if c = CHR ''.'' then Some r else None)"

definition isValidIPv4 :: "string \<Rightarrow> bool" where
  "isValidIPv4 ip =
     (let part = (\<lambda>s. Option.bind (scan_int s) scan_dot) in
      Option.bind (Option.bind (Option.bind (part ip) part) part) scan_int \<noteq> None)"

definition isJsHost :: "string \<Rightarrow> bool" where
  "isJsHost addr = list_ex (\<lambda>k. take 7 (drop k addr) = ''peer://'') [0..<Suc (length addr)]"

text \<open>\<open>outputs\<close> are the outputs of the five lookup services, asked in turn.\<close>

definition computeAddress :: "string list \<Rightarrow> ('d host_manager, string) cpp" where
  "computeAddress outputs hm =
     (if hm_firewall hm then (Inr ''http://undiscoverable'', hm)
      else
        (let hm' =
           (if hm_ip hm = [] then
              (case find isValidIPv4 (map butlast outputs) of
                 None \<Rightarrow> hm
               | Some ip \<Rightarrow> hm\<lparr>hm_address := ''http://'' @ ip @ '':'' @ int_text (hm_port hm)\<rparr>)
            else hm\<lparr>hm_address := hm_ip hm @ '':'' @ int_text (hm_port hm)\<rparr>) in
         (Inr (hm_address hm'), hm')))"

section \<open>Time\<close>

definition fresh :: "u64 \<Rightarrow> u64 \<Rightarrow> bool" where
  "fresh now ping \<longleftrightarrow> now - ping < HOST_MIN_FRESHNESS"

definition fresh_deltas :: "u64 \<Rightarrow> 'd host_manager \<Rightarrow> int list" where
  "fresh_deltas now hm =
     concat (map (\<lambda>(h, ping).
       if fresh now ping
       then (case map_of (hm_peerClockDeltas hm) h of None \<Rightarrow> [] | Some d \<Rightarrow> [d])
       else []) (hm_hostPingTimes hm))"

text \<open>The sum of two 32-bit numbers must fit; dividing by 2 rounds towards 0.\<close>

definition getNetworkTimestamp :: "u64 \<Rightarrow> 'd host_manager \<Rightarrow> exn + u64" where
  "getNetworkTimestamp now hm =
     (let deltas = sort (fresh_deltas now hm); n = length deltas in
      if n = 0 then Inr now
      else if n mod 2 = 0 then
        (let s = deltas ! (n div 2) + deltas ! (n div 2 - 1) in
         if s < - (2 ^ 31) \<or> 2 ^ 31 \<le> s then Inl UB
         else Inr (now + word_of_int (sgn s * (\<bar>s\<bar> div 2))))
      else Inr (now + word_of_int (deltas ! (n div 2))))"

section \<open>The best peer\<close>

definition getBlockHeightFromPeer :: "(string \<Rightarrow> string option) \<Rightarrow> string \<Rightarrow> exn + int" where
  "getBlockHeightFromPeer curl host =
     (case curl (host @ ''/block_count'') of None \<Rightarrow> Inr (- 1) | Some body \<Rightarrow> stoi body)"

definition by_height :: "string \<times> int \<Rightarrow> string \<times> int \<Rightarrow> bool" where
  "by_height a b \<longleftrightarrow> snd b < snd a"

definition getGoodHost :: "(string \<Rightarrow> string option) \<Rightarrow> 'd host_manager \<Rightarrow> string" where
  "getGoodHost curl hm =
     (let hostHeights = concat (map (\<lambda>h.
            case getBlockHeightFromPeer curl (hc_host h) of Inl e \<Rightarrow> [] | Inr v \<Rightarrow> [(hc_host h, v)])
          (hm_currPeers hm)) in
      case std_sort by_height hostHeights of [] \<Rightarrow> [] | best # _ \<Rightarrow> fst best)"

definition hm_getHeaderChainStats :: "'d host_manager \<Rightarrow> (string \<times> u64) list" where
  "hm_getHeaderChainStats hm =
     fold (\<lambda>h m. omap_put (hc_host h) (hc_getCurrentDownloaded h) m) (hm_currPeers hm) []"

text \<open>The loop of \<open>getBlockCount\<close> and \<open>getTotalWork\<close>: the work and the length of the best chain so far.\<close>

definition better :: "'d header_chain \<Rightarrow> bigint \<times> u64 \<Rightarrow> bigint \<times> u64" where
  "better h best =
     (if bi_greater (hc_getTotalWork h) (fst best) then (hc_getTotalWork h, hc_getChainLength h) else best)"

definition hm_getBlockCount :: "'d host_manager \<Rightarrow> u64" where
  "hm_getBlockCount hm = snd (fold better (hm_currPeers hm) (bi_of_int 0, 0))"

definition hm_getTotalWork :: "'d host_manager \<Rightarrow> bigint" where
  "hm_getTotalWork hm = fst (fold better (hm_currPeers hm) (bi_of_int 0, 0))"

definition getBlockHash :: "string \<Rightarrow> u64 \<Rightarrow> 'd host_manager \<Rightarrow> exn + hash" where
  "getBlockHash host blockId hm =
     (case find (\<lambda>h. hc_host h = host) (hm_currPeers hm) of
        None \<Rightarrow> Inr NULL_SHA256_HASH | Some h \<Rightarrow> hc_getHash blockId h)"

section \<open>The peers\<close>

text \<open>A body without a number makes \<open>stoi\<close> throw, out of the function.\<close>

fun fresh_heights ::
  "(string \<Rightarrow> string option) \<Rightarrow> u64 \<Rightarrow> (string \<times> u64) list \<Rightarrow> exn + (string \<times> int) list" where
  "fresh_heights curl now [] = Inr []"
| "fresh_heights curl now ((h, ping) # ps) =
     (if fresh now ping \<and> \<not> isJsHost h then
        and_then (getBlockHeightFromPeer curl h) (\<lambda>v.
        and_then (fresh_heights curl now ps) (\<lambda>hs. Inr (if v \<noteq> - 1 then (h, v) # hs else hs)))
      else fresh_heights curl now ps)"

definition sampleFreshHosts ::
  "(string \<Rightarrow> string option) \<Rightarrow> u64 \<Rightarrow> nat \<Rightarrow> 'd host_manager \<Rightarrow> exn + string list" where
  "sampleFreshHosts curl now cnt hm =
     and_then (fresh_heights curl now (hm_hostPingTimes hm)) (\<lambda>hs.
     Inr (remdups (sort (map fst (take cnt (std_sort by_height hs))))))"

definition hm_ping :: "u64 \<Rightarrow> string \<Rightarrow> u64 \<Rightarrow> 'd host_manager \<Rightarrow> 'd host_manager" where
  "hm_ping now addr time hm =
     hm\<lparr>hm_hostPingTimes := omap_put addr now (hm_hostPingTimes hm),
        hm_peerClockDeltas := omap_put addr (sint (ucast (now - time) :: u32)) (hm_peerClockDeltas hm)\<rparr>"

text \<open>
  A new host that may join: it is listed, it becomes a peer if there is room, and the result
  lists the neighbours it is forwarded to.
\<close>

definition with_host :: "string \<Rightarrow> 'd host_manager \<Rightarrow> 'd host_manager" where
  "with_host addr hm = hm\<lparr>hm_hosts := hm_hosts hm @ [addr]\<rparr>"

definition with_peer :: "string \<Rightarrow> 'd \<Rightarrow> 'd host_manager \<Rightarrow> 'd host_manager" where
  "with_peer addr cache hm =
     (if length (hm_currPeers hm) < RANDOM_GOOD_HOST_COUNT
      then hm\<lparr>hm_currPeers := hm_currPeers hm @
        [header_chain_new addr (hm_checkpoints hm) (hm_bannedHashes hm) None cache]\<rparr>
      else hm)"

definition join_peer :: "(string \<Rightarrow> string option) \<Rightarrow> u64 \<Rightarrow> 'd \<Rightarrow> string \<Rightarrow> ('d host_manager, string list) cpp" where
  "join_peer curl now cache addr =
     bindE (modS (with_host addr)) (\<lambda>_.
     bindE (modS (with_peer addr cache)) (\<lambda>_.
     bindE getS (\<lambda>hm.
     case sampleFreshHosts curl now ADD_PEER_BRANCH_FACTOR hm of
       Inl e \<Rightarrow> throw e
     | Inr neighbors \<Rightarrow> ok (filter (\<lambda>n. n \<noteq> addr) neighbors))))"

definition addPeer ::
  "(string \<Rightarrow> string option) \<Rightarrow> (string \<Rightarrow> bool) \<Rightarrow> u64 \<Rightarrow> 'd \<Rightarrow> string \<Rightarrow> u64 \<Rightarrow> string \<Rightarrow> string \<Rightarrow>
   ('d host_manager, string list) cpp" where
  "addPeer curl reachable now cache addr time version network =
     bindE getS (\<lambda>hm.
     if network \<noteq> hm_networkName hm then ok []
     else if version < hm_minHostVersion hm then ok []
     else if addr \<in> set (hm_blacklist hm) then ok []
     else if addr \<in> set (hm_hosts hm) then bindE (modS (hm_ping now addr time)) (\<lambda>_. ok [])
     else if \<not> isJsHost addr \<and> \<not> reachable addr then ok []
     else if hm_whitelist hm \<noteq> [] \<and> addr \<notin> set (hm_whitelist hm) then ok []
     else join_peer curl now cache addr)"

text \<open>
  \<open>refreshHostList\<close>: \<open>sources\<close> are the answers of the host sources, those that fail left out;
  \<open>version\<close> is what a host says of itself, if it answers; the threads take the lock in the order
  that \<open>arrival\<close> makes of the hosts to ask.
\<close>

definition connect :: "(string \<Rightarrow> string option) \<Rightarrow> u64 \<Rightarrow> string \<Rightarrow> 'd host_manager \<Rightarrow> 'd host_manager" where
  "connect version now hostUrl hm =
     (case version hostUrl of
        None \<Rightarrow> hm
      | Some v \<Rightarrow>
          if v < hm_minHostVersion hm then hm
          else if hm_whitelist hm = [] \<or> hostUrl \<in> set (hm_whitelist hm)
          then hm\<lparr>hm_hosts := hm_hosts hm @ [hostUrl],
                  hm_hostPingTimes := omap_put hostUrl now (hm_hostPingTimes hm)\<rparr>
          else hm)"

definition refreshHostList ::
  "string list list \<Rightarrow> (string \<Rightarrow> string option) \<Rightarrow> (string list \<Rightarrow> string list) \<Rightarrow> u64 \<Rightarrow>
   'd host_manager \<Rightarrow> 'd host_manager" where
  "refreshHostList sources version arrival now hm =
     (if hm_hostSources hm = [] then hm
      else
        (let fullHostList = remdups (sort (concat sources));
             asked = filter (\<lambda>h. h \<notin> set (hm_hosts hm) \<and> h \<notin> set (hm_blacklist hm)) fullHostList in
         fold (connect version now) (arrival asked) hm))"

definition syncHeadersWithPeers ::
  "(string \<Rightarrow> string option) \<Rightarrow> u64 \<Rightarrow> 'd \<Rightarrow> ('d host_manager, unit) cpp" where
  "syncHeadersWithPeers curl now cache =
     bindE getS (\<lambda>hm.
     if hm_currPeers hm = [] then ok ()
     else
       bindE (modS (\<lambda>hm. hm\<lparr>hm_currPeers := []\<rparr>)) (\<lambda>_.
       case sampleFreshHosts curl now RANDOM_GOOD_HOST_COUNT hm of
         Inl e \<Rightarrow> throw e
       | Inr hosts \<Rightarrow>
           modS (\<lambda>hm. hm\<lparr>hm_currPeers := map (\<lambda>h. header_chain_new h (hm_checkpoints hm)
             (hm_bannedHashes hm) (hm_blockStore hm) cache) hosts\<rparr>)))"

definition getHosts :: "u64 \<Rightarrow> bool \<Rightarrow> 'd host_manager \<Rightarrow> string list" where
  "getHosts now includeSelf hm =
     map fst (filter (\<lambda>(h, ping). fresh now ping) (hm_hostPingTimes hm)) @
     (if includeSelf then [hm_address hm] else [])"

definition hm_size :: "'d host_manager \<Rightarrow> nat" where
  "hm_size hm = length (hm_hosts hm)"

section \<open>The constructor\<close>

text \<open>The lines of \<open>blacklist.txt\<close> or \<open>whitelist.txt\<close>; on an empty line \<open>blocked[blocked.size() - 1]\<close> is out of range.\<close>

fun host_lines :: "string list \<Rightarrow> exn + string list" where
  "host_lines [] = Inr []"
| "host_lines ([] # ls) = Inl UB"
| "host_lines ((c # line) # ls) =
     and_then (host_lines ls) (\<lambda>hs.
     Inr (if c = CHR ''#'' then hs
          else (if last (c # line) = CHR ''/'' then butlast (c # line) else c # line) # hs))"

text \<open>\<open>map::insert\<close> keeps the entry that is there.\<close>

primrec parse_hashes :: "json list \<Rightarrow> (u64 \<times> hash) list \<Rightarrow> exn + (u64 \<times> hash) list" where
  "parse_hashes [] m = Inr m"
| "parse_hashes (j # js) m =
     and_then (and_then (jnth j 0) as_word) (\<lambda>k.
     and_then (and_then (and_then (jnth j 1) as_string) stringToSHA256) (\<lambda>h.
     parse_hashes js (if map_of m k = None then omap_put k h m else m)))"

primrec all_strings :: "json list \<Rightarrow> exn + string list" where
  "all_strings [] = Inr []"
| "all_strings (j # js) = and_then (as_string j) (\<lambda>s. and_then (all_strings js) (\<lambda>ss. Inr (s # ss)))"

text \<open>
  What the constructor finds around it: the outputs of the address lookup services, the lines of
  the two files (none when the file is missing), the lists of the host sources, what a host says
  of its version, the order in which the connecting threads arrive, and the answers of \<open>curl\<close>.
  \<open>build\<close> is the version the build gives the program.
\<close>

record outside =
  o_lookup :: "string list"
  o_blacklist :: "string list"
  o_whitelist :: "string list"
  o_sources :: "string list list"
  o_version :: "string \<Rightarrow> string option"
  o_arrival :: "string list \<Rightarrow> string list"
  o_curl :: "string \<Rightarrow> string option"

definition localhost :: string where
  "localhost = ''http://localhost:3000''"

definition first_hosts :: "outside \<Rightarrow> u64 \<Rightarrow> 'd \<Rightarrow> ('d host_manager, unit) cpp" where
  "first_hosts w now cache =
     bindE getS (\<lambda>hm.
     if hm_hostSources hm = [] then
       bindE (modS (\<lambda>hm. hm\<lparr>hm_hosts := hm_hosts hm @ [localhost],
           hm_hostPingTimes := omap_put localhost now (hm_hostPingTimes hm),
           hm_peerClockDeltas := omap_put localhost 0 (hm_peerClockDeltas hm)\<rparr>)) (\<lambda>_.
       syncHeadersWithPeers (o_curl w) now cache)
     else modS (refreshHostList (o_sources w) (o_version w) (o_arrival w) now))"

definition configured :: "string \<Rightarrow> outside \<Rightarrow> json \<Rightarrow> exn + 'd host_manager" where
  "configured build w config =
     and_then (get_string config ''name'') (\<lambda>name.
     and_then (get_int config ''port'') (\<lambda>port.
     and_then (get_string config ''ip'') (\<lambda>ip.
     and_then (get_bool config ''firewall'') (\<lambda>firewall.
     and_then (get_string config ''networkName'') (\<lambda>networkName.
     and_then (and_then (jget config ''checkpoints'') (\<lambda>j. parse_hashes (elements j) [])) (\<lambda>checkpoints.
     and_then (and_then (jget config ''bannedHashes'') (\<lambda>j. parse_hashes (elements j) [])) (\<lambda>banned.
     and_then (get_string config ''minHostVersion'') (\<lambda>minVersion.
     and_then (host_lines (o_blacklist w)) (\<lambda>blacklist.
     and_then (host_lines (o_whitelist w)) (\<lambda>whitelist.
     and_then (and_then (jget config ''hostSources'') (\<lambda>j. all_strings (elements j))) (\<lambda>sources.
     Inr (snd (computeAddress (o_lookup w)
       \<lparr>hm_currPeers = [], hm_blockStore = None, hm_disabled = False, hm_firewall = firewall,
        hm_ip = ip, hm_port = port, hm_name = name, hm_address = [], hm_version = build,
        hm_minHostVersion = minVersion, hm_networkName = networkName,
        hm_hostPingTimes = [], hm_peerClockDeltas = [], hm_checkpoints = checkpoints,
        hm_bannedHashes = banned, hm_hostSources = sources, hm_hosts = [],
        hm_blacklist = remdups (sort blacklist), hm_whitelist = remdups (sort whitelist)\<rparr>)))))))))))))"

definition host_manager_new ::
  "string \<Rightarrow> outside \<Rightarrow> u64 \<Rightarrow> 'd \<Rightarrow> json \<Rightarrow> exn + 'd host_manager" where
  "host_manager_new build w now cache config =
     and_then (configured build w config) (\<lambda>hm.
     case first_hosts w now cache hm of
       (Inl e, _) \<Rightarrow> Inl e
     | (Inr _, hm) \<Rightarrow> and_then (get_bool config ''showHeaderStats'') (\<lambda>_. Inr hm))"

section \<open>What the chain sees of the peers\<close>

text \<open>A hash is only asked for blocks from 1 on, where \<open>getBlockHash\<close> is defined.\<close>

definition view_of ::
  "crypto \<Rightarrow> (nat \<Rightarrow> nat \<Rightarrow> transaction) \<Rightarrow> (string \<Rightarrow> string option) \<Rightarrow> (http_request \<Rightarrow> exn + bytes) \<Rightarrow>
   'd host_manager \<Rightarrow> peer_view" where
  "view_of C mem curl send hm =
     (let bestHost = getGoodHost curl hm in
      \<lparr>v_count = hm_getBlockCount hm, v_work = hm_getTotalWork hm,
       v_hash = (\<lambda>i. case getBlockHash bestHost i hm of Inl e \<Rightarrow> NULL_SHA256_HASH | Inr h \<Rightarrow> h),
       v_blocks = readRawBlocks C mem mem send bestHost\<rparr>)"

section \<open>The life of a host manager\<close>

text \<open>
  Each operation is one step: the callers of \<open>addPeer\<close> are the requests of one server thread. A
  step of a header chain's own thread replaces the chain in place.
\<close>

inductive hm_reachable :: "crypto \<Rightarrow> 'd kv \<Rightarrow> 'd host_manager \<Rightarrow> bool" for C L where
  start: "host_manager_new build w now cache config = Inr hm \<Longrightarrow>
    (\<And>hs. mset (o_arrival w hs) = mset hs) \<Longrightarrow>
    (hm_hostSources hm = [] \<Longrightarrow> localhost \<notin> set (hm_blacklist hm) \<and>
      (hm_whitelist hm = [] \<or> localhost \<in> set (hm_whitelist hm))) \<Longrightarrow> hm_reachable C L hm"
| peer: "hm_reachable C L hm \<Longrightarrow> addPeer curl reachable now cache addr time version network hm = (r, hm') \<Longrightarrow>
    hm_reachable C L hm'"
| refresh: "hm_reachable C L hm \<Longrightarrow> (\<And>hs. mset (arrival hs) = mset hs) \<Longrightarrow>
    hm_reachable C L (refreshHostList sources version arrival now hm)"
| sync: "hm_reachable C L hm \<Longrightarrow> syncHeadersWithPeers curl now cache hm = (r, hm') \<Longrightarrow> hm_reachable C L hm'"
| round: "hm_reachable C L hm \<Longrightarrow> i < length (hm_currPeers hm) \<Longrightarrow>
    chain_sync_round C L E send (hm_currPeers hm ! i) = (r, hc) \<Longrightarrow>
    hm_reachable C L (hm\<lparr>hm_currPeers := (hm_currPeers hm)[i := hc]\<rparr>)"
| address: "hm_reachable C L hm \<Longrightarrow> computeAddress outputs hm = (r, hm') \<Longrightarrow> hm_reachable C L hm'"
| store: "hm_reachable C L hm \<Longrightarrow> hm_reachable C L (hm\<lparr>hm_blockStore := d\<rparr>)"

definition allowed :: "'d host_manager \<Rightarrow> string \<Rightarrow> bool" where
  "allowed hm h \<longleftrightarrow> h \<notin> set (hm_blacklist hm) \<and> (hm_whitelist hm = [] \<or> h \<in> set (hm_whitelist hm))"

definition peer_names :: "'d host_manager \<Rightarrow> string list" where
  "peer_names hm = map hc_host (hm_currPeers hm)"

definition peers_ok :: "'d host_manager \<Rightarrow> bool" where
  "peers_ok hm \<longleftrightarrow>
     distinct (hm_hosts hm) \<and> (\<forall>h \<in> set (hm_hosts hm). allowed hm h) \<and>
     fst ` set (hm_hostPingTimes hm) \<subseteq> set (hm_hosts hm) \<and>
     distinct (peer_names hm) \<and> set (peer_names hm) \<subseteq> set (hm_hosts hm) \<and>
     length (peer_names hm) \<le> RANDOM_GOOD_HOST_COUNT"

section \<open>Lemmas on hosts\<close>

lemma peers_ok_same:
  "hm_hosts hm' = hm_hosts hm \<Longrightarrow> hm_blacklist hm' = hm_blacklist hm \<Longrightarrow> hm_whitelist hm' = hm_whitelist hm \<Longrightarrow>
   fst ` set (hm_hostPingTimes hm') \<subseteq> set (hm_hosts hm) \<Longrightarrow> peer_names hm' = peer_names hm \<Longrightarrow>
   peers_ok hm \<Longrightarrow> peers_ok hm'"
  by (simp add: peers_ok_def allowed_def)

lemma peers_ok_ping:
  assumes "peers_ok hm" "addr \<in> set (hm_hosts hm)"
  shows "peers_ok (hm_ping now addr time hm)"
proof (rule peers_ok_same [OF _ _ _ _ _ assms(1)])
  show "fst ` set (hm_hostPingTimes (hm_ping now addr time hm)) \<subseteq> set (hm_hosts hm)"
    using assms unfolding hm_ping_def by (simp add: fst_omap_put peers_ok_def)
qed (simp_all add: hm_ping_def peer_names_def)

lemma with_host_ok:
  assumes "peers_ok hm" "addr \<notin> set (hm_hosts hm)" "allowed hm addr"
  shows "peers_ok (with_host addr hm)"
proof -
  have "allowed (with_host addr hm) = allowed hm" by (simp add: with_host_def allowed_def fun_eq_iff)
  moreover have "peer_names (with_host addr hm) = peer_names hm"
    "hm_hosts (with_host addr hm) = hm_hosts hm @ [addr]"
    "hm_hostPingTimes (with_host addr hm) = hm_hostPingTimes hm" by (simp_all add: with_host_def peer_names_def)
  ultimately show ?thesis using assms by (simp add: peers_ok_def) blast
qed

lemma with_peer_ok:
  assumes "peers_ok hm" "addr \<in> set (hm_hosts hm)" "addr \<notin> set (peer_names hm)"
  shows "peers_ok (with_peer addr cache hm)"
proof (cases "length (hm_currPeers hm) < RANDOM_GOOD_HOST_COUNT")
  case True
  have "allowed (with_peer addr cache hm) = allowed hm" by (simp add: with_peer_def allowed_def fun_eq_iff)
  moreover have "peer_names (with_peer addr cache hm) = peer_names hm @ [addr]"
    "hm_hosts (with_peer addr cache hm) = hm_hosts hm"
    "hm_hostPingTimes (with_peer addr cache hm) = hm_hostPingTimes hm"
    using True by (simp_all add: with_peer_def peer_names_def header_chain_new_def)
  moreover have "length (peer_names hm) < RANDOM_GOOD_HOST_COUNT" using True by (simp add: peer_names_def)
  ultimately show ?thesis using assms by (simp add: peers_ok_def)
qed (simp add: with_peer_def assms(1))

lemma join_peer_state: "snd (join_peer curl now cache addr hm) = with_peer addr cache (with_host addr hm)"
  by (simp add: join_peer_def cpp_simps split: sum.split)

lemma addPeer_cases:
  assumes "addPeer curl reachable now cache addr time version network hm = (r, hm')"
  obtains "hm' = hm" | "addr \<in> set (hm_hosts hm)" "hm' = hm_ping now addr time hm"
  | "addr \<notin> set (hm_hosts hm)" "allowed hm addr" "hm' = with_peer addr cache (with_host addr hm)"
proof -
  have j: "join_peer curl now cache addr hm = (r, hm') \<Longrightarrow> hm' = with_peer addr cache (with_host addr hm)"
    using join_peer_state [of curl now cache addr hm] by simp
  have "addPeer curl reachable now cache addr time version network hm =
      (if network \<noteq> hm_networkName hm then (Inr [], hm)
       else if version < hm_minHostVersion hm then (Inr [], hm)
       else if addr \<in> set (hm_blacklist hm) then (Inr [], hm)
       else if addr \<in> set (hm_hosts hm) then (Inr [], hm_ping now addr time hm)
       else if \<not> isJsHost addr \<and> \<not> reachable addr then (Inr [], hm)
       else if hm_whitelist hm \<noteq> [] \<and> addr \<notin> set (hm_whitelist hm) then (Inr [], hm)
       else join_peer curl now cache addr hm)"
    by (simp only: addPeer_def bindE_getS bindE_modS ok_app if_distribR)
  with assms j that show thesis unfolding allowed_def by (metis (no_types, lifting) prod.inject)
qed

lemma addPeer_ok: "keeps peers_ok (addPeer curl reachable now cache addr time version network)"
proof (rule keepsI)
  fix hm r hm'
  assume ok: "peers_ok hm" and run: "addPeer curl reachable now cache addr time version network hm = (r, hm')"
  from run show "peers_ok hm'"
  proof (cases rule: addPeer_cases)
    case 3
    with ok have "peers_ok (with_host addr hm)" by (simp add: with_host_ok)
    moreover have "addr \<notin> set (peer_names hm)" using ok 3(1) unfolding peers_ok_def by blast
    then have "addr \<notin> set (peer_names (with_host addr hm))" "addr \<in> set (hm_hosts (with_host addr hm))"
      by (simp_all add: with_host_def peer_names_def)
    ultimately show ?thesis unfolding 3(3) by (intro with_peer_ok)
  next
    case 1
    with ok show ?thesis by simp
  next
    case 2
    from peers_ok_ping [OF ok 2(1)] show ?thesis unfolding 2(2) .
  qed
qed

lemma fresh_heights_hosts:
  "fresh_heights curl now ps = Inr hs \<Longrightarrow> fst ` set hs \<subseteq> fst ` set ps"
proof (induction ps arbitrary: hs)
  case (Cons p ps)
  obtain h ping where p: "p = (h, ping)" by fastforce
  show ?case
  proof (cases "fresh now ping \<and> \<not> isJsHost h")
    case True
    then obtain v rest where "fresh_heights curl now ps = Inr rest" "hs = (if v \<noteq> - 1 then (h, v) # rest else rest)"
      using Cons.prems by (simp add: p and_then_def split: sum.splits) blast
    with Cons.IH [of rest] show ?thesis by (auto simp: p)
  next
    case False
    with Cons.prems have "fresh_heights curl now ps = Inr hs" by (simp add: p)
    with Cons.IH show ?thesis by (simp add: p subset_insertI2)
  qed
qed simp

lemma sample_hosts:
  assumes "sampleFreshHosts curl now n hm = Inr hosts"
  shows "distinct hosts" "set hosts \<subseteq> fst ` set (hm_hostPingTimes hm)" "length hosts \<le> n"
proof -
  from assms obtain hs where hs: "fresh_heights curl now (hm_hostPingTimes hm) = Inr hs"
    and hosts: "hosts = remdups (sort (map fst (take n (std_sort by_height hs))))"
    by (auto simp: sampleFreshHosts_def and_then_def split: sum.splits)
  have "set hosts \<subseteq> fst ` set hs"
    using image_mono [OF set_take_subset [of n "std_sort by_height hs"], of fst] by (simp add: hosts)
  then show "set hosts \<subseteq> fst ` set (hm_hostPingTimes hm)" using fresh_heights_hosts [OF hs] by (rule order_trans)
  show "length hosts \<le> n"
    unfolding hosts by (rule order_trans [OF length_remdups_leq]) simp
  show "distinct hosts" by (simp add: hosts)
qed

lemma connect_ok:
  assumes "peers_ok hm" "h \<notin> set (hm_hosts hm)" "h \<notin> set (hm_blacklist hm)"
  shows "peers_ok (connect version now h hm)"
    "set (hm_hosts (connect version now h hm)) \<subseteq> insert h (set (hm_hosts hm))"
    "hm_blacklist (connect version now h hm) = hm_blacklist hm"
proof -
  let ?hm = "(with_host h hm)\<lparr>hm_hostPingTimes := omap_put h now (hm_hostPingTimes hm)\<rparr>"
  have cases: "connect version now h hm = hm \<or> allowed hm h \<and> connect version now h hm = ?hm"
    using assms(3) by (simp add: connect_def allowed_def with_host_def split: option.split)
  have "peers_ok ?hm" if "allowed hm h"
  proof (rule peers_ok_same [OF _ _ _ _ _ with_host_ok [OF assms(1,2) that]])
    show "fst ` set (hm_hostPingTimes ?hm) \<subseteq> set (hm_hosts (with_host h hm))"
      using assms(1) by (simp add: fst_omap_put with_host_def peers_ok_def) blast
  qed (simp_all add: peer_names_def)
  with cases assms(1) show "peers_ok (connect version now h hm)" by metis
  from cases show "set (hm_hosts (connect version now h hm)) \<subseteq> insert h (set (hm_hosts hm))"
    "hm_blacklist (connect version now h hm) = hm_blacklist hm" by (auto simp: with_host_def)
qed

lemma connects_ok:
  "peers_ok hm \<Longrightarrow> distinct hs \<Longrightarrow> set hs \<inter> (set (hm_hosts hm) \<union> set (hm_blacklist hm)) = {} \<Longrightarrow>
   peers_ok (fold (connect version now) hs hm)"
proof (induction hs arbitrary: hm)
  case (Cons h hs)
  then have h: "h \<notin> set (hm_hosts hm)" "h \<notin> set (hm_blacklist hm)" by auto
  note c = connect_ok [OF Cons.prems(1) h, of version now]
  have "set hs \<inter> (set (hm_hosts (connect version now h hm)) \<union> set (hm_blacklist (connect version now h hm))) = {}"
    using c(2,3) Cons.prems(2,3) by auto
  with c(1) Cons.prems(2) show ?case by (simp add: Cons.IH)
qed simp

lemma refresh_ok:
  assumes "peers_ok hm" and "\<And>hs. mset (arrival hs) = mset hs"
  shows "peers_ok (refreshHostList sources version arrival now hm)"
proof -
  define hs where "hs = arrival (filter (\<lambda>h. h \<notin> set (hm_hosts hm) \<and> h \<notin> set (hm_blacklist hm))
    (remdups (sort (concat sources))))"
  have "set (arrival hs) = set hs" "distinct (arrival hs) = distinct hs" for hs
    using assms(2) [of hs] by (metis set_mset_mset, metis mset_eq_imp_distinct_iff)
  then have "distinct hs" "set hs \<inter> (set (hm_hosts hm) \<union> set (hm_blacklist hm)) = {}"
    unfolding hs_def by auto
  then have "peers_ok (fold (connect version now) hs hm)" using assms(1) by (rule connects_ok [rotated])
  then show ?thesis using assms(1) by (simp add: refreshHostList_def hs_def)
qed

lemma sync_cases:
  assumes "syncHeadersWithPeers curl now cache hm = (r, hm')"
  obtains names where "hm' = hm \<or> (\<exists>cs. hm' = hm\<lparr>hm_currPeers := cs\<rparr> \<and> map hc_host cs = names)"
    "distinct names" "set names \<subseteq> fst ` set (hm_hostPingTimes hm)" "length names \<le> RANDOM_GOOD_HOST_COUNT"
proof (cases "sampleFreshHosts curl now RANDOM_GOOD_HOST_COUNT (hm\<lparr>hm_currPeers := []\<rparr>)")
  case (Inl e)
  then have "sampleFreshHosts curl now RANDOM_GOOD_HOST_COUNT hm = Inl e" by (simp add: sampleFreshHosts_def)
  with assms show thesis
    by (intro that [of "[]"]) (auto simp: syncHeadersWithPeers_def cpp_simps split: if_splits)
next
  case (Inr hosts)
  then have s: "sampleFreshHosts curl now RANDOM_GOOD_HOST_COUNT hm = Inr hosts" by (simp add: sampleFreshHosts_def)
  with assms show thesis
    by (intro that [OF _ sample_hosts [OF s]])
      (auto simp: syncHeadersWithPeers_def cpp_simps header_chain_new_def comp_def split: if_splits)
qed

lemma sync_ok: "keeps peers_ok (syncHeadersWithPeers curl now cache)"
proof (rule keepsI)
  fix hm r hm'
  assume ok: "peers_ok hm" and run: "syncHeadersWithPeers curl now cache hm = (r, hm')"
  from run obtain names where n: "hm' = hm \<or> (\<exists>cs. hm' = hm\<lparr>hm_currPeers := cs\<rparr> \<and> map hc_host cs = names)"
    "distinct names" "set names \<subseteq> fst ` set (hm_hostPingTimes hm)" "length names \<le> RANDOM_GOOD_HOST_COUNT"
    by (rule sync_cases)
  from n(1) show "peers_ok hm'"
  proof (elim disjE exE conjE)
    fix cs assume cs: "hm' = hm\<lparr>hm_currPeers := cs\<rparr>" "map hc_host cs = names"
    then have "peer_names hm' = names" "allowed hm' = allowed hm" by (simp_all add: peer_names_def allowed_def fun_eq_iff)
    with ok n(2-4) cs(1) show ?thesis by (simp add: peers_ok_def) blast
  qed (use ok in simp)
qed

section \<open>The steps of a header chain and of the constructor\<close>

lemma header_accepted_host: "keeps (\<lambda>hc. hc_host hc = h) (header_accepted C L p b)"
  unfolding header_accepted_def Let_def
  by (intro keeping keeps_zoom [where J = "\<lambda>_. True"]) (simp_all add: keeps_def)

lemma load_headers_host: "keeps (\<lambda>hc. hc_host hc = h) (load_headers C L hs loc)"
proof (induction hs arbitrary: loc)
  case (Cons b hs)
  obtain p w n where "loc = (p, w, n)" by (cases loc)
  then show ?case by (auto intro!: keeping header_accepted_host Cons.IH simp: Let_def)
qed (simp add: keeping)

lemma load_batches_host: "keeps (\<lambda>hc. hc_host hc = h) (load_batches C L send target is loc)"
proof (induction "is" arbitrary: loc)
  case (Cons i "is")
  show ?case
    by (auto intro!: keeping load_headers_host Cons.IH simp: hc_reset_def)
qed (simp add: keeping)

lemma hc_load_host: "keeps (\<lambda>hc. hc_host hc = h) (hc_load C L send)"
  unfolding hc_load_def by (auto intro!: keeping load_batches_host split: exn.split)

lemma chain_sync_round_host: "keeps (\<lambda>hc. hc_host hc = h) (chain_sync_round C L E send)"
  unfolding chain_sync_round_def by (auto intro!: keeping hc_load_host)

lemma peers_ok_round:
  assumes "peers_ok hm" "i < length (hm_currPeers hm)"
    and "chain_sync_round C L E send (hm_currPeers hm ! i) = (r, hc)"
  shows "peers_ok (hm\<lparr>hm_currPeers := (hm_currPeers hm)[i := hc]\<rparr>)"
proof (rule peers_ok_same [OF _ _ _ _ _ assms(1)])
  have "hc_host hc = hc_host (hm_currPeers hm ! i)"
    by (rule keepsD [OF chain_sync_round_host assms(3)]) simp
  then show "peer_names (hm\<lparr>hm_currPeers := (hm_currPeers hm)[i := hc]\<rparr>) = peer_names hm"
    using assms(2) by (simp add: peer_names_def map_update) (metis length_map list_update_id nth_map)
qed (use assms(1) in \<open>simp_all add: peers_ok_def\<close>)

lemma computeAddress_fields:
  assumes "computeAddress outputs hm = (r, hm')"
  obtains a where "hm' = hm\<lparr>hm_address := a\<rparr>"
proof -
  have "hm' = hm \<or> (\<exists>a. hm' = hm\<lparr>hm_address := a\<rparr>)"
    using assms by (auto simp: computeAddress_def Let_def split: if_split_asm option.split_asm)
  moreover have "hm = hm\<lparr>hm_address := hm_address hm\<rparr>" by simp
  ultimately show thesis using that by metis
qed

lemma refresh_fields [simp]:
  "hm_hostSources (refreshHostList sources version arrival now hm) = hm_hostSources hm"
  "hm_blacklist (refreshHostList sources version arrival now hm) = hm_blacklist hm"
  "hm_whitelist (refreshHostList sources version arrival now hm) = hm_whitelist hm"
proof -
  have "hm_hostSources (fold (connect version now) hs hm) = hm_hostSources hm \<and>
      hm_blacklist (fold (connect version now) hs hm) = hm_blacklist hm \<and>
      hm_whitelist (fold (connect version now) hs hm) = hm_whitelist hm" for hs
    by (induction hs arbitrary: hm) (simp_all add: connect_def split: option.split)
  then show "hm_hostSources (refreshHostList sources version arrival now hm) = hm_hostSources hm"
    "hm_blacklist (refreshHostList sources version arrival now hm) = hm_blacklist hm"
    "hm_whitelist (refreshHostList sources version arrival now hm) = hm_whitelist hm"
    by (simp_all add: refreshHostList_def Let_def)
qed

text \<open>The localhost entry of a manager without host sources; the last call finds no peers.\<close>

definition with_localhost :: "u64 \<Rightarrow> 'd host_manager \<Rightarrow> 'd host_manager" where
  "with_localhost now hm =
     hm\<lparr>hm_hosts := hm_hosts hm @ [localhost],
        hm_hostPingTimes := omap_put localhost now (hm_hostPingTimes hm),
        hm_peerClockDeltas := omap_put localhost 0 (hm_peerClockDeltas hm)\<rparr>"

lemma first_hosts_run:
  "hm_currPeers hm = [] \<Longrightarrow> first_hosts w now cache hm =
     (Inr (), if hm_hostSources hm = [] then with_localhost now hm
              else refreshHostList (o_sources w) (o_version w) (o_arrival w) now hm)"
  by (simp add: first_hosts_def cpp_simps syncHeadersWithPeers_def with_localhost_def)

lemma with_localhost_ok:
  assumes "peers_ok hm" "localhost \<notin> set (hm_hosts hm)" "allowed hm localhost"
  shows "peers_ok (with_localhost now hm)"
proof (rule peers_ok_same [OF _ _ _ _ _ with_host_ok [OF assms]])
  show "fst ` set (hm_hostPingTimes (with_localhost now hm)) \<subseteq> set (hm_hosts (with_host localhost hm))"
    using assms(1) by (simp add: with_localhost_def fst_omap_put with_host_def peers_ok_def) blast
qed (simp_all add: with_localhost_def with_host_def peer_names_def)

definition blank :: "'d host_manager \<Rightarrow> bool" where
  "blank hm \<longleftrightarrow> hm_hosts hm = [] \<and> hm_currPeers hm = [] \<and> hm_hostPingTimes hm = []"

lemma blank_ok: "blank hm \<Longrightarrow> peers_ok hm"
  by (simp add: blank_def peers_ok_def peer_names_def)

lemma first_hosts_ok:
  assumes "blank hm" and run: "first_hosts w now cache hm = (r, hm')"
    and arrival: "\<And>hs. mset (o_arrival w hs) = mset hs"
    and home: "hm_hostSources hm' = [] \<Longrightarrow> allowed hm' localhost"
  shows "peers_ok hm'"
proof (cases "hm_hostSources hm = []")
  case True
  with run assms(1) have hm': "hm' = with_localhost now hm" by (simp add: first_hosts_run blank_def)
  with home True have "allowed hm localhost" by (simp add: with_localhost_def allowed_def)
  with with_localhost_ok [OF blank_ok [OF assms(1)]] assms(1) show ?thesis by (simp add: hm' blank_def)
next
  case False
  with run assms(1) have "hm' = refreshHostList (o_sources w) (o_version w) (o_arrival w) now hm"
    by (simp add: first_hosts_run blank_def)
  with refresh_ok [OF blank_ok [OF assms(1)] arrival] show ?thesis by simp
qed

lemma blank_address: "blank (snd (computeAddress outputs hm)) = blank hm"
proof -
  obtain r hm' where run: "computeAddress outputs hm = (r, hm')" by fastforce
  then obtain a where "hm' = hm\<lparr>hm_address := a\<rparr>" by (rule computeAddress_fields)
  with run show ?thesis by (simp add: blank_def)
qed

lemma configured_blank: "configured build w config = Inr hm \<Longrightarrow> blank hm"
  unfolding configured_def and_then_Inr
  by (elim exE conjE) (drule sym, simp add: blank_address, simp add: blank_def)

lemma host_manager_new_start:
  assumes "host_manager_new build w now cache config = Inr hm"
  obtains hm0 where "configured build w config = Inr hm0" "first_hosts w now cache hm0 = (Inr (), hm)"
proof -
  from assms obtain hm0 where hm0: "configured build w config = Inr hm0"
    "(case first_hosts w now cache hm0 of (Inl e, x) \<Rightarrow> Inl e
      | (Inr u, x) \<Rightarrow> and_then (get_bool config ''showHeaderStats'') (\<lambda>_. Inr x)) = Inr hm"
    unfolding host_manager_new_def and_then_Inr by blast
  obtain q x where "first_hosts w now cache hm0 = (q, x)" by fastforce
  with hm0 that show thesis by (cases q) (simp_all add: and_then_Inr)
qed

lemma hm_reachable_ok: "hm_reachable C L hm \<Longrightarrow> peers_ok hm"
proof (induction rule: hm_reachable.induct)
  case (start build w now cache config hm)
  from start(1) obtain hm0 where hm0: "configured build w config = Inr hm0"
    "first_hosts w now cache hm0 = (Inr (), hm)" by (rule host_manager_new_start)
  show ?case
    by (rule first_hosts_ok [OF configured_blank [OF hm0(1)] hm0(2) start(2)]) (use start(3) in \<open>simp add: allowed_def\<close>)
next
  case (address hm outputs r hm')
  from address(2) obtain a where "hm' = hm\<lparr>hm_address := a\<rparr>" by (rule computeAddress_fields)
  with address(3) show ?case by (intro peers_ok_same [OF _ _ _ _ _ address(3)]) (simp_all add: peers_ok_def peer_names_def)
next
  case (store hm d)
  show ?case by (rule peers_ok_same [OF _ _ _ _ _ store(2)]) (use store(2) in \<open>simp_all add: peers_ok_def peer_names_def\<close>)
qed (auto intro: keepsE addPeer_ok sync_ok refresh_ok peers_ok_round)

section \<open>The network time\<close>

lemma sorted_count_index:
  fixes xs :: "int list"
  assumes "sorted xs" "length xs < 2 * length (filter (\<lambda>d. lo \<le> d \<and> d \<le> hi) xs)"
    and "length xs \<le> 2 * i + 2" "2 * i \<le> length xs" "i < length xs"
  shows "lo \<le> xs ! i \<and> xs ! i \<le> hi"
proof -
  let ?P = "\<lambda>d. lo \<le> d \<and> d \<le> hi"
  have split: "length (filter ?P xs) = length (filter ?P (take k xs)) + length (filter ?P (drop k xs))" for k
    by (metis append_take_drop_id filter_append length_append)
  have "lo \<le> xs ! i"
  proof (rule ccontr)
    assume "\<not> lo \<le> xs ! i"
    have "x < lo" if "x \<in> set (take (Suc i) xs)" for x
    proof -
      from that obtain j where "j \<le> i" "x = xs ! j" by (auto simp: in_set_conv_nth less_Suc_eq_le)
      with sorted_nth_mono [OF assms(1), of j i] assms(5) \<open>\<not> lo \<le> xs ! i\<close> show ?thesis by linarith
    qed
    then have "filter ?P (take (Suc i) xs) = []" by (fastforce simp: filter_empty_conv)
    moreover have "length (filter ?P (drop (Suc i) xs)) \<le> length xs - Suc i"
      by (metis length_drop length_filter_le)
    ultimately show False using split [of "Suc i"] assms(2,3,5) by simp
  qed
  moreover have "xs ! i \<le> hi"
  proof (rule ccontr)
    assume "\<not> xs ! i \<le> hi"
    have "hi < x" if "x \<in> set (drop i xs)" for x
    proof -
      from that obtain j where "j < length xs - i" "x = xs ! (i + j)" by (auto simp: in_set_conv_nth)
      then have "i + j < length xs" by simp
      with \<open>x = xs ! (i + j)\<close> sorted_nth_mono [OF assms(1), of i "i + j"] \<open>\<not> xs ! i \<le> hi\<close> show ?thesis by linarith
    qed
    then have "filter ?P (drop i xs) = []" by (fastforce simp: filter_empty_conv)
    moreover have "length (filter ?P (take i xs)) \<le> i"
      using length_filter_le [of ?P "take i xs"] by simp
    ultimately show False using split [of i] assms(2,4) by simp
  qed
  ultimately show ?thesis by blast
qed

lemma length_filter_sort: "length (filter P (sort xs)) = length (filter P xs)"
  by (metis mset_filter mset_sort size_mset)

lemma mid_between:
  fixes a b :: int
  assumes "lo \<le> a" "a \<le> hi" "lo \<le> b" "b \<le> hi"
  shows "lo \<le> sgn (a + b) * (\<bar>a + b\<bar> div 2) \<and> sgn (a + b) * (\<bar>a + b\<bar> div 2) \<le> hi"
  using assms by (cases "a + b" "0 :: int" rule: linorder_cases) auto

section \<open>The best peer\<close>

text \<open>The work of a chain that has loaded headers, or none yet: at least one limb.\<close>

definition real_work :: "bigint \<Rightarrow> bool" where
  "real_work b \<longleftrightarrow> bi_ok b \<and> canonical b \<and> bi_number b \<noteq> []"

lemma zero_number [simp]: "bi_number (bi_of_int 0) = []" "bi_positive (bi_of_int 0)" "bi_val (bi_of_int 0) = 0"
  using bi_of_int_ok [of 0] by (simp_all add: bi_of_int_def bi_limbs.simps)

lemma real_work_pos: "real_work b \<or> b = bi_of_int 0 \<Longrightarrow> 0 \<le> bi_val b"
  using bi_of_int_ok [of 0] by (auto simp: real_work_def bi_ok_def bi_val_def intro: bval_nonneg)

lemma zero_not_greater: "real_work b \<or> b = bi_of_int 0 \<Longrightarrow> \<not> bi_greater (bi_of_int 0) b"
  by (auto simp: bi_greater_def bi_compare_def real_work_def bi_ok_def)

lemma real_work_compare:
  assumes "real_work a" "real_work b \<or> b = bi_of_int 0"
  shows "(bi_greater a b \<longrightarrow> bi_val b \<le> bi_val a) \<and> (\<not> bi_greater a b \<longrightarrow> bi_val a \<le> bi_val b)"
proof (cases "b = bi_of_int 0")
  case True
  with assms show ?thesis using real_work_pos [of a]
    by (auto simp: real_work_def bi_greater_def bi_compare_def bi_ok_def)
next
  case False
  with assms have "bi_ok a \<and> bi_ok b \<and> canonical a \<and> canonical b \<and> bi_number a \<noteq> [] \<and> bi_number b \<noteq> []"
    by (simp add: real_work_def)
  with work_compare [of a b] have "bi_greater a b = (bi_val b < bi_val a)" by blast
  then show ?thesis by auto
qed

lemma better_fold:
  fixes best :: "bigint \<times> u64"
  assumes "\<forall>h \<in> set hs. hc_failed h \<or> real_work (hc_totalWork h)"
    and "real_work (fst best) \<or> fst best = bi_of_int 0"
  shows "(fold better hs best = best \<or>
      (\<exists>h \<in> set hs. \<not> hc_failed h \<and> fold better hs best = (hc_totalWork h, hc_chainLength h))) \<and>
    bi_val (fst best) \<le> bi_val (fst (fold better hs best)) \<and>
    (\<forall>h \<in> set hs. bi_val (hc_getTotalWork h) \<le> bi_val (fst (fold better hs best)))"
  using assms
proof (induction hs arbitrary: best)
  case (Cons h hs)
  note c = real_work_compare
  show ?case
  proof (cases "\<not> hc_failed h \<and> bi_greater (hc_totalWork h) (fst best)")
    case True
    then have b: "better h best = (hc_totalWork h, hc_chainLength h)" "real_work (hc_totalWork h)"
      "bi_val (fst best) \<le> bi_val (hc_totalWork h)" "hc_getTotalWork h = hc_totalWork h"
      using Cons.prems c [of "hc_totalWork h" "fst best"]
      by (auto simp: better_def hc_getTotalWork_def hc_getChainLength_def)
    with Cons.IH [of "better h best"] Cons.prems(1) True show ?thesis by auto
  next
    case False
    then have "better h best = best" "bi_val (hc_getTotalWork h) \<le> bi_val (fst best)"
      using Cons.prems c [of "hc_totalWork h" "fst best"] real_work_pos [of "fst best"] zero_not_greater [of "fst best"]
      by (auto simp: better_def hc_getTotalWork_def)
    with Cons.IH [of best] Cons.prems show ?thesis by auto
  qed
qed simp

section \<open>Starting from the command line\<close>

lemma hexDecode_length: "length (hexDecode s) = (length s + 1) div 2"
  by (induction s rule: hexDecode.induct) auto

lemma parse_hashes_runs:
  "\<forall>j \<in> set js. is_hash_pair j \<Longrightarrow> \<exists>m'. parse_hashes js m = Inr m'"
proof (induction js arbitrary: m)
  case (Cons j js)
  then obtain n s where "j = json_pair n s" "length s = 64" by (auto simp: is_hash_pair_def)
  with Cons show ?case
    by (simp add: json_pair_def jnth_def as_word_def as_string_def stringToSHA256_def
        copy_prefix_def hexDecode_length)
qed simp

lemma host_lines_run: "[] \<notin> set ls \<Longrightarrow> \<exists>hs. host_lines ls = Inr hs"
  by (induction ls rule: host_lines.induct) auto

lemma all_strings_map [simp]: "all_strings (map JStr ss) = Inr ss"
  by (induction ss) (simp_all add: as_string_def)

lemma host_manager_starts:
  fixes args threads wallet priority ip name port network source
  defines "config \<equiv> config_object args threads wallet priority ip name port network source"
  assumes "host_lines (o_blacklist w) = Inr black" "host_lines (o_whitelist w) = Inr white"
  shows "\<exists>hm. host_manager_new build w now cache config = Inr (hm :: 'd host_manager) \<and>
    hm_networkName hm = network_name args network \<and> hm_hostSources hm = host_sources args source"
proof -
  obtain cps where cps: "parse_hashes (config_checkpoints args network) [] = Inr cps"
    using parse_hashes_runs [OF config_hashes(1)] by blast
  obtain bans where bans: "parse_hashes (config_bannedHashes args network) [] = Inr bans"
    using parse_hashes_runs [OF config_hashes(2)] by blast
  have addr: "hm_networkName (snd (computeAddress outputs hm)) = hm_networkName hm"
    "hm_hostSources (snd (computeAddress outputs hm)) = hm_hostSources hm" for outputs and hm :: "'d host_manager"
    by (simp_all add: computeAddress_def Let_def split: option.split)
  have "\<exists>hm0. configured build w config = Inr (hm0 :: 'd host_manager) \<and>
      hm_networkName hm0 = network_name args network \<and> hm_hostSources hm0 = host_sources args source"
    unfolding configured_def config_def
    by (simp add: assms(2,3) cps bans elements_def addr)
  then obtain hm0 :: "'d host_manager" where hm0: "configured build w config = Inr hm0"
    "hm_networkName hm0 = network_name args network" "hm_hostSources hm0 = host_sources args source" by blast
  have "hm_currPeers hm0 = []" using configured_blank [OF hm0(1)] by (simp add: blank_def)
  moreover have "hm_networkName (refreshHostList sources version arrival now hm0) = hm_networkName hm0"
    for sources version arrival
  proof -
    have "hm_networkName (fold (connect version now) hs hm) = hm_networkName hm" for hs and hm :: "'d host_manager"
      by (induction hs arbitrary: hm) (simp_all add: connect_def split: option.split)
    then show ?thesis by (simp add: refreshHostList_def Let_def)
  qed
  ultimately show ?thesis
    using hm0 by (simp add: host_manager_new_def first_hosts_run config_def with_localhost_def)
qed

section \<open>A manager to try things on\<close>

text \<open>A node started with \<open>--local\<close>, on a machine without lists and whose network is silent.\<close>

definition sample_outside :: outside where
  "sample_outside = \<lparr>o_lookup = [''10.0.0.1 ''], o_blacklist = [], o_whitelist = [], o_sources = [],
     o_version = (\<lambda>_. None), o_arrival = (\<lambda>hs. hs), o_curl = (\<lambda>_. None)\<rparr>"

definition sample_config :: json where
  "sample_config = projr (getConfig 4 ''node'' [''pandanite'', ''--local''])"

definition sample_manager :: "(bytes \<times> bytes) list host_manager" where
  "sample_manager = projr (host_manager_new ''1.0.0'' sample_outside 1000 [] sample_config)"

lemma sample_config_object:
  "sample_config = config_object [''pandanite'', ''--local''] 4 [] 0 [] ''node'' 3000 ''mainnet'' None"
  by (simp add: sample_config_def getConfig_def int_option_def string_option_def option_value_def)

lemma sample_manager_new:
  "host_manager_new ''1.0.0'' sample_outside 1000 [] sample_config = Inr sample_manager"
  "hm_hosts sample_manager = [localhost]" "hm_blacklist sample_manager = []" "hm_whitelist sample_manager = []"
  "hm_currPeers sample_manager = []" "hm_hostPingTimes sample_manager = [(localhost, 1000)]"
  "hm_networkName sample_manager = ''localnet''" "hm_minHostVersion sample_manager = ''0.9.0-alpha''"
proof -
  have m: "network_name [''pandanite'', ''--local''] ''mainnet'' = ''localnet''"
    "config_checkpoints [''pandanite'', ''--local''] ''mainnet'' = []"
    "config_bannedHashes [''pandanite'', ''--local''] ''mainnet'' = []"
    "host_sources [''pandanite'', ''--local''] None = []"
    by (simp_all add: network_name_def config_checkpoints_def config_bannedHashes_def host_sources_def has_option_def)
  obtain hm :: "(bytes \<times> bytes) list host_manager" where hm:
    "configured ''1.0.0'' sample_outside sample_config = Inr hm"
    "blank hm" "hm_hostSources hm = []" "hm_blacklist hm = []" "hm_whitelist hm = []"
    "hm_networkName hm = ''localnet''" "hm_minHostVersion hm = ''0.9.0-alpha''"
  proof -
    have addr: "f (snd (computeAddress outputs hm)) = f hm" if "\<And>a. f (hm\<lparr>hm_address := a\<rparr>) = f hm"
      for f :: "(bytes \<times> bytes) list host_manager \<Rightarrow> 'z" and outputs hm
      using that by (simp add: computeAddress_def Let_def split: option.split)
    show thesis
      by (rule that, simp add: configured_def sample_config_object sample_outside_def m elements_def)
        (simp_all add: blank_address addr, simp add: blank_def)
  qed
  from hm(2) have "hm_currPeers hm = []" by (simp add: blank_def)
  with hm have n: "host_manager_new ''1.0.0'' sample_outside 1000 [] sample_config = Inr (with_localhost 1000 hm)"
    by (simp add: host_manager_new_def first_hosts_run) (simp add: sample_config_object)
  then have s: "sample_manager = with_localhost 1000 hm" by (simp add: sample_manager_def)
  show "host_manager_new ''1.0.0'' sample_outside 1000 [] sample_config = Inr sample_manager"
    using n s by simp
  show "hm_hosts sample_manager = [localhost]" "hm_blacklist sample_manager = []" "hm_whitelist sample_manager = []"
    "hm_currPeers sample_manager = []" "hm_hostPingTimes sample_manager = [(localhost, 1000)]"
    "hm_networkName sample_manager = ''localnet''" "hm_minHostVersion sample_manager = ''0.9.0-alpha''"
    using hm(2-) by (simp_all add: s with_localhost_def blank_def)
qed

section \<open>Properties\<close>

text \<open>
  C31. Whatever messages arrive, lists are refreshed and headers are loaded: the hosts a node
  knows are distinct, none of them is on the blacklist, all are on the whitelist if there is one,
  only known hosts have a ping time, and there are at most nine peers, distinct known hosts.
  (Without host sources the node starts with itself as a host, which must be allowed.)
\<close>

theorem known_hosts_allowed:
  "hm_reachable C L hm \<Longrightarrow>
     distinct (hm_hosts hm) \<and>
     set (hm_hosts hm) \<inter> set (hm_blacklist hm) = {} \<and>
     (hm_whitelist hm = [] \<or> set (hm_hosts hm) \<subseteq> set (hm_whitelist hm)) \<and>
     fst ` set (hm_hostPingTimes hm) \<subseteq> set (hm_hosts hm) \<and>
     distinct (map hc_host (hm_currPeers hm)) \<and>
     set (map hc_host (hm_currPeers hm)) \<subseteq> set (hm_hosts hm) \<and> length (hm_currPeers hm) \<le> 9"
proof -
  assume "hm_reachable C L hm"
  then have ok: "peers_ok hm" by (rule hm_reachable_ok)
  have "length (hm_currPeers hm) \<le> 9" using ok by (simp add: peers_ok_def peer_names_def RANDOM_GOOD_HOST_COUNT_def)
  moreover have "set (hm_hosts hm) \<inter> set (hm_blacklist hm) = {}"
    "hm_whitelist hm = [] \<or> set (hm_hosts hm) \<subseteq> set (hm_whitelist hm)"
    using ok by (auto simp: peers_ok_def allowed_def)
  ultimately show ?thesis using ok unfolding peers_ok_def peer_names_def by blast
qed

lemma known_hosts_allowed_witness:
  "let hm = snd (addPeer (\<lambda>_. Some ''7'') (\<lambda>_. True) 1001 [] ''http://peer:3000'' 1000 ''1.0.0'' ''localnet'' sample_manager) in
   hm_hosts hm = [localhost, ''http://peer:3000''] \<and> map hc_host (hm_currPeers hm) = [''http://peer:3000''] \<and>
   distinct (hm_hosts hm)"
proof -
  define hm where "hm = snd (addPeer (\<lambda>_. Some ''7'') (\<lambda>_. True) 1001 [] ''http://peer:3000'' 1000 ''1.0.0'' ''localnet'' sample_manager)"
  have "hm_reachable sample_crypto mem_kv sample_manager"
    by (rule hm_reachable.start [OF sample_manager_new(1)]) (simp_all add: sample_outside_def sample_manager_new)
  then have "hm_reachable sample_crypto mem_kv hm"
    unfolding hm_def by (rule hm_reachable.peer [OF _ surjective_pairing])
  from known_hosts_allowed [OF this] have "distinct (hm_hosts hm)" by blast
  moreover have "hm_hosts hm = [localhost, ''http://peer:3000''] \<and> map hc_host (hm_currPeers hm) = [''http://peer:3000'']"
    by (simp add: hm_def addPeer_def cpp_simps sample_manager_new localhost_def join_peer_def with_host_def with_peer_def
      RANDOM_GOOD_HOST_COUNT_def header_chain_new_def split: sum.split)
  ultimately show ?thesis by (simp flip: hm_def)
qed

text \<open>
  C32. If more than half of the recently seen peers have clocks whose difference to the local one
  lies between \<open>lo\<close> and \<open>hi\<close> (within 34 years), the network time is the local time plus
  a number between \<open>lo\<close> and \<open>hi\<close>, however far off the others are.
\<close>

theorem network_time_majority:
  assumes "length (fresh_deltas now hm) < 2 * length (filter (\<lambda>d. lo \<le> d \<and> d \<le> hi) (fresh_deltas now hm))"
    and "- (2 ^ 30) \<le> lo" "hi < 2 ^ 30"
  shows "\<exists>d. lo \<le> d \<and> d \<le> hi \<and> getNetworkTimestamp now hm = Inr (now + word_of_int d)"
proof -
  define ds where "ds = sort (fresh_deltas now hm)"
  have n: "sorted ds" "length ds < 2 * length (filter (\<lambda>d. lo \<le> d \<and> d \<le> hi) ds)"
    using assms(1) by (simp_all add: ds_def length_filter_sort)
  note at = sorted_count_index [OF n]
  have pos: "0 < length ds" using n(2) by (cases ds) auto
  show ?thesis
  proof (cases "length ds mod 2 = 0")
    case True
    then obtain k where k: "length ds = 2 * k" by auto
    with pos have i: "lo \<le> ds ! k" "ds ! k \<le> hi" "lo \<le> ds ! (k - 1)" "ds ! (k - 1) \<le> hi"
      using at [of k] at [of "k - 1"] by simp_all
    let ?s = "ds ! k + ds ! (k - 1)"
    have "\<not> (?s < - (2 ^ 31) \<or> 2 ^ 31 \<le> ?s)" using i assms(2,3) by simp
    then have "getNetworkTimestamp now hm = Inr (now + word_of_int (sgn ?s * (\<bar>?s\<bar> div 2)))"
      using k pos by (simp add: getNetworkTimestamp_def Let_def flip: ds_def) (cases ds, simp_all)
    with mid_between [OF i] show ?thesis by blast
  next
    case False
    then have "lo \<le> ds ! (length ds div 2) \<and> ds ! (length ds div 2) \<le> hi"
      using pos by (intro at) presburger+
    with False pos show ?thesis by (auto simp: getNetworkTimestamp_def Let_def simp flip: ds_def)
  qed
qed

lemma network_time_majority_witness:
  "\<exists>d. - 3 \<le> d \<and> d \<le> 5 \<and> getNetworkTimestamp 1010 (sample_manager\<lparr>
     hm_hostPingTimes := [(''a'', 1000), (''b'', 1001), (''c'', 1002)],
     hm_peerClockDeltas := [(''a'', 5), (''b'', 1000000), (''c'', - 3)]\<rparr>) = Inr (1010 + word_of_int d)"
  by (rule network_time_majority) (simp_all add: fresh_deltas_def fresh_def HOST_MIN_FRESHNESS_def)

text \<open>
  The peer a node follows: when the work of each header chain that has not failed is a number
  with limbs, \<open>getTotalWork\<close> is at least the work of every peer, and \<open>getTotalWork\<close> and
  \<open>getBlockCount\<close> are the work and the length of one and the same chain that has not failed, or 0
  if there is none.
\<close>

lemma best_peer:
  assumes "\<forall>h \<in> set (hm_currPeers hm). hc_failed h \<or> real_work (hc_totalWork h)"
  shows "(\<forall>h \<in> set (hm_currPeers hm). bi_val (hc_getTotalWork h) \<le> bi_val (hm_getTotalWork hm)) \<and>
    ((\<exists>h \<in> set (hm_currPeers hm). \<not> hc_failed h \<and>
        hm_getTotalWork hm = hc_totalWork h \<and> hm_getBlockCount hm = hc_chainLength h) \<or>
     hm_getTotalWork hm = bi_of_int 0 \<and> hm_getBlockCount hm = 0)"
  using better_fold [OF assms, of "(bi_of_int 0, 0)"]
  by (auto simp: hm_getTotalWork_def hm_getBlockCount_def)

lemma best_peer_witness:
  "hm_getBlockCount (sample_manager\<lparr>hm_currPeers :=
     [sample_header_chain\<lparr>hc_chainLength := 7, hc_totalWork := bi_of_int 5, hc_failed := True\<rparr>]\<rparr>) = 0"
  using best_peer [of "sample_manager\<lparr>hm_currPeers :=
     [sample_header_chain\<lparr>hc_chainLength := 7, hc_totalWork := bi_of_int 5, hc_failed := True\<rparr>]\<rparr>"] by simp

text \<open>
  A node starts with every configuration the command line can give it: whenever \<open>getConfig\<close>
  returns, the host manager is constructed (unless a line of \<open>blacklist.txt\<close> or \<open>whitelist.txt\<close> is
  empty), on the selected network and with the selected host sources.
\<close>

lemma command_line_starts:
  assumes "getConfig cores random args = Inr config"
    and "[] \<notin> set (o_blacklist w)" "[] \<notin> set (o_whitelist w)"
  shows "\<exists>hm. host_manager_new build w now cache config = Inr hm \<and>
    (has_option ''--local'' args \<longrightarrow> hm_networkName hm = ''localnet'') \<and>
    (hm_hostSources hm = [] \<longleftrightarrow> has_option ''--local'' args \<and> option_value ''--host-source'' args = Inr None)"
proof -
  obtain threads wallet priority ip name port network source where
    config: "config = config_object args threads wallet priority ip name port network source"
    and source: "option_value ''--host-source'' args = Inr source"
    by (rule getConfig_object [OF assms(1)])
  obtain black white where "host_lines (o_blacklist w) = Inr black" "host_lines (o_whitelist w) = Inr white"
    using host_lines_run assms(2,3) by metis
  from host_manager_starts [OF this, of build now cache args threads wallet priority ip name port network source]
  show ?thesis using source by (auto simp: config network_name_def host_sources_def split: option.splits)
qed

lemma command_line_starts_witness:
  "\<exists>hm. host_manager_new ''1.0.0'' sample_outside 1000 () (projr (getConfig 4 ''node'' [''pandanite''])) = Inr hm \<and>
     hm_hostSources hm \<noteq> []"
proof -
  have "isl (getConfig 4 ''node'' [''pandanite'']) = False" "option_value ''--host-source'' [''pandanite''] = Inr None"
    "\<not> has_option ''--local'' [''pandanite'']" by code_simp+
  then have "getConfig 4 ''node'' [''pandanite''] = Inr (projr (getConfig 4 ''node'' [''pandanite'']))"
    by (metis sum.collapse(2))
  from command_line_starts [OF this, of sample_outside "''1.0.0''" 1000 "()"] \<open>\<not> has_option ''--local'' [''pandanite'']\<close>
  show ?thesis by (auto simp: sample_outside_def)
qed


end
