(* ===== verification/RateLimiter.thy ===== *)
theory RateLimiter
  imports Prelude "HOL-Library.Char_ord"
begin

text \<open>
  \<open>server/rate_limiter.cpp\<close>: for every client the time from which it may ask again. Times are
  nanoseconds of the steady clock, as integers; their overflow is not modelled.

  \<open>std::chrono::seconds(seconds) / N\<close> is a whole number of seconds, rounded down. The server
  asks for 30 requests in 5 seconds, for which it is 0, and then no request is ever refused.
\<close>

definition SECOND :: int where
  "SECOND = 10 ^ 9"

definition spacing :: "nat \<Rightarrow> nat \<Rightarrow> int" where
  "spacing N seconds = int (seconds div N) * SECOND"

text \<open>\<open>coin\<close> is the sequence of the \<open>rand() % 2 == 0\<close> by which half of a too large map is dropped.\<close>

definition drop_half :: "(nat \<Rightarrow> bool) \<Rightarrow> (string \<times> int) list \<Rightarrow> (string \<times> int) list" where
  "drop_half coin c = map fst (filter (\<lambda>(p, i). \<not> coin i) (zip c [0..<length c]))"

definition limit ::
  "nat \<Rightarrow> nat \<Rightarrow> (nat \<Rightarrow> bool) \<Rightarrow> int \<Rightarrow> string \<Rightarrow> ((string \<times> int) list, bool) cpp" where
  "limit N seconds coin now s c =
     (if N = 0 then (Inl UB, c)
      else
        (let add = spacing N seconds in
         case map_of c s of
           None \<Rightarrow>
             (let c' = omap_put s (now - int seconds * SECOND + add) c in
              (Inr True, if 100000 < length c' then drop_half coin c' else c'))
         | Some t \<Rightarrow>
             if now < t then (Inr False, c)
             else (Inr True, omap_put s (max (now - int seconds * SECOND) t + add) c)))"

text \<open>The answers to a client that asks at the given times.\<close>

fun answers ::
  "nat \<Rightarrow> nat \<Rightarrow> (nat \<Rightarrow> bool) \<Rightarrow> string \<Rightarrow> int list \<Rightarrow> ((string \<times> int) list, bool list) cpp" where
  "answers N seconds coin s [] = ok []"
| "answers N seconds coin s (now # ts) =
     bindE (limit N seconds coin now s) (\<lambda>b.
     bindE (answers N seconds coin s ts) (\<lambda>bs. ok (b # bs)))"

definition accepted :: "bool list \<Rightarrow> nat" where
  "accepted bs = length (filter (\<lambda>b. b) bs)"

section \<open>Lemmas\<close>

lemma accepted_simps [simp]:
  "accepted [] = 0" "accepted (b # bs) = (if b then Suc (accepted bs) else accepted bs)"
  by (simp_all add: accepted_def)

lemma spacing_zero: "seconds < N \<Longrightarrow> spacing N seconds = 0"
  by (simp add: spacing_def)

lemma spacing_nonneg: "0 \<le> spacing N seconds"
  by (simp add: spacing_def SECOND_def)

lemma limit_known:
  "0 < N \<Longrightarrow> map_of c s = Some t \<Longrightarrow> limit N sec coin now s c =
    (if now < t then (Inr False, c)
     else (Inr True, omap_put s (max (now - int sec * SECOND) t + spacing N sec) c))"
  by (simp add: limit_def Let_def)

lemma answers_known_exist:
  assumes "0 < N" "omap_wf c" "map_of c s = Some t"
  shows "\<exists>bs c'. answers N sec coin s ts c = (Inr bs, c')"
  using assms(2,3)
proof (induction ts arbitrary: c t)
  case (Cons now ts)
  let ?t = "max (now - int sec * SECOND) t + spacing N sec"
  have "omap_wf (omap_put s ?t c)" "map_of (omap_put s ?t c) s = Some ?t"
    using Cons.prems by (simp_all add: omap.get_put)
  from Cons.IH [OF this] Cons.IH [OF Cons.prems] limit_known [OF assms(1) Cons.prems(2)] show ?case
    by (cases "now < t") (auto simp: bindE_def split: prod.splits sum.splits)
qed simp

text \<open>Without spacing a known client whose time has come is never refused.\<close>

lemma answers_unlimited:
  assumes "0 < N" "sec < N" "omap_wf c" "map_of c s = Some t" "sorted ts" "\<forall>x \<in> set ts. t \<le> x"
    and "answers N sec coin s ts c = (Inr bs, c')"
  shows "bs = replicate (length ts) True"
  using assms(3-)
proof (induction ts arbitrary: c t bs)
  case (Cons now ts)
  let ?t = "max (now - int sec * SECOND) t"
  have le: "\<not> now < t" "?t \<le> now" using Cons.prems(4) by (auto simp: SECOND_def)
  have l: "limit N sec coin now s c = (Inr True, omap_put s ?t c)"
    using limit_known [OF assms(1) Cons.prems(2)] le(1) by (simp add: spacing_zero [OF assms(2)])
  from Cons.prems(5) obtain bs1 where
    a: "answers N sec coin s ts (omap_put s ?t c) = (Inr bs1, c')" "bs = True # bs1"
    by (auto simp: bindE_Inr [where m = "limit N sec coin now s" and s = c, OF l] bindE_eq_Inr)
  have "bs1 = replicate (length ts) True"
    by (rule Cons.IH [OF _ _ _ _ a(1)])
      (use Cons.prems(1,3) le(2) in \<open>auto simp: omap.get_put intro: order_trans\<close>)
  with a(2) show ?case by simp
qed simp

text \<open>Every accepted request moves the time of the client on by the spacing.\<close>

lemma answers_limited:
  assumes "0 < N" "omap_wf c" "map_of c s = Some t" "sorted ts"
    and "answers N sec coin s ts c = (Inr bs, c')" "\<forall>x \<in> set ts. x \<le> stop"
  shows "accepted bs = 0 \<or>
    t + spacing N sec * (int (accepted bs) - 1) \<le> stop"
  using assms(2-)
proof (induction ts arbitrary: c t bs)
  case (Cons now ts)
  note lk = limit_known [OF assms(1) Cons.prems(2), of sec coin now]
  show ?case
  proof (cases "now < t")
    case True
    with lk have l: "limit N sec coin now s c = (Inr False, c)" by simp
    from Cons.prems(4) obtain bs1 where "answers N sec coin s ts c = (Inr bs1, c')" "bs = False # bs1"
      by (auto simp: bindE_Inr [where m = "limit N sec coin now s" and s = c, OF l] bindE_eq_Inr)
    with Cons.IH [OF Cons.prems(1,2)] Cons.prems(3,5) show ?thesis by simp
  next
    case False
    let ?t = "max (now - int sec * SECOND) t + spacing N sec"
    from False lk have l: "limit N sec coin now s c = (Inr True, omap_put s ?t c)" by simp
    from Cons.prems(4) obtain bs1 where
      a: "answers N sec coin s ts (omap_put s ?t c) = (Inr bs1, c')" "bs = True # bs1"
      by (auto simp: bindE_Inr [where m = "limit N sec coin now s" and s = c, OF l] bindE_eq_Inr)
    have "accepted bs1 = 0 \<or> ?t + spacing N sec * (int (accepted bs1) - 1) \<le> stop"
      by (rule Cons.IH [OF _ _ _ a(1)]) (use Cons.prems in \<open>simp_all add: omap.get_put\<close>)
    moreover have "t \<le> stop" using False Cons.prems(5) by simp
    moreover have "t + spacing N sec \<le> ?t" by simp
    ultimately have "t + spacing N sec * int (accepted bs1) \<le> stop"
      by (cases "accepted bs1 = 0") (auto simp: algebra_simps)
    then show ?thesis using a(2) by simp
  qed
qed simp

section \<open>Properties\<close>

text \<open>
  What \<open>RateLimiter::limit\<close> promises to a client it does not know yet, which asks at
  growing times: with \<open>seconds < N\<close>, as the server configures it, every request is accepted;
  otherwise the number of requests accepted after the first is bounded by the time since the
  first one plus the \<open>seconds\<close> of credit, in units of the spacing.
\<close>

lemma rate_limit:
  assumes "0 < N" "omap_wf c" "map_of c s = None" "length c < 100000" "sorted (now # ts)"
    and "\<forall>x \<in> set ts. x \<le> stop"
  shows "\<exists>bs c'. answers N sec coin s (now # ts) c = (Inr (True # bs), c') \<and>
    (if sec < N then bs = replicate (length ts) True
     else accepted bs = 0 \<or>
       spacing N sec * int (accepted bs) \<le> stop - now + int sec * SECOND)"
proof -
  let ?t = "now - int sec * SECOND + spacing N sec"
  have "length (omap_put s ?t c) \<le> Suc (length c)" by (induction c) auto
  then have "\<not> 100000 < length (omap_put s ?t c)" using assms(4) by simp
  then have l: "limit N sec coin now s c = (Inr True, omap_put s ?t c)"
    using assms(1,3) by (simp add: limit_def Let_def)
  have k: "omap_wf (omap_put s ?t c)" "map_of (omap_put s ?t c) s = Some ?t"
    using assms(2) by (simp_all add: omap.get_put)
  obtain bs c' where a: "answers N sec coin s ts (omap_put s ?t c) = (Inr bs, c')"
    using answers_known_exist [OF assms(1) k] by blast
  then have "answers N sec coin s (now # ts) c = (Inr (True # bs), c')"
    by (simp add: bindE_Inr [where m = "limit N sec coin now s" and s = c, OF l]
        bindE_Inr [where m = "answers N sec coin s ts" and a = bs and s' = c'])
  moreover have "bs = replicate (length ts) True" if "sec < N"
    by (rule answers_unlimited [OF assms(1) that k _ _ a])
      (use assms(5) that in \<open>auto simp: spacing_zero SECOND_def\<close>)
  moreover have "accepted bs = 0 \<or>
      spacing N sec * int (accepted bs) \<le> stop - now + int sec * SECOND"
    using answers_limited [OF assms(1) k _ a assms(6)] assms(5) by (auto simp: algebra_simps)
  ultimately show ?thesis by auto
qed

lemma rate_limit_witness:
  "\<exists>c'. answers 30 5 (\<lambda>i. True) ''10.0.0.1'' [0, 1, 1, 1, 2] [] = (Inr [True, True, True, True, True], c')"
proof -
  have "replicate (length [1, 1, 1, 2 :: int]) True = [True, True, True, True]" by simp
  moreover have "\<exists>bs c'. answers 30 5 (\<lambda>i. True) ''10.0.0.1'' (0 # [1, 1, 1, 2]) [] = (Inr (True # bs), c') \<and>
    (if 5 < (30 :: nat) then bs = replicate (length [1, 1, 1, 2 :: int]) True
     else accepted bs = 0 \<or> spacing 30 5 * int (accepted bs) \<le> 2 - 0 + int 5 * SECOND)"
    by (rule rate_limit) simp_all
  ultimately show ?thesis by auto
qed

end
