(* ===== verification/RequestManager.thy ===== *)
theory RequestManager
  imports Admission HostManager RateLimiter
begin

text \<open>
  \<open>server/request_manager.cpp\<close>: the answers of a node to the requests the HTTP server passes on,
  composed of the chain, the mempool, the host manager and the rate limiter.

  The mempool is the one the chain points to, also while the constructor fills it, where the
  code has not yet told the chain of it. The JSON \<open>ret\<close> of a loop that never runs is null.
\<close>

section \<open>State\<close>

record 'd node =
  n_limitRequests :: bool
  n_hosts :: "'d host_manager"
  n_limiter :: "(string \<times> int) list"
  n_chain :: "'d blockchain"

text \<open>
  What an answer depends on besides the node: the memory and the network's time (\<open>w_env\<close>), the
  clocks, \<open>rand\<close>, the answers of other hosts and the version of the program.
\<close>

record 'd world =
  w_env :: env
  w_now :: u64
  w_clock :: int
  w_coin :: "nat \<Rightarrow> bool"
  w_curl :: "string \<Rightarrow> string option"
  w_reachable :: "string \<Rightarrow> bool"
  w_build :: string
  w_cache :: 'd
  w_mem64 :: u64

definition on_chain :: "('d blockchain, 'a) cpp \<Rightarrow> ('d node, 'a) cpp" where
  "on_chain m = zoom n_chain (\<lambda>c n. n\<lparr>n_chain := c\<rparr>) m"

definition on_hosts :: "('d host_manager, 'a) cpp \<Rightarrow> ('d node, 'a) cpp" where
  "on_hosts m = zoom n_hosts (\<lambda>h n. n\<lparr>n_hosts := h\<rparr>) m"

definition on_limiter :: "((string \<times> int) list, 'a) cpp \<Rightarrow> ('d node, 'a) cpp" where
  "on_limiter m = zoom n_limiter (\<lambda>l n. n\<lparr>n_limiter := l\<rparr>) m"

definition asks :: "('s \<Rightarrow> 'a) \<Rightarrow> ('s, 'a) cpp" where
  "asks f s = (Inr (f s), s)"

definition of_sum :: "exn + 'a \<Rightarrow> ('s, 'a) cpp" where
  "of_sum r s = (r, s)"

section \<open>Starting\<close>

definition NEW_BLOCK_PEER_FANOUT :: nat where
  "NEW_BLOCK_PEER_FANOUT = 8"

definition rm_addTransaction :: "crypto \<Rightarrow> 'd kv \<Rightarrow> 'd world \<Rightarrow> transaction \<Rightarrow> ('d node, json) cpp" where
  "rm_addTransaction C L w t =
     bindE (on_chain (mp_addTransaction C L (w_env w) (w_now w) (e_mem (w_env w) 3 0) (e_mem (w_env w) 3 1) t)) (\<lambda>s.
     ok (jobject [(''status'', JStr (executionStatusAsString s))]))"

text \<open>The loop of the constructor over the hosts; \<open>send\<close> is the network. It ends with the first that answers.\<close>

fun init_mempool ::
  "crypto \<Rightarrow> 'd kv \<Rightarrow> 'd world \<Rightarrow> (http_request \<Rightarrow> exn + bytes) \<Rightarrow> string list \<Rightarrow> ('d node, bool) cpp" where
  "init_mempool C L w send [] = ok False"
| "init_mempool C L w send (h # hs) =
     catchE
       (bindE (of_sum (readRawTransactions C (e_mem (w_env w) 4) send h)) (\<lambda>ts.
        bindE (forE ts (\<lambda>t. bindE (rm_addTransaction C L w t) (\<lambda>_. ok ()))) (\<lambda>_. ok True)))
       (init_mempool C L w send hs)"

definition start_mempool ::
  "crypto \<Rightarrow> 'd kv \<Rightarrow> 'd world \<Rightarrow> (http_request \<Rightarrow> exn + bytes) \<Rightarrow> ('d node, bool) cpp" where
  "start_mempool C L w send =
     bindE getS (\<lambda>n.
     if hm_disabled (n_hosts n) then ok False
     else bindE (of_sum (sampleFreshHosts (w_curl w) (w_now w) 3 (n_hosts n))) (\<lambda>hs.
          init_mempool C L w send hs))"

definition enableRateLimiting :: "bool \<Rightarrow> ('d node, unit) cpp" where
  "enableRateLimiting enabled = modS (\<lambda>n. n\<lparr>n_limitRequests := enabled\<rparr>)"

section \<open>Requests\<close>

definition acceptRequest :: "'d world \<Rightarrow> string \<Rightarrow> ('d node, bool) cpp" where
  "acceptRequest w ip =
     bindE getS (\<lambda>n.
     if \<not> n_limitRequests n then ok True
     else on_limiter (limit 30 5 (w_coin w) (w_clock w) ip))"

definition rm_getPeerStats :: "'d node \<Rightarrow> json" where
  "rm_getPeerStats n =
     (case hm_getHeaderChainStats (n_hosts n) of
        [] \<Rightarrow> JNull
      | st \<Rightarrow> jobject (map (\<lambda>(h, k). (h, JInt (uint k))) st))"

definition rm_getTransactionsForWallet :: "crypto \<Rightarrow> 'd kv \<Rightarrow> 'd world \<Rightarrow> wallet \<Rightarrow> ('d node, json) cpp" where
  "rm_getTransactionsForWallet C L w addr =
     bindE (on_chain (chain_getTransactionsForWallet C L (w_env w) addr)) (\<lambda>txs.
     ok (JArr (map (transaction_toJson C) (copy_list (e_mem (w_env w) 3) txs))))"

text \<open>The result lists the neighbours the block is forwarded to as well.\<close>

definition submitProofOfWork ::
  "crypto \<Rightarrow> 'd kv \<Rightarrow> 'd world \<Rightarrow> block \<Rightarrow> ('d node, json \<times> string list) cpp" where
  "submitProofOfWork C L w newBlock =
     bindE getS (\<lambda>n.
     if b_id newBlock \<le> getBlockCount32 (n_chain n)
     then ok (jobject [(''status'', JStr (executionStatusAsString INVALID_BLOCK_ID))], [])
     else
       bindE (on_chain (addBlockSync C L (w_env w) newBlock)) (\<lambda>status.
       let result = jobject [(''status'', JStr (executionStatusAsString status))] in
       if status = SUCCESS then
         bindE getS (\<lambda>n.
         bindE (of_sum (sampleFreshHosts (w_curl w) (w_now w) NEW_BLOCK_PEER_FANOUT (n_hosts n))) (\<lambda>neighbors.
         ok (result, neighbors)))
       else ok (result, [])))"

primrec hashTreeToJson :: "hash_tree \<Rightarrow> json" where
  "hashTreeToJson (Leaf h) = jobject [(''hash'', JStr (SHA256toString h))]"
| "hashTreeToJson (Branch h l r) =
     jobject [(''hash'', JStr (SHA256toString h)), (''left'', hashTreeToJson l), (''right'', hashTreeToJson r)]"

definition getTransactionStatus :: "'d kv \<Rightarrow> 'd world \<Rightarrow> hash \<Rightarrow> ('d node, json) cpp" where
  "getTransactionStatus L w txid =
     catchE
       (bindE (on_chain (findBlockForTransactionId L txid)) (\<lambda>blockId.
        bindE (on_chain (chain_getBlock L (w_env w) blockId)) (\<lambda>b.
        ok (jobject [(''status'', JStr ''IN_CHAIN''), (''blockId'', JInt (uint (b_id b)))]))))
       (ok (jobject [(''status'', JStr ''NOT_IN_CHAIN''), (''blockId'', JInt (- 1))]))"

definition rm_verifyTransaction :: "crypto \<Rightarrow> 'd kv \<Rightarrow> 'd world \<Rightarrow> transaction \<Rightarrow> ('d node, json) cpp" where
  "rm_verifyTransaction C L w t =
     catchE
       (bindE (on_chain (findBlockForTransaction C L t)) (\<lambda>blockId.
        bindE (on_chain (chain_getBlock L (w_env w) blockId)) (\<lambda>b.
        bindE (of_sum (setItems C (e_mem (w_env w) 3) (e_mem (w_env w) 4) (b_transactions b))) (\<lambda>(m, _).
        ok (case getMerkleProof C m (tx_copy (e_mem (w_env w) 5 0) t) of
              None \<Rightarrow> jobject [(''error'', JStr ''Could not find transaction in block'')]
            | Some root \<Rightarrow> jobject [(''status'', JStr ''SUCCESS''), (''proof'', hashTreeToJson root)])))))
       (ok (jobject [(''error'', JStr ''Could not find block'')]))"

text \<open>
  The loop of \<open>getMineStatus\<close>: the miner, the minted amount and the fees. The block goes through
  its JSON form. A block without a fee leaves \<open>minerAddress\<close> as it finds it.
\<close>

fun mine_totals :: "wallet \<times> amount \<times> amount \<Rightarrow> transaction list \<Rightarrow> wallet \<times> amount \<times> amount" where
  "mine_totals acc [] = acc"
| "mine_totals (miner, mintFee, txFees) (t # ts) =
     (if t_isTransactionFee t then mine_totals (t_to t, t_amount t, txFees) ts
      else mine_totals (miner, mintFee, txFees + t_fee t) ts)"

definition getMineStatus :: "crypto \<Rightarrow> 'd kv \<Rightarrow> 'd world \<Rightarrow> u32 \<Rightarrow> ('d node, json) cpp" where
  "getMineStatus C L w blockId =
     bindE (on_chain (chain_getBlock L (w_env w) blockId)) (\<lambda>block.
     bindE (of_sum (block_of_json (e_mem (w_env w) 3) (e_mem (w_env w) 4) (w_mem64 w)
              (block_toJson C (e_mem (w_env w) 5) block))) (\<lambda>b.
     let (miner, mintFee, txFees) = mine_totals (e_wallet (w_env w), 0, 0) (b_transactions b) in
     ok (jobject [(''minerWallet'', JStr (walletAddressToString miner)),
                  (''mintFee'', JInt (uint mintFee)),
                  (''txFees'', JInt (uint txFees)),
                  (''timestamp'', JStr (uint64ToString (b_timestamp b)))])))"

definition getProofOfWork :: "'d kv \<Rightarrow> ('d node, json) cpp" where
  "getProofOfWork L =
     bindE (asks n_chain) (\<lambda>c.
     bindE (on_chain (chain_getBlockHeader L (getBlockCount32 c))) (\<lambda>last.
     ok (jobject [(''lastHash'', JStr (SHA256toString (c_lastHash c))),
                  (''challengeSize'', JInt (uint (chain_getDifficulty c))),
                  (''chainLength'', JInt (uint (getBlockCount32 c))),
                  (''miningFee'', JInt (uint (getCurrentMiningFee (ucast (getBlockCount32 c + 1))))),
                  (''lastTimestamp'', JStr (uint64ToString (h_timestamp last)))])))"

definition getTransactionQueue :: "crypto \<Rightarrow> 'd world \<Rightarrow> ('d node, json) cpp" where
  "getTransactionQueue C w =
     bindE (on_chain pool_get) (\<lambda>p.
     ok (JArr (map (transaction_toJson C) (mp_getTransactions (e_mem (w_env w) 3) p))))"

definition getRawBlockData :: "'d kv \<Rightarrow> u32 \<Rightarrow> ('d node, bytes) cpp" where
  "getRawBlockData L blockId = on_chain (chain_getRaw L blockId)"

definition rm_getBlockHeader :: "'d kv \<Rightarrow> u32 \<Rightarrow> ('d node, block_header) cpp" where
  "rm_getBlockHeader L blockId = on_chain (chain_getBlockHeader L blockId)"

definition getRawTransactionData :: "('d node, bytes) cpp" where
  "getRawTransactionData = bindE (on_chain pool_get) (\<lambda>p. ok (mp_getRaw p))"

definition rm_getBlock :: "crypto \<Rightarrow> 'd kv \<Rightarrow> 'd world \<Rightarrow> u32 \<Rightarrow> ('d node, json) cpp" where
  "rm_getBlock C L w blockId =
     bindE (on_chain (chain_getBlock L (w_env w) blockId)) (\<lambda>b.
     ok (block_toJson C (e_mem (w_env w) 5) b))"

definition getPeers :: "'d world \<Rightarrow> 'd node \<Rightarrow> json" where
  "getPeers w n = JArr (map JStr (getHosts (w_now w) True (n_hosts n)))"

definition rm_getSupply :: "('d node, json) cpp" where
  "rm_getSupply = bindE (on_chain chain_getSupply) (\<lambda>d. ok (JDouble d))"

definition rm_addPeer ::
  "'d world \<Rightarrow> string \<Rightarrow> u64 \<Rightarrow> string \<Rightarrow> string \<Rightarrow> ('d node, json) cpp" where
  "rm_addPeer w address time version network =
     bindE (on_hosts (addPeer (w_curl w) (w_reachable w) (w_now w) (w_cache w) address time version network)) (\<lambda>_.
     ok (jobject [(''status'', JStr (executionStatusAsString SUCCESS))]))"

definition getLedger :: "'d kv \<Rightarrow> wallet \<Rightarrow> ('d node, json) cpp" where
  "getLedger L addr =
     bindE (asks (\<lambda>n. hasWallet L addr (l_db (c_ledger (n_chain n))))) (\<lambda>known.
     if \<not> known then ok (jobject [(''error'', JStr ''Wallet not found'')])
     else bindE (on_chain (chain_getWalletValue L addr)) (\<lambda>v.
          ok (jobject [(''balance'', JInt (uint v))])))"

definition rm_getBlockCount :: "'d node \<Rightarrow> string" where
  "rm_getBlockCount n = dec (unat (getBlockCount32 (n_chain n)))"

definition rm_getTotalWork :: "'d node \<Rightarrow> string" where
  "rm_getTotalWork n = bi_to_string (c_totalWork (n_chain n))"

section \<open>Statistics\<close>

text \<open>
  \<open>totalWork += pow(2, difficulty)\<close> adds two doubles and converts the sum back, which is
  undefined from \<open>2 ^ 64\<close> on.
\<close>

definition add_pow2 :: "u64 \<Rightarrow> u32 \<Rightarrow> exn + u64" where
  "add_pow2 totalWork difficulty =
     (if 64 \<le> difficulty then Inl UB
      else let s = dbl_trunc (dbl_add (dbl_of_int (uint totalWork)) (1, uint difficulty)) in
        if 2 ^ 64 \<le> s then Inl UB else Inr (word_of_int s))"

text \<open>The loop over the headers; \<open>start\<close> and \<open>end\<close> are times cut to 32 bits.\<close>

fun hashrate_loop ::
  "'d kv \<Rightarrow> int \<Rightarrow> int \<Rightarrow> int list \<Rightarrow> u64 \<times> int \<times> int \<Rightarrow> ('d node, u64 \<times> int \<times> int) cpp" where
  "hashrate_loop L blockStart blockEnd [] acc = ok acc"
| "hashrate_loop L blockStart blockEnd (i # is) (totalWork, start, end') =
     bindE (rm_getBlockHeader L (word_of_int i)) (\<lambda>h.
     bindE (of_sum (add_pow2 totalWork (h_difficulty h))) (\<lambda>t.
     let time = sint (ucast (h_timestamp h) :: u32) in
     hashrate_loop L blockStart blockEnd is
       (t, if i = blockStart then time else start, if i = blockEnd then time else end')))"

definition getNetworkHashrate :: "'d kv \<Rightarrow> ('d node, u64) cpp" where
  "getNetworkHashrate L =
     bindE (asks (\<lambda>n. getBlockCount32 (n_chain n))) (\<lambda>blockCount.
     let blockStart = (if blockCount < 52 then 2 else sint (blockCount - 50)); blockEnd = sint blockCount in
     bindE (hashrate_loop L blockStart blockEnd [blockStart..blockEnd] (0, 0, 0)) (\<lambda>(totalWork, start, end').
     let d = end' - start in
     if d = 0 \<or> d < - (2 ^ 31) \<or> 2 ^ 31 \<le> d then throw UB
     else ok (totalWork div word_of_int d)))"

text \<open>
  The double next to \<open>n / d\<close>: the quotient with 97 further bits, the last of which says whether
  the rest is not 0. The library prints the infinite quotient by 0 as null.
\<close>

definition int_quotient :: "int \<Rightarrow> int \<Rightarrow> json" where
  "int_quotient n d =
     (if d = 0 then JNull
      else
        (let m = \<bar>n\<bar> * 2 ^ 96; q = m div \<bar>d\<bar>;
             x = round_dbl (2 * q + (if m mod \<bar>d\<bar> = 0 then 0 else 1)) (- 97) in
         JDouble (sgn n * sgn d * fst x, snd x)))"

text \<open>\<open>totalSent += t.getAmount()\<close> for an \<open>int\<close>: the sum of 64 bits, cut to 32.\<close>

definition add_to_int :: "int \<Rightarrow> u64 \<Rightarrow> int" where
  "add_to_int s a = sint (ucast (word_of_int s + a) :: u32)"

definition getStats :: "crypto \<Rightarrow> 'd kv \<Rightarrow> 'd world \<Rightarrow> ('d node, json) cpp" where
  "getStats C L w =
     bindE (asks (\<lambda>n. getBlockCount32 (n_chain n))) (\<lambda>count.
     if count = 1 then ok (jobject [(''error'', JStr ''Need more data'')])
     else
       bindE (on_chain pool_get) (\<lambda>p.
       bindE (on_chain (chain_getBlock L (w_env w) count)) (\<lambda>a.
       bindE (on_chain (chain_getBlock L (w_env w) (count - 1))) (\<lambda>b.
       let timeDelta = sint (ucast (b_timestamp a - b_timestamp b) :: u32);
           txs = copy_list (e_mem (w_env w) 3) (b_transactions a);
           totalSent = fold (\<lambda>t s. add_to_int s (t_amount t)) txs 0;
           fees = fold (\<lambda>t s. add_to_int s (t_fee t)) txs 0;
           k = int (length txs) in
       if k = 0 then throw UB
       else ok (jobject
         [(''node_version'', JStr (w_build w)),
          (''num_coins'', JInt (sint (count * 50))),
          (''num_wallets'', JInt 0),
          (''pending_transactions'', JInt (int (mp_size p))),
          (''transactions'', JArr (map (transaction_toJson C) txs)),
          (''transactions_per_second'', int_quotient k timeDelta),
          (''transaction_volume'', JInt totalSent),
          (''avg_transaction_size'', JInt (sgn totalSent * (\<bar>totalSent\<bar> div k))),
          (''avg_transaction_fee'', JInt (sgn fees * (\<bar>fees\<bar> div k))),
          (''difficulty'', JInt (uint (b_difficulty a))),
          (''current_block'', JInt (uint (b_id a))),
          (''last_block_time'', JInt timeDelta)])))))"

end
