(* ===== verification/Server.thy ===== *)
theory Server
  imports RequestManager
begin

text \<open>
  \<open>server/server.cpp\<close>: the handlers of the HTTP requests. What a handler sends is the list of its
  calls on the response: headers, written bytes and ends; a correct answer has one end, the last
  call. Sending twice or not at all is up to the library and is not modelled.

  A body is taken in one piece. The text of a JSON value is not modelled: \<open>parse\<close> reads it, and
  an end with JSON stands for its text. A handler logs an exception and goes on, or ends.
\<close>

section \<open>Responses\<close>

datatype action =
    Header string string
  | WriteBytes bytes
  | EndText string
  | EndJson json

record 'd exchange =
  ex_node :: "'d node"
  ex_sent :: "action list"

definition on_node :: "('d node, 'a) cpp \<Rightarrow> ('d exchange, 'a) cpp" where
  "on_node m = zoom ex_node (\<lambda>n x. x\<lparr>ex_node := n\<rparr>) m"

definition say :: "action \<Rightarrow> ('d exchange, unit) cpp" where
  "say a = modS (\<lambda>x. x\<lparr>ex_sent := ex_sent x @ [a]\<rparr>)"

record request =
  rq_ip :: string
  rq_query :: "string \<Rightarrow> string"
  rq_param :: "nat \<Rightarrow> string"
  rq_body :: bytes

definition sendCorsHeaders :: "('d exchange, unit) cpp" where
  "sendCorsHeaders =
     bindE (say (Header ''Access-Control-Allow-Origin'' ''*'')) (\<lambda>_.
     bindE (say (Header ''Access-Control-Allow-Methods'' ''GET, POST, PUT, DELETE, OPTIONS'')) (\<lambda>_.
     bindE (say (Header ''Access-Control-Allow-Headers'' ''origin, content-type, accept, x-requested-with'')) (\<lambda>_.
     say (Header ''Access-Control-Max-Age'' ''3600''))))"

text \<open>Neither \<open>checkBuffer\<close> nor \<open>rateLimit\<close> keeps its caller from going on.\<close>

definition checkBuffer :: "bytes \<Rightarrow> ('d exchange, unit) cpp" where
  "checkBuffer buf = (if 8000000 < length buf then say (EndText ''Buffer Overflow'') else ok ())"

definition rateLimit :: "'d world \<Rightarrow> request \<Rightarrow> ('d exchange, unit) cpp" where
  "rateLimit w rq =
     bindE (on_node (acceptRequest w (rq_ip rq))) (\<lambda>accepted.
     if \<not> accepted then say (EndText (''Too many requests '' @ rq_ip rq)) else ok ())"

text \<open>The first two calls of almost every handler.\<close>

definition preamble :: "'d world \<Rightarrow> request \<Rightarrow> ('d exchange, unit) cpp" where
  "preamble w rq = bindE (rateLimit w rq) (\<lambda>_. sendCorsHeaders)"

definition html :: action where
  "html = Header ''Content-Type'' ''text/html; charset=utf-8''"

definition json_type :: action where
  "json_type = Header ''Content-Type'' ''application/json; charset=utf-8''"

definition octets :: action where
  "octets = Header ''Content-Type'' ''application/octet-stream''"

definition reply_json :: "json \<Rightarrow> ('d exchange, unit) cpp" where
  "reply_json j = bindE (say json_type) (\<lambda>_. say (EndJson j))"

definition reply_html :: "string \<Rightarrow> ('d exchange, unit) cpp" where
  "reply_html s = bindE (say html) (\<lambda>_. say (EndText s))"

definition error_json :: "string \<Rightarrow> json" where
  "error_json s = jobject [(''error'', JStr s)]"

definition no_parameters :: "('d exchange, unit) cpp" where
  "no_parameters = reply_json (error_json ''No query parameters specified'')"

text \<open>\<open>try { m } catch (...) { log }\<close>\<close>

definition logged :: "('d exchange, unit) cpp \<Rightarrow> ('d exchange, unit) cpp" where
  "logged m = catchE m (ok ())"

definition catch_what :: "('s, 'a) cpp \<Rightarrow> (string \<Rightarrow> ('s, 'a) cpp) \<Rightarrow> ('s, 'a) cpp" where
  "catch_what m h s = (case m s of (Inl (Runtime e), s') \<Rightarrow> h e s' | r \<Rightarrow> r)"

section \<open>Handlers of GET requests\<close>

definition corsHandler :: "('d exchange, unit) cpp" where
  "corsHandler = bindE sendCorsHeaders (\<lambda>_. say (EndText []))"

text \<open>\<open>buffer\<close> is the logger's.\<close>

definition logsHandler :: "'d world \<Rightarrow> string list \<Rightarrow> request \<Rightarrow> ('d exchange, unit) cpp" where
  "logsHandler w buffer rq =
     bindE (preamble w rq) (\<lambda>_. logged (reply_html (concat (map (\<lambda>s. s @ ''<br/>'') buffer))))"

definition statsHandler :: "crypto \<Rightarrow> 'd kv \<Rightarrow> 'd world \<Rightarrow> request \<Rightarrow> ('d exchange, unit) cpp" where
  "statsHandler C L w rq =
     bindE (preamble w rq) (\<lambda>_. logged (bindE (on_node (getStats C L w)) reply_json))"

definition totalWorkHandler :: "'d world \<Rightarrow> request \<Rightarrow> ('d exchange, unit) cpp" where
  "totalWorkHandler w rq =
     bindE (preamble w rq) (\<lambda>_. logged (bindE (on_node (asks rm_getTotalWork)) reply_html))"

definition nameHandler :: "'d world \<Rightarrow> json \<Rightarrow> request \<Rightarrow> ('d exchange, unit) cpp" where
  "nameHandler w config rq =
     bindE (preamble w rq) (\<lambda>_.
     bindE (of_sum (get_string config ''name'')) (\<lambda>name.
     bindE (of_sum (get_string config ''networkName'')) (\<lambda>network.
     bindE (say html) (\<lambda>_.
     say (EndJson (jobject [(''name'', JStr name), (''version'', JStr (w_build w)),
                            (''networkName'', JStr network)]))))))"

definition peerHandler :: "'d world \<Rightarrow> request \<Rightarrow> ('d exchange, unit) cpp" where
  "peerHandler w rq =
     bindE (preamble w rq) (\<lambda>_. bindE (on_node (asks (getPeers w))) (\<lambda>j. say (EndJson j)))"

definition blockCountHandler :: "'d world \<Rightarrow> request \<Rightarrow> ('d exchange, unit) cpp" where
  "blockCountHandler w rq =
     bindE (preamble w rq) (\<lambda>_. logged (bindE (on_node (asks rm_getBlockCount)) reply_html))"

definition txJsonHandler :: "crypto \<Rightarrow> 'd world \<Rightarrow> request \<Rightarrow> ('d exchange, unit) cpp" where
  "txJsonHandler C w rq =
     bindE (preamble w rq) (\<lambda>_.
     catchE (bindE (on_node (getTransactionQueue C w)) reply_json) (say (EndText [])))"

text \<open>The body shared by the handlers of one block; \<open>f\<close> is the call of the request manager.\<close>

definition serve_block :: "(u32 \<Rightarrow> ('d node, json) cpp) \<Rightarrow> string \<Rightarrow> ('d exchange, unit) cpp" where
  "serve_block f arg =
     bindE (of_sum (stoi arg)) (\<lambda>blockId.
     bindE (on_node (asks rm_getBlockCount)) (\<lambda>text.
     bindE (of_sum (stoi text)) (\<lambda>count.
     bindE (if blockId \<le> 0 \<or> count < blockId then ok (error_json ''Invalid Block'')
            else on_node (f (word_of_int blockId))) reply_json)))"

definition block_query ::
  "'d world \<Rightarrow> request \<Rightarrow> (u32 \<Rightarrow> ('d node, json) cpp) \<Rightarrow> ('d exchange, unit) cpp" where
  "block_query w rq f =
     bindE (preamble w rq) (\<lambda>_.
     catchE (if rq_query rq ''blockId'' = [] then no_parameters else serve_block f (rq_query rq ''blockId''))
       (say (EndText [])))"

definition blockHandler :: "crypto \<Rightarrow> 'd kv \<Rightarrow> 'd world \<Rightarrow> request \<Rightarrow> ('d exchange, unit) cpp" where
  "blockHandler C L w rq = block_query w rq (rm_getBlock C L w)"

definition mineStatusHandler :: "crypto \<Rightarrow> 'd kv \<Rightarrow> 'd world \<Rightarrow> request \<Rightarrow> ('d exchange, unit) cpp" where
  "mineStatusHandler C L w rq = block_query w rq (getMineStatus C L w)"

definition blockHandlerDeprecated :: "crypto \<Rightarrow> 'd kv \<Rightarrow> 'd world \<Rightarrow> request \<Rightarrow> ('d exchange, unit) cpp" where
  "blockHandlerDeprecated C L w rq =
     bindE (preamble w rq) (\<lambda>_. catchE (serve_block (rm_getBlock C L w) (rq_param rq 0)) (say (EndText [])))"

definition mineStatusHandlerDeprecated ::
  "crypto \<Rightarrow> 'd kv \<Rightarrow> 'd world \<Rightarrow> request \<Rightarrow> ('d exchange, unit) cpp" where
  "mineStatusHandlerDeprecated C L w rq =
     bindE (preamble w rq) (\<lambda>_. catchE (serve_block (getMineStatus C L w) (rq_param rq 0)) (say (EndText [])))"

text \<open>The handlers of one wallet end nothing when the text of the wallet is refused.\<close>

definition serve_wallet :: "(wallet \<Rightarrow> ('d node, json) cpp) \<Rightarrow> string \<Rightarrow> ('d exchange, unit) cpp" where
  "serve_wallet f arg =
     bindE (of_sum (stringToWalletAddress arg)) (\<lambda>a. bindE (on_node (f a)) reply_json)"

definition wallet_query ::
  "'d world \<Rightarrow> request \<Rightarrow> (wallet \<Rightarrow> ('d node, json) cpp) \<Rightarrow> ('d exchange, unit) cpp" where
  "wallet_query w rq f =
     bindE (preamble w rq) (\<lambda>_.
     logged (if rq_query rq ''wallet'' = [] then no_parameters else serve_wallet f (rq_query rq ''wallet'')))"

definition ledgerHandler :: "'d kv \<Rightarrow> 'd world \<Rightarrow> request \<Rightarrow> ('d exchange, unit) cpp" where
  "ledgerHandler L w rq = wallet_query w rq (getLedger L)"

definition walletHandler :: "crypto \<Rightarrow> 'd kv \<Rightarrow> 'd world \<Rightarrow> request \<Rightarrow> ('d exchange, unit) cpp" where
  "walletHandler C L w rq = wallet_query w rq (rm_getTransactionsForWallet C L w)"

definition ledgerHandlerDeprecated :: "'d kv \<Rightarrow> 'd world \<Rightarrow> request \<Rightarrow> ('d exchange, unit) cpp" where
  "ledgerHandlerDeprecated L w rq =
     bindE (preamble w rq) (\<lambda>_. logged (serve_wallet (getLedger L) (rq_param rq 0)))"

text \<open>\<open>seed\<close> is the random seed of the new keys.\<close>

definition createWalletHandler :: "crypto \<Rightarrow> 'd world \<Rightarrow> bytes \<Rightarrow> request \<Rightarrow> ('d exchange, unit) cpp" where
  "createWalletHandler C w seed rq =
     bindE (preamble w rq) (\<lambda>_.
     logged
       (let (publicKey, privateKey) = generateKeyPair C seed in
        reply_json (jobject
          [(''wallet'', JStr (walletAddressToString (walletAddressFromPublicKey C publicKey))),
           (''publicKey'', JStr (publicKeyToString publicKey)),
           (''privateKey'', JStr (privateKeyToString privateKey))])))"

definition getTxHandler :: "'d world \<Rightarrow> request \<Rightarrow> ('d exchange, unit) cpp" where
  "getTxHandler w rq =
     bindE (preamble w rq) (\<lambda>_.
     logged
       (bindE (say octets) (\<lambda>_.
        bindE (on_node getRawTransactionData) (\<lambda>raw.
        bindE (say (WriteBytes raw)) (\<lambda>_. say (EndText []))))))"

definition supplyHandler :: "'d world \<Rightarrow> request \<Rightarrow> ('d exchange, unit) cpp" where
  "supplyHandler w rq =
     bindE (preamble w rq) (\<lambda>_. logged (bindE (on_node rm_getSupply) (\<lambda>j. say (EndJson j))))"

definition mineHandler :: "'d kv \<Rightarrow> 'd world \<Rightarrow> request \<Rightarrow> ('d exchange, unit) cpp" where
  "mineHandler L w rq =
     bindE (preamble w rq) (\<lambda>_. logged (bindE (on_node (getProofOfWork L)) (\<lambda>j. say (EndJson j))))"

definition getNetworkHashrateHandler :: "'d kv \<Rightarrow> 'd world \<Rightarrow> request \<Rightarrow> ('d exchange, unit) cpp" where
  "getNetworkHashrateHandler L w rq =
     bindE (preamble w rq) (\<lambda>_.
     logged (bindE (on_node (getNetworkHashrate L)) (\<lambda>h. reply_html (dec (unat h)))))"

text \<open>
  A range of blocks or headers. A range that is too long is answered with an end, and then
  served all the same.
\<close>

definition serve_range ::
  "int \<Rightarrow> (u32 \<Rightarrow> ('d node, bytes) cpp) \<Rightarrow> string \<Rightarrow> string \<Rightarrow> ('d exchange, unit) cpp" where
  "serve_range most f arg0 arg1 =
     bindE (of_sum (stoi arg0)) (\<lambda>start.
     bindE (of_sum (stoi arg1)) (\<lambda>last'.
     bindE (if last' - start < - (2 ^ 31) \<or> 2 ^ 31 \<le> last' - start then throw UB
            else if most < last' - start then say (EndText []) else ok ()) (\<lambda>_.
     bindE (say octets) (\<lambda>_.
     bindE (forE [start..last'] (\<lambda>i.
       bindE (on_node (f (word_of_int i))) (\<lambda>raw. say (WriteBytes raw)))) (\<lambda>_.
     say (EndText []))))))"

definition raw_header :: "'d kv \<Rightarrow> u32 \<Rightarrow> ('d node, bytes) cpp" where
  "raw_header L i = bindE (rm_getBlockHeader L i) (\<lambda>h. ok (blockHeaderToBuffer h))"

definition range_query ::
  "'d world \<Rightarrow> request \<Rightarrow> int \<Rightarrow> (u32 \<Rightarrow> ('d node, bytes) cpp) \<Rightarrow> ('d exchange, unit) cpp" where
  "range_query w rq most f =
     bindE (preamble w rq) (\<lambda>_.
     logged
       (if rq_query rq ''start'' = [] \<or> rq_query rq ''end'' = [] then no_parameters
        else serve_range most f (rq_query rq ''start'') (rq_query rq ''end'')))"

definition syncHandler :: "'d kv \<Rightarrow> 'd world \<Rightarrow> request \<Rightarrow> ('d exchange, unit) cpp" where
  "syncHandler L w rq = range_query w rq BLOCKS_PER_FETCH (getRawBlockData L)"

definition blockHeaderHandler :: "'d kv \<Rightarrow> 'd world \<Rightarrow> request \<Rightarrow> ('d exchange, unit) cpp" where
  "blockHeaderHandler L w rq = range_query w rq BLOCK_HEADERS_PER_FETCH (raw_header L)"

definition syncHandlerDeprecated :: "'d kv \<Rightarrow> 'd world \<Rightarrow> request \<Rightarrow> ('d exchange, unit) cpp" where
  "syncHandlerDeprecated L w rq =
     bindE (preamble w rq) (\<lambda>_.
     logged (serve_range BLOCKS_PER_FETCH (getRawBlockData L) (rq_param rq 0) (rq_param rq 1)))"

definition blockHeaderHandlerDeprecated :: "'d kv \<Rightarrow> 'd world \<Rightarrow> request \<Rightarrow> ('d exchange, unit) cpp" where
  "blockHeaderHandlerDeprecated L w rq =
     bindE (preamble w rq) (\<lambda>_.
     logged (serve_range BLOCK_HEADERS_PER_FETCH (raw_header L) (rq_param rq 0) (rq_param rq 1)))"

text \<open>The page for \<open>/\<close>; nothing here is caught.\<close>

definition newline :: string where
  "newline = [char_of (10 :: nat)]"

definition peer_line :: "string \<times> u64 \<Rightarrow> string" where
  "peer_line p = '' - ['' @ fst p @ ''](''  @ fst p @ '') : '' @ dec (unat (snd p)) @ newline"

definition mainHandler :: "'d world \<Rightarrow> request \<Rightarrow> ('d exchange, unit) cpp" where
  \<open>mainHandler w rq =
     bindE (preamble w rq) (\<lambda>_.
     bindE (on_node getS) (\<lambda>n.
     reply_html (concat
       ([''<head><meta http-equiv="refresh" content="1.5"/><script src="https://adamvleggett.github.io/drawdown/drawdown.js"></script></head>'',
         ''<body>'', ''<pre id="content" style="display:none">'',
         ''# Pandanite Server '' @ w_build w @ newline, ''***'' @ newline, ''## Stats'' @ newline,
         ''- Loaded Blockchain length: '' @ rm_getBlockCount n @ newline,
         ''- Total Work: '' @ rm_getTotalWork n @ newline, ''***'' @ newline, ''## Peers'' @ newline] @
        map peer_line (hm_getHeaderChainStats (n_hosts n)) @
        [''***'' @ newline, ''</pre><div id="visible"></div>'', ''<script>'',
         ''document.getElementById("visible").innerHTML=markdown(document.getElementById("content").innerText)'' @ newline,
         ''</script>'', ''</body>'']))))\<close>

section \<open>Handlers of POST requests\<close>

text \<open>\<open>nonce\<close> becomes the timestamp: the constructor of \<open>Transaction\<close> takes no nonce.\<close>

definition createTransactionHandler ::
  "crypto \<Rightarrow> 'd world \<Rightarrow> (bytes \<Rightarrow> exn + json) \<Rightarrow> request \<Rightarrow> ('d exchange, unit) cpp" where
  "createTransactionHandler C w parse rq =
     bindE (preamble w rq) (\<lambda>_.
     bindE (checkBuffer (rq_body rq)) (\<lambda>_.
     logged
       (bindE (of_sum (parse (rq_body rq))) (\<lambda>txInfo.
        bindE (of_sum (and_then (get_string txInfo ''publicKey'') stringToPublicKey)) (\<lambda>publicKey.
        bindE (of_sum (and_then (get_string txInfo ''privateKey'') stringToPrivateKey)) (\<lambda>privateKey.
        bindE (of_sum (and_then (get_string txInfo ''to'') stringToWalletAddress)) (\<lambda>toAddress.
        bindE (of_sum (get_word txInfo ''amount'')) (\<lambda>amount.
        bindE (of_sum (get_word txInfo ''fee'')) (\<lambda>fee.
        bindE (of_sum (get_word txInfo ''nonce'')) (\<lambda>nonce.
        let t = new_transfer (e_mem (w_env w) 3 0) (walletAddressFromPublicKey C publicKey) toAddress
                  amount publicKey fee nonce in
        reply_json (transaction_toJson C (tx_sign C publicKey privateKey t))))))))))))"

definition with_network :: "json \<Rightarrow> json" where
  "with_network j =
     (case j of
        JObj m \<Rightarrow> JObj (if map_of m ''networkName'' = None then omap_put ''networkName'' (JStr ''mainnet'') m else m)
      | JNull \<Rightarrow> JObj [(''networkName'', JStr ''mainnet'')]
      | _ \<Rightarrow> j)"

definition addPeerHandler ::
  "'d world \<Rightarrow> (bytes \<Rightarrow> exn + json) \<Rightarrow> request \<Rightarrow> ('d exchange, unit) cpp" where
  "addPeerHandler w parse rq =
     bindE (preamble w rq) (\<lambda>_.
     bindE (checkBuffer (rq_body rq)) (\<lambda>_.
     logged
       (bindE (of_sum (parse (rq_body rq))) (\<lambda>j.
        let peerInfo = with_network j in
        bindE (of_sum (get_string peerInfo ''address'')) (\<lambda>address.
        bindE (of_sum (get_word peerInfo ''time'')) (\<lambda>time.
        bindE (of_sum (get_string peerInfo ''version'')) (\<lambda>version.
        bindE (of_sum (get_string peerInfo ''networkName'')) (\<lambda>network.
        bindE (on_node (rm_addPeer w address time version network)) reply_json))))))))"

text \<open>The size that the header announces, in 32 bits.\<close>

definition submit_body :: "crypto \<Rightarrow> 'd kv \<Rightarrow> 'd world \<Rightarrow> bytes \<Rightarrow> ('d exchange, unit) cpp" where
  "submit_body C L w buffer =
     (if length buffer < BLOCKHEADER_BUFFER_SIZE + TRANSACTIONINFO_BUFFER_SIZE
      then say (EndJson (error_json ''Malformed block''))
      else
        bindE (of_sum (fst (blockHeaderFromBuffer buffer))) (\<lambda>h.
        if length buffer \<noteq> unat (of_nat BLOCKHEADER_BUFFER_SIZE +
             h_numTransactions h * of_nat TRANSACTIONINFO_BUFFER_SIZE :: u32)
        then say (EndJson (error_json ''Malformed block''))
        else if of_nat MAX_TRANSACTIONS_PER_BLOCK < h_numTransactions h
        then say (EndJson (error_json ''Too many transactions''))
        else
          bindE (of_sum (fst (read_block C buffer))) (\<lambda>(h, infos).
          let block = block_of_header (e_mem (w_env w) 4) h (infos_to_transactions (e_mem (w_env w) 3) infos) in
          bindE (on_node (submitProofOfWork C L w block)) (\<lambda>(response, neighbors).
          say (EndJson response)))))"

definition submitHandler :: "crypto \<Rightarrow> 'd kv \<Rightarrow> 'd world \<Rightarrow> request \<Rightarrow> ('d exchange, unit) cpp" where
  "submitHandler C L w rq =
     bindE (preamble w rq) (\<lambda>_.
     bindE (checkBuffer (rq_body rq)) (\<lambda>_.
     catch_what (submit_body C L w (rq_body rq)) (\<lambda>what. say (EndJson (error_json what)))))"

text \<open>
  The loop reads the transaction at the start of the body again and again: \<open>buf\<close>, meant to walk
  over the body, is never used.
\<close>

definition add_transactions ::
  "crypto \<Rightarrow> 'd kv \<Rightarrow> 'd world \<Rightarrow> bytes \<Rightarrow> nat \<Rightarrow> ('d node, json list) cpp" where
  "add_transactions C L w buffer n =
     mapE [0..<n] (\<lambda>i.
       bindE (of_sum (fst (transactionInfoFromBuffer C buffer))) (\<lambda>t.
       rm_addTransaction C L w (transaction_of_info (e_mem (w_env w) 5 i) t)))"

definition addTransactionHandler :: "crypto \<Rightarrow> 'd kv \<Rightarrow> 'd world \<Rightarrow> request \<Rightarrow> ('d exchange, unit) cpp" where
  "addTransactionHandler C L w rq =
     bindE (preamble w rq) (\<lambda>_.
     bindE (checkBuffer (rq_body rq)) (\<lambda>_.
     logged
       (if length (rq_body rq) < TRANSACTIONINFO_BUFFER_SIZE
        then say (EndJson (error_json ''Malformed transaction''))
        else
          bindE (on_node (add_transactions C L w (rq_body rq)
            (unat (of_nat (length (rq_body rq) div TRANSACTIONINFO_BUFFER_SIZE) :: u32)))) (\<lambda>response.
          say (EndJson (JArr response))))))"

text \<open>One transaction in JSON; the loop over an array stops behind the 101st.\<close>

definition add_json ::
  "crypto \<Rightarrow> 'd kv \<Rightarrow> 'd world \<Rightarrow> json \<Rightarrow> ('d node, json) cpp" where
  "add_json C L w item =
     bindE (of_sum (transaction_of_json (e_mem (w_env w) 5 0) (w_mem64 w) item)) (\<lambda>tx.
     bindE (rm_addTransaction C L w tx) (\<lambda>r.
     bindE (of_sum (jget r ''status'')) (\<lambda>status.
     ok (jobject [(''txid'', JStr (SHA256toString (hashContents C tx))), (''status'', status)]))))"

definition addTransactionJSONHandler ::
  "crypto \<Rightarrow> 'd kv \<Rightarrow> 'd world \<Rightarrow> (bytes \<Rightarrow> exn + json) \<Rightarrow> request \<Rightarrow> ('d exchange, unit) cpp" where
  "addTransactionJSONHandler C L w parse rq =
     bindE (preamble w rq) (\<lambda>_.
     bindE (checkBuffer (rq_body rq)) (\<lambda>_.
     logged
       (bindE (of_sum (parse (rq_body rq))) (\<lambda>parsed.
        bindE (on_node (case parsed of
            JArr items \<Rightarrow> mapE (take 101 items) (add_json C L w)
          | _ \<Rightarrow> mapE [parsed] (add_json C L w))) (\<lambda>response.
        say (EndJson (JArr response)))))))"

definition verifyTransactionHandler ::
  "'d kv \<Rightarrow> 'd world \<Rightarrow> (bytes \<Rightarrow> exn + json) \<Rightarrow> request \<Rightarrow> ('d exchange, unit) cpp" where
  "verifyTransactionHandler L w parse rq =
     bindE (preamble w rq) (\<lambda>_.
     bindE (checkBuffer (rq_body rq)) (\<lambda>_.
     logged
       (bindE (of_sum (parse (rq_body rq))) (\<lambda>parsed.
        bindE (on_node (case parsed of
            JArr items \<Rightarrow> mapE (take 101 items) (\<lambda>item.
              bindE (of_sum (and_then (get_string item ''txid'') stringToSHA256)) (\<lambda>txid.
              getTransactionStatus L w txid))
          | _ \<Rightarrow> ok [])) (\<lambda>response.
        say (EndJson (JArr response)))))))"

section \<open>The routes\<close>

text \<open>\<open>:x\<close> stands for a parameter of the path. The \<open>OPTIONS\<close> requests, which \<open>corsHandler\<close>
  answers, are left out.\<close>

definition get_routes ::
  "crypto \<Rightarrow> 'd kv \<Rightarrow> 'd world \<Rightarrow> json \<Rightarrow> string list \<Rightarrow> bytes \<Rightarrow> request \<Rightarrow> (string \<times> ('d exchange, unit) cpp) list" where
  "get_routes C L w config buffer seed rq =
     [(''/'', mainHandler w rq), (''/name'', nameHandler w config rq), (''/total_work'', totalWorkHandler w rq),
      (''/peers'', peerHandler w rq), (''/block_count'', blockCountHandler w rq),
      (''/logs'', logsHandler w buffer rq), (''/stats'', statsHandler C L w rq),
      (''/block'', blockHandler C L w rq), (''/tx_json'', txJsonHandler C w rq),
      (''/mine_status'', mineStatusHandler C L w rq), (''/ledger'', ledgerHandler L w rq),
      (''/wallet_transactions'', walletHandler C L w rq), (''/gettx/:blockId'', getTxHandler w rq),
      (''/mine_status/:b'', mineStatusHandlerDeprecated C L w rq),
      (''/ledger/:user'', ledgerHandlerDeprecated L w rq),
      (''/sync/:start/:end'', syncHandlerDeprecated L w rq),
      (''/block_headers/:start/:end'', blockHeaderHandlerDeprecated L w rq),
      (''/block/:b'', blockHandlerDeprecated C L w rq), (''/mine'', mineHandler L w rq),
      (''/supply'', supplyHandler w rq), (''/getnetworkhashrate'', getNetworkHashrateHandler L w rq),
      (''/gettx'', getTxHandler w rq), (''/sync'', syncHandler L w rq),
      (''/block_headers'', blockHeaderHandler L w rq), (''/synctx'', getTxHandler w rq),
      (''/create_wallet'', createWalletHandler C w seed rq)]"

definition post_routes ::
  "crypto \<Rightarrow> 'd kv \<Rightarrow> 'd world \<Rightarrow> (bytes \<Rightarrow> exn + json) \<Rightarrow> request \<Rightarrow> (string \<times> ('d exchange, unit) cpp) list" where
  "post_routes C L w parse rq =
     [(''/add_peer'', addPeerHandler w parse rq), (''/submit'', submitHandler C L w rq),
      (''/create_transaction'', createTransactionHandler C w parse rq),
      (''/add_transaction'', addTransactionHandler C L w rq),
      (''/add_transaction_json'', addTransactionJSONHandler C L w parse rq),
      (''/verify_transaction'', verifyTransactionHandler L w parse rq)]"

section \<open>Requests that only read\<close>

text \<open>All that a reading request may change of a node is what the rate limiter notes.\<close>

definition same_but_limiter :: "'d node \<Rightarrow> 'd node \<Rightarrow> bool" where
  "same_but_limiter n n' \<longleftrightarrow> n' = n\<lparr>n_limiter := n_limiter n'\<rparr>"

definition reads :: "('d node, 'a) cpp \<Rightarrow> bool" where
  "reads m \<longleftrightarrow> (\<forall>n. \<not> c_locked (n_chain n) \<longrightarrow> same_but_limiter n (snd (m n)))"

definition looks :: "('d exchange, 'a) cpp \<Rightarrow> bool" where
  "looks m \<longleftrightarrow> (\<forall>x. \<not> c_locked (n_chain (ex_node x)) \<longrightarrow> same_but_limiter (ex_node x) (ex_node (snd (m x))))"

named_theorems reading \<open>statements on a node that only read, and how they compose\<close>
named_theorems looking \<open>handlers that only read\<close>

lemma same_refl [simp]: "same_but_limiter n n"
  by (simp add: same_but_limiter_def)

lemma same_trans: "same_but_limiter n n' \<Longrightarrow> same_but_limiter n' n'' \<Longrightarrow> same_but_limiter n n''"
  by (cases n; cases n'; cases n'') (simp add: same_but_limiter_def)

lemma same_unlocked: "same_but_limiter n n' \<Longrightarrow> c_locked (n_chain n') = c_locked (n_chain n)"
  by (metis same_but_limiter_def node.ext_inject node.surjective node.update_convs(3))

lemma reads_quiet: "quiet m \<Longrightarrow> reads m"
  by (simp add: reads_def quiet_def)

lemma reads_bind [reading]: "reads m \<Longrightarrow> (\<And>a. reads (f a)) \<Longrightarrow> reads (bindE m f)"
  unfolding reads_def bindE_def
  by (auto split: prod.split sum.split) (metis same_trans same_unlocked snd_conv)+

lemma reads_catch [reading]: "reads m \<Longrightarrow> reads h \<Longrightarrow> reads (catchE m h)"
  unfolding reads_def catchE_def
  by (auto split: prod.split sum.split exn.split) (metis same_trans same_unlocked snd_conv)+

lemma reads_if [reading]: "reads m \<Longrightarrow> reads m' \<Longrightarrow> reads (if b then m else m')"
  by simp

lemma reads_pair [reading]: "(\<And>a b. reads (f a b)) \<Longrightarrow> reads (case p of (a, b) \<Rightarrow> f a b)"
  by (simp split: prod.split)

lemma quiet_asks [quiets]: "quiet (asks f)" "quiet (of_sum r)"
  by (simp_all add: quiet_def asks_def of_sum_def)

lemma quiet_pair [quiets]: "(\<And>a b. quiet (f a b)) \<Longrightarrow> quiet (case p of (a, b) \<Rightarrow> f a b)"
  by (simp split: prod.split)

lemma quiet_option [quiets]: "quiet m \<Longrightarrow> (\<And>a. quiet (f a)) \<Longrightarrow> quiet (case v of None \<Rightarrow> m | Some a \<Rightarrow> f a)"
  by (simp split: option.split)

lemma quiet_on_chain [quiets]: "quiet m \<Longrightarrow> quiet (on_chain m)"
  unfolding on_chain_def by (rule quiet_zoom) simp_all

lemma quiet_stores [quiets]:
  "quiet (getRawData L i)" "quiet (blockForTransactionId L h)" "quiet (blockForTransaction C L t)"
  "quiet (store_getTransactionsForWallet L a)"
proof -
  show "quiet (getRawData L i)" unfolding getRawData_def by (intro quiets)
  show "quiet (blockForTransactionId L h)" "quiet (blockForTransaction C L t)"
    "quiet (store_getTransactionsForWallet L a)"
    by (simp_all add: quiet_def blockForTransactionId_def blockForTransaction_def Let_def
        store_getTransactionsForWallet_def split: option.split)
qed

lemma quiet_chain_reads [quiets]:
  "quiet (chain_getBlockHeader L i)" "quiet (chain_getRaw L i)" "quiet pool_get"
  "quiet (findBlockForTransactionId L h)" "quiet (findBlockForTransaction C L t)"
  "quiet (chain_getWalletValue L a)" "quiet (chain_getTransactionsForWallet C L E a)"
  unfolding chain_getBlockHeader_def chain_getRaw_def pool_get_def findBlockForTransactionId_def
    findBlockForTransaction_def chain_getWalletValue_def chain_getTransactionsForWallet_def
  by (intro quiets quiet_getWalletValue)+

lemma quiet_hashrate [quiets]: "quiet (hashrate_loop L i j is acc)"
proof (induction "is" arbitrary: acc)
  case (Cons k ks)
  obtain a b c where "acc = (a, b, c)" by (cases acc)
  with Cons show ?case by (auto simp: Let_def rm_getBlockHeader_def intro!: quiets)
qed (simp add: quiets)

lemma reads_supply: "reads (on_chain chain_getSupply)"
  by (simp add: reads_def on_chain_def zoom_def chain_getSupply_def with_lock_def bindE_getS)

lemma reads_requests [reading]:
  "reads (getStats C L w)" "reads (rm_getTransactionsForWallet C L w a)" "reads (getMineStatus C L w i)"
  "reads (getProofOfWork L)" "reads (getTransactionQueue C w)" "reads (getRawBlockData L i)"
  "reads (rm_getBlockHeader L i)" "reads getRawTransactionData" "reads (rm_getBlock C L w i)"
  "reads (getLedger L a)" "reads (getNetworkHashrate L)" "reads (asks f)" "reads (raw_header L i)" "reads getS"
  unfolding getStats_def rm_getTransactionsForWallet_def getMineStatus_def getProofOfWork_def
    getTransactionQueue_def getRawBlockData_def rm_getBlockHeader_def getRawTransactionData_def
    rm_getBlock_def getLedger_def getNetworkHashrate_def raw_header_def Let_def
  by (intro reads_quiet quiets)+

lemma reads_getSupply [reading]: "reads rm_getSupply"
  unfolding rm_getSupply_def by (intro reading reads_supply reads_quiet quiets)

lemma reads_acceptRequest [reading]: "reads (acceptRequest w ip)"
  by (auto simp: reads_def acceptRequest_def bindE_getS on_limiter_def zoom_def same_but_limiter_def split: prod.split)

lemma looks_bind [looking]: "looks m \<Longrightarrow> (\<And>a. looks (f a)) \<Longrightarrow> looks (bindE m f)"
  unfolding looks_def bindE_def
  by (auto split: prod.split sum.split) (metis same_trans same_unlocked snd_conv)+

lemma looks_catch [looking]: "looks m \<Longrightarrow> looks h \<Longrightarrow> looks (catchE m h)"
  unfolding looks_def catchE_def
  by (auto split: prod.split sum.split exn.split) (metis same_trans same_unlocked snd_conv)+

lemma looks_basic [looking]: "looks (say a)" "looks (ok v)" "looks (throw e)" "looks (of_sum r)"
  by (simp_all add: looks_def say_def of_sum_def)

lemma looks_cases [looking]:
  "looks m \<Longrightarrow> looks m' \<Longrightarrow> looks (if b then m else m')"
  "(\<And>a b. looks (f a b)) \<Longrightarrow> looks (case p of (a, b) \<Rightarrow> f a b)"
  by (simp_all split: prod.split)

lemma looks_forE [looking]: "(\<And>a. looks (f a)) \<Longrightarrow> looks (forE as f)"
  by (induction as) (auto intro!: looking)

lemma looks_on_node [looking]: "reads m \<Longrightarrow> looks (on_node m)"
  by (auto simp: looks_def reads_def on_node_def zoom_def split: prod.split)

lemma looks_replies [looking]:
  "looks sendCorsHeaders" "looks (reply_json j)" "looks (reply_html s)" "looks no_parameters"
  "looks (preamble w rq)" "looks m \<Longrightarrow> looks (logged m)"
  unfolding sendCorsHeaders_def reply_json_def reply_html_def no_parameters_def preamble_def rateLimit_def logged_def
  by (intro looking reading | assumption)+

lemma looks_shared [looking]:
  "(\<And>i. reads (f i)) \<Longrightarrow> looks (serve_block f arg)" "(\<And>i. reads (f i)) \<Longrightarrow> looks (block_query w rq f)"
  "(\<And>a. reads (g a)) \<Longrightarrow> looks (serve_wallet g arg)" "(\<And>a. reads (g a)) \<Longrightarrow> looks (wallet_query w rq g)"
  "(\<And>i. reads (h i)) \<Longrightarrow> looks (serve_range k h arg0 arg1)" "(\<And>i. reads (h i)) \<Longrightarrow> looks (range_query w rq k h)"
  unfolding serve_block_def block_query_def serve_wallet_def wallet_query_def serve_range_def range_query_def
    error_json_def
  by (intro looking reading | assumption)+

lemma looks_handlers:
  "looks (mainHandler w rq)"
  "looks (nameHandler w config rq)" "looks (totalWorkHandler w rq)" "looks (peerHandler w rq)"
  "looks (blockCountHandler w rq)" "looks (logsHandler w buffer rq)" "looks (statsHandler C L w rq)"
  "looks (blockHandler C L w rq)" "looks (txJsonHandler C w rq)" "looks (mineStatusHandler C L w rq)"
  "looks (ledgerHandler L w rq)" "looks (walletHandler C L w rq)" "looks (getTxHandler w rq)"
  "looks (mineStatusHandlerDeprecated C L w rq)" "looks (ledgerHandlerDeprecated L w rq)"
  "looks (syncHandlerDeprecated L w rq)" "looks (blockHeaderHandlerDeprecated L w rq)"
  "looks (blockHandlerDeprecated C L w rq)" "looks (mineHandler L w rq)" "looks (supplyHandler w rq)"
  "looks (getNetworkHashrateHandler L w rq)" "looks (syncHandler L w rq)" "looks (blockHeaderHandler L w rq)"
  "looks (createWalletHandler C w seed rq)"
  unfolding mainHandler_def nameHandler_def totalWorkHandler_def peerHandler_def blockCountHandler_def logsHandler_def
    statsHandler_def blockHandler_def txJsonHandler_def mineStatusHandler_def ledgerHandler_def
    walletHandler_def getTxHandler_def mineStatusHandlerDeprecated_def ledgerHandlerDeprecated_def
    syncHandlerDeprecated_def blockHeaderHandlerDeprecated_def blockHandlerDeprecated_def mineHandler_def
    supplyHandler_def getNetworkHashrateHandler_def syncHandler_def blockHeaderHandler_def
    createWalletHandler_def Let_def
  by (intro looking reading)+

lemma get_routes_look: "(path, h) \<in> set (get_routes C L w config buffer seed rq) \<Longrightarrow> looks h"
  unfolding get_routes_def by (auto intro: looks_handlers)

section \<open>What a peer reads of an answer\<close>

lemma stoi_int_text:
  assumes "- (2 ^ 31) \<le> i" "i < 2 ^ 31" "0 \<le> i"
  shows "stoi (int_text i) = Inr i"
proof -
  let ?s = "dec (nat i)"
  obtain c r where s: "?s = c # r" using dec_not_Nil by (cases ?s) auto
  have d: "\<forall>x \<in> set ?s. is_digit x" by (rule dec_digits)
  then have c: "\<not> c_isspace c" "c \<noteq> CHR ''-''" "c \<noteq> CHR ''+''"
    using s digit_not_space [of c] by auto
  have "takeWhile is_digit (c # r) = c # r" using d s by (simp add: takeWhile_eq_all_conv)
  moreover have "digits_val (rev (c # r)) = i" using digits_val_dec [of "nat i"] s assms(3) by simp
  ultimately show ?thesis using c s assms
    by (simp add: stoi_def int_text_def Let_def del: takeWhile_eq_all_conv takeWhile.simps)
qed

lemma int_text_not_Nil: "int_text i \<noteq> []"
  using dec_not_Nil by (auto simp: int_text_def)

definition written :: "action list \<Rightarrow> bytes" where
  "written as = concat (map (\<lambda>a. case a of WriteBytes b \<Rightarrow> b | _ \<Rightarrow> []) as)"

definition ends :: "action list \<Rightarrow> nat" where
  "ends as = length (filter (\<lambda>a. case a of EndText s \<Rightarrow> True | EndJson j \<Rightarrow> True | _ \<Rightarrow> False) as)"

lemma written_simps [simp]:
  "written [] = []" "written (Header k v # as) = written as" "written (WriteBytes b # as) = b @ written as"
  "written (EndText s # as) = written as" "written (EndJson j # as) = written as"
  "written (as @ bs) = written as @ written bs"
  by (simp_all add: written_def)

lemma ends_simps [simp]:
  "ends [] = 0" "ends (Header k v # as) = ends as" "ends (WriteBytes b # as) = ends as"
  "ends (EndText s # as) = Suc (ends as)" "ends (EndJson j # as) = Suc (ends as)"
  "ends (as @ bs) = ends as + ends bs"
  by (simp_all add: ends_def)

lemma written_map [simp]: "written (map (\<lambda>i. WriteBytes (f i)) xs) = concat (map f xs)"
  by (induction xs) simp_all

lemma ends_map [simp]: "ends (map (\<lambda>i. WriteBytes (f i)) xs) = 0"
  by (induction xs) simp_all

lemma say_app [cpp_simps]: "say a x = (Inr (), x\<lparr>ex_sent := ex_sent x @ [a]\<rparr>)"
  by (simp add: say_def)

lemma of_sum_app [cpp_simps]: "of_sum r s = (r, s)"
  by (simp add: of_sum_def)

lemma of_sum_Inr: "of_sum (Inr a) = ok a"
  by (simp add: of_sum_def ok_def fun_eq_iff)

lemma preamble_unlimited:
  "\<not> n_limitRequests (ex_node x) \<Longrightarrow>
   \<exists>hs. preamble w rq x = (Inr (), x\<lparr>ex_sent := ex_sent x @ hs\<rparr>) \<and> written hs = [] \<and> ends hs = 0"
  unfolding preamble_def
  by (simp add: rateLimit_def on_node_def acceptRequest_def bindE_def zoom_def sendCorsHeaders_def say_def)
    (rule exI, rule conjI, rule refl, simp)

lemma write_all:
  assumes "\<And>i. i \<in> set is \<Longrightarrow> f (word_of_int i) n = (Inr (raw i), n)"
  shows "forE is (\<lambda>i. bindE (on_node (f (word_of_int i))) (\<lambda>b. say (WriteBytes b))) \<lparr>ex_node = n, ex_sent = as\<rparr> =
    (Inr (), \<lparr>ex_node = n, ex_sent = as @ map (\<lambda>i. WriteBytes (raw i)) is\<rparr>)"
  using assms
proof (induction "is" arbitrary: as)
  case (Cons i "is")
  have "bindE (on_node (f (word_of_int i))) (\<lambda>b. say (WriteBytes b)) \<lparr>ex_node = n, ex_sent = as\<rparr> =
      (Inr (), \<lparr>ex_node = n, ex_sent = as @ [WriteBytes (raw i)]\<rparr>)"
    using Cons.prems by (simp add: on_node_def zoom_def bindE_def say_def)
  with Cons show ?case by (simp add: bindE_Inr)
qed simp

lemma serve_range_run:
  assumes "\<And>k. k \<in> set [i..j] \<Longrightarrow> f (word_of_int k) n = (Inr (raw k), n)"
    and "0 \<le> i" "i < 2 ^ 31" "0 \<le> j" "j < 2 ^ 31"
  shows "serve_range most f (int_text i) (int_text j) \<lparr>ex_node = n, ex_sent = as\<rparr> =
    (Inr (), \<lparr>ex_node = n, ex_sent = as @ (if most < j - i then [EndText []] else []) @ [octets] @
       map (\<lambda>k. WriteBytes (raw k)) [i..j] @ [EndText []]\<rparr>)"
proof -
  have r: "\<not> (j - i < - (2 ^ 31) \<or> 2 ^ 31 \<le> j - i)" using assms(2-5) by simp
  have s: "stoi (int_text i) = Inr i" "stoi (int_text j) = Inr j" using assms(2-5) by (simp_all add: stoi_int_text)
  have "forE [i..j] (\<lambda>i. bindE (on_node (f (word_of_int i))) (\<lambda>b. say (WriteBytes b))) \<lparr>ex_node = n, ex_sent = bs\<rparr> =
    (Inr (), \<lparr>ex_node = n, ex_sent = bs @ map (\<lambda>i. WriteBytes (raw i)) [i..j]\<rparr>)" for bs
    by (rule write_all) (rule assms(1))
  then show ?thesis
    using r by (simp add: serve_range_def of_sum_def bindE_Inr s say_app)
qed

lemma sync_run:
  fixes i j :: int
  assumes "\<not> n_limitRequests n" "1 \<le> i" "i \<le> j" "j \<le> c_numBlocks (n_chain n)" "c_numBlocks (n_chain n) < 2 ^ 31"
    and "\<forall>k \<in> {i..j}. getRawData L (word_of_int k) (c_blockStore (n_chain n)) = (Inr (raw k), c_blockStore (n_chain n))"
    and "rq_query rq ''start'' = int_text i" "rq_query rq ''end'' = int_text j"
  shows "\<exists>hs. syncHandler L w rq \<lparr>ex_node = n, ex_sent = []\<rparr> =
    (Inr (), \<lparr>ex_node = n, ex_sent = hs @ map (\<lambda>k. WriteBytes (raw k)) [i..j] @ [EndText []]\<rparr>) \<and>
    written hs = [] \<and> ends hs = (if BLOCKS_PER_FETCH < j - i then 1 else 0)"
proof -
  obtain hs where hs: "preamble w rq \<lparr>ex_node = n, ex_sent = []\<rparr> = (Inr (), \<lparr>ex_node = n, ex_sent = hs\<rparr>)"
    "written hs = []" "ends hs = 0"
    using preamble_unlimited [of "\<lparr>ex_node = n, ex_sent = []\<rparr>" w rq] assms(1) by auto
  have g: "getRawBlockData L (word_of_int k) n = (Inr (raw k), n)" if "k \<in> set [i..j]" for k
  proof -
    have k: "1 \<le> k" "k \<le> c_numBlocks (n_chain n)" "k \<in> {i..j}" using that assms(2,4) by auto
    have "uint (word_of_int k :: u32) = k" "uint (word_of_int (c_numBlocks (n_chain n)) :: u32) = c_numBlocks (n_chain n)"
      using k assms(5) by (simp_all add: unsigned_of_int take_bit_int_eq_self)
    then have "block_in_range (word_of_int k) (n_chain n)"
      using k by (auto simp: block_in_range_def word_le_def word_less_def)
    moreover have "getRawData L (word_of_int k) (c_blockStore (n_chain n)) = (Inr (raw k), c_blockStore (n_chain n))"
      using assms(6) k(3) by blast
    ultimately show ?thesis
      by (simp add: getRawBlockData_def on_chain_def zoom_def chain_getRaw_def bindE_getS on_store_def)
  qed
  let ?head = "hs @ (if BLOCKS_PER_FETCH < j - i then [EndText []] else []) @ [octets]"
  have "serve_range BLOCKS_PER_FETCH (getRawBlockData L) (int_text i) (int_text j) \<lparr>ex_node = n, ex_sent = hs\<rparr> =
      (Inr (), \<lparr>ex_node = n, ex_sent = ?head @ map (\<lambda>k. WriteBytes (raw k)) [i..j] @ [EndText []]\<rparr>)"
    using serve_range_run [of i j "getRawBlockData L" n raw BLOCKS_PER_FETCH hs] g assms(2-5) by simp
  then have "syncHandler L w rq \<lparr>ex_node = n, ex_sent = []\<rparr> =
      (Inr (), \<lparr>ex_node = n, ex_sent = ?head @ map (\<lambda>k. WriteBytes (raw k)) [i..j] @ [EndText []]\<rparr>)"
    using assms(7,8) by (simp add: syncHandler_def range_query_def bindE_Inr hs(1) int_text_not_Nil logged_def catchE_def)
  then show ?thesis using hs(2,3) by (intro exI [of _ ?head]) (simp add: octets_def)
qed

lemma first_only:
  assumes "transaction_info_wf C t"
  shows "add_transactions C L w (transactionInfoToBuffer t @ rest) n =
    mapE [0..<n] (\<lambda>i. rm_addTransaction C L w (transaction_of_info (e_mem (w_env w) 5 i) t))"
  by (simp add: add_transactions_def tx_codec.rd_wr [OF assms] of_sum_Inr)

section \<open>A node to try things on\<close>

text \<open>A store that has an empty block under every key, and a node whose chain of 300 blocks is in it.\<close>

definition full_kv :: "(bytes \<times> bytes) list kv" where
  "full_kv = mem_kv\<lparr>kv_get := (\<lambda>d k. Some (header_image (\<lambda>_. 0) (block_serialize (sample_block 1 []))))\<rparr>"

definition full_node :: "(bytes \<times> bytes) list node" where
  "full_node = \<lparr>n_limitRequests = False, n_hosts = sample_manager, n_limiter = [],
     n_chain = sample_chain\<lparr>c_numBlocks := 300\<rparr>\<rparr>"

definition sample_world :: "(bytes \<times> bytes) list world" where
  "sample_world = \<lparr>w_env = sample_env, w_now = 1000, w_clock = 0, w_coin = (\<lambda>_. True), w_curl = (\<lambda>_. None),
     w_reachable = (\<lambda>_. True), w_build = ''1.0.0'', w_cache = [], w_mem64 = 0\<rparr>"

definition sample_request :: "int \<Rightarrow> int \<Rightarrow> bytes \<Rightarrow> request" where
  "sample_request i j body = \<lparr>rq_ip = ''1.2.3.4'',
     rq_query = (\<lambda>q. if q = ''start'' then int_text i else if q = ''end'' then int_text j else ''zz''),
     rq_param = (\<lambda>_. []), rq_body = body\<rparr>"

lemma sample_request_simps [simp]:
  "rq_query (sample_request i j body) ''start'' = int_text i" "rq_query (sample_request i j body) ''end'' = int_text j"
  "rq_query (sample_request i j body) ''wallet'' = ''zz''" "rq_body (sample_request i j body) = body"
  "rq_ip (sample_request i j body) = ''1.2.3.4''"
  by (simp_all add: sample_request_def)

lemma full_node_simps [simp]:
  "\<not> n_limitRequests full_node" "c_numBlocks (n_chain full_node) = 300" "\<not> c_locked (n_chain full_node)"
  by (simp_all add: full_node_def sample_unlocked)

lemma full_kv_raw: "getRawData full_kv k d = (Inr (block_to_buffer (sample_block 1 [])), d)"
proof -
  have w: "block_header_wf (block_serialize (sample_block 1 []))"
    by (simp add: block_header_wf_def block_serialize_def sample_block_def block_default_def NULL_SHA256_HASH_def)
  have "store_getBlockHeader full_kv k d = (Inr (block_serialize (sample_block 1 [])), d)"
    by (rule store_getBlockHeader_ok [OF _ w]) (simp add: full_kv_def)
  then show ?thesis
    by (simp add: getRawData_def bindE_Inr block_to_buffer_def block_serialize_def sample_block_def block_default_def)
qed

section \<open>Properties\<close>

text \<open>
  C8. Reading is safe: whatever a GET request asks for and however its handler ends, the chain,
  its stores and databases, the mempool and the host manager of the node are what they were
  before; only the rate limiter may have noted the request.
\<close>

theorem get_requests_read_only:
  assumes "(path, h) \<in> set (get_routes C L w config buffer seed rq)"
    and "h x = (r, x')" "\<not> c_locked (n_chain (ex_node x))"
  shows "n_chain (ex_node x') = n_chain (ex_node x) \<and> n_hosts (ex_node x') = n_hosts (ex_node x) \<and>
    ex_node x' = (ex_node x)\<lparr>n_limiter := n_limiter (ex_node x')\<rparr>"
proof -
  have "same_but_limiter (ex_node x) (ex_node x')"
    using get_routes_look [OF assms(1)] assms(2,3) by (simp add: looks_def) (metis snd_conv)
  then have e: "ex_node x' = (ex_node x)\<lparr>n_limiter := n_limiter (ex_node x')\<rparr>"
    by (simp add: same_but_limiter_def)
  have "n_chain (ex_node x') = n_chain (ex_node x)" "n_hosts (ex_node x') = n_hosts (ex_node x)"
    by (subst e, simp)+
  with e show ?thesis by blast
qed

lemma get_requests_read_only_witness:
  "n_chain (ex_node (snd (peerHandler sample_world (sample_request 1 2 []) \<lparr>ex_node = full_node, ex_sent = []\<rparr>))) =
   n_chain full_node"
proof -
  have "(''/peers'', peerHandler sample_world (sample_request 1 2 [])) \<in>
      set (get_routes sample_crypto mem_kv sample_world sample_config [] [] (sample_request 1 2 []))"
    by (simp add: get_routes_def)
  from get_requests_read_only [OF this surjective_pairing, of "\<lparr>ex_node = full_node, ex_sent = []\<rparr>"]
  show ?thesis by simp
qed



text \<open>
  Of the transactions in one body for \<open>/add_transaction\<close> only the first counts: the handler
  does exactly what it does for as many copies of the first.
\<close>

lemma only_first_transaction:
  assumes "\<forall>t \<in> set (t # ts). transaction_info_wf C t"
    and "rq_body rq = concat (map transactionInfoToBuffer (t # ts))"
    and "rq_body rq' = concat (map transactionInfoToBuffer (replicate (length (t # ts)) t))"
    and "rq_ip rq' = rq_ip rq"
  shows "addTransactionHandler C L w rq = addTransactionHandler C L w rq'"
proof -
  have l: "length (rq_body rq') = length (rq_body rq)"
    using tx_codec.length_batch [of "t # ts" C] tx_codec.length_batch [of "replicate (length (t # ts)) t" C] assms(1-3)
    by simp
  have "add_transactions C L w (rq_body rq) k = add_transactions C L w (rq_body rq') k" for k
    using assms(1) by (simp add: assms(2,3) first_only)
  moreover have "preamble w rq' = preamble w rq" by (simp only: preamble_def rateLimit_def assms(4))
  ultimately show ?thesis by (simp add: addTransactionHandler_def checkBuffer_def l)
qed

lemma only_first_transaction_witness:
  "addTransactionHandler sample_crypto mem_kv sample_world (sample_request 1 2 (concat (map transactionInfoToBuffer
     [tx_serialize (sample_transfer 1 2 30 5), tx_serialize (sample_transfer 2 1 7 1)]))) =
   addTransactionHandler sample_crypto mem_kv sample_world (sample_request 1 2 (concat (map transactionInfoToBuffer
     [tx_serialize (sample_transfer 1 2 30 5), tx_serialize (sample_transfer 1 2 30 5)])))"
  by (rule only_first_transaction [where t = "tx_serialize (sample_transfer 1 2 30 5)" and
        ts = "[tx_serialize (sample_transfer 2 1 7 1)]" and C = sample_crypto])
    (simp_all add: transaction_info_wf_def tx_serialize_def sample_transfer_def sample_wallet_def sample_key_def)

text \<open>
  Requests that are not answered, or not once: \<open>/ledger\<close> with a wallet that has not 50 digits
  gets no end; \<open>/getnetworkhashrate\<close> on a chain of one block divides by 0; and \<open>/sync\<close> for more
  than \<open>BLOCKS_PER_FETCH\<close> blocks is refused and then served all the same, with two ends.
\<close>

lemma requests_unanswered:
  fixes i j :: int
  assumes "\<not> n_limitRequests n"
    and "rq_query rq ''wallet'' \<noteq> []" "length (rq_query rq ''wallet'') \<noteq> 50"
    and "c_numBlocks (n_chain m) = 1"
    and "1 \<le> i" "i \<le> j" "j \<le> c_numBlocks (n_chain n)" "c_numBlocks (n_chain n) < 2 ^ 31" "BLOCKS_PER_FETCH < j - i"
    and "\<forall>k \<in> {i..j}. getRawData L (word_of_int k) (c_blockStore (n_chain n)) = (Inr (raw k), c_blockStore (n_chain n))"
    and "rq_query rq ''start'' = int_text i" "rq_query rq ''end'' = int_text j"
  shows "ends (ex_sent (snd (ledgerHandler L w rq \<lparr>ex_node = n, ex_sent = []\<rparr>))) = 0 \<and>
    fst (getNetworkHashrate L m) = Inl UB \<and>
    ends (ex_sent (snd (syncHandler L w rq \<lparr>ex_node = n, ex_sent = []\<rparr>))) = 2 \<and>
    written (ex_sent (snd (syncHandler L w rq \<lparr>ex_node = n, ex_sent = []\<rparr>))) = concat (map raw [i..j])"
proof (intro conjI)
  obtain hs where hs: "preamble w rq \<lparr>ex_node = n, ex_sent = []\<rparr> = (Inr (), \<lparr>ex_node = n, ex_sent = hs\<rparr>)" "ends hs = 0"
    using preamble_unlimited [of "\<lparr>ex_node = n, ex_sent = []\<rparr>" w rq] assms(1) by auto
  show "ends (ex_sent (snd (ledgerHandler L w rq \<lparr>ex_node = n, ex_sent = []\<rparr>))) = 0"
    using assms(2,3) hs(2)
    by (simp add: ledgerHandler_def wallet_query_def bindE_Inr hs(1) serve_wallet_def of_sum_def
        stringToWalletAddress_def logged_def catchE_def bindE_Inl)
  show "fst (getNetworkHashrate L m) = Inl UB"
    using assms(4) by (simp add: getNetworkHashrate_def asks_def bindE_def getBlockCount32_def)
  obtain hs' where "syncHandler L w rq \<lparr>ex_node = n, ex_sent = []\<rparr> =
      (Inr (), \<lparr>ex_node = n, ex_sent = hs' @ map (\<lambda>k. WriteBytes (raw k)) [i..j] @ [EndText []]\<rparr>)"
    "written hs' = []" "ends hs' = 1"
    using sync_run [OF assms(1,5-8,10-12), of w] assms(9) by auto
  then show "ends (ex_sent (snd (syncHandler L w rq \<lparr>ex_node = n, ex_sent = []\<rparr>))) = 2"
    "written (ex_sent (snd (syncHandler L w rq \<lparr>ex_node = n, ex_sent = []\<rparr>))) = concat (map raw [i..j])"
    by simp_all
qed

lemma requests_unanswered_witness:
  "fst (getNetworkHashrate full_kv (full_node\<lparr>n_chain := (n_chain full_node)\<lparr>c_numBlocks := 1\<rparr>\<rparr>)) = Inl UB \<and>
   ends (ex_sent (snd (syncHandler full_kv sample_world (sample_request 1 202 []) \<lparr>ex_node = full_node, ex_sent = []\<rparr>))) = 2"
  using requests_unanswered [of full_node "sample_request 1 202 []"
      "full_node\<lparr>n_chain := (n_chain full_node)\<lparr>c_numBlocks := 1\<rparr>\<rparr>" 1 202 full_kv
      "\<lambda>_. block_to_buffer (sample_block 1 [])" sample_world]
  by (simp add: full_kv_raw BLOCKS_PER_FETCH_def)

end
