(* ===== verification/Miner.thy ===== *)
theory Miner
  imports Server
begin

text \<open>
  \<open>tools/miner.cpp\<close>: one round of the loop of \<open>get_work\<close>. It asks a node for its mining problem
  and its waiting transactions, builds the next block, mines it and submits it. An exception is
  logged and the next round begins; nothing else is kept between the rounds.

  \<open>mm k i\<close> is the memory of the miner's transactions: of the fee transaction (\<open>k = 0\<close>), of the
  vector of the block (1), of the two copies the Merkle tree makes (2 and 3) and of the one that
  is sent (4). \<open>tf\<close> and \<open>tb\<close> are the clock when the fee transaction and the block are made, \<open>seed\<close> is
  the random nonce the search starts from. A search that never ends is \<open>None\<close>.
\<close>

section \<open>A round\<close>

definition PUFFERFISH_START_BLOCK :: u32 where
  "PUFFERFISH_START_BLOCK = 1"

text \<open>A block must not be older than the last one; the clock may be wrong.\<close>

definition not_before :: "u64 \<Rightarrow> u64 \<Rightarrow> block \<Rightarrow> block" where
  "not_before lastTimestamp t b =
     (if b_timestamp b < lastTimestamp then setBlockTimestamp t b else b)"

definition add_all :: "(nat \<Rightarrow> transaction) \<Rightarrow> transaction list \<Rightarrow> block \<Rightarrow> block" where
  "add_all mem ts b = fold (\<lambda>(i, t). addTransaction (mem (Suc i)) t) (enumerate 0 ts) b"

text \<open>The Merkle tree sorts the transactions of the block in place.\<close>

definition seal :: "crypto \<Rightarrow> (nat \<Rightarrow> nat \<Rightarrow> transaction) \<Rightarrow> hash \<Rightarrow> u8 \<Rightarrow> block \<Rightarrow> exn + block" where
  "seal C mm lastHash challenge b =
     map_sum id (\<lambda>(m, ts). setLastBlockHash lastHash (setDifficulty challenge (setMerkleRoot (getRootHash m)
         (b\<lparr>b_transactions := ts\<rparr>))))
       (setItems C (mm 2) (mm 3) (b_transactions b))"

definition miner_block ::
  "crypto \<Rightarrow> (nat \<Rightarrow> nat \<Rightarrow> transaction) \<Rightarrow> u64 \<Rightarrow> u64 \<Rightarrow> u64 \<Rightarrow> wallet \<Rightarrow> json \<Rightarrow> exn + transaction list \<Rightarrow>
   exn + block \<times> u8" where
  "miner_block C mm mem64 tf tb wallet problem pending =
     and_then (get_int problem ''chainLength'') (\<lambda>chainLength.
     if chainLength = 2 ^ 31 - 1 then Inl UB else
     and_then pending (\<lambda>transactions.
     and_then (and_then (get_string problem ''lastHash'') stringToSHA256) (\<lambda>lastHash.
     and_then (get_int problem ''challengeSize'') (\<lambda>challengeSize.
     and_then (get_word problem ''miningFee'') (\<lambda>miningFee.
     and_then (get_string problem ''lastTimestamp'') (\<lambda>time.
     let lastTimestamp = stringToUint64 mem64 time;
         fee = new_fee (mm 0 0) tf wallet miningFee;
         b = setId (word_of_int (chainLength + 1)) (not_before lastTimestamp (lastTimestamp + 1) (block_default tb));
         b = add_all (mm 1) transactions (not_before lastTimestamp lastTimestamp (addTransaction (mm 1 0) fee b)) in
     map_sum id (\<lambda>b. (b, word_of_int challengeSize)) (seal C mm lastHash (word_of_int challengeSize) b)))))))"

definition mine_block :: "crypto \<Rightarrow> hash \<Rightarrow> block \<Rightarrow> u8 \<Rightarrow> block option" where
  "mine_block C seed b challenge =
     map_option (\<lambda>solution. setBlockNonce solution b)
       (mineHash C (block_getHash C b) challenge (PUFFERFISH_START_BLOCK < b_id b) seed)"

text \<open>What a round submits; \<open>Some (Inr None)\<close> is the end of \<open>get_work\<close> for lack of a host.\<close>

definition get_work_round ::
  "crypto \<Rightarrow> (nat \<Rightarrow> nat \<Rightarrow> transaction) \<Rightarrow> u64 \<Rightarrow> u64 \<Rightarrow> u64 \<Rightarrow> hash \<Rightarrow> (http_request \<Rightarrow> exn + bytes) \<Rightarrow>
   (bytes \<Rightarrow> exn + json) \<Rightarrow> (string \<Rightarrow> string option) \<Rightarrow> 'd host_manager \<Rightarrow> wallet \<Rightarrow> string \<Rightarrow>
   (exn + http_request option) option" where
  "get_work_round C mm mem64 tf tb seed send parse curl hosts wallet customHostIp =
     (case (if customHostIp \<noteq> [] then map_sum id (\<lambda>_. customHostIp) (getCurrentBlockCount send customHostIp)
            else Inr (getGoodHost curl hosts)) of
        Inl e \<Rightarrow> Some (Inl e)
      | Inr host \<Rightarrow>
          if host = [] then Some (Inr None)
          else
            (case and_then (getMiningProblem send parse host) (\<lambda>problem.
               miner_block C mm mem64 tf tb wallet problem (readRawTransactions C (mm 5) send host)) of
               Inl e \<Rightarrow> Some (Inl e)
             | Inr (b, challenge) \<Rightarrow>
                 map_option (\<lambda>b. Inr (Some (submitBlock_request (mm 4) host b))) (mine_block C seed b challenge)))"

lemma get_work_submits:
  assumes "host \<noteq> []" "getCurrentBlockCount send host = Inr k"
    and "send (GET (host @ ''/mine'')) = Inr body" "parse body = Inr problem" "send (GET (host @ ''/gettx'')) = Inr []"
    and "miner_block C mm mem64 tf tb wallet problem (Inr []) = Inr (a, d)" "mine_block C seed a d = Some b"
  shows "get_work_round C mm mem64 tf tb seed send parse curl hosts wallet host =
    Some (Inr (Some (POST (host @ ''/submit'') (block_to_buffer b))))"
  using assms
  by (simp add: get_work_round_def getMiningProblem_def readRawTransactions_def infos_to_transactions_def
      submitBlock_request_def block_to_buffer_def tx_serialize_copies ok_def)

section \<open>A block without transactions to send\<close>

text \<open>The block a node makes of the body of a request.\<close>

definition received ::
  "(nat \<Rightarrow> transaction) \<Rightarrow> (nat \<Rightarrow> transaction) \<Rightarrow> block \<Rightarrow> block" where
  "received mem mem' b =
     block_of_header mem' (block_serialize b) (infos_to_transactions mem (map tx_serialize (b_transactions b)))"

lemma setItems_single:
  assumes "setItems C mem mem' [t] = Inr (m, ts)"
  shows "ts = [tx_copy (mem 0) t]"
    and "row_root C [tx_getHash C (tx_copy (mem' 0) t)] = Inr (getRootHash m)"
  using assms
  by (auto simp: setItems_def row_root_def getRootHash_def std_sort_def Let_def tx_copy_nonce
      split: sum.splits)


text \<open>A fee transaction read from the wire has the hash it had, if the memory it is built in agrees on the nonce.\<close>

lemma fee_hash_received:
  assumes "t_isTransactionFee t" "t_nonce m' = t_nonce t"
  shows "tx_getHash C (tx_copy m' (transaction_of_info m (tx_serialize t))) = tx_getHash C t"
  using assms by (simp add: tx_getHash_def hashContents_def tx_contents_def transaction_of_info_def tx_serialize_def)

lemma tx_getHash_same_nonce: "t_nonce m = t_nonce t \<Longrightarrow> tx_getHash C (tx_copy m t) = tx_getHash C t"
  by (simp add: tx_copy_nonce)

lemma ExecuteBlock_fee_only:
  assumes "kv_writes L" "exec_ok L x" "b_transactions blk = [t]" "t_isTransactionFee t" "t_amount t = fee"
    and "total_supply (xbal L x) + uint fee < 2 ^ 64"
  shows "\<exists>x'. ExecuteBlock C L m m' blk d fee x = (Inr SUCCESS, x')"
proof -
  obtain bs where "credit (xbal L x) (t_to t) fee = Some bs"
    using credit_total [OF finite_xbal [OF assms(2)] assms(6)] by blast
  from exec_deposit_total [OF assms(1,2) this] obtain x' where "exec_deposit L (t_to t) fee x = (Inr (), x')" by blast
  then show ?thesis using assms(3-5)
    by (simp add: ExecuteBlock_def updateLedger_def Let_def bindE_Inr cpp_simps)
qed

lemma ExecuteBlock_fee_paid:
  assumes "ExecuteBlock C L m m' blk d fee x = (Inr SUCCESS, x')" "exec_ok L x"
    and "b_transactions blk = [t]" "t_isTransactionFee t"
  shows "wbal (xbal L x') (t_to t) = wbal (xbal L x) (t_to t) + fee"
proof -
  have "exec_deposit L (t_to t) fee x = (Inr (), x')"
    using assms(1,3,4)
    by (auto simp: ExecuteBlock_def updateLedger_def Let_def bindE_eq_Inr cpp_simps split: if_splits)
  from exec_deposit_returns [OF assms(2) this] show ?thesis using wbal_credit by fastforce
qed

lemma mining_problem:
  assumes "getProofOfWork L n = (Inr problem, n')"
  shows "get_string problem ''lastHash'' = Inr (SHA256toString (c_lastHash (n_chain n)))"
    and "get_int problem ''challengeSize'' = Inr (uint (chain_getDifficulty (n_chain n)))"
    and "get_int problem ''chainLength'' = Inr (sint (getBlockCount32 (n_chain n)))"
    and "get_word problem ''miningFee'' = Inr (ucast (getCurrentMiningFee (ucast (getBlockCount32 (n_chain n) + 1))) :: amount)"
    and "\<exists>t. get_string problem ''lastTimestamp'' = Inr (uint64ToString t)"
proof -
  have d: "sint (ucast d :: u32) = uint d" for d :: u8
  proof -
    have "- (2 ^ 31) \<le> uint d" using order_trans [of "- (2 ^ 31)" 0 "uint d"] by simp
    moreover have "uint d < 2 ^ 31" using uint_lt2p [of d] by simp
    ultimately have "sint (word_of_int (uint d) :: u32) = uint d" by (rule sint_of_int32)
    then show ?thesis by simp
  qed
  let ?answer = "\<lambda>h :: block_header. jobject [(''lastHash'', JStr (SHA256toString (c_lastHash (n_chain n)))),
      (''challengeSize'', JInt (uint (chain_getDifficulty (n_chain n)))),
      (''chainLength'', JInt (uint (getBlockCount32 (n_chain n)))),
      (''miningFee'', JInt (uint (getCurrentMiningFee (ucast (getBlockCount32 (n_chain n) + 1))))),
      (''lastTimestamp'', JStr (uint64ToString (h_timestamp h)))]"
  have "\<exists>h. problem = ?answer h"
    using assms by (auto simp: getProofOfWork_def asks_def bindE_eq_Inr cpp_simps)
  then obtain h where p: "problem = ?answer h" by blast
  show "get_string problem ''lastHash'' = Inr (SHA256toString (c_lastHash (n_chain n)))"
    "get_int problem ''challengeSize'' = Inr (uint (chain_getDifficulty (n_chain n)))"
    "get_int problem ''chainLength'' = Inr (sint (getBlockCount32 (n_chain n)))"
    "get_word problem ''miningFee'' = Inr (ucast (getCurrentMiningFee (ucast (getBlockCount32 (n_chain n) + 1))) :: amount)"
    "\<exists>t. get_string problem ''lastTimestamp'' = Inr (uint64ToString t)"
    by (auto simp: p get_string_def get_word_def get_int_def jget_jobject as_string_def as_word_def d)
qed


text \<open>What the miner makes of the mining problem when there are no transactions.\<close>

lemma map_sum_Inr: "map_sum f g x = Inr y \<longleftrightarrow> (\<exists>a. x = Inr a \<and> y = g a)"
  by (cases x) auto

lemma miner_block_plain:
  assumes "getProofOfWork L n = (Inr problem, n')" "length (c_lastHash (n_chain n)) = 32"
    and "0 \<le> c_numBlocks (n_chain n)" "c_numBlocks (n_chain n) + 1 < 2 ^ 31"
    and "miner_block C mm mem64 tf tb wallet problem (Inr []) = Inr (b, d)"
    and "\<And>k i. t_nonce (mm k i) = nonce"
  shows "b_id b = word_of_int (c_numBlocks (n_chain n) + 1) \<and> b_lastBlockHash b = c_lastHash (n_chain n) \<and>
    d = chain_getDifficulty (n_chain n) \<and> b_difficulty b = ucast d \<and>
    (\<exists>t. b_transactions b = [t] \<and> t_isTransactionFee t \<and> t_to t = wallet \<and> t_nonce t = nonce \<and>
       t_amount t = ucast (getCurrentMiningFee (ucast (b_id b))) \<and>
       row_root C [tx_getHash C t] = Inr (b_merkleRoot b))"
proof -
  let ?c = "n_chain n"
  note p = mining_problem [OF assms(1)]
  obtain t where t: "get_string problem ''lastTimestamp'' = Inr (uint64ToString t)" using p(5) by blast
  have cnt: "sint (getBlockCount32 ?c) = c_numBlocks ?c"
    using assms(3,4) by (simp add: getBlockCount32_def sint_of_int32)
  have id: "getBlockCount32 ?c + 1 = word_of_int (c_numBlocks ?c + 1)" by (simp add: getBlockCount32_def)
  have ti: "b_transactions (not_before l u a) = b_transactions a" "b_id (not_before l u a) = b_id a" for l u a
    by (simp_all add: not_before_def setBlockTimestamp_def)
  define fee where "fee = new_fee (mm 0 0) tf wallet (ucast (getCurrentMiningFee (ucast (getBlockCount32 ?c + 1))))"
  from assms(2,4,5) obtain A where sealed: "seal C mm (c_lastHash ?c) (chain_getDifficulty ?c) A = Inr b"
    and A: "b_transactions A = [tx_copy (mm 1 0) fee]" "b_id A = getBlockCount32 ?c + 1"
    and d: "d = chain_getDifficulty ?c"
    by (auto simp: miner_block_def p(1-4) t text_back cnt id add_all_def Let_def addTransaction_def
        setId_def block_default_def ti fee_def map_sum_Inr)
  from sealed obtain m ts where s: "setItems C (mm 2) (mm 3) [tx_copy (mm 1 0) fee] = Inr (m, ts)" and
    b: "b = setLastBlockHash (c_lastHash ?c) (setDifficulty (chain_getDifficulty ?c) (setMerkleRoot (getRootHash m)
         (A\<lparr>b_transactions := ts\<rparr>)))"
    by (auto simp: seal_def A(1) map_sum_Inr)
  have f: "t_isTransactionFee fee" "t_to fee = wallet" "t_nonce fee = nonce"
    "t_amount fee = ucast (getCurrentMiningFee (ucast (getBlockCount32 ?c + 1)))"
    using assms(6) by (simp_all add: fee_def new_fee_def)
  note r = setItems_single [OF s]
  have "row_root C [tx_getHash C (tx_copy (mm 2 0) (tx_copy (mm 1 0) fee))] = Inr (getRootHash m)"
    using r(2) by (simp add: tx_getHash_same_nonce f assms(6))
  then show ?thesis
    using A(2) d f r(1) by (simp add: b setLastBlockHash_def setDifficulty_def setMerkleRoot_def assms(6) id)
qed


text \<open>A block that holds nothing but its fee transaction.\<close>

lemma fee_block_accepted:
  assumes "kv_writes L" "\<not> c_locked c"
    and "not_too_old L E (b_timestamp r) c" "c_numBlocks c + 1 \<le> 200 \<or> (c_numBlocks c + 1) mod 100 \<noteq> 0"
    and "bi_ok (c_totalWork c)" "canonical (c_totalWork c)"
    and "ledger_ok L (l_db (c_ledger c))" "fst (getState L (l_db (c_ledger c))) = Inr st"
    and "total_supply (bal L (l_db (c_ledger c))) + uint (ucast (getCurrentMiningFee (ucast (b_id r))) :: amount) < 2 ^ 64"
    and r: "b_id r = word_of_int (c_numBlocks c + 1)" "b_difficulty r = word_of_int (c_difficulty c)"
      "fst (verifyNonce C L r (c_pfcache c)) = Inr True" "b_lastBlockHash r = c_lastHash c"
      "b_timestamp r \<le> e_now E + 120 * 60" "row_root C [tx_getHash C u] = Inr (b_merkleRoot r)"
      "b_transactions r = [u]" "1 \<le> unat (b_difficulty r)" "unat (b_difficulty r) < 2 ^ 31"
    and u: "t_isTransactionFee u" "t_amount u = ucast (getCurrentMiningFee (ucast (b_id r)))"
    and nonces: "\<forall>k i. t_nonce (e_mem E k i) = t_nonce u"
  shows "\<exists>c'. addBlock C L E r c = (Inr SUCCESS, c') \<and>
    wbal (bal L (l_db (c_ledger c'))) (t_to u) =
      wbal (bal L (l_db (c_ledger c))) (t_to u) + ucast (getCurrentMiningFee (ucast (b_id r)))"
proof -
  let ?fee = "ucast (getCurrentMiningFee (ucast (b_id r))) :: amount"
  have x: "exec_ok L (exec_of c)" by (rule exec_ok_start [OF assms(7)])
  obtain m ts where s: "setItems C (e_mem E 3) (e_mem E 4) [u] = Inr (m, ts)" using setItems_total by blast
  note f = setItems_single [OF s]
  have root: "b_merkleRoot r = getRootHash m" using f(2) r(6) nonces by (simp add: tx_getHash_same_nonce)
  obtain x' where "ExecuteBlock C L (e_mem E 5) (e_mem E 6) (r\<lparr>b_transactions := ts\<rparr>) (c_txdb c) ?fee (exec_of c) =
      (Inr SUCCESS, x')"
    using ExecuteBlock_fee_only [OF assms(1) x, of "r\<lparr>b_transactions := ts\<rparr>" "tx_copy (e_mem E 3 0) u" ?fee]
      assms(9) u f(1) by (simp add: xbal_def) blast
  then have "valid_next C L E r c"
    using r s root by (simp add: valid_next_def MAX_TRANSACTIONS_PER_BLOCK_def)
  from addBlock_valid [OF assms(1,2) this assms(3,4,8,5,6) r(8,9)] obtain c' where
    c': "addBlock C L E r c = (Inr SUCCESS, c')" by blast
  from added_block_parts [OF c'] obtain ts1 x1 c1 m1 where c1: "c' = c1\<lparr>c_locked := False\<rparr>"
    and i: "setItems C (e_mem E 3) (e_mem E 4) (b_transactions r) = Inr (m1, ts1)"
    and e: "ExecuteBlock C L (e_mem E 5) (e_mem E 6) (r\<lparr>b_transactions := ts1\<rparr>) (c_txdb c) ?fee (exec_of c) = (Inr SUCCESS, x1)"
    and "\<exists>cc. commit_block C L E (r\<lparr>b_transactions := ts1\<rparr>) (c\<lparr>c_locked := True, c_pfcache := cc,
       c_ledger := (c_ledger c)\<lparr>l_db := x_db x1\<rparr>, c_invalid := x_invalid x1\<rparr>) = (Inr (), c1)"
    by metis
  then obtain cc where k: "commit_block C L E (r\<lparr>b_transactions := ts1\<rparr>) (c\<lparr>c_locked := True, c_pfcache := cc,
       c_ledger := (c_ledger c)\<lparr>l_db := x_db x1\<rparr>, c_invalid := x_invalid x1\<rparr>) = (Inr (), c1)" by blast
  have "ts1 = ts" using i s r(7) by simp
  have "wbal (xbal L x1) (t_to u) = wbal (xbal L (exec_of c)) (t_to u) + ?fee"
    using ExecuteBlock_fee_paid [OF e x, of "tx_copy (e_mem E 3 0) u"] u(1) f(1) \<open>ts1 = ts\<close> by simp
  moreover have "bal L (l_db (c_ledger c')) = xbal L x1"
    using commit_block_frame [OF k] by (simp add: c1 xbal_def)
  ultimately show ?thesis using c' by (simp add: xbal_def)
qed

text \<open>The nonce the miner finds passes the check of a node whose cache has not met the block.\<close>

lemma mined_nonce_accepted:
  assumes "mine_block C seed a d = Some b" "1 < b_id a" "b_nonce r = b_nonce b" "b_difficulty r = ucast d"
    and "block_getHash C r = block_getHash C a" "kv_writes L" "crypto_ok C" "kv_get L cache (block_getHash C a) = None"
  shows "fst (verifyNonce C L r cache) = Inr True"
proof -
  obtain s where s: "mineHash C (block_getHash C a) d (PUFFERFISH_START_BLOCK < b_id a) seed = Some s"
    and b: "b = setBlockNonce s a" using assms(1) by (auto simp: mine_block_def)
  have "mine_check C (block_getHash C a) d True s"
    using mineHash_sound [OF s] assms(2) by (simp add: PUFFERFISH_START_BLOCK_def)
  moreover obtain d' where "kv_put L cache (block_getHash C a) (pufferfish_hash C (block_getHash C a @ s)) = Some d'"
    using assms(6) unfolding kv_writes_def by (metis not_None_eq)
  moreover have "length (block_getHash C a) = 32" by (simp add: block_getHash_def length_sha256 [OF assms(7)])
  moreover have "ucast (ucast d :: u32) = d" by (simp add: ucast_up_ucast_id is_up)
  ultimately show ?thesis
    using verifyHash_fresh [of "block_getHash C a" L cache C s _ d] assms(3-5,8) b
    by (simp add: verifyNonce_def setBlockNonce_def)
qed

section \<open>A node to mine for\<close>

definition mined_node :: "(bytes \<times> bytes) list node" where
  "mined_node = full_node\<lparr>n_chain := sample_chain\<rparr>"

definition sample_mined :: "(block \<times> u8) option" where
  "sample_mined =
     (case fst (getProofOfWork mem_kv mined_node) of
        Inl e \<Rightarrow> None
      | Inr problem \<Rightarrow>
          (case miner_block sample_crypto (\<lambda>k. sample_mem) 0 3000 3000 (sample_wallet 3) problem (Inr []) of
             Inl e \<Rightarrow> None | Inr r \<Rightarrow> Some r))"

lemma sample_mined_block:
  "case sample_mined of None \<Rightarrow> False | Some (a, d) \<Rightarrow>
     mine_check sample_crypto (block_getHash sample_crypto a) d (PUFFERFISH_START_BLOCK < b_id a)
       ((mine_next ^^ Suc 0) (replicate 32 0)) \<and> b_timestamp a \<le> 12200 \<and> b_id a = 3"
  by code_simp

section \<open>Properties\<close>




end
