(* ===== verification/Tools.thy ===== *)
theory Tools
  imports Server
begin

text \<open>
  The small programs under \<open>tools\<close>: \<open>keygen\<close>, \<open>tx\<close>, \<open>cli\<close> and \<open>loader\<close>. What they print
  beside their result is left out. A program that ends early without an error yields \<open>None\<close>.
\<close>

section \<open>The programs\<close>

text \<open>The file \<open>keys.json\<close>; \<open>buf\<close> is the random seed.\<close>

definition keygen :: "crypto \<Rightarrow> bytes \<Rightarrow> json" where
  "keygen C buf =
     (let (publicKey, privateKey) = generateKeyPair C buf;
          wallet = walletAddressToString (walletAddressFromPublicKey C publicKey) in
      jobject [(''wallet'', JStr wallet), (''publicKey'', JStr (publicKeyToString publicKey)),
               (''privateKey'', JStr (privateKeyToString privateKey))])"

text \<open>The arguments behind the name of the program; the last one is meant to be a nonce.\<close>

fun tx_program :: "crypto \<Rightarrow> transaction \<Rightarrow> u64 \<Rightarrow> string list \<Rightarrow> exn + json option" where
  "tx_program C mem mem64 [pub, priv, to, amt, fee, nonce] =
     and_then (stringToPublicKey pub) (\<lambda>publicKey.
     and_then (stringToPrivateKey priv) (\<lambda>privateKey.
     and_then (stringToWalletAddress to) (\<lambda>toAddress.
     let t = new_transfer mem (walletAddressFromPublicKey C publicKey) toAddress (stringToUint64 mem64 amt)
               publicKey (stringToUint64 mem64 fee) (stringToUint64 mem64 nonce) in
     Inr (Some (transaction_toJson C (tx_sign C publicKey privateKey t))))))"
| "tx_program C mem mem64 _ = Inr None"

text \<open>What \<open>catch(...)\<close> makes of an exception.\<close>

definition caught :: "exn + 'a \<Rightarrow> 'a \<Rightarrow> exn + 'a" where
  "caught r a = (case r of Inl (Runtime e) \<Rightarrow> Inr a | _ \<Rightarrow> r)"

text \<open>Does the wallet of the file belong to its public key?\<close>

definition keys_match :: "crypto \<Rightarrow> exn + json \<Rightarrow> exn + bool" where
  "keys_match C file =
     caught (and_then file (\<lambda>keys.
       and_then (and_then (get_string keys ''publicKey'') stringToPublicKey) (\<lambda>pub.
       and_then (and_then (get_string keys ''wallet'') stringToWalletAddress) (\<lambda>stated.
       Inr (walletAddressFromPublicKey C pub = stated))))) False"

definition has_member :: "json \<Rightarrow> string \<Rightarrow> bool" where
  "has_member j k = (case j of JObj m \<Rightarrow> map_of m k \<noteq> None | _ \<Rightarrow> False)"

text \<open>
  \<open>cli\<close>: \<open>file\<close> is the content of \<open>keys.json\<close>, \<open>to\<close>, \<open>amount\<close> and \<open>fee\<close> are what is typed (\<open>None\<close> for
  a number that cannot be read), \<open>host\<close> is the answer of \<open>getGoodHost\<close>, \<open>now\<close> the time.
\<close>

definition cli ::
  "crypto \<Rightarrow> transaction \<Rightarrow> u64 \<Rightarrow> exn + json \<Rightarrow> string \<Rightarrow> u64 option \<Rightarrow> u64 option \<Rightarrow> string \<Rightarrow>
   exn + http_request option" where
  "cli C mem now file to amount fee host =
     and_then (keys_match C file) (\<lambda>match.
     if \<not> match then Inr None else
     and_then file (\<lambda>keys.
     if \<not> has_member keys ''publicKey'' \<or> \<not> has_member keys ''privateKey'' then Inr None else
     and_then (and_then (get_string keys ''publicKey'') stringToPublicKey) (\<lambda>publicKey.
     and_then (and_then (get_string keys ''privateKey'') stringToPrivateKey) (\<lambda>privateKey.
     and_then (stringToWalletAddress to) (\<lambda>toWallet.
     case amount of None \<Rightarrow> Inr None | Some amt \<Rightarrow>
     case fee of None \<Rightarrow> Inr None | Some f \<Rightarrow>
     let t = new_transfer mem (walletAddressFromPublicKey C publicKey) toWallet amt publicKey f now in
     Inr (Some (sendTransaction_request host (tx_sign C publicKey privateKey t))))))))"

text \<open>
  \<open>loader\<close>: every line is a block, added to the chain; the status is not looked at. The loop ends
  with the first line that throws.
\<close>

primrec load_blocks ::
  "crypto \<Rightarrow> 'd kv \<Rightarrow> env \<Rightarrow> (nat \<Rightarrow> transaction) \<Rightarrow> u64 \<Rightarrow> (string \<Rightarrow> exn + json) \<Rightarrow> string list \<Rightarrow>
   ('d blockchain, unit) cpp" where
  "load_blocks C L E mem mem64 parse [] = ok ()"
| "load_blocks C L E mem mem64 parse (line # infile) =
     bindE (catchE
       (bindE (of_sum (and_then (parse line) (block_of_json mem (e_mem E 10) mem64))) (\<lambda>b.
        bindE (addBlock C L E b) (\<lambda>status. ok True)))
       (ok False)) (\<lambda>more.
     if more then load_blocks C L E mem mem64 parse infile else ok ())"

section \<open>Lemmas\<close>

lemma has_member_jget: "jget j k = Inr v \<Longrightarrow> v \<noteq> JNull \<Longrightarrow> has_member j k"
  by (auto simp: jget_def has_member_def split: json.splits option.splits)

lemma keygen_members:
  assumes "generateKeyPair C buf = (pub, priv)" "length pub = 32" "length priv = 64"
  shows "keys_match C (Inr (keygen C buf)) = Inr True"
    and "and_then (get_string (keygen C buf) ''publicKey'') stringToPublicKey = Inr pub"
    and "and_then (get_string (keygen C buf) ''privateKey'') stringToPrivateKey = Inr priv"
    and "has_member (keygen C buf) ''publicKey''" "has_member (keygen C buf) ''privateKey''"
    and "and_then (get_string (keygen C buf) ''wallet'') stringToWalletAddress = Inr (walletAddressFromPublicKey C pub)"
  using assms(2,3)
  by (simp_all add: keygen_def assms(1) keys_match_def caught_def get_string_def jget_jobject as_string_def text_back
      has_member_jget)

text \<open>An answer the node reads as the transaction that was signed, if the nonce it finds in memory is 0.\<close>

lemma signed_transfer_read:
  assumes "length pub = 32" "length to = 25" "length (ed25519_sign C h pub priv) = 64"
    and "ed25519_verify C (ed25519_sign C h pub priv) h pub = 1"
    and "t = new_transfer mem (walletAddressFromPublicKey C pub) to amt pub f now" "h = hashContents C t"
    and "t_nonce m = 0"
  shows "transactionInfoFromBuffer C (transactionInfoToBuffer (tx_serialize (tx_sign C pub priv t))) =
      (Inr (tx_serialize (tx_sign C pub priv t)), [])"
    and "tx_eq (transaction_of_info m (tx_serialize (tx_sign C pub priv t))) (tx_sign C pub priv t)"
    and "signatureValid C (transaction_of_info m (tx_serialize (tx_sign C pub priv t)))"
proof -
  let ?s = "tx_sign C pub priv t"
  have w: "transaction_wf ?s"
    using assms(1-3,6) by (simp add: transaction_wf_def tx_sign_def signWithPrivateKey_def assms(5) new_transfer_def)
  show "transactionInfoFromBuffer C (transactionInfoToBuffer (tx_serialize ?s)) = (Inr (tx_serialize ?s), [])"
    using wire_read [OF w, of C "[]"] by (simp add: tx_serialize_def tx_sign_def assms(5) new_transfer_def)
  show "tx_eq (transaction_of_info m (tx_serialize ?s)) ?s"
    by (simp add: tx_eq_iff transaction_of_info_def tx_serialize_def)
  have "hashContents C (transaction_of_info m (tx_serialize ?s)) = h"
    using assms(7)
    by (simp add: assms(5,6) hashContents_def tx_contents_def transaction_of_info_def tx_serialize_def tx_sign_def
        new_transfer_def)
  then show "signatureValid C (transaction_of_info m (tx_serialize ?s))"
    using assms(4,6)
    by (simp add: signatureValid_def checkSignature_def transaction_of_info_def tx_serialize_def tx_sign_def
        signWithPrivateKey_def assms(5) new_transfer_def)
qed

text \<open>A line that is no block stops the loader; a block that is refused does not.\<close>

lemma load_blocks_stops:
  "parse line = Inl (Runtime e) \<Longrightarrow> load_blocks C L E mem mem64 parse (line # ls) c = (Inr (), c)"
  by (simp add: of_sum_def catchE_def bindE_def cpp_simps)

section \<open>Properties\<close>



end
