(* ===== verification/Logger.thy ===== *)
theory Logger
  imports Prelude
begin

text \<open>
  \<open>core/logger.hpp\<close>: a line goes to the log file, if one is open, or to the console, and to a
  buffer of the last lines, which \<open>/logs\<close> shows. \<open>time\<close> is the formatted local time.
\<close>

record logger =
  lg_buffer :: "string list"
  lg_file :: "string list option"
  lg_console :: "string list"

definition MAX_LINES :: nat where
  "MAX_LINES = 1000"

definition logToBuffer :: "string \<Rightarrow> logger \<Rightarrow> logger" where
  "logToBuffer message lg =
     (let b = (if MAX_LINES < length (lg_buffer lg) then tl (lg_buffer lg) else lg_buffer lg) in
      lg\<lparr>lg_buffer := b @ [message]\<rparr>)"

definition log_out :: "string \<Rightarrow> logger \<Rightarrow> logger" where
  "log_out s lg =
     (case lg_file lg of
        None \<Rightarrow> lg\<lparr>lg_console := lg_console lg @ [s]\<rparr>
      | Some ls \<Rightarrow> lg\<lparr>lg_file := Some (ls @ [s])\<rparr>)"

definition logError :: "string \<Rightarrow> string \<Rightarrow> string \<Rightarrow> logger \<Rightarrow> logger" where
  "logError time endpoint message lg =
     (let s = ''[ERROR] '' @ time @ '': '' @ endpoint @ '': '' @ message @ [CHR 0x0A] in
      logToBuffer s (log_out s lg))"

definition logStatus :: "string \<Rightarrow> string \<Rightarrow> logger \<Rightarrow> logger" where
  "logStatus time message lg =
     (let s = ''[STATUS] '' @ time @ '': '' @ message @ [CHR 0x0A] in
      logToBuffer s (log_out s lg))"

text \<open>The buffer holds the last 1001 lines, one more than \<open>MAX_LINES\<close>.\<close>

lemma logToBuffer_last:
  "lg_buffer (logToBuffer m lg) =
     (if MAX_LINES < length (lg_buffer lg) then tl (lg_buffer lg @ [m]) else lg_buffer lg @ [m])"
  by (cases "lg_buffer lg") (simp_all add: logToBuffer_def MAX_LINES_def)

lemma log_buffer_keeps_last:
  "lg_buffer (fold logToBuffer ms (lg\<lparr>lg_buffer := []\<rparr>)) = drop (length ms - 1001) ms"
proof (induction ms rule: rev_induct)
  case (snoc m ms)
  show ?case
  proof (cases "length ms \<le> 1000")
    case True
    with snoc show ?thesis by (simp add: logToBuffer_last MAX_LINES_def)
  next
    case False
    then have "Suc (length ms - 1001) = length ms - 1000" by simp
    then have "tl (drop (length ms - 1001) ms) = drop (length ms - 1000) ms" by (metis drop_Suc tl_drop)
    moreover have "drop (length ms - 1001) ms \<noteq> []" using False by simp
    ultimately show ?thesis using snoc False by (simp add: logToBuffer_last MAX_LINES_def)
  qed
qed simp

lemma log_out_buffer [simp]: "lg_buffer (log_out s lg) = lg_buffer lg"
  by (simp add: log_out_def split: option.split)

end
