(* ===== verification/Startup.thy ===== *)
theory Startup
  imports Server
begin

text \<open>
  Starting a node: the constructors of \<open>BlockChain\<close> and \<open>RequestManager\<close> and the part of
  \<open>PandaniteServer::run\<close> before the event loop. The databases are opened by LevelDB and are arguments.
  The threads these functions start are not running yet.
\<close>

section \<open>The constructors\<close>

text \<open>
  The members a constructor does not set are those of \<open>c\<close>, the memory of the object. The mempool is a
  member of the chain in this model, so it is put there when it is made; the code shares it through
  \<open>setMemPool\<close> at the end of the constructor. The thread that \<open>sync\<close> starts in between has not
  taken a step in this model.
\<close>

definition chain_opened :: "'d \<Rightarrow> 'd \<Rightarrow> 'd \<Rightarrow> 'd blockchain \<Rightarrow> 'd blockchain" where
  "chain_opened ledgerDb blockDb txDb c =
     c\<lparr>c_memPool := None, c_retries := 0, c_totalWork := bi_of_int 0,
       c_ledger := \<lparr>l_db = ledgerDb, l_nonces = []\<rparr>, c_blockStore := blockDb, c_txdb := txDb,
       c_locked := False\<rparr>"

definition blockchain_new ::
  "crypto \<Rightarrow> 'd kv \<Rightarrow> env \<Rightarrow> 'd \<Rightarrow> 'd \<Rightarrow> 'd \<Rightarrow> ('d blockchain, unit) cpp" where
  "blockchain_new C L E ledgerDb blockDb txDb =
     bindE (modS (chain_opened ledgerDb blockDb txDb)) (\<lambda>_. initChain C L E)"

definition request_manager_new ::
  "crypto \<Rightarrow> 'd kv \<Rightarrow> 'd world \<Rightarrow> (http_request \<Rightarrow> exn + bytes) \<Rightarrow> 'd \<Rightarrow> 'd \<Rightarrow> 'd \<Rightarrow> ('d node, bool) cpp" where
  "request_manager_new C L w send ledgerDb blockDb txDb =
     bindE (modS (\<lambda>n. n\<lparr>n_hosts := (n_hosts n)\<lparr>hm_blockStore := Some blockDb\<rparr>\<rparr>)) (\<lambda>_.
     bindE (on_chain (blockchain_new C L (w_env w) ledgerDb blockDb txDb)) (\<lambda>_.
     bindE (on_chain (modS (\<lambda>c. c\<lparr>c_memPool := Some mempool_new\<rparr>))) (\<lambda>_.
     bindE (modS (\<lambda>n. n\<lparr>n_limiter := [], n_limitRequests := True\<rparr>)) (\<lambda>_.
     start_mempool C L w send))))"

definition server_run ::
  "crypto \<Rightarrow> 'd kv \<Rightarrow> 'd world \<Rightarrow> outside \<Rightarrow> (http_request \<Rightarrow> exn + bytes) \<Rightarrow> json \<Rightarrow> 'd \<Rightarrow> 'd \<Rightarrow> 'd \<Rightarrow>
   ('d node, unit) cpp" where
  "server_run C L w out send config ledgerDb blockDb txDb =
     bindE (of_sum (host_manager_new (w_build w) out (w_now w) (w_cache w) config)) (\<lambda>hosts.
     bindE (modS (\<lambda>n. n\<lparr>n_hosts := hosts\<rparr>)) (\<lambda>_.
     bindE (request_manager_new C L w send ledgerDb blockDb txDb) (\<lambda>_.
     bindE (on_hosts (syncHeadersWithPeers (w_curl w) (w_now w) (w_cache w))) (\<lambda>_.
     bindE (of_sum (jget config ''rateLimiter'')) (\<lambda>limited.
     if limited = JBool False then enableRateLimiting False else ok ())))))"

section \<open>The first node of a network\<close>

text \<open>The chain \<open>resetChain\<close> leaves for the genesis block, when the databases were empty.\<close>

definition before_genesis :: "'d \<Rightarrow> 'd \<Rightarrow> 'd \<Rightarrow> 'd blockchain \<Rightarrow> 'd blockchain" where
  "before_genesis ledgerDb blockDb txDb c =
     (chain_opened ledgerDb blockDb txDb c)\<lparr>c_isSyncing := False, c_difficulty := 16, c_targetBlockCount := 1,
       c_numBlocks := 0, c_totalWork := bi_assign 0 (bi_of_int 0), c_lastHash := NULL_SHA256_HASH\<rparr>"

lemma clear_empty: "kv_entries L d = [] \<Longrightarrow> ledger_clear L d = (Inr (), d)"
  "kv_entries L d = [] \<Longrightarrow> datastore_clear L d = (Inr (), d)"
  by (simp_all add: ledger_clear_def datastore_clear_def cpp_simps)

lemma no_work: "bi_ok (bi_assign 0 (bi_of_int 0))" "canonical (bi_assign 0 (bi_of_int 0))"
  by code_simp+

lemma genesis_added:
  fixes L :: "'d kv"
  assumes "kv_writes L" "kv_entries L ledgerDb = []" "\<not> hasBlockCount L blockDb"
    and "kv_entries L blockDb = []" "kv_entries L txDb = []"
    and "e_genesis E = Some g" "valid_next C L E g (before_genesis ledgerDb blockDb txDb c)"
    and "1 \<le> unat (b_difficulty g)" "unat (b_difficulty g) < 2 ^ 31"
  shows "\<exists>c'. blockchain_new C L E ledgerDb blockDb txDb c = (Inr (), c') \<and> c_numBlocks c' = 1 \<and>
    c_lastHash c' = block_getHash C g \<and> c_difficulty c' = uint MIN_DIFFICULTY \<and> \<not> c_locked c' \<and> \<not> c_isSyncing c' \<and>
    addWork (bi_assign 0 (bi_of_int 0)) (b_difficulty g) = Some (c_totalWork c')"
proof -
  let ?b = "before_genesis ledgerDb blockDb txDb c"
  have b: "\<not> c_locked ?b" "c_numBlocks ?b = 0" "c_totalWork ?b = bi_assign 0 (bi_of_int 0)" "l_db (c_ledger ?b) = ledgerDb"
    by (simp_all add: before_genesis_def chain_opened_def)
  have "fst (getState L ledgerDb) = Inr []" using assms(2) by (simp add: getState_def)
  from addBlock_valid [OF assms(1) b(1) assms(7), of "[]"] b assms(8,9) no_work this
  obtain c1 where c1: "addBlock C L E g ?b = (Inr SUCCESS, c1)" by (auto simp: not_too_old_def)
  obtain ts cc c2 and x :: "'d exec" where k: "commit_block C L E (g\<lparr>b_transactions := ts\<rparr>) (?b\<lparr>c_locked := True, c_pfcache := cc,
       c_ledger := (c_ledger ?b)\<lparr>l_db := x_db x\<rparr>, c_invalid := x_invalid x\<rparr>) = (Inr (), c2)"
    and c2: "c1 = c2\<lparr>c_locked := False\<rparr>"
    using addBlock_SUCCESS [OF c1] by blast
  have f: "c_numBlocks c1 = 1" "c_lastHash c1 = block_getHash C g" "\<not> c_locked c1" "\<not> c_isSyncing c1"
    "addWork (bi_assign 0 (bi_of_int 0)) (b_difficulty g) = Some (c_totalWork c1)"
    using commit_block_Inr [OF k] c2 b by (auto simp: before_genesis_def)
  let ?o = "(chain_opened ledgerDb blockDb txDb c)\<lparr>c_isSyncing := False\<rparr>"
  have o: "c_blockStore (chain_opened ledgerDb blockDb txDb c) = blockDb" by (simp add: chain_opened_def)
  have "resetChain C L E ?o = (Inr (), c1)"
    using c1 assms(6) clear_empty(1) [OF assms(2)] clear_empty(2) [OF assms(4)] clear_empty(2) [OF assms(5)]
    by (cases c) (simp add: resetChain_def bindE_modS on_db_eq on_store_eq on_txdb_eq bindE_Inr before_genesis_def chain_opened_def)
  then have "blockchain_new C L E ledgerDb blockDb txDb c = (Inr (), c1\<lparr>c_difficulty := uint MIN_DIFFICULTY\<rparr>)"
    using assms(3) o by (simp add: blockchain_new_def initChain_def bindE_modS bindE_getS bindE_Inr cpp_simps)
  with f show ?thesis by simp
qed


lemma init_mempool_silent:
  "\<forall>rq. \<exists>e. send rq = Inl (Runtime e) \<Longrightarrow> init_mempool C L w send hs n = (Inr False, n)"
proof (induction hs)
  case (Cons h hs)
  obtain e where "send (GET (h @ ''/gettx'')) = Inl (Runtime e)" using Cons.prems by blast
  then show ?case using Cons
    by (simp add: readRawTransactions_def of_sum_def catchE_def bindE_def)
qed (simp add: cpp_simps)

lemma fresh_heights_silent: "\<forall>u. curl u = None \<Longrightarrow> fresh_heights curl now ps = Inr []"
  by (induction ps) (auto simp: getBlockHeightFromPeer_def)

text \<open>A host manager has no peers when it is constructed.\<close>

lemma connects_peers: "hm_currPeers (fold (connect version now) hs hm) = hm_currPeers hm"
  by (induction hs arbitrary: hm) (simp_all add: connect_def split: option.split)

lemma host_manager_new_peers:
  assumes "host_manager_new build out now cache config = Inr hm"
  shows "hm_currPeers hm = []"
proof -
  from host_manager_new_start [OF assms] obtain hm0 where
    h: "configured build out config = Inr hm0" "first_hosts out now cache hm0 = (Inr (), hm)" .
  have "hm_currPeers hm0 = []" using configured_blank [OF h(1)] by (simp add: blank_def)
  with h(2) show ?thesis
    by (auto simp: first_hosts_run with_localhost_def refreshHostList_def Let_def connects_peers split: if_splits)
qed

section \<open>A genesis block\<close>

definition sample_genesis :: block where
  "sample_genesis =
     (let ts = [sample_fee 0 500000] in
      (sample_block 1 ts)\<lparr>b_difficulty := 16,
        b_merkleRoot := (case setItems sample_crypto sample_mem sample_mem ts of
          Inr (m, us) \<Rightarrow> getRootHash m | Inl e \<Rightarrow> [])\<rparr>)"

definition genesis_world :: "(bytes \<times> bytes) list world" where
  "genesis_world = sample_world\<lparr>w_env := sample_env\<lparr>e_genesis := Some sample_genesis\<rparr>\<rparr>"

lemma sample_genesis_valid:
  "valid_next sample_crypto mem_kv (w_env genesis_world) sample_genesis (before_genesis [] [] [] sample_chain)"
  by code_simp

section \<open>Properties\<close>

text \<open>
  C34. Starting the first node of a network: with empty databases, a valid genesis block and no
  host that answers, \<open>run\<close> gets ready to serve: the chain is the genesis block with its work and
  the least difficulty, the mempool is empty, no lock is held, and requests are limited unless the
  configuration says otherwise.
\<close>

theorem first_node_starts:
  fixes L :: "'d kv"
  assumes "host_manager_new (w_build w) out (w_now w) (w_cache w) config = Inr hm"
    and "\<forall>u. w_curl w u = None" "\<forall>rq. \<exists>e. send rq = Inl (Runtime e)"
    and "kv_writes L" "kv_entries L ledgerDb = []" "kv_entries L blockDb = []" "kv_entries L txDb = []"
    and "\<not> hasBlockCount L blockDb" "jget config ''rateLimiter'' = Inr limited"
    and "e_genesis (w_env w) = Some g"
    and "valid_next C L (w_env w) g (before_genesis ledgerDb blockDb txDb (n_chain n))"
    and "1 \<le> unat (b_difficulty g)" "unat (b_difficulty g) < 2 ^ 31"
  shows "\<exists>n'. server_run C L w out send config ledgerDb blockDb txDb n = (Inr (), n') \<and>
    c_numBlocks (n_chain n') = 1 \<and> c_lastHash (n_chain n') = block_getHash C g \<and>
    c_difficulty (n_chain n') = uint MIN_DIFFICULTY \<and>
    addWork (bi_assign 0 (bi_of_int 0)) (b_difficulty g) = Some (c_totalWork (n_chain n')) \<and>
    c_memPool (n_chain n') = Some mempool_new \<and> \<not> c_locked (n_chain n') \<and> \<not> c_isSyncing (n_chain n') \<and>
    n_limitRequests n' = (limited \<noteq> JBool False) \<and> n_limiter n' = []"
proof -
  obtain c' where c': "blockchain_new C L (w_env w) ledgerDb blockDb txDb (n_chain n) = (Inr (), c')"
    "c_numBlocks c' = 1" "c_lastHash c' = block_getHash C g" "c_difficulty c' = uint MIN_DIFFICULTY"
    "\<not> c_locked c'" "\<not> c_isSyncing c'"
    "addWork (bi_assign 0 (bi_of_int 0)) (b_difficulty g) = Some (c_totalWork c')"
    using genesis_added [OF assms(4,5,8,6,7,10,11,12,13)] by blast
  define n1 where "n1 = n\<lparr>n_hosts := hm\<lparr>hm_blockStore := Some blockDb\<rparr>, n_chain := c'\<lparr>c_memPool := Some mempool_new\<rparr>,
    n_limiter := [], n_limitRequests := True\<rparr>"
  have "start_mempool C L w send n1 = (Inr False, n1)"
    using assms(2,3) by (simp add: start_mempool_def bindE_getS sampleFreshHosts_def fresh_heights_silent
        of_sum_def bindE_Inr init_mempool_silent cpp_simps)
  then have rm: "request_manager_new C L w send ledgerDb blockDb txDb (n\<lparr>n_hosts := hm\<rparr>) = (Inr False, n1)"
    using c'(1) by (simp add: request_manager_new_def bindE_modS on_chain_def zoom_def bindE_Inr n1_def cpp_simps)
  have sy: "on_hosts (syncHeadersWithPeers (w_curl w) (w_now w) (w_cache w)) n1 = (Inr (), n1)"
    using host_manager_new_peers [OF assms(1)]
    by (simp add: on_hosts_def zoom_def syncHeadersWithPeers_def bindE_getS n1_def cpp_simps)
  have li: "(if limited = JBool False then enableRateLimiting False else ok ()) n1 =
      (Inr (), n1\<lparr>n_limitRequests := (limited \<noteq> JBool False)\<rparr>)"
    by (simp add: n1_def enableRateLimiting_def cpp_simps)
  have "server_run C L w out send config ledgerDb blockDb txDb n =
      (Inr (), n1\<lparr>n_limitRequests := (limited \<noteq> JBool False)\<rparr>)"
    unfolding server_run_def assms(1) assms(9)
    by (simp add: of_sum_def bindE_Inr bindE_modS del: if_split, subst bindE_Inr, rule rm, subst bindE_Inr, rule sy,
        simp add: of_sum_def bindE_Inr li del: if_split)
  then show ?thesis using c'(2-) by (simp add: n1_def)
qed


lemma first_node_starts_witness:
  "\<exists>n'. server_run sample_crypto mem_kv genesis_world sample_outside (\<lambda>_. Inl (Runtime [])) sample_config [] [] []
      (full_node\<lparr>n_chain := sample_chain\<rparr>) = (Inr (), n') \<and>
    c_numBlocks (n_chain n') = 1 \<and> c_lastHash (n_chain n') = block_getHash sample_crypto sample_genesis \<and>
    c_difficulty (n_chain n') = 6"
proof -
  obtain limited where l: "jget sample_config ''rateLimiter'' = Inr limited"
    by (simp add: sample_config_object config_object_members)
  have w: "w_build genesis_world = w_build sample_world" "w_now genesis_world = w_now sample_world"
    "w_cache genesis_world = w_cache sample_world" "\<forall>u. w_curl genesis_world u = None"
    by (simp_all add: genesis_world_def sample_world_def)
  have g: "e_genesis (w_env genesis_world) = Some sample_genesis" "b_difficulty sample_genesis = 16"
    by (simp_all add: genesis_world_def sample_genesis_def Let_def)
  obtain n' where "server_run sample_crypto mem_kv genesis_world sample_outside (\<lambda>_. Inl (Runtime [])) sample_config
      [] [] [] (full_node\<lparr>n_chain := sample_chain\<rparr>) = (Inr (), n') \<and>
    c_numBlocks (n_chain n') = 1 \<and> c_lastHash (n_chain n') = block_getHash sample_crypto sample_genesis \<and>
    c_difficulty (n_chain n') = uint MIN_DIFFICULTY"
    using first_node_starts [of genesis_world sample_outside sample_config sample_manager "\<lambda>_. Inl (Runtime [])" mem_kv
        "[]" "[]" "[]" limited sample_genesis sample_crypto "full_node\<lparr>n_chain := sample_chain\<rparr>"]
      sample_manager_new(1) sample_genesis_valid mem_kv_writes l w g
    by (auto simp: hasBlockCount_def sample_world_def simp del: MIN_DIFFICULTY_def)
  then show ?thesis by (auto simp: MIN_DIFFICULTY_def)
qed

end
