(* ===== verification/Digest.thy ===== *)
theory Digest
  imports Prelude
begin

text \<open>
  What the block hashes of \<open>external/sha256\<close> and \<open>external/ed25519/sha512.c\<close> share: bytes in
  big-endian order, buffers, and the iteration of a compression function over the blocks of a
  message, as an interface with the laws that updating in pieces rests on.
\<close>

section \<open>Buffers\<close>

text \<open>\<open>memcpy(&dst[k], src, length src)\<close>; writing behind the end of \<open>dst\<close> is undefined.\<close>

definition memcpy_at :: "nat \<Rightarrow> bytes \<Rightarrow> bytes \<Rightarrow> bytes option" where
  "memcpy_at k src dst =
     (if k + length src \<le> length dst then Some (take k dst @ src @ drop (k + length src) dst) else None)"

lemma memcpy_at_Some:
  "k + length src \<le> length dst \<Longrightarrow> memcpy_at k src dst = Some (take k dst @ src @ drop (k + length src) dst)"
  by (simp add: memcpy_at_def)

lemma memcpy_at_append:
  "k = length a \<Longrightarrow> length b = length src \<Longrightarrow> memcpy_at k src (a @ b @ c) = Some (a @ src @ c)"
  by (simp add: memcpy_at_def)

lemma memcpy_at_props:
  assumes "memcpy_at k src dst = Some d"
  shows "length d = length dst" "take (k + length src) d = take k dst @ src" "take k d = take k dst"
proof -
  from assms have k: "k + length src \<le> length dst" and d: "d = take k dst @ src @ drop (k + length src) dst"
    by (simp_all add: memcpy_at_def split: if_splits)
  have "length (take k dst @ src) = k + length src" using k by simp
  then have t: "take (k + length src) ((take k dst @ src) @ drop (k + length src) dst) = take k dst @ src"
    by (metis append_eq_conv_conj)
  show "length d = length dst" using k by (simp add: d)
  show "take (k + length src) d = take k dst @ src" using t by (simp add: d)
  show "take k d = take k dst" using k by (simp add: d min_absorb2)
qed

section \<open>Words in big-endian order\<close>

primrec be_enc :: "nat \<Rightarrow> 'a::len word \<Rightarrow> bytes" where
  "be_enc 0 w = []"
| "be_enc (Suc n) w = ucast (drop_bit (8 * n) w) # be_enc n w"

lemma length_be_enc [simp]: "length (be_enc n w) = n"
  by (induction n) simp_all

lemma be_enc_0 [simp]: "be_enc n 0 = replicate n 0"
  by (induction n) simp_all

text \<open>The upper half of a small number is zero.\<close>

lemma be_enc_zeros:
  assumes "\<forall>i \<ge> 8 * n. \<not> bit w i"
  shows "be_enc (k + n) w = replicate k 0 @ be_enc n w"
proof (induction k)
  case (Suc k)
  have "ucast (drop_bit (8 * (k + n)) w) = (0 :: u8)"
    using assms by (intro bit_word_eqI) (simp add: bit_simps)
  then show ?case using Suc by simp
qed simp

lemma be_enc_ucast:
  fixes w :: "'a::len word"
  assumes "8 * n \<le> LENGTH('b)"
  shows "be_enc n (ucast w :: 'b::len word) = be_enc n w"
  using assms
proof (induction n)
  case (Suc n)
  have "ucast (drop_bit (8 * n) (ucast w :: 'b word)) = (ucast (drop_bit (8 * n) w) :: u8)"
    using Suc.prems by (intro bit_word_eqI) (auto simp: bit_simps dest: bit_imp_le_length)
  then show ?case using Suc by simp
qed simp

section \<open>Iterated compression\<close>

fun over_blocks :: "nat \<Rightarrow> ('h \<Rightarrow> bytes \<Rightarrow> 'h) \<Rightarrow> 'h \<Rightarrow> bytes \<Rightarrow> 'h" where
  "over_blocks n f h m =
     (if n = 0 \<or> length m < n then h else over_blocks n f (f h (take n m)) (drop n m))"

declare over_blocks.simps [simp del]

text \<open>
  A hash that compresses a message block by block: \<open>run\<close> is what it has computed after
  the whole blocks of \<open>m\<close>, and the rest waits in its buffer.
\<close>

locale block_hash =
  fixes n :: nat and f :: "'h \<Rightarrow> bytes \<Rightarrow> 'h" and run :: "'h \<Rightarrow> bytes \<Rightarrow> 'h"
  assumes block_pos: "0 < n"
    and run_short: "length m < n \<Longrightarrow> run h m = h"
    and run_step: "n \<le> length m \<Longrightarrow> run h m = run (f h (take n m)) (drop n m)"
begin

definition rest :: "bytes \<Rightarrow> bytes" where
  "rest m = drop (n * (length m div n)) m"

lemma length_rest: "length (rest m) = length m mod n"
  by (simp add: rest_def minus_mult_div_eq_mod)

lemma length_rest_less: "length (rest m) < n"
  using block_pos by (simp add: length_rest)

lemma run_block: "length b = n \<Longrightarrow> run h (b @ m) = run (f h b) m"
  by (simp add: run_step)

lemma run_append: "n dvd length m \<Longrightarrow> run h (m @ m') = run (run h m) m'"
proof (induction "length m" arbitrary: m h rule: less_induct)
  case less
  show ?case
  proof (cases "m = []")
    case True
    then show ?thesis using block_pos by (simp add: run_short)
  next
    case False
    then have l: "n \<le> length m" using less.prems by (simp add: dvd_imp_le)
    have "run (f h (take n m)) (drop n m @ m') = run (run (f h (take n m)) (drop n m)) m'"
      using less.prems l block_pos False by (intro less.hyps) auto
    then show ?thesis using l by (simp add: run_step)
  qed
qed

lemma run_rest: "run h m = run h (take (n * (length m div n)) m)"
proof -
  let ?k = "n * (length m div n)"
  have "run h m = run h (take ?k m @ rest m)" by (simp add: rest_def)
  also have "\<dots> = run (run h (take ?k m)) (rest m)"
    by (rule run_append) (simp add: min_absorb2)
  also have "\<dots> = run h (take ?k m)" by (simp add: run_short length_rest_less)
  finally show ?thesis .
qed

text \<open>Message bytes that complete a block are compressed, and the others join the rest.\<close>

lemma run_more: "run h (m @ m') = run (run h m) (rest m @ m')"
proof -
  let ?k = "n * (length m div n)"
  have "m @ m' = take ?k m @ (rest m @ m')"
    unfolding rest_def by (simp only: append_assoc [symmetric] append_take_drop_id)
  then have "run h (m @ m') = run h (take ?k m @ (rest m @ m'))" by (rule arg_cong)
  also have "\<dots> = run (run h (take ?k m)) (rest m @ m')"
    by (rule run_append) (simp add: min_absorb2)
  finally show ?thesis by (simp only: run_rest [symmetric])
qed

lemma rest_more: "rest (m @ m') = rest (rest m @ m')"
proof -
  have "length m = n * (length m div n) + length (rest m)" by (simp add: length_rest)
  then have "(length m + length m') div n = length m div n + (length (rest m) + length m') div n"
    using block_pos by (metis add.assoc div_mult_self4 less_numeral_extra(3))
  then show ?thesis
    by (simp add: rest_def algebra_simps)
qed

lemma rest_short: "length m < n \<Longrightarrow> rest m = m"
  by (simp add: rest_def)

lemma rest_block: "length b = n \<Longrightarrow> rest (b @ m) = rest m"
  using rest_more [of b m] block_pos by (simp add: rest_def)

end

lemma over_blocks_hash: "0 < n \<Longrightarrow> block_hash n f (over_blocks n f)"
  by unfold_locales (simp_all add: over_blocks.simps)

end
