(* ===== verification/Sha256.thy ===== *)
theory Sha256
  imports Digest
begin

text \<open>
  \<open>external/sha256/sha2.cpp\<close> and \<open>SHA256Fast\<close> of \<open>core/crypto.cpp\<close>: a context that takes a message in
  pieces, compared with the SHA-256 of the standard (FIPS 180-4), which is written down here on its own.
  \<open>None\<close> is undefined behaviour: a write outside the context's buffer or a read outside the message.
\<close>

section \<open>The code\<close>

text \<open>\<open>sizeof(x) << 3\<close> is 32 for the words of this file.\<close>

definition ROTR :: "nat \<Rightarrow> u32 \<Rightarrow> u32" where
  "ROTR n x = drop_bit n x OR push_bit (32 - n) x"

definition CH :: "u32 \<Rightarrow> u32 \<Rightarrow> u32 \<Rightarrow> u32" where
  "CH x y z = (x AND y) XOR (NOT x AND z)"

definition MAJ :: "u32 \<Rightarrow> u32 \<Rightarrow> u32 \<Rightarrow> u32" where
  "MAJ x y z = (x AND y) XOR (x AND z) XOR (y AND z)"

definition SHA256_F1 :: "u32 \<Rightarrow> u32" where
  "SHA256_F1 x = ROTR 2 x XOR ROTR 13 x XOR ROTR 22 x"

definition SHA256_F2 :: "u32 \<Rightarrow> u32" where
  "SHA256_F2 x = ROTR 6 x XOR ROTR 11 x XOR ROTR 25 x"

definition SHA256_F3 :: "u32 \<Rightarrow> u32" where
  "SHA256_F3 x = ROTR 7 x XOR ROTR 18 x XOR drop_bit 3 x"

definition SHA256_F4 :: "u32 \<Rightarrow> u32" where
  "SHA256_F4 x = ROTR 17 x XOR ROTR 19 x XOR drop_bit 10 x"

definition SHA256_BLOCK_SIZE :: nat where
  "SHA256_BLOCK_SIZE = 64"

definition PACK32 :: "bytes \<Rightarrow> u32" where
  "PACK32 str = ucast (str ! 3) OR push_bit 8 (ucast (str ! 2)) OR push_bit 16 (ucast (str ! 1))
     OR push_bit 24 (ucast (str ! 0))"

definition UNPACK32 :: "u32 \<Rightarrow> bytes" where
  "UNPACK32 x = [ucast (drop_bit 24 x), ucast (drop_bit 16 x), ucast (drop_bit 8 x), ucast x]"

definition sha256_h0 :: "u32 list" where
  "sha256_h0 = [
      0x6a09e667, 0xbb67ae85, 0x3c6ef372, 0xa54ff53a, 0x510e527f, 0x9b05688c, 0x1f83d9ab, 0x5be0cd19]"

text \<open>The constants of the rounds, each with the prime whose cube root it is taken from.\<close>

definition sha256_table :: "(int \<times> u32) list" where
  "sha256_table = [
      (2, 0x428a2f98), (3, 0x71374491), (5, 0xb5c0fbcf), (7, 0xe9b5dba5), (11, 0x3956c25b),
      (13, 0x59f111f1), (17, 0x923f82a4), (19, 0xab1c5ed5), (23, 0xd807aa98), (29, 0x12835b01),
      (31, 0x243185be), (37, 0x550c7dc3), (41, 0x72be5d74), (43, 0x80deb1fe), (47, 0x9bdc06a7),
      (53, 0xc19bf174), (59, 0xe49b69c1), (61, 0xefbe4786), (67, 0x0fc19dc6), (71, 0x240ca1cc),
      (73, 0x2de92c6f), (79, 0x4a7484aa), (83, 0x5cb0a9dc), (89, 0x76f988da), (97, 0x983e5152),
      (101, 0xa831c66d), (103, 0xb00327c8), (107, 0xbf597fc7), (109, 0xc6e00bf3), (113, 0xd5a79147),
      (127, 0x06ca6351), (131, 0x14292967), (137, 0x27b70a85), (139, 0x2e1b2138), (149, 0x4d2c6dfc),
      (151, 0x53380d13), (157, 0x650a7354), (163, 0x766a0abb), (167, 0x81c2c92e), (173, 0x92722c85),
      (179, 0xa2bfe8a1), (181, 0xa81a664b), (191, 0xc24b8b70), (193, 0xc76c51a3), (197, 0xd192e819),
      (199, 0xd6990624), (211, 0xf40e3585), (223, 0x106aa070), (227, 0x19a4c116), (229, 0x1e376c08),
      (233, 0x2748774c), (239, 0x34b0bcb5), (241, 0x391c0cb3), (251, 0x4ed8aa4a), (257, 0x5b9cca4f),
      (263, 0x682e6ff3), (269, 0x748f82ee), (271, 0x78a5636f), (277, 0x84c87814), (281, 0x8cc70208),
      (283, 0x90befffa), (293, 0xa4506ceb), (307, 0xbef9a3f7), (311, 0xc67178f2)]"

definition sha256_k :: "u32 list" where
  "sha256_k = map snd sha256_table"

record sha256_ctx =
  tot_len :: u32
  len :: u32
  block :: bytes
  hs :: "u32 list"

text \<open>\<open>SHA256_SCR\<close>: the words \<open>w[0]\<close> to \<open>w[j - 1]\<close> are set when \<open>w[j]\<close> is.\<close>

definition SHA256_SCR :: "nat \<Rightarrow> u32 list \<Rightarrow> u32 list" where
  "SHA256_SCR j w = w @ [SHA256_F4 (w ! (j - 2)) + w ! (j - 7) + SHA256_F3 (w ! (j - 15)) + w ! (j - 16)]"

definition sha256_schedule :: "bytes \<Rightarrow> u32 list" where
  "sha256_schedule sub_block =
     fold SHA256_SCR [16..<64] (map (\<lambda>j. PACK32 (drop (4 * j) sub_block)) [0..<16])"

definition sha256_round :: "u32 list \<Rightarrow> nat \<Rightarrow> u32 list \<Rightarrow> u32 list" where
  "sha256_round w j wv =
     (let t1 = wv ! 7 + SHA256_F2 (wv ! 4) + CH (wv ! 4) (wv ! 5) (wv ! 6) + sha256_k ! j + w ! j;
          t2 = SHA256_F1 (wv ! 0) + MAJ (wv ! 0) (wv ! 1) (wv ! 2) in
      [t1 + t2, wv ! 0, wv ! 1, wv ! 2, wv ! 3 + t1, wv ! 4, wv ! 5, wv ! 6])"

definition sha256_transf_block :: "u32 list \<Rightarrow> bytes \<Rightarrow> u32 list" where
  "sha256_transf_block h sub_block =
     (let w = sha256_schedule sub_block in map2 (+) h (fold (sha256_round w) [0..<64] h))"

text \<open>The loop over \<open>block_nb\<close> blocks of the message.\<close>

primrec sha256_transf :: "nat \<Rightarrow> bytes \<Rightarrow> u32 list \<Rightarrow> u32 list" where
  "sha256_transf 0 message h = h"
| "sha256_transf (Suc i) message h =
     sha256_transf i (drop 64 message) (sha256_transf_block h (take 64 message))"

definition sha256_init :: "sha256_ctx \<Rightarrow> sha256_ctx" where
  "sha256_init ctx = ctx\<lparr>hs := sha256_h0, len := 0, tot_len := 0\<rparr>"

definition sha256_update :: "bytes \<Rightarrow> u32 \<Rightarrow> sha256_ctx \<Rightarrow> sha256_ctx option" where
  "sha256_update message n ctx =
     (let tmp_len = 64 - len ctx;
          rem_len = if n < tmp_len then n else tmp_len in
      if length message < unat n then None
      else case memcpy_at (unat (len ctx)) (take (unat rem_len) message) (block ctx) of
        None \<Rightarrow> None
      | Some blk \<Rightarrow>
          if len ctx + n < 64 then Some (ctx\<lparr>block := blk, len := len ctx + n\<rparr>)
          else
            let new_len = n - rem_len;
                block_nb = new_len div 64;
                shifted_message = drop (unat rem_len) message;
                h1 = sha256_transf 1 blk (hs ctx);
                h2 = sha256_transf (unat block_nb) shifted_message h1;
                rem_len' = new_len mod 64 in
            (case memcpy_at 0 (take (unat rem_len') (drop (unat (push_bit 6 block_nb)) shifted_message)) blk of
               None \<Rightarrow> None
             | Some blk' \<Rightarrow> Some (ctx\<lparr>hs := h2, block := blk', len := rem_len',
                 tot_len := tot_len ctx + push_bit 6 (block_nb + 1)\<rparr>)))"

definition sha256_final :: "sha256_ctx \<Rightarrow> bytes option" where
  "sha256_final ctx =
     (let block_nb = 1 + (if 64 - 9 < len ctx mod 64 then 1 else 0) :: u32;
          len_b = push_bit 3 (tot_len ctx + len ctx);
          pm_len = push_bit 6 block_nb in
      case memcpy_at (unat (len ctx)) (replicate (unat (pm_len - len ctx)) 0) (block ctx) of
        None \<Rightarrow> None
      | Some b1 \<Rightarrow> (case memcpy_at (unat (len ctx)) [0x80] b1 of
        None \<Rightarrow> None
      | Some b2 \<Rightarrow> (case memcpy_at (unat (pm_len - 4)) (UNPACK32 len_b) b2 of
        None \<Rightarrow> None
      | Some b3 \<Rightarrow> Some (concat (map UNPACK32 (sha256_transf (unat block_nb) b3 (hs ctx)))))))"

text \<open>\<open>len\<close> is a \<open>size_t\<close>, and \<open>sha256_update\<close> takes an \<open>unsigned int\<close>. The context \<open>mem\<close> is not initialised.\<close>

definition SHA256Fast :: "sha256_ctx \<Rightarrow> bytes \<Rightarrow> bytes option" where
  "SHA256Fast mem buffer =
     Option.bind (sha256_update buffer (of_nat (length buffer)) (sha256_init mem)) sha256_final"

section \<open>The standard\<close>

text \<open>FIPS 180-4, 4.1.2, 5.1.1 and 6.2, on messages of bytes.\<close>

definition fips_Sigma0 :: "u32 \<Rightarrow> u32" where
  "fips_Sigma0 x = word_rotr 2 x XOR word_rotr 13 x XOR word_rotr 22 x"

definition fips_Sigma1 :: "u32 \<Rightarrow> u32" where
  "fips_Sigma1 x = word_rotr 6 x XOR word_rotr 11 x XOR word_rotr 25 x"

definition fips_sigma0 :: "u32 \<Rightarrow> u32" where
  "fips_sigma0 x = word_rotr 7 x XOR word_rotr 18 x XOR drop_bit 3 x"

definition fips_sigma1 :: "u32 \<Rightarrow> u32" where
  "fips_sigma1 x = word_rotr 17 x XOR word_rotr 19 x XOR drop_bit 10 x"

fun fips_W :: "bytes \<Rightarrow> nat \<Rightarrow> u32" where
  "fips_W M t =
     (if t < 16 then foldl (\<lambda>x b. 256 * x + ucast b) 0 (take 4 (drop (4 * t) M))
      else fips_sigma1 (fips_W M (t - 2)) + fips_W M (t - 7) + fips_sigma0 (fips_W M (t - 15)) + fips_W M (t - 16))"

declare fips_W.simps [simp del]

type_synonym fips_state = "u32 \<times> u32 \<times> u32 \<times> u32 \<times> u32 \<times> u32 \<times> u32 \<times> u32"

fun fips_round :: "bytes \<Rightarrow> nat \<Rightarrow> fips_state \<Rightarrow> fips_state" where
  "fips_round M t (a, b, c, d, e, f, g, h) =
     (let T1 = h + fips_Sigma1 e + ((e AND f) XOR (NOT e AND g)) + sha256_k ! t + fips_W M t;
          T2 = fips_Sigma0 a + ((a AND b) XOR (a AND c) XOR (b AND c)) in
      (T1 + T2, a, b, c, d + T1, e, f, g))"

fun fips_compress :: "fips_state \<Rightarrow> bytes \<Rightarrow> fips_state" where
  "fips_compress (A, B, C, D, E, F, G, H) M =
     (case fold (fips_round M) [0..<64] (A, B, C, D, E, F, G, H) of
        (a, b, c, d, e, f, g, h) \<Rightarrow> (a + A, b + B, c + C, d + D, e + E, f + F, g + G, h + H))"

definition fips_H0 :: fips_state where
  "fips_H0 = (0x6a09e667, 0xbb67ae85, 0x3c6ef372, 0xa54ff53a, 0x510e527f, 0x9b05688c, 0x1f83d9ab, 0x5be0cd19)"

definition fips_pad :: "bytes \<Rightarrow> bytes" where
  "fips_pad m = m @ [0x80] @ replicate (nat ((55 - int (length m)) mod 64)) 0 @ be_enc 8 (of_nat (8 * length m) :: u64)"

fun words_of :: "fips_state \<Rightarrow> u32 list" where
  "words_of (a, b, c, d, e, f, g, h) = [a, b, c, d, e, f, g, h]"

definition fips_sha256 :: "bytes \<Rightarrow> bytes" where
  "fips_sha256 m = concat (map (be_enc 4) (words_of (over_blocks 64 fips_compress fips_H0 (fips_pad m))))"

text \<open>
  The constants are those of the standard: the first 32 bits of the fractional parts of the cube roots of
  the first 64 primes, and of the square roots of the first 8.
\<close>

definition first_primes :: "int list" where
  "first_primes = map fst sha256_table"

definition root_bits :: "nat \<Rightarrow> int \<Rightarrow> u32 \<Rightarrow> bool" where
  "root_bits n p k \<longleftrightarrow>
     (\<exists>q \<in> set [0..17]. (q * 2 ^ 32 + uint k) ^ n \<le> p * 2 ^ (32 * n) \<and> p * 2 ^ (32 * n) < (q * 2 ^ 32 + uint k + 1) ^ n)"

lemma sha256_constants:
  "list_all2 (root_bits 3) first_primes sha256_k"
  "list_all2 (root_bits 2) (take 8 first_primes) sha256_h0"
  by code_simp+

section \<open>The code computes the standard\<close>

lemma ROTR_rotr: "n < 32 \<Longrightarrow> ROTR n x = word_rotr n x"
proof (rule bit_word_eqI)
  fix i assume n: "n < 32" and "i < LENGTH(32)"
  then have i: "i < 32" by simp
  have "(i + n) mod 32 = (if i + n < 32 then i + n else i + n - 32)" using i n by (simp add: mod_if)
  then show "bit (ROTR n x) i = bit (word_rotr n x) i"
    using i n bit_imp_le_length [of x "i + n"]
    by (auto simp: ROTR_def bit_or_iff bit_drop_bit_eq bit_push_bit_iff bit_word_rotr_iff ac_simps)
qed

lemma sigma_eq:
  "SHA256_F1 = fips_Sigma0" "SHA256_F2 = fips_Sigma1" "SHA256_F3 = fips_sigma0" "SHA256_F4 = fips_sigma1"
  by (simp_all add: fun_eq_iff SHA256_F1_def SHA256_F2_def SHA256_F3_def SHA256_F4_def fips_Sigma0_def
      fips_Sigma1_def fips_sigma0_def fips_sigma1_def ROTR_rotr)

lemma PACK32_be:
  assumes "4 \<le> length str"
  shows "PACK32 str = foldl (\<lambda>x b. 256 * x + ucast b) 0 (take 4 str)"
proof -
  obtain a b c d r where "str = a # b # c # d # r"
    using assms by (cases str; cases "tl str"; cases "tl (tl str)"; cases "tl (tl (tl str))") auto
  moreover have "ucast d OR push_bit 8 (ucast c) OR push_bit 16 (ucast b) OR push_bit 24 (ucast a) =
      (256 * (256 * (256 * ucast a + ucast b) + ucast c) + ucast d :: u32)" for a b c d :: u8
  proof -
    have "ucast d OR push_bit 8 (ucast c) OR push_bit 16 (ucast b) OR push_bit 24 (ucast a :: u32) =
        ucast d + (push_bit 8 (ucast c) + (push_bit 16 (ucast b) + push_bit 24 (ucast a)))"
      by (subst disjunctive_add_eq_or, (rule bit_eqI, auto simp: bit_simps dest: bit_imp_le_length)[1])+ (rule refl)
    then show ?thesis by (simp add: push_bit_eq_mult algebra_simps)
  qed
  ultimately show ?thesis by (simp add: PACK32_def)
qed

lemma UNPACK32_be: "UNPACK32 x = be_enc 4 x"
  by (simp add: UNPACK32_def numeral_eq_Suc)

lemma schedule_prefix:
  assumes "64 \<le> length M" "16 \<le> j"
  shows "fold SHA256_SCR [16..<j] (map (\<lambda>j. PACK32 (drop (4 * j) M)) [0..<16]) = map (fips_W M) [0..<j]"
  using assms(2)
proof (induction j rule: dec_induct)
  case base
  have "PACK32 (drop (4 * j) M) = fips_W M j" if "j < 16" for j
    using that assms(1) by (subst fips_W.simps) (simp add: PACK32_be)
  then show ?case by simp
next
  case (step j)
  then have "fold SHA256_SCR [16..<Suc j] (map (\<lambda>j. PACK32 (drop (4 * j) M)) [0..<16]) =
      SHA256_SCR j (map (fips_W M) [0..<j])" by simp
  also have "\<dots> = map (fips_W M) [0..<Suc j]"
    using step.hyps by (simp add: SHA256_SCR_def sigma_eq fips_W.simps [of M j])
  finally show ?case .
qed

lemma schedule_nth: "64 \<le> length M \<Longrightarrow> j < 64 \<Longrightarrow> sha256_schedule M ! j = fips_W M j"
  unfolding sha256_schedule_def by (subst schedule_prefix) simp_all

lemma round_words:
  "64 \<le> length M \<Longrightarrow> j < 64 \<Longrightarrow> sha256_round (sha256_schedule M) j (words_of v) = words_of (fips_round M j v)"
  by (cases v rule: words_of.cases) (simp add: sha256_round_def schedule_nth sigma_eq CH_def MAJ_def Let_def numeral_eq_Suc)

lemma rounds_words:
  "64 \<le> length M \<Longrightarrow> \<forall>j \<in> set js. j < 64 \<Longrightarrow>
    fold (sha256_round (sha256_schedule M)) js (words_of v) = words_of (fold (fips_round M) js v)"
  by (induction js arbitrary: v) (simp_all add: round_words)

lemma compress_words:
  assumes "64 \<le> length M"
  shows "sha256_transf_block (words_of v) M = words_of (fips_compress v M)"
proof (cases v rule: words_of.cases)
  case fields: (1 A B C D E F G H)
  obtain a b c d e f g h where "fold (fips_round M) [0..<64] v = (a, b, c, d, e, f, g, h)"
    by (cases "fold (fips_round M) [0..<64] v" rule: words_of.cases)
  moreover have "fold (sha256_round (sha256_schedule M)) [0..<64] (words_of v) = words_of (fold (fips_round M) [0..<64] v)"
    by (rule rounds_words) (simp_all add: assms)
  ultimately show ?thesis
    unfolding sha256_transf_block_def Let_def by (simp add: fields ac_simps del: upt_rec_numeral)
qed

interpretation sha256_blocks: block_hash 64 fips_compress "over_blocks 64 fips_compress"
  by (rule over_blocks_hash) simp

abbreviation fips_run :: "bytes \<Rightarrow> fips_state" where
  "fips_run m \<equiv> over_blocks 64 fips_compress fips_H0 m"

lemma transf_words:
  "64 * n \<le> length m \<Longrightarrow>
    sha256_transf n m (words_of v) = words_of (over_blocks 64 fips_compress v (take (64 * n) m))"
proof (induction n arbitrary: m v)
  case 0
  then show ?case by (simp add: sha256_blocks.run_short)
next
  case (Suc n)
  have t: "take (64 * Suc n) m = take 64 m @ take (64 * n) (drop 64 m)"
    by (metis mult_Suc_right take_add)
  have "sha256_transf (Suc n) m (words_of v) = sha256_transf n (drop 64 m) (words_of (fips_compress v (take 64 m)))"
    using Suc.prems by (simp add: compress_words)
  also have "\<dots> = words_of (over_blocks 64 fips_compress (fips_compress v (take 64 m)) (take (64 * n) (drop 64 m)))"
    using Suc.prems by (intro Suc.IH) simp
  also have "\<dots> = words_of (over_blocks 64 fips_compress v (take (64 * Suc n) m))"
    using Suc.prems unfolding t by (subst sha256_blocks.run_block) simp_all
  finally show ?case .
qed

lemma H0_words: "sha256_h0 = words_of fips_H0"
  by (simp add: sha256_h0_def fips_H0_def)

text \<open>A context after the bytes \<open>m\<close>: whole blocks are compressed, the rest is in the buffer.\<close>

definition ctx_of :: "bytes \<Rightarrow> sha256_ctx \<Rightarrow> bool" where
  "ctx_of m ctx \<longleftrightarrow>
     length (block ctx) = 128 \<and> len ctx = of_nat (length m mod 64) \<and>
     tot_len ctx = of_nat (64 * (length m div 64)) \<and> take (length m mod 64) (block ctx) = sha256_blocks.rest m \<and>
     hs ctx = words_of (fips_run m)"

lemma ctx_of_init: "length (block mem) = 128 \<Longrightarrow> ctx_of [] (sha256_init mem)"
  by (simp add: ctx_of_def sha256_init_def H0_words sha256_blocks.rest_def sha256_blocks.run_short)

lemma u32_nat:
  assumes "a < 2 ^ 32" "b < 2 ^ 32"
  shows "(of_nat a :: u32) < of_nat b \<longleftrightarrow> a < b" "unat (of_nat a :: u32) = a"
    "b \<le> a \<Longrightarrow> (of_nat a :: u32) - of_nat b = of_nat (a - b)"
    "(of_nat a :: u32) div 64 = of_nat (a div 64)" "(of_nat a :: u32) mod 64 = of_nat (a mod 64)"
proof -
  have u: "x < 2 ^ 32 \<Longrightarrow> unat (of_nat x :: u32) = x" for x
    by (simp add: unsigned_of_nat take_bit_nat_eq_self)
  show "unat (of_nat a :: u32) = a" using assms by (simp add: u)
  show "(of_nat a :: u32) < of_nat b \<longleftrightarrow> a < b" using assms by (simp add: word_less_nat_alt u)
  show "b \<le> a \<Longrightarrow> (of_nat a :: u32) - of_nat b = of_nat (a - b)" by (simp add: of_nat_diff)
  have "a div 64 < 2 ^ 32" "a mod 64 < 2 ^ 32" using assms by auto
  then show "(of_nat a :: u32) div 64 = of_nat (a div 64)" "(of_nat a :: u32) mod 64 = of_nat (a mod 64)"
    using assms by (simp_all add: word_eq_iff_unsigned [where ?'a = nat] unat_div_distrib unat_mod_distrib u)
qed

lemma div_mod_unique: "(a :: nat) = n * q + s \<Longrightarrow> s < n \<Longrightarrow> a div n = q \<and> a mod n = s"
  by auto

lemma ctx_of_update:
  assumes ctx: "ctx_of m ctx" and small: "length m + length c < 2 ^ 32"
  shows "\<exists>ctx'. sha256_update c (of_nat (length c)) ctx = Some ctx' \<and> ctx_of (m @ c) ctx'"
proof -
  define r where "r = length m mod 64"
  have r: "r < 64" by (simp add: r_def)
  have lr: "length (sha256_blocks.rest m) = r" by (simp add: r_def sha256_blocks.length_rest)
  have lm: "length m + length c = 64 * (length m div 64) + (r + length c)"
    using mult_div_mod_eq [of 64 "length m"] by (simp add: r_def)
  have b: "length (block ctx) = 128" and l: "len ctx = of_nat r" and t: "tot_len ctx = of_nat (64 * (length m div 64))"
    and k: "take r (block ctx) = sha256_blocks.rest m" and h: "hs ctx = words_of (fips_run m)"
    using ctx by (auto simp: ctx_of_def r_def)
  have c: "length c < 2 ^ 32" using small by simp
  have u: "unat (of_nat (length c) :: u32) = length c" "unat (len ctx) = r"
    using u32_nat(2) [OF c c] u32_nat(2) [of r 0] r by (simp_all add: l)
  have tmp: "64 - len ctx = of_nat (64 - r)" using r by (simp add: l of_nat_diff)
  have tu: "unat (64 - len ctx) = 64 - r" using u32_nat(2) [of "64 - r" 0] by (simp add: tmp)
  have less: "(of_nat (length c) :: u32) < 64 - len ctx \<longleftrightarrow> length c < 64 - r"
    unfolding tmp by (rule u32_nat(1)) (use c in simp_all)
  have sum: "len ctx + of_nat (length c) = of_nat (r + length c)" by (simp add: l)
  have sum_less: "len ctx + of_nat (length c) < 64 \<longleftrightarrow> r + length c < 64"
  proof -
    have "r + length c \<le> length m + length c" by (simp add: r_def)
    then have "r + length c < 2 ^ 32" using small by linarith
    then have "(of_nat (r + length c) :: u32) < of_nat 64 \<longleftrightarrow> r + length c < 64" by (rule u32_nat(1)) simp
    then show ?thesis unfolding sum by simp
  qed
  show ?thesis
  proof (cases "r + length c < 64")
    case True
    have e: "(length m + length c) mod 64 = r + length c" "(length m + length c) div 64 = length m div 64"
      using div_mod_unique [OF lm True] by simp_all
    have "memcpy_at r c (block ctx) = Some (take r (block ctx) @ c @ drop (r + length c) (block ctx))"
      using True b by (intro memcpy_at_Some) simp
    moreover have "length c < 64 - r" using True by simp
    ultimately have "sha256_update c (of_nat (length c)) ctx =
        Some (ctx\<lparr>block := take r (block ctx) @ c @ drop (r + length c) (block ctx), len := of_nat (r + length c)\<rparr>)"
      using True by (simp add: sha256_update_def Let_def less sum_less u) (simp add: sum)
    moreover have "sha256_blocks.rest (m @ c) = sha256_blocks.rest m @ c" "fips_run (m @ c) = fips_run m"
      using True by (simp_all add: sha256_blocks.rest_more [of m c] sha256_blocks.rest_short sha256_blocks.run_more [of _ m c]
          sha256_blocks.run_short sha256_blocks.length_rest r_def [symmetric])
    ultimately show ?thesis
      using True b k h t by (simp add: ctx_of_def e lr)
  next
    case False
    define s where "s = drop (64 - r) c"
    define q where "q = length s div 64"
    define b1 where "b1 = sha256_blocks.rest m @ take (64 - r) c"
    have ls: "length s = length c - (64 - r)" by (simp add: s_def)
    have lb1: "length b1 = 64" using False r by (simp add: b1_def sha256_blocks.length_rest r_def [symmetric])
    have mc: "sha256_blocks.rest m @ c = b1 @ s" by (simp add: b1_def s_def)
    have run: "fips_run (m @ c) = over_blocks 64 fips_compress (fips_compress (fips_run m) b1) (take (64 * q) s)"
      unfolding sha256_blocks.run_more [of _ m c] mc sha256_blocks.run_block [OF lb1] q_def by (rule sha256_blocks.run_rest)
    have rest: "sha256_blocks.rest (m @ c) = drop (64 * q) s"
      unfolding sha256_blocks.rest_more [of m c] mc sha256_blocks.rest_block [OF lb1] q_def by (simp add: sha256_blocks.rest_def)
    obtain blk where blk: "memcpy_at r (take (64 - r) c) (block ctx) = Some blk" and lblk: "length blk = 128"
      and tblk: "take 64 blk = b1"
    proof -
      have g: "r + length (take (64 - r) c) \<le> length (block ctx)" using b False r by simp
      obtain blk where "memcpy_at r (take (64 - r) c) (block ctx) = Some blk" using memcpy_at_Some [OF g] by blast
      moreover have "r + length (take (64 - r) c) = 64" using False r by simp
      ultimately show thesis using memcpy_at_props [of r "take (64 - r) c" "block ctx" blk] b k that by (simp add: b1_def)
    qed
    have new: "(of_nat (length c) :: u32) - (64 - len ctx) = of_nat (length s)"
      unfolding tmp ls by (rule u32_nat(3)) (use c False in simp_all)
    have lsc: "length s < 2 ^ 32" "q < 2 ^ 26" using c small by (simp_all add: ls q_def)
    have qw: "(of_nat (length s) :: u32) div 64 = of_nat q" "unat (of_nat q :: u32) = q"
      and mw: "(of_nat (length s) :: u32) mod 64 = of_nat (length s mod 64)" "unat (of_nat (length s mod 64) :: u32) = length s mod 64"
      using u32_nat(4,5) [OF lsc(1) lsc(1)] u32_nat(2) [of q 0] u32_nat(2) [of "length s mod 64" 0] lsc by (simp_all add: q_def)
    have pw: "push_bit 6 (of_nat q :: u32) = of_nat (64 * q)" "unat (64 * (of_nat q :: u32)) = 64 * q"
      using u32_nat(2) [of "64 * q" 0] lsc by (simp_all add: push_bit_eq_mult)
    have h2: "sha256_transf q s (sha256_transf_block (hs ctx) b1) = words_of (fips_run (m @ c))"
      unfolding run h compress_words [OF eq_refl [OF lb1 [symmetric]]]
      by (rule transf_words) (simp add: q_def)
    have "take (length s mod 64) (drop (64 * q) s) = drop (64 * q) s"
      by (rule take_all) (simp add: q_def minus_mult_div_eq_mod)
    moreover have ld: "length (drop (64 * q) s) = length s mod 64" by (simp add: q_def minus_mult_div_eq_mod)
    moreover obtain blk' where blk': "memcpy_at 0 (drop (64 * q) s) blk = Some blk'" and pb: "length blk' = 128"
      "take (length s mod 64) blk' = drop (64 * q) s"
    proof -
      have "0 + length (drop (64 * q) s) \<le> length blk" unfolding ld lblk using mod_less_divisor [of 64 "length s"] by linarith
      from memcpy_at_Some [OF this] obtain blk' where "memcpy_at 0 (drop (64 * q) s) blk = Some blk'" by blast
      then show thesis using memcpy_at_props [of 0 "drop (64 * q) s" blk blk'] ld lblk that by simp
    qed
    ultimately have up: "sha256_update c (of_nat (length c)) ctx =
        Some (ctx\<lparr>hs := words_of (fips_run (m @ c)), block := blk', len := of_nat (length s mod 64),
          tot_len := tot_len ctx + push_bit 6 (of_nat q + 1)\<rparr>)"
      using False blk tblk h2
      by (simp add: sha256_update_def Let_def less sum_less u new qw mw pw tu flip: s_def)
    have e: "length m + length c = 64 * (length m div 64) + 64 + length s"
      using lm False r ls by simp
    then have "length m + length c = 64 * (length m div 64 + 1 + q) + length s mod 64"
      using mult_div_mod_eq [of 64 "length s"] by (simp add: q_def)
    from div_mod_unique [OF this]
    have em: "(length m + length c) mod 64 = length s mod 64" "(length m + length c) div 64 = length m div 64 + 1 + q"
      by simp_all
    have "tot_len ctx + push_bit 6 (of_nat q + 1) = of_nat (64 * ((length m + length c) div 64))"
      by (simp only: t em) (simp add: push_bit_eq_mult algebra_simps)
    then show ?thesis using up pb rest em by (simp add: ctx_of_def)
  qed
qed

lemma be_enc_double:
  assumes "x < 2 ^ 32"
  shows "be_enc 8 (of_nat x :: u64) = replicate 4 0 @ be_enc 4 (of_nat x :: u32)"
proof -
  have x: "unat (of_nat x :: u64) = x" using assms by (simp add: unsigned_of_nat take_bit_nat_eq_self)
  have "\<not> bit (of_nat x :: u64) i" if "32 \<le> i" for i
  proof -
    have "(2 :: nat) ^ 32 \<le> 2 ^ i" using that by (intro power_increasing) simp_all
    then have "x div 2 ^ i = 0" using assms by simp
    then have "\<not> bit x i" by (simp add: bit_iff_odd)
    then have "\<not> bit (unat (of_nat x :: u64)) i" by (simp only: x) simp
    then show ?thesis by (simp add: bit_unsigned_iff)
  qed
  then have "be_enc (4 + 4) (of_nat x :: u64) = replicate 4 0 @ be_enc 4 (of_nat x :: u64)"
    by (intro be_enc_zeros) simp
  moreover have "be_enc 4 (ucast (of_nat x :: u64) :: u32) = be_enc 4 (of_nat x :: u64)"
    by (rule be_enc_ucast) simp
  moreover have "ucast (of_nat x :: u64) = (of_nat x :: u32)"
    using x by (simp add: unsigned_of_nat)
  ultimately show ?thesis by simp
qed

lemma ctx_of_final:
  assumes ctx: "ctx_of m ctx" and small: "8 * length m < 2 ^ 32"
  shows "sha256_final ctx = Some (fips_sha256 m)"
proof -
  define r where "r = length m mod 64"
  define n :: nat where "n = (if 55 < r then 2 else 1)"
  define z where "z = nat ((55 - int (length m)) mod 64)"
  have r: "r < 64" by (simp add: r_def)
  have b: "length (block ctx) = 128" and l: "len ctx = of_nat r" and t: "tot_len ctx = of_nat (64 * (length m div 64))"
    and k: "take r (block ctx) = sha256_blocks.rest m" and h: "hs ctx = words_of (fips_run m)"
    using ctx by (auto simp: ctx_of_def r_def)
  have lr: "length (sha256_blocks.rest m) = r" by (simp add: r_def sha256_blocks.length_rest)
  have u: "unat (of_nat r :: u32) = r" "(of_nat r :: u32) mod 64 = of_nat r"
    "(64 - 9 :: u32) < of_nat r \<longleftrightarrow> 55 < r"
    using u32_nat(2) [of r 0] u32_nat(5) [of r 0] u32_nat(1) [of 55 r] r by simp_all
  have z: "r + 9 + z = 64 * n"
  proof -
    have "(55 - int (length m)) mod 64 = (55 - int r) mod 64" by (simp add: r_def zmod_int mod_diff_right_eq)
    also have "\<dots> = 64 * int n - 9 - int r"
    proof (cases "55 < r")
      case True
      have "(55 - int r) mod 64 = (119 - int r) mod 64" using mod_add_self2 [of "55 - int r" 64] by simp
      then show ?thesis using True r by (simp add: n_def)
    qed (use r in \<open>simp add: n_def\<close>)
    finally show ?thesis using r by (auto simp: z_def n_def)
  qed
  have bits: "push_bit 3 (tot_len ctx + len ctx) = (of_nat (8 * length m) :: u32)"
  proof -
    have "tot_len ctx + len ctx = (of_nat (64 * (length m div 64) + r) :: u32)" by (simp add: t l)
    then show ?thesis by (simp only: r_def mult_div_mod_eq) (simp add: push_bit_eq_mult)
  qed
  define w where "w = UNPACK32 (of_nat (8 * length m))"
  have w: "length w = 4" "be_enc 8 (of_nat (8 * length m) :: u64) = replicate 4 0 @ w"
    using be_enc_double [OF small] by (simp_all add: w_def UNPACK32_be)
  define y where "y = drop r (block ctx)"
  have blk: "block ctx = sha256_blocks.rest m @ take (64 * n - r) y @ drop (64 * n - r) y" "length (take (64 * n - r) y) = 64 * n - r"
  proof -
    have "block ctx = sha256_blocks.rest m @ y" using k append_take_drop_id [of r "block ctx"] by (simp only: y_def)
    then show "block ctx = sha256_blocks.rest m @ take (64 * n - r) y @ drop (64 * n - r) y" by simp
    show "length (take (64 * n - r) y) = 64 * n - r" using b r by (simp add: y_def n_def min_absorb2)
  qed
  let ?p = "sha256_blocks.rest m @ [0x80] @ replicate z 0 @ replicate 4 0"
  have m1: "memcpy_at r (replicate (64 * n - r) 0) (block ctx) =
      Some (sha256_blocks.rest m @ replicate (64 * n - r) 0 @ drop (64 * n - r) y)"
    unfolding blk(1) by (rule memcpy_at_append) (simp_all only: lr blk(2) length_replicate)
  have "64 * n - r = 1 + (z + (4 + 4))" using z by simp
  then have rep: "replicate (64 * n - r) 0 = [0 :: u8] @ replicate z 0 @ replicate 4 0 @ replicate 4 0"
    by (simp only: replicate_add) simp
  have m2: "memcpy_at r [0x80] (sha256_blocks.rest m @ replicate (64 * n - r) 0 @ drop (64 * n - r) y) =
      Some (?p @ replicate 4 0 @ drop (64 * n - r) y)"
    unfolding rep append_assoc by (subst memcpy_at_append) (simp_all add: lr)
  have m3: "memcpy_at (64 * n - 4) w (?p @ replicate 4 0 @ drop (64 * n - r) y) = Some (?p @ w @ drop (64 * n - r) y)"
    by (rule memcpy_at_append) (use z lr w in simp_all)
  have lp: "length (?p @ w) = 64 * n" using z lr w by simp
  have "sha256_transf n (?p @ w @ drop (64 * n - r) y) (hs ctx) = words_of (over_blocks 64 fips_compress (fips_run m) (?p @ w))"
    unfolding h by (subst transf_words) (use lp in \<open>simp_all flip: append_assoc\<close>)
  also have "over_blocks 64 fips_compress (fips_run m) (?p @ w) = fips_run (fips_pad m)"
    unfolding fips_pad_def z_def [symmetric] w(2) sha256_blocks.run_more [of _ m] by simp
  finally have tr: "sha256_transf n (?p @ w @ drop (64 * n - r) y) (hs ctx) = words_of (fips_run (fips_pad m))" .
  have pm: "push_bit 6 (1 + (if (64 - 9 :: u32) < of_nat r then 1 else 0) :: u32) = of_nat (64 * n)"
    "unat (1 + (if (64 - 9 :: u32) < of_nat r then 1 else 0) :: u32) = n"
    by (simp_all only: u(3) n_def) (simp_all add: push_bit_eq_mult)
  have len: "unat (of_nat (64 * n) - of_nat r :: u32) = 64 * n - r" "unat (of_nat (64 * n) - 4 :: u32) = 64 * n - 4"
    using u32_nat(2) [of "64 * n - r" 0] u32_nat(2) [of "64 * n - 4" 0] r by (auto simp: n_def of_nat_diff)
  show ?thesis
    unfolding sha256_final_def Let_def l u(2) pm len u(1) m1 option.case m2 bits [unfolded l] w_def [symmetric] m3 tr
    by (simp only: fips_sha256_def UNPACK32_be [abs_def])
qed

section \<open>Properties\<close>

primrec sha256_updates :: "bytes list \<Rightarrow> sha256_ctx \<Rightarrow> sha256_ctx option" where
  "sha256_updates [] ctx = Some ctx"
| "sha256_updates (c # cs) ctx = Option.bind (sha256_update c (of_nat (length c)) ctx) (sha256_updates cs)"

lemma ctx_of_updates:
  "ctx_of m ctx \<Longrightarrow> length m + length (concat cs) < 2 ^ 32 \<Longrightarrow>
    \<exists>ctx'. sha256_updates cs ctx = Some ctx' \<and> ctx_of (m @ concat cs) ctx'"
proof (induction cs arbitrary: m ctx)
  case (Cons c cs)
  obtain ctx1 where 1: "sha256_update c (of_nat (length c)) ctx = Some ctx1" "ctx_of (m @ c) ctx1"
    using ctx_of_update [OF Cons.prems(1), of c] Cons.prems(2) by auto
  have "length (m @ c) + length (concat cs) < 2 ^ 32" using Cons.prems(2) by simp
  from Cons.IH [OF 1(2) this] 1(1) show ?case by simp
qed simp

text \<open>
  C36. The SHA-256 of this library computes the SHA-256 of the standard, in whatever pieces a message of
  less than \<open>2 ^ 32\<close> bits is passed to \<open>sha256_update\<close> and whatever the memory of the context held,
  and never writes outside its buffer; \<open>SHA256Fast\<close> does so for the whole message.
\<close>

theorem sha256_standard:
  assumes "length (block mem) = 128" "8 * length (concat pieces) < 2 ^ 32"
  shows "Option.bind (sha256_updates pieces (sha256_init mem)) sha256_final = Some (fips_sha256 (concat pieces)) \<and>
    SHA256Fast mem (concat pieces) = Some (fips_sha256 (concat pieces))"
proof
  have i: "ctx_of [] (sha256_init mem)" by (rule ctx_of_init) (rule assms(1))
  obtain c1 where "sha256_updates pieces (sha256_init mem) = Some c1" "ctx_of (concat pieces) c1"
    using ctx_of_updates [OF i, of pieces] assms(2) by auto
  then show "Option.bind (sha256_updates pieces (sha256_init mem)) sha256_final = Some (fips_sha256 (concat pieces))"
    using ctx_of_final assms(2) by simp
  obtain c2 where "sha256_update (concat pieces) (of_nat (length (concat pieces))) (sha256_init mem) = Some c2"
    "ctx_of (concat pieces) c2"
    using ctx_of_update [OF i, of "concat pieces"] assms(2) by auto
  then show "SHA256Fast mem (concat pieces) = Some (fips_sha256 (concat pieces))"
    using ctx_of_final assms(2) by (simp add: SHA256Fast_def)
qed

definition sample_ctx :: sha256_ctx where
  "sample_ctx = \<lparr>tot_len = 7, len = 9, block = replicate 128 0xFF, hs = []\<rparr>"

lemma sha256_standard_witness:
  "Option.bind (sha256_updates [[97], [], [98, 99]] (sha256_init sample_ctx)) sha256_final = Some (fips_sha256 [97, 98, 99]) \<and>
   SHA256Fast sample_ctx [97, 98, 99] = Some (fips_sha256 [97, 98, 99])"
  using sha256_standard [of sample_ctx "[[97], [], [98, 99]]"] by (simp add: sample_ctx_def)

end
