(* ===== verification/Pufferfish2.thy ===== *)
theory Pufferfish2
  imports Pufferfish Digest
begin

text \<open>
  \<open>external/pufferfish/pufferfish.h\<close>, the function behind the proof of work: the encoding of the
  salt, the key schedule over the S-boxes, and the text that \<open>pf_newhash\<close> writes. OpenSSL's
  HMAC with SHA-512 is the parameter \<open>H\<close> (key, then data). \<open>None\<close> is undefined behaviour: an access outside a
  buffer. The boxes are allocated without a failure; \<open>cost_m\<close> beyond 25, where the \<open>int\<close> index
  of the loops overflows, is not covered.
\<close>

type_synonym hmac = "bytes \<Rightarrow> bytes \<Rightarrow> bytes"

definition hmac_ok :: "hmac \<Rightarrow> bool" where
  "hmac_ok H \<longleftrightarrow> (\<forall>k d. length (H k d) = 64)"

section \<open>Text\<close>

definition itoa64 :: bytes where
  "itoa64 = map of_char ''./ABCDEFGHIJKLMNOPQRSTUVWXYZabcdefghijklmnopqrstuvwxyz0123456789''"

definition idx64 :: bytes where
  "idx64 = [
      255, 255, 255, 255, 255, 255, 255, 255, 255, 255, 255, 255, 255, 255, 255, 255,
      255, 255, 255, 255, 255, 255, 255, 255, 255, 255, 255, 255, 255, 255, 255, 255,
      255, 255, 255, 255, 255, 255, 255, 255, 255, 255, 255, 255, 255, 255, 0, 1,
      54, 55, 56, 57, 58, 59, 60, 61, 62, 63, 255, 255, 255, 255, 255, 255,
      255, 2, 3, 4, 5, 6, 7, 8, 9, 10, 11, 12, 13, 14, 15, 16,
      17, 18, 19, 20, 21, 22, 23, 24, 25, 26, 27, 255, 255, 255, 255, 255,
      255, 28, 29, 30, 31, 32, 33, 34, 35, 36, 37, 38, 39, 40, 41, 42,
      43, 44, 45, 46, 47, 48, 49, 50, 51, 52, 53, 255, 255, 255, 255, 255]"

definition chr64 :: "u8 \<Rightarrow> u8" where
  "chr64 c = (if 127 < c then 255 else idx64 ! unat c)"

text \<open>The loop reads a byte before it looks at the size; it is never called with size 0.\<close>

fun pf_encode :: "bytes \<Rightarrow> bytes" where
  "pf_encode [] = []"
| "pf_encode [a] = [itoa64 ! unat (drop_bit 2 a), itoa64 ! unat (push_bit 4 (a AND 0x03))]"
| "pf_encode [a, b] =
     [itoa64 ! unat (drop_bit 2 a), itoa64 ! unat (push_bit 4 (a AND 0x03) OR (drop_bit 4 b AND 0x0f)),
      itoa64 ! unat (push_bit 2 (b AND 0x0f))]"
| "pf_encode (a # b # c # src) =
     itoa64 ! unat (drop_bit 2 a) # itoa64 ! unat (push_bit 4 (a AND 0x03) OR (drop_bit 4 b AND 0x0f)) #
     itoa64 ! unat (push_bit 2 (b AND 0x0f) OR (drop_bit 6 c AND 0x03)) # itoa64 ! unat (c AND 0x3f) # pf_encode src"

text \<open>
  \<open>n\<close> is the space the caller says the destination has; the result is what is written to it.
  A read behind the end of \<open>src\<close> is \<open>None\<close>.
\<close>

fun pf_decode :: "nat \<Rightarrow> bytes \<Rightarrow> bytes option" where
  "pf_decode n (s0 # s1 # src) =
     (let c1 = chr64 s0; c2 = chr64 s1 in
      if c1 = 255 \<or> c2 = 255 then Some []
      else let d1 = push_bit 2 c1 OR drop_bit 4 (c2 AND 0x30) in
      if n \<le> 1 then Some [d1]
      else case src of [] \<Rightarrow> None | s2 # src' \<Rightarrow>
        let c3 = chr64 s2 in
        if c3 = 255 then Some [d1]
        else let d2 = push_bit 4 (c2 AND 0x0f) OR drop_bit 2 (c3 AND 0x3c) in
        if n \<le> 2 then Some [d1, d2]
        else case src' of [] \<Rightarrow> None | s3 # src'' \<Rightarrow>
          let c4 = chr64 s3 in
          if c4 = 255 then Some [d1, d2]
          else let d3 = push_bit 6 (c3 AND 0x03) OR c4 in
          if n \<le> 3 then Some [d1, d2, d3]
          else map_option (\<lambda>ds. d1 # d2 # d3 # ds) (pf_decode (n - 3) src''))"
| "pf_decode n [s0] = None"
| "pf_decode n [] = None"

section \<open>The cipher\<close>

record pf_state =
  pf_P :: "u64 list"
  pf_S :: "u64 list list"
  pf_L :: u64
  pf_R :: u64

text \<open>\<open>lg\<close> is \<open>log2_sbox_sz\<close>.\<close>

definition pf_F :: "nat \<Rightarrow> u64 list list \<Rightarrow> u64 \<Rightarrow> u64" where
  "pf_F lg S x =
     (let m = push_bit lg 1 - 1 in
      ((S ! 0 ! unat (drop_bit (64 - lg) x) XOR S ! 1 ! unat (drop_bit 35 x AND m)) + S ! 2 ! unat (drop_bit 19 x AND m))
        XOR S ! 3 ! unat (drop_bit 3 x AND m))"

definition pf_half_round :: "nat \<Rightarrow> u64 list list \<Rightarrow> u64 list \<Rightarrow> nat \<Rightarrow> u64 \<times> u64 \<Rightarrow> u64 \<times> u64" where
  "pf_half_round lg S P k = (\<lambda>(L, R).
     if odd k then (L, (R XOR pf_F lg S L) XOR P ! k) else ((L XOR pf_F lg S R) XOR P ! k, R))"

definition ENCIPHER :: "nat \<Rightarrow> pf_state \<Rightarrow> pf_state" where
  "ENCIPHER lg s =
     (let (L, R) = fold (pf_half_round lg (pf_S s) (pf_P s)) [1..<17] (pf_L s XOR pf_P s ! 0, pf_R s) in
      s\<lparr>pf_L := R XOR pf_P s ! 17, pf_R := L\<rparr>)"

definition pf_feed :: "u64 \<Rightarrow> u64 \<Rightarrow> pf_state \<Rightarrow> pf_state" where
  "pf_feed a b s = s\<lparr>pf_L := pf_L s XOR a, pf_R := pf_R s XOR b\<rparr>"

text \<open>The two assignments at the end of the \<open>EXPANDSTATE\<close> macros, to \<open>P\<close> or to a box.\<close>

definition pf_store_P :: "nat \<Rightarrow> pf_state \<Rightarrow> pf_state" where
  "pf_store_P i s = s\<lparr>pf_P := (pf_P s)[i := pf_L s, i + 1 := pf_R s]\<rparr>"

definition pf_store_S :: "nat \<Rightarrow> nat \<Rightarrow> pf_state \<Rightarrow> pf_state" where
  "pf_store_S b i s = s\<lparr>pf_S := (pf_S s)[b := (pf_S s ! b)[i := pf_L s, i + 1 := pf_R s]]\<rparr>"

definition ENCRYPT_P :: "nat \<Rightarrow> u64 list \<Rightarrow> pf_state \<Rightarrow> pf_state" where
  "ENCRYPT_P lg salt =
     fold (\<lambda>k s. pf_store_P (2 * k) (ENCIPHER lg (pf_feed (salt ! (2 * k mod 8)) (salt ! ((2 * k + 1) mod 8)) s))) [0..<9]"

definition ENCRYPT_S :: "nat \<Rightarrow> u64 list \<Rightarrow> pf_state \<Rightarrow> pf_state" where
  "ENCRYPT_S lg salt =
     fold (\<lambda>b. fold (\<lambda>k s. pf_store_S b (2 * k)
       (ENCIPHER lg (pf_feed (salt ! (2 * k mod 8)) (salt ! ((2 * k + 1) mod 8)) s))) [0..<2 ^ lg div 2]) [0..<4]"

definition REKEY :: "nat \<Rightarrow> u64 list \<Rightarrow> pf_state \<Rightarrow> pf_state" where
  "REKEY lg key s =
     (let s1 = s\<lparr>pf_P := map (\<lambda>k. pf_P s ! k XOR key ! (k mod 8)) [0..<18]\<rparr>;
          s2 = fold (\<lambda>k s. pf_store_P (2 * k) (ENCIPHER lg s)) [0..<9] s1 in
      fold (\<lambda>b. fold (\<lambda>k s. pf_store_S b (2 * k) (ENCIPHER lg s)) [0..<2 ^ lg div 2]) [0..<4] s2)"

section \<open>The hash\<close>

definition pf_words :: "bytes \<Rightarrow> u64 list" where
  "pf_words key = map (\<lambda>k. le_dec (take 8 (drop (8 * k) key))) [0..<8]"

definition HASH_SBOX :: "hmac \<Rightarrow> u64 list list \<Rightarrow> bytes \<Rightarrow> bytes" where
  "HASH_SBOX H S = fold (\<lambda>b x. H x (concat (map (le_enc 8) (S ! b)))) [0..<4]"

text \<open>One box of \<open>8 * n\<close> words; the key goes on to the next.\<close>

primrec pf_fill :: "hmac \<Rightarrow> bytes \<Rightarrow> nat \<Rightarrow> bytes \<Rightarrow> u64 list \<times> bytes" where
  "pf_fill H salt 0 key = ([], key)"
| "pf_fill H salt (Suc n) key =
     (let key1 = H key salt; (ws, key2) = pf_fill H salt n key1 in (pf_words key1 @ ws, key2))"

primrec pf_boxes :: "hmac \<Rightarrow> bytes \<Rightarrow> nat \<Rightarrow> nat \<Rightarrow> bytes \<Rightarrow> u64 list list \<times> bytes" where
  "pf_boxes H salt n 0 key = ([], key)"
| "pf_boxes H salt n (Suc i) key =
     (let (box, key1) = pf_fill H salt n key; (boxes, key2) = pf_boxes H salt n i key1 in (box # boxes, key2))"

definition pf_pi :: "u64 list" where
  "pf_pi = [
      0x243f6a8885a308d3, 0x13198a2e03707344, 0xa4093822299f31d0, 0x082efa98ec4e6c89,
      0x452821e638d01377, 0xbe5466cf34e90c6c, 0xc0ac29b7c97c50dd, 0x3f84d5b5b5470917,
      0x9216d5d98979fb1b, 0xd1310ba698dfb5ac, 0x2ffd72dbd01adfb7, 0xb8e1afed6a267e96,
      0xba7c9045f12c7f99, 0x24a19947b3916cf7, 0x0801f2e2858efc16, 0x636920d871574e69,
      0xa458fea3f4933d7e, 0x0d95748f728eb658]"

definition pf_turn :: "hmac \<Rightarrow> nat \<Rightarrow> pf_state \<times> bytes \<Rightarrow> pf_state \<times> bytes" where
  "pf_turn H lg = (\<lambda>(s, key).
     (let key1 = HASH_SBOX H (pf_S s) key in (REKEY lg (pf_words key1) (s\<lparr>pf_L := 0, pf_R := 0\<rparr>), key1)))"

definition pf_hashpass :: "hmac \<Rightarrow> bytes \<Rightarrow> nat \<Rightarrow> nat \<Rightarrow> bytes \<Rightarrow> bytes" where
  "pf_hashpass H salt_r cost_t cost_m key_r =
     (let lg = cost_m + 5;
          salt = H [] salt_r;
          key0 = H salt key_r;
          (S, key1) = pf_boxes H salt (2 ^ lg div 8) 4 key0;
          key2 = HASH_SBOX H S key1;
          P = map (\<lambda>k. pf_pi ! k XOR pf_words key2 ! (k mod 8)) [0..<18];
          s0 = \<lparr>pf_P = P, pf_S = S, pf_L = 0, pf_R = 0\<rparr>;
          s1 = ENCRYPT_S lg (pf_words salt) (ENCRYPT_P lg (pf_words salt) s0);
          (s2, key3) = (pf_turn H lg ^^ (2 ^ cost_t + 1)) (s1, key2) in
      HASH_SBOX H (pf_S s2) key3)"

section \<open>The interface\<close>

definition PF_ID :: bytes where
  "PF_ID = map of_char ''$PF2$''"

definition PF_SALTSPACE :: nat where
  "PF_SALTSPACE = 31"

definition PF_HASHSPACE :: nat where
  "PF_HASHSPACE = 119"

definition EINVAL :: int where
  "EINVAL = 22"

definition EOVERFLOW :: int where
  "EOVERFLOW = 75"

definition pf_mksalt :: "u8 \<Rightarrow> u8 \<Rightarrow> bytes" where
  "pf_mksalt cost_t cost_m =
     PF_ID @ pf_encode (cost_t # cost_m # replicate 16 0) @ [0x24] @
     replicate (PF_SALTSPACE - 6 - length (pf_encode (cost_t # cost_m # replicate 16 0))) 0"

text \<open>\<open>strlen\<close> and \<open>strrchr\<close>, which read up to the terminating 0.\<close>

definition c_strlen :: "bytes \<Rightarrow> nat option" where
  "c_strlen s = (if 0 \<in> set s then Some (length (takeWhile (\<lambda>c. c \<noteq> 0) s)) else None)"

definition last_dollar :: "bytes \<Rightarrow> nat option" where
  "last_dollar s =
     (case filter (\<lambda>i. s ! i = 0x24) [0..<length (takeWhile (\<lambda>c. c \<noteq> 0) s)] of [] \<Rightarrow> None | is \<Rightarrow> Some (last is))"

text \<open>
  The return code and the contents of \<open>hash\<close>. The decoded settings are a struct of 18 bytes,
  but \<open>pf_decode\<close> gets the length of the text as their size.
\<close>

definition pf_crypt :: "hmac \<Rightarrow> bytes \<Rightarrow> bytes \<Rightarrow> bytes \<Rightarrow> (int \<times> bytes) option" where
  "pf_crypt H salt pass hash =
     (if 0 \<notin> set salt then None
      else if take 5 salt \<noteq> PF_ID then Some (EINVAL, hash)
      else case last_dollar salt of None \<Rightarrow> Some (EINVAL, hash)
      | Some p \<Rightarrow>
          Option.bind (memcpy_at 0 (take (p + 1) salt) (replicate PF_HASHSPACE 0)) (\<lambda>hash1.
          Option.bind (pf_decode (p - 5) (drop 5 salt)) (\<lambda>settings.
          if 18 < length settings then None
          else if length settings \<noteq> 18 then Some (EINVAL, hash1)
          else
            let buf = pf_hashpass H (drop 2 settings) (unat (settings ! 0)) (unat (settings ! 1)) pass in
            map_option (\<lambda>h. (0, h)) (memcpy_at (PF_SALTSPACE - 1) (pf_encode buf) hash1))))"

definition pf_newhash_c :: "hmac \<Rightarrow> bytes \<Rightarrow> nat \<Rightarrow> nat \<Rightarrow> bytes \<Rightarrow> (int \<times> bytes) option" where
  "pf_newhash_c H pass cost_t cost_m hash =
     (if 63 < cost_t \<or> 53 < cost_m then Some (EOVERFLOW, hash)
      else pf_crypt H (pf_mksalt (of_nat cost_t) (of_nat cost_m)) pass hash)"

definition pf_checkpass :: "hmac \<Rightarrow> bytes \<Rightarrow> bytes \<Rightarrow> bytes \<Rightarrow> int option" where
  "pf_checkpass H mem valid pass =
     Option.bind (pf_crypt H valid pass mem) (\<lambda>(ret, hash).
     if ret \<noteq> 0 then Some 1
     else Option.bind (c_strlen hash) (\<lambda>n. Option.bind (c_strlen valid) (\<lambda>m.
       if n = m \<and> take n hash = take m valid then Some 0 else Some 1)))"

section \<open>Lemmas\<close>

lemma itoa64_all: "list_all (\<lambda>i. let t = itoa64 ! i in chr64 t = of_nat i \<and> t \<noteq> 0 \<and> t \<noteq> 0x24) [0..<64]"
  by code_simp

lemma chr64_dollar: "chr64 0x24 = 255"
  by code_simp

lemma itoa64_inverse:
  assumes "x < 64"
  shows "chr64 (itoa64 ! unat x) = x" "itoa64 ! unat x \<noteq> 0" "itoa64 ! unat x \<noteq> 0x24"
proof -
  have "unat x \<in> set [0..<64]" using assms by (simp add: word_less_nat_alt)
  then have "let t = itoa64 ! unat x in chr64 t = of_nat (unat x) \<and> t \<noteq> 0 \<and> t \<noteq> 0x24"
    using itoa64_all unfolding list_all_iff by blast
  then show "chr64 (itoa64 ! unat x) = x" "itoa64 ! unat x \<noteq> 0" "itoa64 ! unat x \<noteq> 0x24"
    by (simp_all add: Let_def)
qed

text \<open>The six-bit groups of three bytes, and the bytes read from them.\<close>

lemma u8_masks: "(0x03 :: u8) = mask 2" "(0x0f :: u8) = mask 4" "(0x3f :: u8) = mask 6"
  "(0x30 :: u8) = push_bit 4 (mask 2)" "(0x3c :: u8) = push_bit 2 (mask 4)" "(64 :: u8) = 2 ^ 6"
  by (simp_all add: mask_eq_exp_minus_1)

lemma u8_eqI:
  fixes x y :: u8
  assumes "bit x 0 = bit y 0" "bit x 1 = bit y 1" "bit x 2 = bit y 2" "bit x 3 = bit y 3"
    "bit x 4 = bit y 4" "bit x 5 = bit y 5" "bit x 6 = bit y 6" "bit x 7 = bit y 7"
  shows "x = y"
proof (rule bit_word_eqI)
  fix n assume "n < LENGTH(8)"
  then have "n = 0 \<or> n = 1 \<or> n = 2 \<or> n = 3 \<or> n = 4 \<or> n = 5 \<or> n = 6 \<or> n = 7" by auto
  then show "bit x n = bit y n" using assms by (elim disjE) (simp_all only:)
qed

lemma u8_less_64:
  assumes "\<not> bit x 6" "\<not> bit x 7"
  shows "x < (64 :: u8)"
proof -
  have "take_bit 6 x = x" by (rule u8_eqI) (use assms in \<open>simp_all add: bit_simps\<close>)
  then have "unat x = take_bit 6 (unat x)" by (metis unsigned_take_bit_eq)
  then show ?thesis using take_bit_nat_less_exp [of 6 "unat x"] by (simp add: word_less_nat_alt)
qed

lemma group_small:
  "drop_bit 2 a < (64 :: u8)" "push_bit 4 (a AND 0x03) OR (drop_bit 4 b AND 0x0f) < (64 :: u8)"
  "push_bit 4 (a AND 0x03) < (64 :: u8)" "push_bit 2 (a AND 0x0f) < (64 :: u8)"
  "push_bit 2 (b AND 0x0f) OR (drop_bit 6 c AND 0x03) < (64 :: u8)" "c AND 0x3f < (64 :: u8)"
  unfolding u8_masks(1-5) by (rule u8_less_64; auto simp: bit_simps dest: bit_imp_le_length)+

lemma group_join:
  fixes a b c :: u8
  defines "e2 \<equiv> push_bit 4 (a AND 0x03) OR (drop_bit 4 b AND 0x0f)"
    and "e3 \<equiv> push_bit 2 (b AND 0x0f) OR (drop_bit 6 c AND 0x03)"
  shows "push_bit 2 (drop_bit 2 a) OR drop_bit 4 (e2 AND 0x30) = a"
    and "push_bit 2 (drop_bit 2 a) OR drop_bit 4 (push_bit 4 (a AND 0x03) AND 0x30) = a"
    and "push_bit 4 (e2 AND 0x0f) OR drop_bit 2 (e3 AND 0x3c) = b"
    and "push_bit 4 (e2 AND 0x0f) OR drop_bit 2 (push_bit 2 (b AND 0x0f) AND 0x3c) = b"
    and "push_bit 6 (e3 AND 0x03) OR (c AND 0x3f) = c"
  unfolding e2_def e3_def u8_masks(1-5) by (rule u8_eqI; simp add: bit_simps)+

text \<open>Decoding stops at the dollar sign that follows the text.\<close>

lemma pf_decode_dollar: "pf_decode n (0x24 # z # r) = Some []"
  by (simp add: Let_def chr64_dollar)

lemma chr64_group:
  "x < 64 \<Longrightarrow> chr64 (itoa64 ! unat x) = x" "x < 64 \<Longrightarrow> x \<noteq> (255 :: u8)"
  by (auto simp: itoa64_inverse)

lemma pf_decode_encode:
  "length src \<le> n \<Longrightarrow> pf_decode n (pf_encode src @ 0x24 # z # r) = Some src"
proof (induction src arbitrary: n rule: pf_encode.induct)
  case 1
  then show ?case by (simp add: pf_decode_dollar del: pf_decode.simps)
next
  case (2 a)
  then show ?case
    by (simp add: Let_def chr64_group group_small chr64_dollar group_join del: push_bit_and drop_bit_and)
next
  case (3 a b)
  then show ?case
    by (simp add: Let_def chr64_group group_small chr64_dollar group_join del: push_bit_and drop_bit_and)
next
  case (4 a b c src)
  have "pf_decode (n - 3) (pf_encode src @ 0x24 # z # r) = Some src" using 4 by simp
  moreover have "n \<le> 3 \<Longrightarrow> src = []" using "4.prems" by (cases src) simp_all
  ultimately show ?case using "4.prems"
    by (simp add: Let_def chr64_group group_small group_join del: push_bit_and drop_bit_and)
qed

lemma length_pf_encode: "length (pf_encode src) = 4 * (length src div 3) + (if length src mod 3 = 0 then 0 else length src mod 3 + 1)"
proof (induction src rule: pf_encode.induct)
  case (4 a b c src)
  have "(3 + length src) div 3 = 1 + length src div 3" by simp
  then show ?case using 4 by simp
qed simp_all

lemma pf_encode_chars: "c \<in> set (pf_encode src) \<Longrightarrow> c \<noteq> 0 \<and> c \<noteq> 0x24"
  by (induction src rule: pf_encode.induct) (auto simp: itoa64_inverse group_small simp del: push_bit_and drop_bit_and)

lemma last_dollar_eq:
  assumes "0 \<notin> set a" "0 \<notin> set b" "0x24 \<notin> set b"
  shows "last_dollar (a @ 0x24 # b @ 0 # r) = Some (length a)"
proof -
  let ?s = "a @ 0x24 # b @ 0 # r"
  have t: "length (takeWhile (\<lambda>c. c \<noteq> 0) ?s) = length a + 1 + length b"
    using assms(1,2) by (subst takeWhile_append2) (auto simp: takeWhile_append)
  have "[0..<length a + 1 + length b] = [0..<length a] @ length a # [length a + 1..<length a + 1 + length b]"
    using upt_add_eq_append [of 0 "length a" "1 + length b"] upt_conv_Cons [of "length a" "length a + 1 + length b"]
    by (simp add: add.assoc)
  moreover have "?s ! i \<noteq> 0x24" if "length a + 1 \<le> i" "i < length a + 1 + length b" for i
  proof -
    obtain j where "i = length a + 1 + j" using \<open>length a + 1 \<le> i\<close> le_iff_add by blast
    then have "i = length a + Suc j" "j < length b" using that(2) by simp_all
    then show ?thesis using assms(3) by (auto simp: nth_append in_set_conv_nth)
  qed
  then have "filter (\<lambda>i. ?s ! i = 0x24) [length a + 1..<length a + 1 + length b] = []"
    by (auto simp: filter_empty_conv simp del: upt_Suc)
  ultimately have "filter (\<lambda>i. ?s ! i = 0x24) [0..<length a + 1 + length b] =
      filter (\<lambda>i. ?s ! i = 0x24) [0..<length a] @ [length a]" by (simp add: nth_append)
  moreover have "(case xs @ [x] of [] \<Rightarrow> None | ys \<Rightarrow> Some (last ys)) = Some x" for xs and x :: nat
    by (cases xs) simp_all
  ultimately show ?thesis unfolding last_dollar_def t by (simp only:)
qed

text \<open>The tables keep their sizes, and every index into a box is in range.\<close>

definition pf_wf :: "nat \<Rightarrow> pf_state \<Rightarrow> bool" where
  "pf_wf lg s \<longleftrightarrow> length (pf_P s) = 18 \<and> length (pf_S s) = 4 \<and> (\<forall>b < 4. length (pf_S s ! b) = 2 ^ lg)"

lemma pf_index_in_box:
  fixes x :: u64
  assumes "5 \<le> lg" "lg \<le> 58"
  shows "unat (drop_bit (64 - lg) x) < 2 ^ lg" "unat (drop_bit k x AND (push_bit lg 1 - 1)) < 2 ^ lg"
proof -
  have "drop_bit (64 - lg) (unat x) < 2 ^ lg"
  proof -
    have "unat x < 2 ^ (64 - lg + lg)" using assms unsigned_less [of x] by simp
    then show ?thesis by (simp add: drop_bit_eq_div power_add less_mult_imp_div_less mult.commute)
  qed
  moreover have "unat x < 2 ^ LENGTH(64)" by (rule unsigned_less)
  then have "take_bit 64 (unat x) = unat x" by (simp add: take_bit_nat_eq_self)
  ultimately show "unat (drop_bit (64 - lg) x) < 2 ^ lg" by (simp add: unsigned_drop_bit_eq)
  have "push_bit lg (1 :: u64) - 1 = mask lg" by (simp add: mask_eq_exp_minus_1 push_bit_eq_mult)
  then have "drop_bit k x AND (push_bit lg 1 - 1) = take_bit lg (drop_bit k x)" by (simp add: take_bit_eq_mask)
  then show "unat (drop_bit k x AND (push_bit lg 1 - 1)) < 2 ^ lg"
    using take_bit_nat_less_exp by (metis unsigned_take_bit_eq)
qed

lemma pf_wf_ENCIPHER [simp]: "pf_wf lg (ENCIPHER lg' s) = pf_wf lg s"
  by (simp add: pf_wf_def ENCIPHER_def split: prod.split)

lemma pf_wf_feed [simp]: "pf_wf lg (pf_feed a b s) = pf_wf lg s"
  by (simp add: pf_wf_def pf_feed_def)

lemma pf_wf_store: "pf_wf lg s \<Longrightarrow> pf_wf lg (pf_store_P i s)" "pf_wf lg s \<Longrightarrow> pf_wf lg (pf_store_S b i s)"
  by (simp add: pf_wf_def pf_store_P_def)
    (cases "b < 4"; auto simp: pf_wf_def pf_store_S_def nth_list_update list_update_beyond)

lemma pf_wf_fold: "(\<And>x s. pf_wf lg s \<Longrightarrow> pf_wf lg (f x s)) \<Longrightarrow> pf_wf lg s \<Longrightarrow> pf_wf lg (fold f xs s)"
  by (induction xs arbitrary: s) simp_all

lemma pf_wf_passes:
  assumes "pf_wf lg s"
  shows "pf_wf lg (ENCRYPT_P lg' salt s)" "pf_wf lg (ENCRYPT_S lg' salt s)" "pf_wf lg (REKEY lg' key s)"
    "pf_wf lg (fst (pf_turn H lg' (s, k)))"
proof -
  have r: "pf_wf lg (REKEY lg' key s)" if "pf_wf lg s" for s key
  proof -
    have "pf_wf lg (s\<lparr>pf_P := map (\<lambda>k. pf_P s ! k XOR key ! (k mod 8)) [0..<18]\<rparr>)"
      using that by (simp add: pf_wf_def)
    then show ?thesis unfolding REKEY_def Let_def by (intro pf_wf_fold pf_wf_store) (simp_all add: pf_wf_fold pf_wf_store)
  qed
  then show "pf_wf lg (REKEY lg' key s)" using assms by blast
  show "pf_wf lg (ENCRYPT_P lg' salt s)" "pf_wf lg (ENCRYPT_S lg' salt s)"
    unfolding ENCRYPT_P_def ENCRYPT_S_def using assms by (auto intro!: pf_wf_fold pf_wf_store)
  have "pf_wf lg (s\<lparr>pf_L := 0, pf_R := 0\<rparr>)" using assms by (simp add: pf_wf_def)
  then show "pf_wf lg (fst (pf_turn H lg' (s, k)))" by (simp add: pf_turn_def Let_def r)
qed

lemma length_pf_words [simp]: "length (pf_words key) = 8"
  by (simp add: pf_words_def)

lemma length_HASH_SBOX: "hmac_ok H \<Longrightarrow> length (HASH_SBOX H S x) = 64"
  by (simp add: HASH_SBOX_def hmac_ok_def eval_nat_numeral)

lemma length_pf_hashpass: "hmac_ok H \<Longrightarrow> length (pf_hashpass H salt t m key) = 64"
  by (simp add: pf_hashpass_def Let_def length_HASH_SBOX split: prod.split)

lemma length_pf_fill: "length (fst (pf_fill H salt n key)) = 8 * n"
  by (induction n arbitrary: key) (simp_all add: Let_def split_beta)

lemma pf_wf_start:
  assumes "3 \<le> lg"
  shows "pf_wf lg \<lparr>pf_P = map f [0..<18], pf_S = fst (pf_boxes H salt (2 ^ lg div 8) 4 key), pf_L = 0, pf_R = 0\<rparr>"
proof -
  have "8 * (2 ^ lg div 8) = (2 :: nat) ^ lg"
  proof -
    obtain k where "lg = 3 + k" using assms le_Suc_ex by blast
    then show ?thesis by (simp add: power_add)
  qed
  then have fill: "length (fst (pf_fill H salt (2 ^ lg div 8) k)) = 2 ^ lg" for k
    by (simp add: length_pf_fill)
  have "length (fst (pf_boxes H salt (2 ^ lg div 8) i key)) = i \<and>
      (\<forall>b < i. length (fst (pf_boxes H salt (2 ^ lg div 8) i key) ! b) = 2 ^ lg)" for i
    by (induction i arbitrary: key) (simp_all add: split_beta nth_Cons fill split: nat.split)
  then show ?thesis by (simp add: pf_wf_def)
qed

section \<open>Properties\<close>

lemma pf_mksalt_eq: "pf_mksalt t m = PF_ID @ pf_encode (t # m # replicate 16 0) @ [0x24, 0]"
  by (simp add: pf_mksalt_def length_pf_encode PF_SALTSPACE_def)

lemma PF_ID_facts: "length PF_ID = 5" "0 \<notin> set PF_ID" "PF_ID \<noteq> []"
  by (simp_all add: PF_ID_def)

text \<open>\<open>pf_crypt\<close> on a text that starts with encoded settings, as a salt and as a whole hash.\<close>

lemma pf_crypt_settings:
  assumes "hmac_ok H" "length settings = 18" "0 \<notin> set b" "0x24 \<notin> set b"
  shows "pf_crypt H (PF_ID @ pf_encode settings @ 0x24 # b @ 0 # r) pass mem =
    Some (0, PF_ID @ pf_encode settings @ 0x24 #
      pf_encode (pf_hashpass H (drop 2 settings) (unat (settings ! 0)) (unat (settings ! 1)) pass) @ replicate 3 0)"
proof -
  let ?e = "pf_encode settings" and ?buf = "pf_hashpass H (drop 2 settings) (unat (settings ! 0)) (unat (settings ! 1)) pass"
  let ?salt = "PF_ID @ ?e @ 0x24 # b @ 0 # r"
  have e: "length ?e = 24" by (simp only: length_pf_encode assms(2)) simp
  have e0: "0 \<notin> set ?e" using pf_encode_chars by blast
  have "last_dollar ((PF_ID @ ?e) @ 0x24 # b @ 0 # r) = Some (length (PF_ID @ ?e))"
    by (rule last_dollar_eq) (use assms e0 PF_ID_facts in simp_all)
  then have d: "last_dollar ?salt = Some 29" using e by (simp add: PF_ID_facts)
  obtain z r' where "b @ 0 # r = z # r'" by (cases b) auto
  then have dec: "pf_decode 24 (?e @ 0x24 # b @ 0 # r) = Some settings"
    using pf_decode_encode [of settings 24 z r'] assms(2) by simp
  have t: "take 30 ?salt = PF_ID @ ?e @ [0x24]" "take 5 ?salt = PF_ID" "drop 5 ?salt = ?e @ 0x24 # b @ 0 # r"
    using e PF_ID_facts(1) by simp_all
  have "replicate 119 (0 :: u8) = replicate 30 0 @ replicate 86 0 @ replicate 3 0" by (simp only: replicate_add [symmetric]) simp
  then have m1: "memcpy_at 0 (take 30 ?salt) (replicate 119 0) = Some ((PF_ID @ ?e @ [0x24]) @ replicate 86 0 @ replicate 3 0)"
    unfolding t(1) using e PF_ID_facts(1) memcpy_at_append [of 0 "[]" "replicate 30 0" "PF_ID @ ?e @ [0x24]"] by simp
  have m2: "memcpy_at 30 (pf_encode ?buf) ((PF_ID @ ?e @ [0x24]) @ replicate 86 0 @ replicate 3 0) =
      Some ((PF_ID @ ?e @ [0x24]) @ pf_encode ?buf @ replicate 3 0)"
    by (rule memcpy_at_append) (simp_all add: PF_ID_facts(1) length_pf_encode length_pf_hashpass assms(1,2))
  show ?thesis
    using d dec assms(2) t m1 m2 by (simp add: pf_crypt_def PF_HASHSPACE_def PF_SALTSPACE_def Let_def)
qed

lemma pf_encode_inject:
  assumes "pf_encode a = pf_encode b" "length a = length b"
  shows "a = b"
proof -
  have "Some a = pf_decode (length a) (pf_encode a @ 0x24 # 0 # [])" by (rule pf_decode_encode [symmetric]) simp
  also have "\<dots> = Some b" unfolding assms(1) by (rule pf_decode_encode) (simp add: assms(2))
  finally show ?thesis by simp
qed

lemma pf_checkpass_eq:
  assumes "pf_crypt H valid pass mem = Some (0, hash)" "c_strlen hash = Some n" "c_strlen valid = Some n"
  shows "pf_checkpass H mem valid pass = Some 0 \<longleftrightarrow> take n hash = take n valid"
  using assms by (simp add: pf_checkpass_def)

lemma c_strlen_append: "0 \<notin> set a \<Longrightarrow> c_strlen (a @ 0 # r) = Some (length a)"
  by (simp add: c_strlen_def takeWhile_append2 takeWhile_append)



end
