(* ===== verification/Limbs.thy ===== *)
theory Limbs
  imports Prelude "HOL-Library.Monad_Syntax"
begin

text \<open>
  Numbers in limbs, as \<open>external/ed25519/fe.c\<close> and \<open>sc.c\<close> compute with them: straight-line code over signed
  integers of 32 or 64 bits. An operation whose exact result does not fit is undefined behaviour,
  here \<open>None\<close>; a left shift of a negative number, which the code uses for a product with a power of two,
  is that product. Two analyses go with the code. Intervals of the limbs are computed by functions that follow it
  statement by statement, so that evaluating them shows that nothing overflows; and a statement that
  moves a carry keeps the value of the number, modulo the modulus.
\<close>

section \<open>Checked arithmetic\<close>

definition fits :: "nat \<Rightarrow> int \<Rightarrow> bool" where
  "fits n x \<longleftrightarrow> - (2 ^ (n - 1)) \<le> x \<and> x < 2 ^ (n - 1)"

definition chk :: "nat \<Rightarrow> int \<Rightarrow> int option" where
  "chk n x = (if fits n x then Some x else None)"

lemma chk_eq_Some: "chk n x = Some y \<longleftrightarrow> fits n x \<and> y = x"
  by (auto simp: chk_def)

lemma chk_fits: "fits n x \<Longrightarrow> chk n x = Some x"
  by (simp add: chk_def)

lemma fits_between: "fits n a \<Longrightarrow> fits n b \<Longrightarrow> a \<le> x \<Longrightarrow> x \<le> b \<Longrightarrow> fits n x"
  by (simp add: fits_def)

text \<open>\<open>a\<^sub>0 * b\<^sub>0 + a\<^sub>1 * b\<^sub>1 + \<dots>\<close>, every product and every partial sum checked.\<close>

primrec dot_from :: "nat \<Rightarrow> int \<Rightarrow> (int \<times> int) list \<Rightarrow> int option" where
  "dot_from n acc [] = Some acc"
| "dot_from n acc (p # ps) = do { x \<leftarrow> chk n (fst p * snd p); y \<leftarrow> chk n (acc + x); dot_from n y ps }"

abbreviation dot :: "nat \<Rightarrow> (int \<times> int) list \<Rightarrow> int option" where
  "dot n ps \<equiv> dot_from n 0 ps"

definition products :: "(int \<times> int) list \<Rightarrow> int" where
  "products ps = sum_list (map (\<lambda>p. fst p * snd p) ps)"

lemma products_simps [simp]: "products [] = 0" "products ((a, b) # ps) = a * b + products ps"
  by (simp_all add: products_def)

lemma dot_from_bounded:
  assumes "\<forall>(a, b) \<in> set ps. \<bar>a\<bar> \<le> A \<and> \<bar>b\<bar> \<le> B" "0 \<le> A" "\<bar>acc\<bar> + int (length ps) * (A * B) < 2 ^ (n - 1)"
  shows "dot_from n acc ps = Some (acc + products ps) \<and> \<bar>acc + products ps\<bar> \<le> \<bar>acc\<bar> + int (length ps) * (A * B)"
  using assms
proof (induction ps arbitrary: acc)
  case (Cons p ps)
  obtain a b where p: "p = (a, b)" by fastforce
  define K where "K = A * B"
  define X where "X = int (length ps) * K"
  have K: "\<bar>a * b\<bar> \<le> K" unfolding K_def abs_mult using Cons.prems p by (intro mult_mono) auto
  have X: "0 \<le> X" unfolding X_def using K by (intro mult_nonneg_nonneg) linarith+
  have "int (length (p # ps)) * (A * B) = K + X" by (simp add: X_def K_def algebra_simps)
  then have "\<bar>acc\<bar> + K + X < 2 ^ (n - 1)" using Cons.prems(3) by linarith
  then have "fits n (a * b)" "fits n (acc + a * b)" "\<bar>acc + a * b\<bar> + int (length ps) * (A * B) < 2 ^ (n - 1)"
    "\<bar>acc + a * b\<bar> \<le> \<bar>acc\<bar> + A * B"
    unfolding fits_def X_def [symmetric] K_def [symmetric] using K X by linarith+
  then show ?case
    using Cons.IH [of "acc + a * b"] Cons.prems by (auto simp: p chk_fits algebra_simps)
qed simp

lemma dot_bounded:
  assumes "\<forall>(a, b) \<in> set ps. \<bar>a\<bar> \<le> A \<and> \<bar>b\<bar> \<le> B" "0 \<le> A" "int (length ps) * (A * B) < 2 ^ (n - 1)"
  shows "dot n ps = Some (products ps)" "\<bar>products ps\<bar> \<le> int (length ps) * (A * B)"
  using dot_from_bounded [of ps A B 0 n] assms by simp_all

section \<open>Statements on limbs\<close>

type_synonym limbs = "int list"

text \<open>
  \<open>c = (s[i] + r) >> b; s[j] += c * m; s[i] -= c << b;\<close> where \<open>r\<close> is 0, or half of \<open>2 ^ b\<close> to round.
\<close>

definition carry :: "nat \<Rightarrow> int \<Rightarrow> nat \<Rightarrow> nat \<Rightarrow> nat \<Rightarrow> int \<Rightarrow> limbs \<Rightarrow> limbs option" where
  "carry n r b i j m s = do {
     x \<leftarrow> chk n (s ! i + r);
     let c = x div 2 ^ b;
     cm \<leftarrow> chk n (c * m);
     y \<leftarrow> chk n (s ! j + cm);
     z \<leftarrow> chk n (c * 2 ^ b);
     w \<leftarrow> chk n (s ! i - z);
     Some (s[j := y, i := w])
   }"

text \<open>\<open>s[j] += s[k] * m\<close>, or \<open>s[j] -= s[k] * (- m)\<close> for a negative \<open>m\<close>.\<close>

definition addmul :: "nat \<Rightarrow> nat \<Rightarrow> nat \<Rightarrow> int \<Rightarrow> limbs \<Rightarrow> limbs option" where
  "addmul n k j m s = do {
     x \<leftarrow> chk n (s ! k * \<bar>m\<bar>);
     y \<leftarrow> chk n (if 0 \<le> m then s ! j + x else s ! j - x);
     Some (s[j := y])
   }"

definition zero_limb :: "nat \<Rightarrow> limbs \<Rightarrow> limbs option" where
  "zero_limb k s = Some (s[k := 0])"

primrec steps :: "('a \<Rightarrow> 'a option) list \<Rightarrow> 'a \<Rightarrow> 'a option" where
  "steps [] s = Some s"
| "steps (f # fs) s = Option.bind (f s) (steps fs)"

lemma steps_append: "steps (fs @ gs) s = Option.bind (steps fs s) (steps gs)"
  by (induction fs arbitrary: s) (simp_all split: bind_split)

section \<open>Intervals\<close>

type_synonym ivls = "(int \<times> int) list"

definition within :: "limbs \<Rightarrow> ivls \<Rightarrow> bool" where
  "within s B \<longleftrightarrow> list_all2 (\<lambda>x (l, h). l \<le> x \<and> x \<le> h) s B"

lemma within_length: "within s B \<Longrightarrow> length s = length B"
  by (simp add: within_def list_all2_lengthD)

lemma within_nth: "within s B \<Longrightarrow> i < length B \<Longrightarrow> B ! i = (l, h) \<Longrightarrow> l \<le> s ! i \<and> s ! i \<le> h"
  by (metis (mono_tags, lifting) case_prod_conv list_all2_conv_all_nth within_def)

lemma within_update: "within s B \<Longrightarrow> l \<le> x \<Longrightarrow> x \<le> h \<Longrightarrow> within (s[i := x]) (B[i := (l, h)])"
  by (simp add: within_def list_all2_update_cong)

definition acarry :: "nat \<Rightarrow> int \<Rightarrow> nat \<Rightarrow> nat \<Rightarrow> nat \<Rightarrow> int \<Rightarrow> ivls \<Rightarrow> ivls option" where
  "acarry n r b i j m B =
     (let (l, h) = B ! i; (lj, hj) = B ! j; cl = (l + r) div 2 ^ b; ch = (h + r) div 2 ^ b in
      if i < length B \<and> j < length B \<and> i \<noteq> j \<and> 0 \<le> m \<and> list_all (fits n)
           [l + r, h + r, cl * m, ch * m, lj + cl * m, hj + ch * m, cl * 2 ^ b, ch * 2 ^ b, - r, 2 ^ b - 1 - r]
      then Some (B[j := (lj + cl * m, hj + ch * m), i := (- r, 2 ^ b - 1 - r)]) else None)"

definition aaddmul :: "nat \<Rightarrow> nat \<Rightarrow> nat \<Rightarrow> int \<Rightarrow> ivls \<Rightarrow> ivls option" where
  "aaddmul n k j m B =
     (let (l, h) = B ! k; (lj, hj) = B ! j; l' = (if 0 \<le> m then lj + l * m else lj + h * m);
          h' = (if 0 \<le> m then hj + h * m else hj + l * m) in
      if k < length B \<and> j < length B \<and> k \<noteq> j \<and> list_all (fits n) [l * \<bar>m\<bar>, h * \<bar>m\<bar>, l', h']
      then Some (B[j := (l', h')]) else None)"

definition azero_limb :: "nat \<Rightarrow> ivls \<Rightarrow> ivls option" where
  "azero_limb k B = Some (B[k := (0, 0)])"

definition sound :: "(limbs \<Rightarrow> limbs option) \<Rightarrow> (ivls \<Rightarrow> ivls option) \<Rightarrow> bool" where
  "sound f g \<longleftrightarrow> (\<forall>s B B'. g B = Some B' \<longrightarrow> within s B \<longrightarrow> (\<exists>s'. f s = Some s' \<and> within s' B'))"

lemma soundD: "sound f g \<Longrightarrow> g B = Some B' \<Longrightarrow> within s B \<Longrightarrow> \<exists>s'. f s = Some s' \<and> within s' B'"
  by (simp add: sound_def)

lemma sound_steps: "list_all2 sound fs gs \<Longrightarrow> sound (steps fs) (steps gs)"
proof (induction rule: list_all2_induct)
  case (Cons f fs g gs)
  show ?case unfolding sound_def
  proof (intro allI impI)
    fix s B B' assume g: "steps (g # gs) B = Some B'" and s: "within s B"
    then obtain B1 where 1: "g B = Some B1" "steps gs B1 = Some B'" by (auto simp: bind_eq_Some_conv)
    then obtain s1 where "f s = Some s1" "within s1 B1" using soundD [OF Cons(1) 1(1) s] by blast
    then show "\<exists>s'. steps (f # fs) s = Some s' \<and> within s' B'" using soundD [OF Cons(3) 1(2)] by simp
  qed
qed (simp add: sound_def)

lemma sound_steps_map: "(\<And>x. sound (f x) (g x)) \<Longrightarrow> sound (steps (map f xs)) (steps (map g xs))"
  by (rule sound_steps) (simp add: list_all2_conv_all_nth)

lemma sound_carry: "sound (carry n r b i j m) (acarry n r b i j m)"
  unfolding sound_def
proof (intro allI impI)
  fix s B B' assume g: "acarry n r b i j m B = Some B'" and s: "within s B"
  obtain l h lj hj where B: "B ! i = (l, h)" "B ! j = (lj, hj)" by fastforce
  let ?cl = "(l + r) div 2 ^ b" and ?ch = "(h + r) div 2 ^ b"
  from g have ij: "i < length B" "j < length B" "i \<noteq> j" "0 \<le> m" and fit: "list_all (fits n)
      [l + r, h + r, ?cl * m, ?ch * m, lj + ?cl * m, hj + ?ch * m, ?cl * 2 ^ b, ?ch * 2 ^ b, - r, 2 ^ b - 1 - r]"
    and B': "B' = B[j := (lj + ?cl * m, hj + ?ch * m), i := (- r, 2 ^ b - 1 - r)]"
    by (auto simp: acarry_def B Let_def split: if_splits)
  define c where "c = (s ! i + r) div 2 ^ b"
  have si: "l \<le> s ! i" "s ! i \<le> h" and sj: "lj \<le> s ! j" "s ! j \<le> hj"
    using within_nth [OF s ij(1) B(1)] within_nth [OF s ij(2) B(2)] by simp_all
  have c: "?cl \<le> c" "c \<le> ?ch" unfolding c_def using si by (simp_all add: zdiv_mono1)
  then have cm: "?cl * m \<le> c * m" "c * m \<le> ?ch * m" using ij(4) by (simp_all add: mult_right_mono)
  have cb: "?cl * 2 ^ b \<le> c * 2 ^ b" "c * 2 ^ b \<le> ?ch * 2 ^ b" using c by simp_all
  have "s ! i + r - c * 2 ^ b = (s ! i + r) mod 2 ^ b" by (simp add: c_def minus_div_mult_eq_mod)
  moreover have "0 \<le> (s ! i + r) mod 2 ^ b" "(s ! i + r) mod 2 ^ b < 2 ^ b" by simp_all
  ultimately have w: "- r \<le> s ! i - c * 2 ^ b" "s ! i - c * 2 ^ b \<le> 2 ^ b - 1 - r" by linarith+
  have y: "lj + ?cl * m \<le> s ! j + c * m" "s ! j + c * m \<le> hj + ?ch * m" using sj cm by linarith+
  have f: "fits n (l + r)" "fits n (h + r)" "fits n (?cl * m)" "fits n (?ch * m)" "fits n (lj + ?cl * m)" "fits n (hj + ?ch * m)"
    "fits n (?cl * 2 ^ b)" "fits n (?ch * 2 ^ b)" "fits n (- r)" "fits n (2 ^ b - 1 - r)"
    using fit unfolding list_all_iff list.set by blast+
  have "fits n (s ! i + r)" by (rule fits_between [OF f(1,2)]) (use si in linarith)+
  moreover note fits_between [OF f(3,4) cm] fits_between [OF f(5,6) y] fits_between [OF f(7,8) cb] fits_between [OF f(9,10) w]
  ultimately have "carry n r b i j m s = Some (s[j := s ! j + c * m, i := s ! i - c * 2 ^ b])"
    by (simp only: carry_def Let_def c_def [symmetric] chk_fits bind.bind_lunit)
  moreover have "within (s[j := s ! j + c * m, i := s ! i - c * 2 ^ b]) B'"
    unfolding B' by (intro within_update s y w)
  ultimately show "\<exists>s'. carry n r b i j m s = Some s' \<and> within s' B'" by blast
qed

lemma sound_addmul: "sound (addmul n k j m) (aaddmul n k j m)"
  unfolding sound_def
proof (intro allI impI)
  fix s B B' assume g: "aaddmul n k j m B = Some B'" and s: "within s B"
  obtain l h lj hj where B: "B ! k = (l, h)" "B ! j = (lj, hj)" by fastforce
  let ?l = "if 0 \<le> m then lj + l * m else lj + h * m" and ?h = "if 0 \<le> m then hj + h * m else hj + l * m"
  from g have ij: "k < length B" "j < length B" and fit: "list_all (fits n) [l * \<bar>m\<bar>, h * \<bar>m\<bar>, ?l, ?h]"
    and B': "B' = B[j := (?l, ?h)]"
    unfolding aaddmul_def B Let_def prod.case by (simp_all only: split: if_split_asm) simp_all
  have sk: "l \<le> s ! k" "s ! k \<le> h" and sj: "lj \<le> s ! j" "s ! j \<le> hj"
    using within_nth [OF s ij(1) B(1)] within_nth [OF s ij(2) B(2)] by simp_all
  have p: "l * \<bar>m\<bar> \<le> s ! k * \<bar>m\<bar>" "s ! k * \<bar>m\<bar> \<le> h * \<bar>m\<bar>" using sk by (simp_all add: mult_right_mono)
  define y where "y = (if 0 \<le> m then s ! j + s ! k * \<bar>m\<bar> else s ! j - s ! k * \<bar>m\<bar>)"
  have y: "?l \<le> y \<and> y \<le> ?h"
  proof (cases "0 \<le> m")
    case False
    then have "h * m \<le> s ! k * m" "s ! k * m \<le> l * m" using sk by (simp_all add: mult_right_mono_neg)
    moreover have "y = s ! j + s ! k * m" using False by (simp add: y_def)
    ultimately show ?thesis using False sj by (simp only: if_False) linarith
  qed (use p sj in \<open>simp add: y_def\<close>)
  have "fits n (l * \<bar>m\<bar>)" "fits n (h * \<bar>m\<bar>)" "fits n ?l" "fits n ?h" using fit by simp_all
  then have "fits n (s ! k * \<bar>m\<bar>)" "fits n y" using p y by (blast intro: fits_between)+
  then have "addmul n k j m s = Some (s[j := y])"
    by (simp only: addmul_def chk_fits bind.bind_lunit flip: y_def)
  then show "\<exists>s'. addmul n k j m s = Some s' \<and> within s' B'"
    using within_update [OF s conjunct1 [OF y] conjunct2 [OF y], of j] B' by simp
qed

lemma sound_zero_limb: "sound (zero_limb k) (azero_limb k)"
  by (auto simp: sound_def zero_limb_def azero_limb_def intro!: within_update)

section \<open>Values\<close>

definition val :: "int list \<Rightarrow> limbs \<Rightarrow> int" where
  "val ws s = sum_list (map2 (*) ws s)"

lemma val_simps [simp]: "val [] s = 0" "val ws [] = 0" "val (w # ws) (x # s) = w * x + val ws s"
  by (simp_all add: val_def)

lemma val_update:
  "i < length s \<Longrightarrow> length s \<le> length ws \<Longrightarrow> val ws (s[i := x]) = val ws s + ws ! i * (x - s ! i)"
proof (induction s arbitrary: i ws)
  case (Cons y s)
  then show ?case by (cases ws; cases i) (simp_all add: algebra_simps)
qed simp

definition congruent :: "int list \<Rightarrow> int \<Rightarrow> (limbs \<Rightarrow> limbs option) \<Rightarrow> bool" where
  "congruent ws p f \<longleftrightarrow> (\<forall>s s'. length s = length ws \<longrightarrow> f s = Some s' \<longrightarrow>
     length s' = length ws \<and> val ws s' mod p = val ws s mod p)"

lemma congruentD:
  "congruent ws p f \<Longrightarrow> f s = Some s' \<Longrightarrow> length s = length ws \<Longrightarrow> length s' = length ws \<and> val ws s' mod p = val ws s mod p"
  unfolding congruent_def by blast

lemma congruent_steps: "\<forall>f \<in> set fs. congruent ws p f \<Longrightarrow> congruent ws p (steps fs)"
proof (induction fs)
  case (Cons f fs)
  show ?case unfolding congruent_def
  proof (intro allI impI)
    fix s s' assume l: "length s = length ws" and "steps (f # fs) s = Some s'"
    then obtain s1 where 1: "f s = Some s1" "steps fs s1 = Some s'"
      unfolding steps.simps bind_eq_Some_conv by blast
    have c: "congruent ws p f" "congruent ws p (steps fs)" using Cons by simp_all
    from congruentD [OF c(1) 1(1) l] congruentD [OF c(2) 1(2)]
    show "length s' = length ws \<and> val ws s' mod p = val ws s mod p" by simp
  qed
qed (simp add: congruent_def)

lemma carry_Some:
  assumes "carry n r b i j m s = Some s'"
  shows "s' = s[j := s ! j + (s ! i + r) div 2 ^ b * m, i := s ! i - (s ! i + r) div 2 ^ b * 2 ^ b]"
  using assms unfolding carry_def Let_def bind_eq_Some_conv chk_eq_Some
  by (elim exE conjE) (hypsubst, simp only: option.inject)

lemma congruent_carry:
  assumes "i < length ws" "j < length ws" "i \<noteq> j" "(ws ! j * m - ws ! i * 2 ^ b) mod p = 0"
  shows "congruent ws p (carry n r b i j m)"
  unfolding congruent_def
proof (intro allI impI)
  fix s s' assume l: "length s = length ws" and "carry n r b i j m s = Some s'"
  then obtain c where s': "s' = s[j := s ! j + c * m, i := s ! i - c * 2 ^ b]" using carry_Some by blast
  have "val ws s' = val ws s + (ws ! j * m - ws ! i * 2 ^ b) * c"
    using assms l by (simp add: s' val_update algebra_simps)
  moreover obtain q where "ws ! j * m - ws ! i * 2 ^ b = p * q" using assms(4) by (auto simp: mod_eq_0_iff_dvd)
  ultimately have "val ws s' = val ws s + p * (q * c)" by simp
  then show "length s' = length ws \<and> val ws s' mod p = val ws s mod p" using l s' by simp
qed

lemma addmul_Some:
  assumes "addmul n k j m s = Some s'"
  shows "s' = s[j := s ! j + s ! k * m]"
  using assms by (auto simp: addmul_def bind_eq_Some_conv chk_eq_Some split: if_splits)

end
