(* ===== verification/FieldElement.thy ===== *)
theory FieldElement
  imports Limbs
begin

text \<open>
  \<open>external/ed25519/fe.c\<close>: the field of \<open>2 ^ 255 - 19\<close> elements in ten limbs of alternately 26 and 25
  bits. A function returns \<open>None\<close> where a signed operation of the code would overflow; the theorems say that it does not
  for the bounds the comments of the code give, and that the result is right modulo \<open>2 ^ 255 - 19\<close>. Assigning
  an \<open>int64_t\<close> to an \<open>int32_t\<close> is checked like an operation. \<open>fe_copy\<close> is not a function of the model.
\<close>

section \<open>The code\<close>

type_synonym fe = limbs

definition fe_width :: "nat \<Rightarrow> nat" where
  "fe_width i = (if even i then 26 else 25)"

definition load_3 :: "bytes \<Rightarrow> u64" where
  "load_3 inp = ucast (inp ! 0) OR push_bit 8 (ucast (inp ! 1)) OR push_bit 16 (ucast (inp ! 2))"

definition load_4 :: "bytes \<Rightarrow> u64" where
  "load_4 inp = ucast (inp ! 0) OR push_bit 8 (ucast (inp ! 1)) OR push_bit 16 (ucast (inp ! 2))
     OR push_bit 24 (ucast (inp ! 3))"

definition fe_0 :: fe where
  "fe_0 = replicate 10 0"

definition fe_1 :: fe where
  "fe_1 = 1 # replicate 9 0"

definition fe_add :: "fe \<Rightarrow> fe \<Rightarrow> fe option" where
  "fe_add f g = those (map2 (\<lambda>x y. chk 32 (x + y)) f g)"

definition fe_sub :: "fe \<Rightarrow> fe \<Rightarrow> fe option" where
  "fe_sub f g = those (map2 (\<lambda>x y. chk 32 (x - y)) f g)"

definition fe_neg :: "fe \<Rightarrow> fe option" where
  "fe_neg f = those (map (\<lambda>x. chk 32 (- x)) f)"

text \<open>\<open>x0 &= b\<close> converts to \<open>unsigned\<close> and back.\<close>

definition fe_mask :: "u32 \<Rightarrow> int \<Rightarrow> int" where
  "fe_mask b x = sint ((word_of_int x :: u32) AND (- b))"

definition fe_cmov :: "fe \<Rightarrow> fe \<Rightarrow> u32 \<Rightarrow> fe" where
  "fe_cmov f g b = map2 (\<lambda>x y. x XOR fe_mask b (x XOR y)) f g"

definition fe_cswap :: "fe \<Rightarrow> fe \<Rightarrow> u32 \<Rightarrow> fe \<times> fe" where
  "fe_cswap f g b =
     (map2 (\<lambda>x y. x XOR fe_mask b (x XOR y)) f g, map2 (\<lambda>x y. y XOR fe_mask b (x XOR y)) f g)"

text \<open>The carry out of limb \<open>i\<close>, rounded; the one out of limb 9 comes back as 19 times itself.\<close>

definition fe_carry :: "nat \<Rightarrow> limbs \<Rightarrow> limbs option" where
  "fe_carry i = carry 64 (2 ^ (fe_width i - 1)) (fe_width i) i ((i + 1) mod 10) (if i = 9 then 19 else 1)"

definition fe_narrow :: "limbs \<Rightarrow> fe option" where
  "fe_narrow h = (if list_all (fits 32) h then Some h else None)"

definition fe_reduce :: "limbs \<Rightarrow> fe option" where
  "fe_reduce h = Option.bind (steps (map fe_carry [0, 4, 1, 5, 2, 6, 3, 7, 4, 8, 9, 0]) h) fe_narrow"

definition fe_reduce_wide :: "limbs \<Rightarrow> fe option" where
  "fe_reduce_wide h = Option.bind (steps (map fe_carry [9, 1, 3, 5, 7, 0, 2, 4, 6, 8]) h) fe_narrow"

definition fe_load :: "bytes \<Rightarrow> limbs" where
  "fe_load s =
     [uint (load_4 s), uint (push_bit 6 (load_3 (drop 4 s))), uint (push_bit 5 (load_3 (drop 7 s))),
      uint (push_bit 3 (load_3 (drop 10 s))), uint (push_bit 2 (load_3 (drop 13 s))), uint (load_4 (drop 16 s)),
      uint (push_bit 7 (load_3 (drop 20 s))), uint (push_bit 5 (load_3 (drop 23 s))), uint (push_bit 4 (load_3 (drop 26 s))),
      uint (push_bit 2 (load_3 (drop 29 s) AND 8388607))]"

definition fe_frombytes :: "bytes \<Rightarrow> fe option" where
  "fe_frombytes s = fe_reduce_wide (fe_load s)"

definition fe_mul_sums :: "fe \<Rightarrow> fe \<Rightarrow> limbs option" where
  "fe_mul_sums f g =
     (let f0 = f ! 0; f1 = f ! 1; f2 = f ! 2; f3 = f ! 3; f4 = f ! 4; f5 = f ! 5; f6 = f ! 6; f7 = f ! 7; f8 = f ! 8; f9 = f ! 9;
          g0 = g ! 0; g1 = g ! 1; g2 = g ! 2; g3 = g ! 3; g4 = g ! 4; g5 = g ! 5; g6 = g ! 6; g7 = g ! 7; g8 = g ! 8; g9 = g ! 9 in do {
     g1_19 \<leftarrow> chk 32 (19 * g1);
     g2_19 \<leftarrow> chk 32 (19 * g2);
     g3_19 \<leftarrow> chk 32 (19 * g3);
     g4_19 \<leftarrow> chk 32 (19 * g4);
     g5_19 \<leftarrow> chk 32 (19 * g5);
     g6_19 \<leftarrow> chk 32 (19 * g6);
     g7_19 \<leftarrow> chk 32 (19 * g7);
     g8_19 \<leftarrow> chk 32 (19 * g8);
     g9_19 \<leftarrow> chk 32 (19 * g9);
     f1_2 \<leftarrow> chk 32 (2 * f1);
     f3_2 \<leftarrow> chk 32 (2 * f3);
     f5_2 \<leftarrow> chk 32 (2 * f5);
     f7_2 \<leftarrow> chk 32 (2 * f7);
     f9_2 \<leftarrow> chk 32 (2 * f9);
     h0 \<leftarrow> dot 64 [(f0, g0), (f1_2, g9_19), (f2, g8_19), (f3_2, g7_19), (f4, g6_19), (f5_2, g5_19), (f6, g4_19), (f7_2, g3_19), (f8, g2_19), (f9_2, g1_19)];
     h1 \<leftarrow> dot 64 [(f0, g1), (f1, g0), (f2, g9_19), (f3, g8_19), (f4, g7_19), (f5, g6_19), (f6, g5_19), (f7, g4_19), (f8, g3_19), (f9, g2_19)];
     h2 \<leftarrow> dot 64 [(f0, g2), (f1_2, g1), (f2, g0), (f3_2, g9_19), (f4, g8_19), (f5_2, g7_19), (f6, g6_19), (f7_2, g5_19), (f8, g4_19), (f9_2, g3_19)];
     h3 \<leftarrow> dot 64 [(f0, g3), (f1, g2), (f2, g1), (f3, g0), (f4, g9_19), (f5, g8_19), (f6, g7_19), (f7, g6_19), (f8, g5_19), (f9, g4_19)];
     h4 \<leftarrow> dot 64 [(f0, g4), (f1_2, g3), (f2, g2), (f3_2, g1), (f4, g0), (f5_2, g9_19), (f6, g8_19), (f7_2, g7_19), (f8, g6_19), (f9_2, g5_19)];
     h5 \<leftarrow> dot 64 [(f0, g5), (f1, g4), (f2, g3), (f3, g2), (f4, g1), (f5, g0), (f6, g9_19), (f7, g8_19), (f8, g7_19), (f9, g6_19)];
     h6 \<leftarrow> dot 64 [(f0, g6), (f1_2, g5), (f2, g4), (f3_2, g3), (f4, g2), (f5_2, g1), (f6, g0), (f7_2, g9_19), (f8, g8_19), (f9_2, g7_19)];
     h7 \<leftarrow> dot 64 [(f0, g7), (f1, g6), (f2, g5), (f3, g4), (f4, g3), (f5, g2), (f6, g1), (f7, g0), (f8, g9_19), (f9, g8_19)];
     h8 \<leftarrow> dot 64 [(f0, g8), (f1_2, g7), (f2, g6), (f3_2, g5), (f4, g4), (f5_2, g3), (f6, g2), (f7_2, g1), (f8, g0), (f9_2, g9_19)];
     h9 \<leftarrow> dot 64 [(f0, g9), (f1, g8), (f2, g7), (f3, g6), (f4, g5), (f5, g4), (f6, g3), (f7, g2), (f8, g1), (f9, g0)];
     Some [h0, h1, h2, h3, h4, h5, h6, h7, h8, h9]
   })"

definition fe_mul :: "fe \<Rightarrow> fe \<Rightarrow> fe option" where
  "fe_mul f g = Option.bind (fe_mul_sums f g) fe_reduce"

definition fe_mul121666 :: "fe \<Rightarrow> fe option" where
  "fe_mul121666 f = Option.bind (those (map (\<lambda>x. chk 64 (x * 121666)) f)) fe_reduce_wide"

definition fe_sq_sums :: "fe \<Rightarrow> limbs option" where
  "fe_sq_sums f =
     (let f0 = f ! 0; f1 = f ! 1; f2 = f ! 2; f3 = f ! 3; f4 = f ! 4; f5 = f ! 5; f6 = f ! 6; f7 = f ! 7; f8 = f ! 8; f9 = f ! 9 in do {
     f0_2 \<leftarrow> chk 32 (2 * f0);
     f1_2 \<leftarrow> chk 32 (2 * f1);
     f2_2 \<leftarrow> chk 32 (2 * f2);
     f3_2 \<leftarrow> chk 32 (2 * f3);
     f4_2 \<leftarrow> chk 32 (2 * f4);
     f5_2 \<leftarrow> chk 32 (2 * f5);
     f6_2 \<leftarrow> chk 32 (2 * f6);
     f7_2 \<leftarrow> chk 32 (2 * f7);
     f5_38 \<leftarrow> chk 32 (38 * f5);
     f6_19 \<leftarrow> chk 32 (19 * f6);
     f7_38 \<leftarrow> chk 32 (38 * f7);
     f8_19 \<leftarrow> chk 32 (19 * f8);
     f9_38 \<leftarrow> chk 32 (38 * f9);
     h0 \<leftarrow> dot 64 [(f0, f0), (f1_2, f9_38), (f2_2, f8_19), (f3_2, f7_38), (f4_2, f6_19), (f5, f5_38)];
     h1 \<leftarrow> dot 64 [(f0_2, f1), (f2, f9_38), (f3_2, f8_19), (f4, f7_38), (f5_2, f6_19)];
     h2 \<leftarrow> dot 64 [(f0_2, f2), (f1_2, f1), (f3_2, f9_38), (f4_2, f8_19), (f5_2, f7_38), (f6, f6_19)];
     h3 \<leftarrow> dot 64 [(f0_2, f3), (f1_2, f2), (f4, f9_38), (f5_2, f8_19), (f6, f7_38)];
     h4 \<leftarrow> dot 64 [(f0_2, f4), (f1_2, f3_2), (f2, f2), (f5_2, f9_38), (f6_2, f8_19), (f7, f7_38)];
     h5 \<leftarrow> dot 64 [(f0_2, f5), (f1_2, f4), (f2_2, f3), (f6, f9_38), (f7_2, f8_19)];
     h6 \<leftarrow> dot 64 [(f0_2, f6), (f1_2, f5_2), (f2_2, f4), (f3_2, f3), (f7_2, f9_38), (f8, f8_19)];
     h7 \<leftarrow> dot 64 [(f0_2, f7), (f1_2, f6), (f2_2, f5), (f3_2, f4), (f8, f9_38)];
     h8 \<leftarrow> dot 64 [(f0_2, f8), (f1_2, f7_2), (f2_2, f6), (f3_2, f5_2), (f4, f4), (f9, f9_38)];
     h9 \<leftarrow> dot 64 [(f0_2, f9), (f1_2, f8), (f2_2, f7), (f3_2, f6), (f4_2, f5)];
     Some [h0, h1, h2, h3, h4, h5, h6, h7, h8, h9]
   })"

definition fe_sq :: "fe \<Rightarrow> fe option" where
  "fe_sq f = Option.bind (fe_sq_sums f) fe_reduce"

definition fe_sq2 :: "fe \<Rightarrow> fe option" where
  "fe_sq2 f = do { h \<leftarrow> fe_sq_sums f; h2 \<leftarrow> those (map (\<lambda>x. chk 64 (x + x)) h); fe_reduce h2 }"

text \<open>\<open>fe_sq(t, t)\<close> in a loop.\<close>

primrec fe_sqs :: "nat \<Rightarrow> fe \<Rightarrow> fe option" where
  "fe_sqs 0 t = Some t"
| "fe_sqs (Suc n) t = Option.bind (fe_sq t) (fe_sqs n)"

definition fe_invert :: "fe \<Rightarrow> fe option" where
  "fe_invert z = do {
     t0 \<leftarrow> fe_sq z;
     t1 \<leftarrow> fe_sq t0; t1 \<leftarrow> fe_sqs 1 t1;
     t1 \<leftarrow> fe_mul z t1;
     t0 \<leftarrow> fe_mul t0 t1;
     t2 \<leftarrow> fe_sq t0;
     t1 \<leftarrow> fe_mul t1 t2;
     t2 \<leftarrow> fe_sq t1; t2 \<leftarrow> fe_sqs 4 t2;
     t1 \<leftarrow> fe_mul t2 t1;
     t2 \<leftarrow> fe_sq t1; t2 \<leftarrow> fe_sqs 9 t2;
     t2 \<leftarrow> fe_mul t2 t1;
     t3 \<leftarrow> fe_sq t2; t3 \<leftarrow> fe_sqs 19 t3;
     t2 \<leftarrow> fe_mul t3 t2;
     t2 \<leftarrow> fe_sq t2; t2 \<leftarrow> fe_sqs 9 t2;
     t1 \<leftarrow> fe_mul t2 t1;
     t2 \<leftarrow> fe_sq t1; t2 \<leftarrow> fe_sqs 49 t2;
     t2 \<leftarrow> fe_mul t2 t1;
     t3 \<leftarrow> fe_sq t2; t3 \<leftarrow> fe_sqs 99 t3;
     t2 \<leftarrow> fe_mul t3 t2;
     t2 \<leftarrow> fe_sq t2; t2 \<leftarrow> fe_sqs 49 t2;
     t1 \<leftarrow> fe_mul t2 t1;
     t1 \<leftarrow> fe_sq t1; t1 \<leftarrow> fe_sqs 4 t1;
     fe_mul t1 t0
   }"

definition fe_pow22523 :: "fe \<Rightarrow> fe option" where
  "fe_pow22523 z = do {
     t0 \<leftarrow> fe_sq z;
     t1 \<leftarrow> fe_sq t0; t1 \<leftarrow> fe_sqs 1 t1;
     t1 \<leftarrow> fe_mul z t1;
     t0 \<leftarrow> fe_mul t0 t1;
     t0 \<leftarrow> fe_sq t0;
     t0 \<leftarrow> fe_mul t1 t0;
     t1 \<leftarrow> fe_sq t0; t1 \<leftarrow> fe_sqs 4 t1;
     t0 \<leftarrow> fe_mul t1 t0;
     t1 \<leftarrow> fe_sq t0; t1 \<leftarrow> fe_sqs 9 t1;
     t1 \<leftarrow> fe_mul t1 t0;
     t2 \<leftarrow> fe_sq t1; t2 \<leftarrow> fe_sqs 19 t2;
     t1 \<leftarrow> fe_mul t2 t1;
     t1 \<leftarrow> fe_sq t1; t1 \<leftarrow> fe_sqs 9 t1;
     t0 \<leftarrow> fe_mul t1 t0;
     t1 \<leftarrow> fe_sq t0; t1 \<leftarrow> fe_sqs 49 t1;
     t1 \<leftarrow> fe_mul t1 t0;
     t2 \<leftarrow> fe_sq t1; t2 \<leftarrow> fe_sqs 99 t2;
     t1 \<leftarrow> fe_mul t2 t1;
     t1 \<leftarrow> fe_sq t1; t1 \<leftarrow> fe_sqs 49 t1;
     t0 \<leftarrow> fe_mul t1 t0;
     t0 \<leftarrow> fe_sq t0; t0 \<leftarrow> fe_sqs 1 t0;
     fe_mul t0 z
   }"

text \<open>\<open>q = (h0 + q) >> 26; q = (h1 + q) >> 25; \<dots>\<close>\<close>

primrec fe_quotient :: "(int \<times> nat) list \<Rightarrow> int \<Rightarrow> int option" where
  "fe_quotient [] q = Some q"
| "fe_quotient (h # hs) q = do { x \<leftarrow> chk 32 (fst h + q); fe_quotient hs (x div 2 ^ snd h) }"

definition fe_carry32 :: "nat \<Rightarrow> limbs \<Rightarrow> limbs option" where
  "fe_carry32 i = carry 32 0 (fe_width i) i (i + 1) 1"

text \<open>
  The bytes of reduced limbs. A left shift of a 26-bit limb by 6 does not fit an \<open>int\<close>, and
  only its low byte is kept; it is the exact product here.
\<close>

definition fe_store :: "limbs \<Rightarrow> bytes" where
  "fe_store h = map word_of_int [
      h ! 0, h ! 0 div 2 ^ 8, h ! 0 div 2 ^ 16, (h ! 0 div 2 ^ 24) OR (h ! 1 * 2 ^ 2),
      h ! 1 div 2 ^ 6, h ! 1 div 2 ^ 14, (h ! 1 div 2 ^ 22) OR (h ! 2 * 2 ^ 3), h ! 2 div 2 ^ 5,
      h ! 2 div 2 ^ 13, (h ! 2 div 2 ^ 21) OR (h ! 3 * 2 ^ 5), h ! 3 div 2 ^ 3, h ! 3 div 2 ^ 11,
      (h ! 3 div 2 ^ 19) OR (h ! 4 * 2 ^ 6), h ! 4 div 2 ^ 2, h ! 4 div 2 ^ 10, h ! 4 div 2 ^ 18,
      h ! 5, h ! 5 div 2 ^ 8, h ! 5 div 2 ^ 16, (h ! 5 div 2 ^ 24) OR (h ! 6 * 2 ^ 1),
      h ! 6 div 2 ^ 7, h ! 6 div 2 ^ 15, (h ! 6 div 2 ^ 23) OR (h ! 7 * 2 ^ 3), h ! 7 div 2 ^ 5,
      h ! 7 div 2 ^ 13, (h ! 7 div 2 ^ 21) OR (h ! 8 * 2 ^ 4), h ! 8 div 2 ^ 4, h ! 8 div 2 ^ 12,
      (h ! 8 div 2 ^ 20) OR (h ! 9 * 2 ^ 6), h ! 9 div 2 ^ 2, h ! 9 div 2 ^ 10, h ! 9 div 2 ^ 18]"

text \<open>Limb 10 stands for the last carry, which the code drops.\<close>

definition fe_tobytes :: "fe \<Rightarrow> bytes option" where
  "fe_tobytes h = do {
     x \<leftarrow> chk 32 (19 * h ! 9);
     y \<leftarrow> chk 32 (x + 2 ^ 24);
     q \<leftarrow> fe_quotient (zip h (map fe_width [0..<10])) (y div 2 ^ 25);
     q19 \<leftarrow> chk 32 (19 * q);
     h0 \<leftarrow> chk 32 (h ! 0 + q19);
     h' \<leftarrow> steps (map fe_carry32 [0..<10]) (h[0 := h0] @ [0]);
     Some (fe_store h')
   }"

definition fe_isnegative :: "fe \<Rightarrow> u8 option" where
  "fe_isnegative f = map_option (\<lambda>s. s ! 0 AND 1) (fe_tobytes f)"

definition fe_isnonzero :: "fe \<Rightarrow> bool option" where
  "fe_isnonzero f = map_option (\<lambda>s. fold (OR) (tl s) (s ! 0) \<noteq> 0) (fe_tobytes f)"

section \<open>Values and bounds\<close>

definition p25519 :: int where
  "p25519 = 2 ^ 255 - 19"

definition fe_weights :: "int list" where
  "fe_weights = [1, 2 ^ 26, 2 ^ 51, 2 ^ 77, 2 ^ 102, 2 ^ 128, 2 ^ 153, 2 ^ 179, 2 ^ 204, 2 ^ 230]"

abbreviation fe_val :: "limbs \<Rightarrow> int" where
  "fe_val f \<equiv> val fe_weights f"

text \<open>\<open>|f|\<close> bounded by \<open>K, K / 2, K, K / 2, \<dots>\<close>.\<close>

definition fe_bound :: "int \<Rightarrow> fe \<Rightarrow> bool" where
  "fe_bound K f \<longleftrightarrow> length f = 10 \<and> (\<forall>i < 10. \<bar>f ! i\<bar> \<le> (if even i then K else K div 2))"

text \<open>\<open>1.65 * 2 ^ 26\<close>, \<open>1.1 * 2 ^ 26\<close>, \<open>1.1 * 2 ^ 25\<close> and \<open>1.01 * 2 ^ 25\<close>.\<close>

abbreviation MUL_ARG :: int where "MUL_ARG \<equiv> 110729625"
abbreviation WIDE :: int where "WIDE \<equiv> 73819750"
abbreviation TIGHT :: int where "TIGHT \<equiv> 36909875"
abbreviation PRODUCT :: int where "PRODUCT \<equiv> 33889976"

lemma fe_bound_mono: "fe_bound K f \<Longrightarrow> K \<le> K' \<Longrightarrow> fe_bound K' f"
  unfolding fe_bound_def by (smt (verit) zdiv_mono1)

lemma fe_bound_length: "fe_bound K f \<Longrightarrow> length f = 10"
  by (simp add: fe_bound_def)

lemma ten_limbs:
  assumes "length f = 10"
  obtains f0 f1 f2 f3 f4 f5 f6 f7 f8 f9 where "f = [f0, f1, f2, f3, f4, f5, f6, f7, f8, f9]"
  using assms by (auto simp: length_Suc_conv eval_nat_numeral)

lemma all_less_10: "(\<forall>i < (10 :: nat). P i) \<longleftrightarrow> P 0 \<and> P 1 \<and> P 2 \<and> P 3 \<and> P 4 \<and> P 5 \<and> P 6 \<and> P 7 \<and> P 8 \<and> P 9"
  by (simp add: numeral_eq_Suc All_less_Suc) blast

lemma less_10: "(i :: nat) < 10 \<Longrightarrow> i \<in> {0, 1, 2, 3, 4, 5, 6, 7, 8, 9}"
  by auto

section \<open>Products\<close>

text \<open>What \<open>f ! i\<close> is multiplied with in \<open>h ! k\<close>.\<close>

definition fe_row :: "fe \<Rightarrow> nat \<Rightarrow> nat \<Rightarrow> int" where
  "fe_row g i k = (if k < i then 19 else 1) * (if odd i \<and> even k then 2 else 1) * g ! ((k + 10 - i) mod 10)"

definition fe_product :: "fe \<Rightarrow> fe \<Rightarrow> limbs" where
  "fe_product f g = map (\<lambda>k. \<Sum>i < 10. f ! i * fe_row g i k) [0..<10]"

lemma val_sum: "length s = length ws \<Longrightarrow> val ws s = (\<Sum>i < length ws. ws ! i * s ! i)"
  by (simp add: val_def sum_list_sum_nth atLeast0LessThan)

lemma sum_less_10: "(\<Sum>i < (10 :: nat). F i) = F 0 + F 1 + F 2 + F 3 + F 4 + F 5 + F 6 + F 7 + F 8 + (F 9 :: int)"
  by (simp add: eval_nat_numeral)

lemma fe_weight_table:
  "list_all (\<lambda>i. list_all (\<lambda>k. fe_weights ! i * fe_weights ! ((k + 10 - i) mod 10) =
     (if odd i \<and> even k then 2 else 1) * fe_weights ! k * (if k < i then 2 ^ 255 else 1)) [0..<10]) [0..<10]"
  by code_simp

lemma fe_weight_wrap:
  assumes "i < 10" "k < 10"
  shows "fe_weights ! i * fe_weights ! ((k + 10 - i) mod 10) =
    (if odd i \<and> even k then 2 else 1) * fe_weights ! k * (if k < i then 2 ^ 255 else 1)"
proof -
  have "i \<in> set [0..<10]" "k \<in> set [0..<10]" using assms by simp_all
  then show ?thesis using fe_weight_table unfolding list_all_iff by blast
qed

lemma sum_rotate:
  assumes "(i :: nat) < 10"
  shows "(\<Sum>k < 10. F ((k + 10 - i) mod 10) :: int) = (\<Sum>k < 10. F k)"
  using less_10 [OF assms] unfolding sum_less_10 by (elim insertE emptyE) simp_all

lemma fe_row_val:
  assumes "i < 10"
  shows "(\<Sum>k < 10. fe_weights ! k * fe_row g i k) mod p25519 = (fe_weights ! i * (\<Sum>k < 10. fe_weights ! k * g ! k)) mod p25519"
proof -
  have "p25519 dvd fe_weights ! k * fe_row g i k - fe_weights ! i * (fe_weights ! ((k + 10 - i) mod 10) * g ! ((k + 10 - i) mod 10))"
    if "k < 10" for k
  proof -
    let ?m = "if odd i \<and> even k then 2 else 1 :: int" and ?g = "g ! ((k + 10 - i) mod 10)"
    have "fe_weights ! k * fe_row g i k - fe_weights ! i * fe_weights ! ((k + 10 - i) mod 10) * ?g =
        (if k < i then p25519 * (- (?m * fe_weights ! k * ?g)) else 0)"
      unfolding fe_weight_wrap [OF assms that] fe_row_def p25519_def by (simp add: algebra_simps)
    then show ?thesis by (simp add: mult.assoc split: if_splits)
  qed
  then have "p25519 dvd (\<Sum>k < 10. fe_weights ! k * fe_row g i k -
      fe_weights ! i * (fe_weights ! ((k + 10 - i) mod 10) * g ! ((k + 10 - i) mod 10)))"
    by (intro dvd_sum) simp
  then show ?thesis
    by (simp add: sum_subtractf sum_rotate [OF assms, of "\<lambda>j. fe_weights ! j * g ! j"] mod_eq_dvd_iff flip: sum_distrib_left)
qed

lemma length_weights [simp]: "length fe_weights = 10"
  by (simp add: fe_weights_def)

text \<open>The sums represent the product.\<close>

lemma fe_product_val:
  assumes "length f = 10" "length g = 10"
  shows "fe_val (fe_product f g) mod p25519 = (fe_val f * fe_val g) mod p25519"
proof -
  have "fe_val (fe_product f g) = (\<Sum>k < 10. \<Sum>i < 10. f ! i * (fe_weights ! k * fe_row g i k))"
    by (simp add: val_sum fe_product_def sum_distrib_left ac_simps)
  also have "\<dots> = (\<Sum>i < 10. f ! i * (\<Sum>k < 10. fe_weights ! k * fe_row g i k))"
    by (subst sum.swap) (simp add: sum_distrib_left)
  finally have v: "fe_val (fe_product f g) = (\<Sum>i < 10. f ! i * (\<Sum>k < 10. fe_weights ! k * fe_row g i k))" .
  have "fe_val f * fe_val g = (\<Sum>i < 10. f ! i * (fe_weights ! i * (\<Sum>k < 10. fe_weights ! k * g ! k)))"
    by (simp add: val_sum assms sum_distrib_right ac_simps)
  moreover have "p25519 dvd (\<Sum>i < 10. f ! i * (\<Sum>k < 10. fe_weights ! k * fe_row g i k) -
      f ! i * (fe_weights ! i * (\<Sum>k < 10. fe_weights ! k * g ! k)))"
  proof (rule dvd_sum)
    fix i assume "i \<in> {..<10 :: nat}"
    then have "p25519 dvd (\<Sum>k < 10. fe_weights ! k * fe_row g i k) - fe_weights ! i * (\<Sum>k < 10. fe_weights ! k * g ! k)"
      using fe_row_val [of i g] by (simp add: mod_eq_dvd_iff)
    then show "p25519 dvd f ! i * (\<Sum>k < 10. fe_weights ! k * fe_row g i k) -
        f ! i * (fe_weights ! i * (\<Sum>k < 10. fe_weights ! k * g ! k))"
      by (simp flip: right_diff_distrib)
  qed
  ultimately show ?thesis unfolding v by (simp add: mod_eq_dvd_iff sum_subtractf)
qed

text \<open>The factors the code multiplies: the left one at most twice, the right one at most 19 times an argument.\<close>

definition fe_left :: "int \<Rightarrow> bool" where
  "fe_left a \<longleftrightarrow> \<bar>a\<bar> \<le> 2 * MUL_ARG"

definition fe_right :: "int \<Rightarrow> bool" where
  "fe_right b \<longleftrightarrow> \<bar>b\<bar> \<le> 19 * MUL_ARG"

lemma fe_dot:
  assumes "list_all (\<lambda>p. fe_left (fst p) \<and> fe_right (snd p)) ps" "length ps \<le> 10"
  shows "dot 64 ps = Some (products ps)" "\<bar>products ps\<bar> \<le> int (length ps) * 465919894400343750"
proof -
  have a: "\<forall>(a, b) \<in> set ps. \<bar>a\<bar> \<le> 2 * MUL_ARG \<and> \<bar>b\<bar> \<le> 19 * MUL_ARG"
    using assms(1) by (auto simp: list_all_iff fe_left_def fe_right_def)
  have l: "int (length ps) * (2 * MUL_ARG * (19 * MUL_ARG)) < 2 ^ (64 - 1)"
    using assms(2) by simp
  show "dot 64 ps = Some (products ps)" by (rule dot_bounded(1) [OF a _ l]) simp
  show "\<bar>products ps\<bar> \<le> int (length ps) * 465919894400343750"
    using dot_bounded(2) [OF a _ l] by simp
qed

text \<open>The bounds of the factors, for each limb of an argument.\<close>

lemma fe_factors:
  assumes "\<bar>x\<bar> \<le> MUL_ARG"
  shows "fe_left x" "fe_left (2 * x)" "fe_right x" "fe_right (19 * x)" "fe_right (2 * x)"
    "chk 32 (2 * x) = Some (2 * x)" "chk 32 (19 * x) = Some (19 * x)"
  using assms by (auto simp: fe_left_def fe_right_def chk_def fits_def)

lemma fe_factors_odd:
  assumes "\<bar>x\<bar> \<le> MUL_ARG div 2"
  shows "fe_right (38 * x)" "chk 32 (38 * x) = Some (38 * x)" "\<bar>x\<bar> \<le> MUL_ARG"
  using assms by (auto simp: fe_right_def chk_def fits_def)

lemma fe_bound_limbs:
  assumes "fe_bound MUL_ARG [f0, f1, f2, f3, f4, f5, f6, f7, f8, f9]"
  shows "\<bar>f0\<bar> \<le> MUL_ARG" "\<bar>f2\<bar> \<le> MUL_ARG" "\<bar>f4\<bar> \<le> MUL_ARG" "\<bar>f6\<bar> \<le> MUL_ARG" "\<bar>f8\<bar> \<le> MUL_ARG"
    "\<bar>f1\<bar> \<le> MUL_ARG div 2" "\<bar>f3\<bar> \<le> MUL_ARG div 2" "\<bar>f5\<bar> \<le> MUL_ARG div 2" "\<bar>f7\<bar> \<le> MUL_ARG div 2" "\<bar>f9\<bar> \<le> MUL_ARG div 2"
  using assms unfolding fe_bound_def all_less_10 by simp_all

lemma upt_10: "[0..<10] = [0, 1, 2, 3, 4, 5, 6, 7, 8, 9]"
  by (simp add: upt_rec)

lemma fe_row_bound:
  assumes "fe_bound MUL_ARG g" "i < 10" "k < 10"
  shows "\<bar>fe_row g i k\<bar> \<le> 19 * MUL_ARG"
proof -
  define j where "j = (k + 10 - i) mod 10"
  have j: "j < 10" by (simp add: j_def)
  have "\<bar>(if odd i \<and> even k then 2 else 1) * g ! j\<bar> \<le> MUL_ARG"
  proof (cases "odd i \<and> even k")
    case True
    then have "odd (k + 10 - i)" using assms(2) by (simp add: even_diff_nat)
    then have "odd j" by (simp add: j_def dvd_mod_iff)
    moreover have "\<bar>g ! j\<bar> \<le> (if even j then MUL_ARG else MUL_ARG div 2)" using assms(1) j by (simp add: fe_bound_def)
    ultimately show ?thesis using True by simp
  next
    case False
    have "\<bar>g ! j\<bar> \<le> (if even j then MUL_ARG else MUL_ARG div 2)" using assms(1) j by (simp add: fe_bound_def)
    then show ?thesis using False by (auto split: if_splits)
  qed
  then show ?thesis by (auto simp: fe_row_def abs_mult j_def split: if_splits)
qed

lemma fe_mul_sums_eq:
  assumes f: "fe_bound MUL_ARG f" and g: "fe_bound MUL_ARG g"
  shows "fe_mul_sums f g = Some (fe_product f g)"
proof -
  obtain f0 f1 f2 f3 f4 f5 f6 f7 f8 f9 where F: "f = [f0, f1, f2, f3, f4, f5, f6, f7, f8, f9]"
    using ten_limbs [OF fe_bound_length [OF f]] by blast
  obtain g0 g1 g2 g3 g4 g5 g6 g7 g8 g9 where G: "g = [g0, g1, g2, g3, g4, g5, g6, g7, g8, g9]"
    using ten_limbs [OF fe_bound_length [OF g]] by blast
  note fo = fe_bound_limbs [OF f [unfolded F]] and go = fe_bound_limbs [OF g [unfolded G]]
  note fb = fo(1-5) fo(6-10) [THEN fe_factors_odd(3)] and gb = go(1-5) go(6-10) [THEN fe_factors_odd(3)]
  note facts = fb [THEN fe_factors(1)] fb [THEN fe_factors(2)] fb [THEN fe_factors(6)]
    gb [THEN fe_factors(3)] gb [THEN fe_factors(4)] gb [THEN fe_factors(7)]
  show ?thesis
    unfolding fe_mul_sums_def fe_product_def sum_less_10 F G upt_10
    by (simp add: facts fe_dot Let_def fe_row_def del: dot_from.simps)
qed

lemma fe_sq_sums_eq:
  assumes f: "fe_bound MUL_ARG f"
  shows "fe_sq_sums f = Some (fe_product f f)"
proof -
  obtain f0 f1 f2 f3 f4 f5 f6 f7 f8 f9 where F: "f = [f0, f1, f2, f3, f4, f5, f6, f7, f8, f9]"
    using ten_limbs [OF fe_bound_length [OF f]] by blast
  note fo = fe_bound_limbs [OF f [unfolded F]]
  note fb = fo(1-5) fo(6-10) [THEN fe_factors_odd(3)]
  note facts = fb [THEN fe_factors(1)] fb [THEN fe_factors(2)] fb [THEN fe_factors(3)] fb [THEN fe_factors(4)]
    fb [THEN fe_factors(5)] fb [THEN fe_factors(6)] fb [THEN fe_factors(7)]
    fo(6-10) [THEN fe_factors_odd(1)] fo(6-10) [THEN fe_factors_odd(2)]
  show ?thesis
    unfolding fe_sq_sums_def fe_product_def sum_less_10 F upt_10
    by (simp add: facts fe_dot Let_def fe_row_def del: dot_from.simps)
qed

lemma fe_product_bound:
  assumes f: "fe_bound MUL_ARG f" and g: "fe_bound MUL_ARG g"
  shows "\<forall>x \<in> set (fe_product f g). \<bar>x\<bar> \<le> 2500000000000000000"
proof
  fix x assume "x \<in> set (fe_product f g)"
  then obtain k where k: "k < 10" and x: "x = (\<Sum>i < 10. f ! i * fe_row g i k)" by (auto simp: fe_product_def)
  have "\<bar>f ! i * fe_row g i k\<bar> \<le> MUL_ARG * (19 * MUL_ARG)" if "i \<in> {..<10}" for i
  proof -
    have "\<bar>f ! i\<bar> \<le> (if even i then MUL_ARG else MUL_ARG div 2)" using f that by (simp add: fe_bound_def)
    then have "\<bar>f ! i\<bar> \<le> MUL_ARG" by (simp split: if_splits)
    then show ?thesis unfolding abs_mult using fe_row_bound [OF g _ k, of i] that by (intro mult_mono) simp_all
  qed
  then have "(\<Sum>i < 10. \<bar>f ! i * fe_row g i k\<bar>) \<le> of_nat (card {..<10 :: nat}) * (MUL_ARG * (19 * MUL_ARG))"
    by (rule sum_bounded_above)
  then have "(\<Sum>i < 10. \<bar>f ! i * fe_row g i k\<bar>) \<le> 2500000000000000000" by simp
  with sum_abs show "\<bar>x\<bar> \<le> 2500000000000000000" unfolding x by (rule order_trans)
qed

section \<open>Carries\<close>

definition fe_acarry :: "nat \<Rightarrow> ivls \<Rightarrow> ivls option" where
  "fe_acarry i = acarry 64 (2 ^ (fe_width i - 1)) (fe_width i) i ((i + 1) mod 10) (if i = 9 then 19 else 1)"

lemma sound_fe_carries: "sound (steps (map fe_carry is)) (steps (map fe_acarry is))"
  by (rule sound_steps_map) (simp add: fe_carry_def fe_acarry_def sound_carry)

lemma congruent_fe_carry: "i < 10 \<Longrightarrow> congruent fe_weights p25519 (fe_carry i)"
  unfolding fe_carry_def
  by (drule less_10) (elim insertE emptyE; simp; rule congruent_carry; simp add: fe_weights_def fe_width_def p25519_def)

lemma congruent_fe_carries: "\<forall>i \<in> set is. i < 10 \<Longrightarrow> congruent fe_weights p25519 (steps (map fe_carry is))"
  by (rule congruent_steps) (auto intro: congruent_fe_carry)

text \<open>The limits of the limbs are evaluated.\<close>

lemma fe_reduce_limits:
  "steps (map fe_acarry [0, 4, 1, 5, 2, 6, 3, 7, 4, 8, 9, 0]) (replicate 10 (- 5600000000000000000, 5600000000000000000)) =
     Some [(- 33554432, 33554431), (- 16824468, 16824467), (- 33554432, 33554431), (- 16777216, 16777215),
       (- 33554432, 33554431), (- 16779703, 16779702), (- 33554432, 33554431), (- 16777216, 16777215),
       (- 33554432, 33554431), (- 16777216, 16777215)]"
  "steps (map fe_acarry [9, 1, 3, 5, 7, 0, 2, 4, 6, 8]) (replicate 10 (- 9000000000000, 9000000000000)) =
     Some [(- 33554432, 33554431), (- 16911327, 16911326), (- 33554432, 33554431), (- 16911326, 16911325),
       (- 33554432, 33554431), (- 16911326, 16911325), (- 33554432, 33554431), (- 16911326, 16911325),
       (- 33554432, 33554431), (- 16911326, 16911325)]"
  by code_simp+

lemma within_replicate: "(\<forall>x \<in> set s. \<bar>x\<bar> \<le> X) \<Longrightarrow> within s (replicate (length s) (- X, X))"
  by (auto simp: within_def list_all2_conv_all_nth all_set_conv_all_nth)

lemma fe_narrow_within:
  assumes "within s B" "length B = 10" "list_all (\<lambda>(l, h). - PRODUCT \<le> l \<and> h \<le> PRODUCT) B"
    "list_all (\<lambda>i. - (PRODUCT div 2) \<le> fst (B ! i) \<and> snd (B ! i) \<le> PRODUCT div 2) [1, 3, 5, 7, 9]"
  shows "fe_narrow s = Some s" "fe_bound PRODUCT s"
proof -
  have n: "fst (B ! i) \<le> s ! i \<and> s ! i \<le> snd (B ! i)" if "i < 10" for i
    using within_nth [OF assms(1), of i "fst (B ! i)" "snd (B ! i)"] assms(2) that by simp
  have w: "- PRODUCT \<le> fst (B ! i) \<and> snd (B ! i) \<le> PRODUCT" if "i < 10" for i
    using assms(2,3) that by (auto simp: list_all_length split_beta)
  have l: "length s = 10" using within_length [OF assms(1)] assms(2) by simp
  show "fe_bound PRODUCT s"
    unfolding fe_bound_def
  proof (intro conjI allI impI)
    fix i assume i: "i < (10 :: nat)"
    show "\<bar>s ! i\<bar> \<le> (if even i then PRODUCT else PRODUCT div 2)"
    proof (cases "even i")
      case True
      then show ?thesis using n [OF i] w [OF i] by (simp only: if_True) linarith
    next
      case False
      then have "i \<in> {1, 3, 5, 7, 9}" using less_10 [OF i] by auto
      then show ?thesis using False n [OF i] assms(4) by (auto simp: abs_le_iff)
    qed
  qed (rule l)
  have "fits 32 (s ! i)" if "i < 10" for i using n [OF that] w [OF that] by (simp add: fits_def)
  then show "fe_narrow s = Some s" by (simp add: fe_narrow_def list_all_length l)
qed

lemma fe_reduce_ok:
  assumes "length h = 10" "\<forall>x \<in> set h. \<bar>x\<bar> \<le> 5600000000000000000"
  shows "\<exists>r. fe_reduce h = Some r \<and> fe_bound PRODUCT r \<and> fe_val r mod p25519 = fe_val h mod p25519"
proof -
  let ?is = "[0, 4, 1, 5, 2, 6, 3, 7, 4, 8, 9, 0] :: nat list"
  have "within h (replicate 10 (- 5600000000000000000, 5600000000000000000))"
    using within_replicate [OF assms(2)] assms(1) by simp
  then obtain r where r: "steps (map fe_carry ?is) h = Some r" and w: "within r
      [(- 33554432, 33554431), (- 16824468, 16824467), (- 33554432, 33554431), (- 16777216, 16777215),
       (- 33554432, 33554431), (- 16779703, 16779702), (- 33554432, 33554431), (- 16777216, 16777215),
       (- 33554432, 33554431), (- 16777216, 16777215)]"
    using soundD [OF sound_fe_carries fe_reduce_limits(1)] by blast
  have "fe_val r mod p25519 = fe_val h mod p25519"
    using congruentD [OF congruent_fe_carries r] assms(1) by simp
  moreover have "fe_narrow r = Some r" "fe_bound PRODUCT r" by (rule fe_narrow_within [OF w]; simp)+
  ultimately show ?thesis unfolding fe_reduce_def r by simp
qed

lemma fe_reduce_wide_ok:
  assumes "length h = 10" "\<forall>x \<in> set h. \<bar>x\<bar> \<le> 9000000000000"
  shows "\<exists>r. fe_reduce_wide h = Some r \<and> fe_bound PRODUCT r \<and> fe_val r mod p25519 = fe_val h mod p25519"
proof -
  let ?is = "[9, 1, 3, 5, 7, 0, 2, 4, 6, 8] :: nat list"
  have "within h (replicate 10 (- 9000000000000, 9000000000000))"
    using within_replicate [OF assms(2)] assms(1) by simp
  then obtain r where r: "steps (map fe_carry ?is) h = Some r" and w: "within r
      [(- 33554432, 33554431), (- 16911327, 16911326), (- 33554432, 33554431), (- 16911326, 16911325),
       (- 33554432, 33554431), (- 16911326, 16911325), (- 33554432, 33554431), (- 16911326, 16911325),
       (- 33554432, 33554431), (- 16911326, 16911325)]"
    using soundD [OF sound_fe_carries fe_reduce_limits(2)] by blast
  have "fe_val r mod p25519 = fe_val h mod p25519"
    using congruentD [OF congruent_fe_carries r] assms(1) by simp
  moreover have "fe_narrow r = Some r" "fe_bound PRODUCT r" by (rule fe_narrow_within [OF w]; simp)+
  ultimately show ?thesis unfolding fe_reduce_wide_def r by simp
qed

section \<open>The operations\<close>

lemma fe_mul_ok:
  assumes "fe_bound MUL_ARG f" "fe_bound MUL_ARG g"
  shows "\<exists>h. fe_mul f g = Some h \<and> fe_bound PRODUCT h \<and> fe_val h mod p25519 = (fe_val f * fe_val g) mod p25519"
proof -
  have "length (fe_product f g) = 10" by (simp add: fe_product_def)
  moreover have "\<forall>x \<in> set (fe_product f g). \<bar>x\<bar> \<le> 5600000000000000000" using fe_product_bound [OF assms] by fastforce
  ultimately obtain h where "fe_reduce (fe_product f g) = Some h" "fe_bound PRODUCT h"
    "fe_val h mod p25519 = fe_val (fe_product f g) mod p25519"
    using fe_reduce_ok by blast
  then show ?thesis
    by (simp add: fe_mul_def fe_mul_sums_eq [OF assms] fe_product_val assms [THEN fe_bound_length])
qed

lemma fe_sq_ok:
  assumes "fe_bound MUL_ARG f"
  shows "\<exists>h. fe_sq f = Some h \<and> fe_bound PRODUCT h \<and> fe_val h mod p25519 = (fe_val f * fe_val f) mod p25519"
  using fe_mul_ok [OF assms assms] by (simp add: fe_sq_def fe_mul_def fe_sq_sums_eq fe_mul_sums_eq assms)

lemma those_map_Some: "(\<And>x. x \<in> set xs \<Longrightarrow> F x = Some (G x)) \<Longrightarrow> those (map F xs) = Some (map G xs)"
  by (induction xs) simp_all

lemma val_scale: "val ws (map ((*) c) s) = c * val ws s"
proof (induction s arbitrary: ws)
  case (Cons x s)
  then show ?case by (cases ws) (simp_all add: algebra_simps)
qed simp

lemma fe_sq2_ok:
  assumes "fe_bound MUL_ARG f"
  shows "\<exists>h. fe_sq2 f = Some h \<and> fe_bound PRODUCT h \<and> fe_val h mod p25519 = (2 * (fe_val f * fe_val f)) mod p25519"
proof -
  let ?h = "map ((*) 2) (fe_product f f)"
  have b: "\<forall>x \<in> set (fe_product f f). \<bar>x\<bar> \<le> 2500000000000000000" by (rule fe_product_bound [OF assms assms])
  then have "those (map (\<lambda>x. chk 64 (x + x)) (fe_product f f)) = Some ?h"
    by (intro those_map_Some) (fastforce simp: chk_def fits_def)
  moreover have "length ?h = 10" by (simp add: fe_product_def)
  moreover have "\<forall>x \<in> set ?h. \<bar>x\<bar> \<le> 5600000000000000000" using b by fastforce
  ultimately obtain h where "fe_sq2 f = Some h" "fe_bound PRODUCT h" "fe_val h mod p25519 = fe_val ?h mod p25519"
    using fe_reduce_ok [of ?h] by (auto simp: fe_sq2_def fe_sq_sums_eq assms)
  moreover have "fe_val ?h mod p25519 = (2 * (fe_val f * fe_val f)) mod p25519"
    unfolding val_scale using fe_bound_length [OF assms] by (intro mod_mult_cong refl fe_product_val)
  ultimately show ?thesis by simp
qed

lemma fe_mul121666_ok:
  assumes "fe_bound WIDE f"
  shows "\<exists>h. fe_mul121666 f = Some h \<and> fe_bound PRODUCT h \<and> fe_val h mod p25519 = (121666 * fe_val f) mod p25519"
proof -
  have b: "\<forall>x \<in> set f. \<bar>x\<bar> \<le> WIDE"
  proof
    fix x assume "x \<in> set f"
    then obtain i where i: "i < 10" "x = f ! i" using fe_bound_length [OF assms] by (auto simp: in_set_conv_nth)
    then have "\<bar>x\<bar> \<le> (if even i then WIDE else WIDE div 2)" using assms by (simp add: fe_bound_def)
    then show "\<bar>x\<bar> \<le> WIDE" by (simp split: if_splits)
  qed
  then have "those (map (\<lambda>x. chk 64 (x * 121666)) f) = Some (map ((*) 121666) f)"
    by (intro those_map_Some) (fastforce simp: chk_def fits_def)
  moreover have "\<forall>x \<in> set (map ((*) 121666) f). \<bar>x\<bar> \<le> 9000000000000" using b by fastforce
  ultimately show ?thesis
    using fe_reduce_wide_ok [of "map ((*) 121666) f"] fe_bound_length [OF assms] by (simp add: fe_mul121666_def val_scale)
qed

text \<open>Addition, subtraction and negation do not carry.\<close>

lemma those_map2_Some:
  assumes "length xs = n" "length ys = n" "\<And>i. i < n \<Longrightarrow> F (xs ! i) (ys ! i) = Some (G (xs ! i) (ys ! i))"
  shows "those (map2 F xs ys) = Some (map2 G xs ys)"
  using assms
proof (induction xs arbitrary: ys n)
  case (Cons x xs)
  then obtain y zs where y: "ys = y # zs" "length zs = length xs" by (cases ys) auto
  have "F x y = Some (G x y)" using Cons.prems(3) [of 0] Cons.prems(1) y by simp
  moreover have "those (map2 F xs zs) = Some (map2 G xs zs)"
    using Cons.prems(3) [of "Suc _"] Cons.prems(1) y by (intro Cons.IH) auto
  ultimately show ?case by (simp add: y)
qed simp

lemma val_map2:
  "length xs = length ys \<Longrightarrow> val ws (map2 (+) xs ys) = val ws xs + val ws ys"
  "length xs = length ys \<Longrightarrow> val ws (map2 (-) xs ys) = val ws xs - val ws ys"
proof (induction xs ys arbitrary: ws rule: list_induct2)
  case (Cons x xs y ys)
  { case 1 show ?case using Cons.IH by (cases ws) (simp_all add: algebra_simps) }
  { case 2 show ?case using Cons.IH by (cases ws) (simp_all add: algebra_simps) }
qed simp_all

lemma fe_bound_sum:
  assumes "fe_bound K f" "fe_bound L g" "K + L < 2 ^ 31" "i < 10"
  shows "\<bar>f ! i\<bar> + \<bar>g ! i\<bar> \<le> (if even i then K + L else (K + L) div 2)" "\<bar>f ! i\<bar> + \<bar>g ! i\<bar> < 2 ^ 31"
proof -
  have fg: "\<bar>f ! i\<bar> \<le> (if even i then K else K div 2)" "\<bar>g ! i\<bar> \<le> (if even i then L else L div 2)"
    using assms by (simp_all add: fe_bound_def)
  then show s: "\<bar>f ! i\<bar> + \<bar>g ! i\<bar> \<le> (if even i then K + L else (K + L) div 2)" by (cases "even i") auto
  have "\<bar>f ! 0\<bar> \<le> K" "\<bar>g ! 0\<bar> \<le> L" using assms(1,2) unfolding fe_bound_def all_less_10 by simp_all
  then have "0 \<le> K + L" by linarith
  then show "\<bar>f ! i\<bar> + \<bar>g ! i\<bar> < 2 ^ 31" using s assms(3) by (cases "even i") auto
qed

lemma fe_add_ok:
  assumes "fe_bound K f" "fe_bound L g" "K + L < 2 ^ 31"
  shows "\<exists>h. fe_add f g = Some h \<and> fe_bound (K + L) h \<and> fe_val h = fe_val f + fe_val g"
proof -
  have l: "length f = 10" "length g = 10" using assms fe_bound_length by blast+
  have "chk 32 (f ! i + g ! i) = Some (f ! i + g ! i)" if "i < 10" for i
    using fe_bound_sum(2) [OF assms that] abs_triangle_ineq [of "f ! i" "g ! i"] by (auto simp: chk_def fits_def abs_less_iff)
  then have "fe_add f g = Some (map2 (+) f g)" unfolding fe_add_def by (rule those_map2_Some [OF l])
  moreover have "fe_bound (K + L) (map2 (+) f g)"
    unfolding fe_bound_def
  proof (intro conjI allI impI)
    fix i assume i: "i < (10 :: nat)"
    have "\<bar>f ! i + g ! i\<bar> \<le> \<bar>f ! i\<bar> + \<bar>g ! i\<bar>" by (rule abs_triangle_ineq)
    with fe_bound_sum(1) [OF assms i] show "\<bar>map2 (+) f g ! i\<bar> \<le> (if even i then K + L else (K + L) div 2)"
      using i l by simp
  qed (use l in simp)
  ultimately show ?thesis using val_map2(1) [of f g fe_weights] l by simp
qed

lemma fe_sub_ok:
  assumes "fe_bound K f" "fe_bound L g" "K + L < 2 ^ 31"
  shows "\<exists>h. fe_sub f g = Some h \<and> fe_bound (K + L) h \<and> fe_val h = fe_val f - fe_val g"
proof -
  have l: "length f = 10" "length g = 10" using assms fe_bound_length by blast+
  have "chk 32 (f ! i - g ! i) = Some (f ! i - g ! i)" if "i < 10" for i
    using fe_bound_sum(2) [OF assms that] abs_triangle_ineq4 [of "f ! i" "g ! i"] by (auto simp: chk_def fits_def abs_less_iff)
  then have "fe_sub f g = Some (map2 (-) f g)" unfolding fe_sub_def by (rule those_map2_Some [OF l])
  moreover have "fe_bound (K + L) (map2 (-) f g)"
    unfolding fe_bound_def
  proof (intro conjI allI impI)
    fix i assume i: "i < (10 :: nat)"
    have "\<bar>f ! i - g ! i\<bar> \<le> \<bar>f ! i\<bar> + \<bar>g ! i\<bar>" by (rule abs_triangle_ineq4)
    with fe_bound_sum(1) [OF assms i] show "\<bar>map2 (-) f g ! i\<bar> \<le> (if even i then K + L else (K + L) div 2)"
      using i l by simp
  qed (use l in simp)
  ultimately show ?thesis using val_map2(2) [of f g fe_weights] l by simp
qed

lemma fe_neg_ok:
  assumes "fe_bound K f" "K < 2 ^ 31"
  shows "\<exists>h. fe_neg f = Some h \<and> fe_bound K h \<and> fe_val h = - fe_val f"
proof -
  have l: "length f = 10" using assms fe_bound_length by blast
  have "fe_bound 0 (replicate 10 0)" by (simp add: fe_bound_def)
  from fe_bound_sum(2) [OF assms(1) this] assms(2) have "\<bar>f ! i\<bar> < 2 ^ 31" if "i < 10" for i using that by simp
  then have "chk 32 (- x) = Some (- x)" if "x \<in> set f" for x
    using that l by (fastforce simp: chk_def fits_def abs_less_iff in_set_conv_nth)
  then have "fe_neg f = Some (map uminus f)" unfolding fe_neg_def by (rule those_map_Some)
  moreover have "fe_bound K (map uminus f)" using assms l by (simp add: fe_bound_def)
  moreover have "map uminus f = map ((*) (- 1)) f" by simp
  ultimately show ?thesis using val_scale [of fe_weights "- 1" f] by simp
qed

section \<open>Powers\<close>

text \<open>\<open>t\<close> represents the power \<open>e\<close> of the number \<open>z\<close>.\<close>

definition fe_power :: "int \<Rightarrow> nat \<Rightarrow> fe \<Rightarrow> bool" where
  "fe_power z e t \<longleftrightarrow> fe_bound MUL_ARG t \<and> fe_val t mod p25519 = z ^ e mod p25519"

lemma fe_power_mul:
  assumes "fe_power z d f" "fe_power z e g"
  shows "\<exists>h. fe_mul f g = Some h \<and> fe_power z (d + e) h"
proof -
  obtain h where h: "fe_mul f g = Some h" "fe_bound PRODUCT h" "fe_val h mod p25519 = (fe_val f * fe_val g) mod p25519"
    using fe_mul_ok assms unfolding fe_power_def by blast
  have "(fe_val f * fe_val g) mod p25519 = (z ^ d * z ^ e) mod p25519"
    using assms unfolding fe_power_def by (intro mod_mult_cong) simp_all
  then show ?thesis using h fe_bound_mono [OF h(2)] by (simp add: fe_power_def power_add)
qed

lemma fe_power_sq: "fe_power z e f \<Longrightarrow> \<exists>h. fe_sq f = Some h \<and> fe_power z (2 * e) h"
  using fe_power_mul [of z e f e f] by (simp add: fe_power_def fe_sq_def fe_mul_def fe_sq_sums_eq fe_mul_sums_eq mult_2)

lemma fe_power_sqs: "fe_power z e f \<Longrightarrow> \<exists>h. fe_sqs n f = Some h \<and> fe_power z (2 ^ n * e) h"
proof (induction n arbitrary: e f)
  case (Suc n)
  then obtain h where h: "fe_sq f = Some h" "fe_power z (2 * e) h" using fe_power_sq by blast
  from Suc.IH [OF h(2)] h(1) show ?case by (simp add: ac_simps)
qed simp

text \<open>One step of the addition chains: run an operation, and go on with the power it gave.\<close>

lemma fe_chain:
  "fe_power z d f \<Longrightarrow> fe_power z e g \<Longrightarrow> (\<And>h. fe_power z (d + e) h \<Longrightarrow> \<exists>r. k h = Some r \<and> P r) \<Longrightarrow>
    \<exists>r. Option.bind (fe_mul f g) k = Some r \<and> P r"
  "fe_power z e f \<Longrightarrow> (\<And>h. fe_power z (2 * e) h \<Longrightarrow> \<exists>r. k h = Some r \<and> P r) \<Longrightarrow>
    \<exists>r. Option.bind (fe_sq f) k = Some r \<and> P r"
  "fe_power z e f \<Longrightarrow> (\<And>h. fe_power z (2 ^ n * e) h \<Longrightarrow> \<exists>r. k h = Some r \<and> P r) \<Longrightarrow>
    \<exists>r. Option.bind (fe_sqs n f) k = Some r \<and> P r"
  using fe_power_mul [of z d f e g] fe_power_sq [of z e f] fe_power_sqs [of z e f n] by fastforce+

lemma fe_power_start: "fe_bound MUL_ARG z \<Longrightarrow> fe_power (fe_val z) 1 z"
  by (simp add: fe_power_def)

lemma fe_chain_end:
  "fe_power z d f \<Longrightarrow> fe_power z e g \<Longrightarrow> d + e = n \<Longrightarrow> \<exists>h. fe_mul f g = Some h \<and> fe_power z n h"
  using fe_power_mul by blast

lemma fe_invert_power:
  assumes "fe_bound MUL_ARG z"
  shows "\<exists>r. fe_invert z = Some r \<and> fe_power (fe_val z) (2 ^ 255 - 21) r"
  unfolding fe_invert_def
  by (insert fe_power_start [OF assms])
    ((rule fe_chain(1), assumption, assumption | rule fe_chain(2), assumption | rule fe_chain(3), assumption)+,
      rule fe_chain_end, assumption, assumption, simp)

lemma fe_pow22523_power:
  assumes "fe_bound MUL_ARG z"
  shows "\<exists>r. fe_pow22523 z = Some r \<and> fe_power (fe_val z) (2 ^ 252 - 3) r"
  unfolding fe_pow22523_def
  by (insert fe_power_start [OF assms])
    ((rule fe_chain(1), assumption, assumption | rule fe_chain(2), assumption | rule fe_chain(3), assumption)+,
      rule fe_chain_end, assumption, assumption, simp)

end
