(* ===== verification/FieldBytes.thy ===== *)
theory FieldBytes
  imports FieldElement
begin

text \<open>
  The bytes of field elements: \<open>fe_frombytes\<close> and \<open>fe_tobytes\<close> of \<open>external/ed25519/fe.c\<close>.
\<close>

section \<open>Bytes\<close>

primrec le_val :: "bytes \<Rightarrow> int" where
  "le_val [] = 0"
| "le_val (b # bs) = uint b + 256 * le_val bs"

lemma le_val_nonneg: "0 \<le> le_val bs"
  by (induction bs) simp_all

lemma le_val_less: "le_val bs < 256 ^ length bs"
proof (induction bs)
  case (Cons b bs)
  have "uint b < 256" using uint_lt2p [of b] by simp
  then show ?case using Cons by simp
qed simp

lemma le_val_append: "le_val (xs @ ys) = le_val xs + 256 ^ length xs * le_val ys"
  by (induction xs) (simp_all add: algebra_simps)

lemma uint_le_dec:
  "length bs \<le> 8 \<Longrightarrow> uint (le_dec bs :: u64) = le_val bs"
proof (induction bs)
  case (Cons b bs)
  have IH: "uint (le_dec bs :: u64) = le_val bs" using Cons by simp
  have "(ucast b :: u64) AND push_bit 8 (le_dec bs) = 0"
    by (rule bit_eqI) (auto simp: bit_simps dest: bit_imp_le_length)
  then have "(le_dec (b # bs) :: u64) = ucast b + push_bit 8 (le_dec bs)" by (simp add: disjunctive_add_eq_or)
  also have "\<dots> = ucast b + 256 * le_dec bs" by (simp add: push_bit_eq_mult)
  finally have e: "(le_dec (b # bs) :: u64) = ucast b + 256 * le_dec bs" .
  have "(256 :: int) ^ length bs \<le> 256 ^ 7" using Cons.prems by (intro power_increasing) simp_all
  then have l: "0 \<le> le_val bs" "le_val bs < 2 ^ 56" using le_val_less [of bs] le_val_nonneg by simp_all
  have b: "uint b < 256" using uint_lt2p [of b] by simp
  have "uint (256 * le_dec bs :: u64) = 256 * le_val bs" using l by (simp add: uint_word_ariths IH)
  moreover have "uint (ucast b :: u64) = uint b" by (simp add: unsigned_ucast_eq take_bit_int_eq_self_iff order_less_trans [OF b])
  ultimately show ?case unfolding e using l b by (simp add: uint_word_ariths)
qed simp

lemma take_nths: "k \<le> length s \<Longrightarrow> take k s = map ((!) s) [0..<k]"
  by (rule nth_equalityI) simp_all

lemma load_le_val:
  "3 \<le> length s \<Longrightarrow> uint (load_3 s) = le_val (take 3 s)"
  "4 \<le> length s \<Longrightarrow> uint (load_4 s) = le_val (take 4 s)"
proof -
  have "load_3 s = le_dec (map ((!) s) [0..<3])" "load_4 s = le_dec (map ((!) s) [0..<4])"
    by (simp_all add: load_3_def load_4_def upt_rec push_bit_push_bit push_bit_or or.assoc numeral_2_eq_2 numeral_3_eq_3)
  then show "3 \<le> length s \<Longrightarrow> uint (load_3 s) = le_val (take 3 s)"
    "4 \<le> length s \<Longrightarrow> uint (load_4 s) = le_val (take 4 s)"
    by (simp_all only: take_nths) (subst uint_le_dec; simp)+
qed

lemma uint_push:
  assumes "uint (w :: u64) < 2 ^ 32" "n \<le> 8"
  shows "uint (push_bit n w) = 2 ^ n * uint w"
proof -
  have "(2 :: int) ^ n \<le> 2 ^ 8" using assms(2) by (intro power_increasing) simp_all
  then have "2 ^ n * uint w \<le> 2 ^ 8 * 2 ^ 32" using assms(1) by (intro mult_mono) simp_all
  then have "take_bit 64 (2 ^ n * uint w) = 2 ^ n * uint w" by (intro take_bit_int_eq_self) simp_all
  then show ?thesis by (simp only: unsigned_push_bit_eq) (simp add: push_bit_eq_mult mult.commute)
qed

lemma le_val_bounds: "length bs = 3 \<Longrightarrow> le_val bs < 2 ^ 24" "length bs = 4 \<Longrightarrow> le_val bs < 2 ^ 32"
  using le_val_less [of bs] by simp_all

lemma bytes_32:
  assumes "length s = 32"
  obtains a b c d e f g h i j where "s = a @ b @ c @ d @ e @ f @ g @ h @ i @ j" "length a = 4" "length b = 3" "length c = 3"
    "length d = 3" "length e = 3" "length f = 4" "length g = 3" "length h = 3" "length i = 3" "length j = 3"
proof -
  have "s = take 4 s @ take 3 (drop 4 s) @ take 3 (drop 7 s) @ take 3 (drop 10 s) @ take 3 (drop 13 s) @ take 4 (drop 16 s) @
      take 3 (drop 20 s) @ take 3 (drop 23 s) @ take 3 (drop 26 s) @ drop 29 s"
    by (rule nth_equalityI) (auto simp: assms nth_append)
  then show thesis using that [of "take 4 s" "take 3 (drop 4 s)" "take 3 (drop 7 s)" "take 3 (drop 10 s)" "take 3 (drop 13 s)"
      "take 4 (drop 16 s)" "take 3 (drop 20 s)" "take 3 (drop 23 s)" "take 3 (drop 26 s)" "drop 29 s"] assms by simp
qed

lemma load_limits:
  fixes a b c d e f g h i j :: int
  assumes "0 \<le> a \<and> a < 4294967296" "0 \<le> b \<and> b < 16777216" "0 \<le> c \<and> c < 16777216"
    "0 \<le> d \<and> d < 16777216" "0 \<le> e \<and> e < 16777216"
    "0 \<le> f \<and> f < 4294967296" "0 \<le> g \<and> g < 16777216" "0 \<le> h \<and> h < 16777216"
    "0 \<le> i \<and> i < 16777216" "0 \<le> j \<and> j < 16777216"
  shows "\<forall>x \<in> set [a, 64 * b, 32 * c, 8 * d, 4 * e, f, 128 * g, 32 * h, 16 * i, 4 * j]. \<bar>x\<bar> \<le> 9000000000000"
  unfolding list.set ball_simps abs_le_iff using assms [THEN conjunct1] assms [THEN conjunct2] by (intro conjI TrueI) linarith+

lemma top_split:
  fixes low x d m :: int
  assumes "x = 2 ^ 23 * d + m"
  shows "low + 2 ^ 232 * x = (low + 2 ^ 232 * m) + 2 ^ 255 * d"
  unfolding assms by simp

lemma top_small:
  fixes low m :: int
  assumes "0 \<le> low" "low < 2 ^ 232" "0 \<le> m" "m < 2 ^ 23"
  shows "(low + 2 ^ 232 * m) mod 2 ^ 255 = low + 2 ^ 232 * m"
  using assms by (intro mod_pos_pos_trivial) simp_all

lemma fe_load_val:
  assumes "length s = 32"
  shows "fe_val (fe_load s) = le_val s mod 2 ^ 255" "\<forall>x \<in> set (fe_load s). \<bar>x\<bar> \<le> 9000000000000"
proof -
  obtain a b c d e f g h i j where s: "s = a @ b @ c @ d @ e @ f @ g @ h @ i @ j" and l: "length a = 4" "length b = 3"
    "length c = 3" "length d = 3" "length e = 3" "length f = 4" "length g = 3" "length h = 3" "length i = 3" "length j = 3"
    using bytes_32 [OF assms] by blast
  have u3: "uint (load_3 (x @ y)) = le_val x" "uint (load_3 x) = le_val x" if "length x = 3" for x y
    using that by (simp_all add: load_le_val)
  have u4: "uint (load_4 (x @ y)) = le_val x" if "length x = 4" for x y
    using that by (simp_all add: load_le_val)
  have p3: "uint (push_bit n (load_3 (x @ y))) = 2 ^ n * le_val x" if "length x = 3" "n \<le> 8" for n x y
    using that le_val_bounds(1) [OF that(1)] by (subst uint_push) (simp_all add: u3)
  define k where "k = load_3 j AND 8388607"
  have k: "uint k = le_val j mod 2 ^ 23"
  proof -
    have "(8388607 :: u64) = mask 23" by (simp add: mask_eq_exp_minus_1)
    then have kk: "k = take_bit 23 (load_3 j)" by (simp add: k_def take_bit_eq_mask)
    show ?thesis unfolding kk unsigned_take_bit_eq u3(2) [OF l(10)] by (simp only: take_bit_eq_mod)
  qed
  have "uint k < 2 ^ 32" unfolding k by (rule order_less_trans [of _ "2 ^ 23"]) simp_all
  then have pk: "uint (push_bit 2 k) = 4 * (le_val j mod 2 ^ 23)" using uint_push [of k 2] k by simp
  have L: "fe_load s = [le_val a, 64 * le_val b, 32 * le_val c, 8 * le_val d, 4 * le_val e, le_val f, 128 * le_val g,
      32 * le_val h, 16 * le_val i, 4 * (le_val j mod 2 ^ 23)]"
    by (simp add: fe_load_def s l u4 p3 pk flip: k_def)
  define low where "low = le_val (a @ b @ c @ d @ e @ f @ g @ h @ i)"
  have low: "0 \<le> low"
      "low < 2 ^ 232" using le_val_less [of "a @ b @ c @ d @ e @ f @ g @ h @ i"] l by (simp_all add: low_def le_val_nonneg)
  have "le_val s = low + 2 ^ 232 * le_val j"
    using le_val_append [of "a @ b @ c @ d @ e @ f @ g @ h @ i" j] l by (simp add: s low_def)
  then have "le_val s mod 2 ^ 255 = low + 2 ^ 232 * (le_val j mod 2 ^ 23)"
  proof -
    have m: "le_val j mod 2 ^ 23 < 2 ^ 23" "0 \<le> le_val j mod 2 ^ 23" by simp_all
    have "low + 2 ^ 232 * le_val j = (low + 2 ^ 232 * (le_val j mod 2 ^ 23)) + 2 ^ 255 * (le_val j div 2 ^ 23)"
      by (rule top_split) (rule mult_div_mod_eq [symmetric])
    moreover have "(low + 2 ^ 232 * (le_val j mod 2 ^ 23)) mod 2 ^ 255 = low + 2 ^ 232 * (le_val j mod 2 ^ 23)"
      by (rule top_small) (use low m in simp_all)
    ultimately show ?thesis using \<open>le_val s = _\<close> by (simp only: mod_mult_self2)
  qed
  moreover have "fe_val (fe_load s) = low + 2 ^ 232 * (le_val j mod 2 ^ 23)"
    unfolding L low_def le_val_append by (simp add: fe_weights_def l)
  ultimately show "fe_val (fe_load s) = le_val s mod 2 ^ 255" by simp
  have b3: "0 \<le> le_val x \<and> le_val x < 16777216" if "length x = 3" for x
    using le_val_bounds(1) [OF that] le_val_nonneg by simp
  have b4: "0 \<le> le_val x \<and> le_val x < 4294967296" if "length x = 4" for x
    using le_val_bounds(2) [OF that] le_val_nonneg by simp
  have "0 \<le> le_val j mod 2 ^ 23 \<and> le_val j mod 2 ^ 23 < 16777216" using pos_mod_bound [of "2 ^ 23" "le_val j"] by simp
  then show "\<forall>x \<in> set (fe_load s). \<bar>x\<bar> \<le> 9000000000000"
    unfolding L using b4 [OF l(1)] b3 [OF l(2)] b3 [OF l(3)] b3 [OF l(4)] b3 [OF l(5)] b4 [OF l(6)] b3 [OF l(7)] b3 [OF l(8)] b3 [OF l(9)]
    by (intro load_limits)
qed

lemma fe_frombytes_ok:
  assumes "length s = 32"
  shows "\<exists>h. fe_frombytes s = Some h \<and> fe_bound PRODUCT h \<and> fe_val h mod p25519 = (le_val s mod 2 ^ 255) mod p25519"
  using fe_reduce_wide_ok [of "fe_load s"] fe_load_val [OF assms] by (simp add: fe_frombytes_def fe_load_def)

text \<open>The quotient by the modulus, in the way the comment of \<open>fe_tobytes\<close> proves it.\<close>

primrec radix_val :: "(int \<times> nat) list \<Rightarrow> int" where
  "radix_val [] = 0"
| "radix_val (h # hs) = fst h + 2 ^ snd h * radix_val hs"

lemma fe_quotient_ok:
  assumes "\<forall>h \<in> set hs. \<bar>fst h\<bar> \<le> WIDE \<and> (snd h = 25 \<or> snd h = 26)" "\<bar>q\<bar> \<le> 100"
  shows "\<exists>r. fe_quotient hs q = Some r \<and> \<bar>r\<bar> \<le> 100 \<and> r = (q + radix_val hs) div 2 ^ sum_list (map snd hs)"
  using assms
proof (induction hs arbitrary: q)
  case (Cons h hs)
  let ?x = "fst h + q"
  have x: "\<bar>?x\<bar> \<le> WIDE + 100" using Cons.prems by (auto simp: abs_le_iff)
  then have "fits 32 ?x" by (auto simp: fits_def abs_le_iff)
  have "snd h = 25 \<or> snd h = 26" using Cons.prems by simp
  then have d: "\<bar>?x div 2 ^ snd h\<bar> \<le> 100"
    using x zdiv_mono1 [of ?x "WIDE + 100" "2 ^ snd h"] zdiv_mono1 [of "- (WIDE + 100)" ?x "2 ^ snd h"] by (auto simp: abs_le_iff)
  obtain r where r: "fe_quotient hs (?x div 2 ^ snd h) = Some r" "\<bar>r\<bar> \<le> 100"
    "r = (?x div 2 ^ snd h + radix_val hs) div 2 ^ sum_list (map snd hs)"
    using Cons.IH [OF _ d] Cons.prems by auto
  have "?x div 2 ^ snd h + radix_val hs = (q + radix_val (h # hs)) div 2 ^ snd h"
    by (simp add: algebra_simps flip: div_mult_self2)
  then have "r = (q + radix_val (h # hs)) div 2 ^ sum_list (map snd (h # hs))"
    using r(3) by (simp add: zdiv_zmult2_eq power_add)
  then show ?case using r \<open>fits 32 ?x\<close> by (simp add: chk_fits)
qed simp

lemma quotient_25519:
  fixes v h9 e q :: int
  assumes v: "v = 2 ^ 230 * h9 + e" and e: "\<bar>e\<bar> < 2 ^ 232" and q: "\<bar>q\<bar> \<le> 100"
    and d: "q = (2 ^ 25 * v + (19 * h9 + 2 ^ 24)) div 2 ^ 280"
  shows "q = v div p25519"
proof -
  let ?t = "2 ^ 25 * v + (19 * h9 + 2 ^ 24)"
  have "?t = 2 ^ 280 * q + ?t mod 2 ^ 280" by (simp only: d mult_div_mod_eq)
  moreover have "0 \<le> ?t mod 2 ^ 280" "?t mod 2 ^ 280 < 2 ^ 280" by simp_all
  ultimately have t: "2 ^ 280 * q \<le> ?t" "?t < 2 ^ 280 * q + 2 ^ 280" by linarith+
  have n: "v = 1725436586697640946858688965569256363112777243042596638790631055949824 * h9 + e"
      "e < 6901746346790563787434755862277025452451108972170386555162524223799296"
      "- 6901746346790563787434755862277025452451108972170386555162524223799296 < e" "q \<le> 100" "- 100 \<le> q"
    "1942668892225729070919461906823518906642406839052139521251812409738904285205208498176 * q \<le> 33554432 * v + (19 * h9 + 16777216)"
    "33554432 * v + (19 * h9 + 16777216) < 1942668892225729070919461906823518906642406839052139521251812409738904285205208498176 * q + 1942668892225729070919461906823518906642406839052139521251812409738904285205208498176"
    using t v e q by (simp_all add: abs_less_iff abs_le_iff)
  have P: "p25519 = 57896044618658097711785492504343953926634992332820282019728792003956564819949" by (simp add: p25519_def)
  have "0 \<le> v - 57896044618658097711785492504343953926634992332820282019728792003956564819949 * q"
      "v - 57896044618658097711785492504343953926634992332820282019728792003956564819949 * q < 57896044618658097711785492504343953926634992332820282019728792003956564819949" using n by linarith+
  then have "0 \<le> v - p25519 * q" "v - p25519 * q < p25519" "0 < p25519" by (simp_all only: P)
  then have "v div p25519 = q" by (intro int_div_pos_eq [where r = "v - p25519 * q"]) auto
  then show ?thesis by simp
qed

lemma or_shifted:
  fixes a b :: int
  assumes "0 \<le> a" "a < 2 ^ k"
  shows "a OR (b * 2 ^ k) = a + b * 2 ^ k"
proof -
  have a: "take_bit k a = a" using assms by (rule take_bit_int_eq_self)
  have "a AND push_bit k b = 0" by (subst a [symmetric], rule bit_eqI) (auto simp: bit_simps)
  then show ?thesis using disjunctive_add_eq_or [of a "push_bit k b"] by (simp add: push_bit_eq_mult)
qed

lemma byte_of: "uint (word_of_int x :: u8) = x mod 256"
  by (simp add: unsigned_of_int take_bit_eq_mod)

lemma byte_at:
  fixes x c d :: int
  assumes "d = c * 256"
  shows "x div c mod 256 = x div c - 256 * (x div d)"
  unfolding assms by (simp add: zdiv_zmult2_eq minus_mult_div_eq_mod)

text \<open>A byte that joins the top bits of one limb and the low bits of the next.\<close>

lemma byte_joined:
  fixes x y c m n :: int
  assumes "m = 2 ^ k" "m * n = 256" "0 < c" "0 \<le> x" "x < c * m"
  shows "(x div c OR y * m) mod 256 = x div c + m * (y - n * (y div n))"
proof -
  define a where "a = x div c"
  have "0 \<le> a" using assms by (simp add: a_def pos_imp_zdiv_nonneg_iff)
  moreover have "a < m"
  proof (rule ccontr)
    assume "\<not> a < m"
    then have "c * m \<le> c * a" using assms(3) by simp
    also have "\<dots> \<le> x" unfolding a_def using mult_div_mod_eq [of c x] pos_mod_sign [of c x] assms(3) by linarith
    finally show False using assms(5) by simp
  qed
  ultimately have a: "0 \<le> a" "a < m" "a OR y * m = a + m * y"
    using or_shifted [of a k y] assms(1) by simp_all
  have "0 < m" using assms(1) by simp
  have "0 < n"
  proof (rule ccontr)
    assume "\<not> 0 < n"
    then have "m * n \<le> 0" using \<open>0 < m\<close> by (simp add: mult_le_0_iff)
    then show False using assms(2) by simp
  qed
  then have "(a + m * y) mod (m * n) = m * ((a + m * y) div m mod n) + (a + m * y) mod m"
    by (intro zmod_zmult2_eq) simp
  moreover have "(a + m * y) div m = y" "(a + m * y) mod m = a" using a \<open>0 < m\<close> by simp_all
  moreover have "y mod n = y - n * (y div n)" by (rule minus_mult_div_eq_mod [symmetric])
  ultimately show ?thesis using a(3) assms(2) by (simp add: a_def)
qed

text \<open>The quotients cancel: every byte takes away what the next one holds.\<close>

lemma bytes_cancel:
  fixes h0 h1 h2 h3 h4 h5 h6 h7 h8 h9 q0_16 q0_24 q0_8 q1_14 q1_22 q1_6 q2_13 q2_21 q2_5 q3_11 q3_19 q3_3 q4_10 q4_18
    q4_2 q5_16 q5_24 q5_8 q6_15 q6_23 q6_7 q7_13 q7_21 q7_5 q8_12 q8_20 q8_4 q9_10 q9_18 q9_2 :: int
  shows "(h0 - 256 * q0_8) + 256 * ((q0_8 - 256 * q0_16) + 256 * ((q0_16 - 256 * q0_24) + 256 * ((q0_24
    + 4 * (h1 - 64 * q1_6)) + 256 * ((q1_6 - 256 * q1_14) + 256 * ((q1_14 - 256 * q1_22) + 256
    * ((q1_22 + 8 * (h2 - 32 * q2_5)) + 256 * ((q2_5 - 256 * q2_13) + 256 * ((q2_13 - 256 * q2_21)
    + 256 * ((q2_21 + 32 * (h3 - 8 * q3_3)) + 256 * ((q3_3 - 256 * q3_11) + 256 * ((q3_11 - 256
    * q3_19) + 256 * ((q3_19 + 64 * (h4 - 4 * q4_2)) + 256 * ((q4_2 - 256 * q4_10) + 256 * ((q4_10
    - 256 * q4_18) + 256 * ((q4_18 - 256 * 0) + 256 * ((h5 - 256 * q5_8) + 256 * ((q5_8 - 256 *
    q5_16) + 256 * ((q5_16 - 256 * q5_24) + 256 * ((q5_24 + 2 * (h6 - 128 * q6_7)) + 256 * ((q6_7
    - 256 * q6_15) + 256 * ((q6_15 - 256 * q6_23) + 256 * ((q6_23 + 8 * (h7 - 32 * q7_5)) + 256
    * ((q7_5 - 256 * q7_13) + 256 * ((q7_13 - 256 * q7_21) + 256 * ((q7_21 + 16 * (h8 - 16 * q8_4))
    + 256 * ((q8_4 - 256 * q8_12) + 256 * ((q8_12 - 256 * q8_20) + 256 * ((q8_20 + 64 * (h9 - 4
    * q9_2)) + 256 * ((q9_2 - 256 * q9_10) + 256 * ((q9_10 - 256 * q9_18) + 256 * ((q9_18 - 256
    * 0) + 256 * 0))))))))))))))))))))))))))))))) =
    h0 + 67108864 * h1 + 2251799813685248 * h2 + 151115727451828646838272 * h3 + 5070602400912917605986812821504 * h4
      + 340282366920938463463374607431768211456 * h5 + 11417981541647679048466287755595961091061972992 * h6 +
      766247770432944429179173513575154591809369561091801088 * h7
        + 25711008708143844408671393477458601640355247900524685364822016 * h8
        + 1725436586697640946858688965569256363112777243042596638790631055949824 * h9"
  by (simp add: algebra_simps)

text \<open>Limbs in range are stored as their value.\<close>

definition fe_limb_range :: "limbs \<Rightarrow> bool" where
  "fe_limb_range h \<longleftrightarrow> (\<forall>i < 10. 0 \<le> h ! i \<and> h ! i < 2 ^ fe_width i)"

lemma length_fe_store [simp]: "length (fe_store h) = 32"
  by (simp add: fe_store_def)

lemma fe_store_val:
  assumes "length h = 10" "fe_limb_range h"
  shows "le_val (fe_store h) = fe_val h"
proof -
  obtain h0 h1 h2 h3 h4 h5 h6 h7 h8 h9 where H: "h = [h0, h1, h2, h3, h4, h5, h6, h7, h8, h9]"
    using ten_limbs [OF assms(1)] by blast
  have r: "0 \<le> h0" "h0 < 2 ^ 26" "0 \<le> h1" "h1 < 2 ^ 25" "0 \<le> h2" "h2 < 2 ^ 26" "0 \<le> h3" "h3 < 2 ^ 25"
    "0 \<le> h4" "h4 < 2 ^ 26" "0 \<le> h5" "h5 < 2 ^ 25" "0 \<le> h6" "h6 < 2 ^ 26" "0 \<le> h7" "h7 < 2 ^ 25"
    "0 \<le> h8" "h8 < 2 ^ 26" "0 \<le> h9" "h9 < 2 ^ 25"
    using assms(2) unfolding fe_limb_range_def all_less_10 H fe_width_def by simp_all
  have j1: "(h0 div 16777216 OR h1 * 4) mod 256 = h0 div 16777216 + 4 * (h1 - 64 * (h1 div 64))"
    by (rule byte_joined [of _ 2]) (use r in simp_all)
  have j2: "(h1 div 4194304 OR h2 * 8) mod 256 = h1 div 4194304 + 8 * (h2 - 32 * (h2 div 32))"
    by (rule byte_joined [of _ 3]) (use r in simp_all)
  have j3: "(h2 div 2097152 OR h3 * 32) mod 256 = h2 div 2097152 + 32 * (h3 - 8 * (h3 div 8))"
    by (rule byte_joined [of _ 5]) (use r in simp_all)
  have j4: "(h3 div 524288 OR h4 * 64) mod 256 = h3 div 524288 + 64 * (h4 - 4 * (h4 div 4))"
    by (rule byte_joined [of _ 6]) (use r in simp_all)
  have j5: "(h5 div 16777216 OR h6 * 2) mod 256 = h5 div 16777216 + 2 * (h6 - 128 * (h6 div 128))"
    by (rule byte_joined [of _ 1]) (use r in simp_all)
  have j6: "(h6 div 8388608 OR h7 * 8) mod 256 = h6 div 8388608 + 8 * (h7 - 32 * (h7 div 32))"
    by (rule byte_joined [of _ 3]) (use r in simp_all)
  have j7: "(h7 div 2097152 OR h8 * 16) mod 256 = h7 div 2097152 + 16 * (h8 - 16 * (h8 div 16))"
    by (rule byte_joined [of _ 4]) (use r in simp_all)
  have j8: "(h8 div 1048576 OR h9 * 64) mod 256 = h8 div 1048576 + 64 * (h9 - 4 * (h9 div 4))"
    by (rule byte_joined [of _ 6]) (use r in simp_all)
  have m: "h0 mod 256 = h0 - 256 * (h0 div 256)" "h0 div 256 mod 256 = h0 div 256 - 256 * (h0 div 65536)"
      "h0 div 65536 mod 256 = h0 div 65536 - 256 * (h0 div 16777216)"
    "h1 div 64 mod 256 = h1 div 64 - 256 * (h1 div 16384)" "h1 div 16384 mod 256 = h1 div 16384 - 256 * (h1 div 4194304)"
    "h2 div 32 mod 256 = h2 div 32 - 256 * (h2 div 8192)"
    "h2 div 8192 mod 256 = h2 div 8192 - 256 * (h2 div 2097152)" "h3 div 8 mod 256 = h3 div 8 - 256 * (h3 div 2048)"
    "h3 div 2048 mod 256 = h3 div 2048 - 256 * (h3 div 524288)"
    "h4 div 4 mod 256 = h4 div 4 - 256 * (h4 div 1024)" "h4 div 1024 mod 256 = h4 div 1024 - 256 * (h4 div 262144)"
    "h4 div 262144 mod 256 = h4 div 262144 - 256 * (h4 div 67108864)"
    "h5 mod 256 = h5 - 256 * (h5 div 256)" "h5 div 256 mod 256 = h5 div 256 - 256 * (h5 div 65536)"
    "h5 div 65536 mod 256 = h5 div 65536 - 256 * (h5 div 16777216)"
    "h6 div 128 mod 256 = h6 div 128 - 256 * (h6 div 32768)" "h6 div 32768 mod 256 = h6 div 32768 - 256 * (h6 div 8388608)"
    "h7 div 32 mod 256 = h7 div 32 - 256 * (h7 div 8192)"
    "h7 div 8192 mod 256 = h7 div 8192 - 256 * (h7 div 2097152)" "h8 div 16 mod 256 = h8 div 16 - 256 * (h8 div 4096)"
    "h8 div 4096 mod 256 = h8 div 4096 - 256 * (h8 div 1048576)"
    "h9 div 4 mod 256 = h9 div 4 - 256 * (h9 div 1024)" "h9 div 1024 mod 256 = h9 div 1024 - 256 * (h9 div 262144)"
    "h9 div 262144 mod 256 = h9 div 262144 - 256 * (h9 div 67108864)"
    by (rule byte_at minus_mult_div_eq_mod [symmetric], simp?)+
  have t: "h4 div 67108864 = 0" "h9 div 67108864 = 0" using r by simp_all
  have s: "fe_val h = h0 + 67108864 * h1 + 2251799813685248 * h2 + 151115727451828646838272 * h3
      + 5070602400912917605986812821504 * h4 + 340282366920938463463374607431768211456 * h5
      + 11417981541647679048466287755595961091061972992 * h6 +
      766247770432944429179173513575154591809369561091801088 * h7
        + 25711008708143844408671393477458601640355247900524685364822016 * h8
        + 1725436586697640946858688965569256363112777243042596638790631055949824 * h9"
    by (simp add: H fe_weights_def)
  have b: "fe_store h = map word_of_int [h0, h0 div 256, h0 div 65536, h0 div 16777216 OR h1 * 4, h1 div 64, h1 div 16384,
      h1 div 4194304 OR h2 * 8, h2 div 32, h2 div 8192, h2 div 2097152 OR h3 * 32, h3 div 8, h3 div 2048,
      h3 div 524288 OR h4 * 64, h4 div 4, h4 div 1024, h4 div 262144, h5, h5 div 256,
      h5 div 65536, h5 div 16777216 OR h6 * 2, h6 div 128, h6 div 32768, h6 div 8388608 OR h7 * 8, h7 div 32,
      h7 div 8192, h7 div 2097152 OR h8 * 16, h8 div 16, h8 div 4096, h8 div 1048576 OR h9 * 64, h9 div 4,
      h9 div 1024, h9 div 262144]"
    by (simp add: fe_store_def H)
  show ?thesis
    unfolding s b list.map le_val.simps byte_of j1 j2 j3 j4 j5 j6 j7 j8 m t by (rule bytes_cancel)
qed

text \<open>The carries of \<open>fe_tobytes\<close> move the value, exactly, into eleven limbs.\<close>

definition fe_weights11 :: "int list" where
  "fe_weights11 = fe_weights @ [2 ^ 255]"

definition fe_acarry32 :: "nat \<Rightarrow> ivls \<Rightarrow> ivls option" where
  "fe_acarry32 i = acarry 32 0 (fe_width i) i (i + 1) 1"

lemma sound_fe_carries32: "sound (steps (map fe_carry32 is)) (steps (map fe_acarry32 is))"
  by (rule sound_steps_map) (simp add: fe_carry32_def fe_acarry32_def sound_carry)

lemma congruent_fe_carry32: "i < 10 \<Longrightarrow> congruent fe_weights11 0 (fe_carry32 i)"
  unfolding fe_carry32_def
  by (drule less_10) (elim insertE emptyE; simp; rule congruent_carry; simp add: fe_weights11_def fe_weights_def fe_width_def)

lemma fe_tobytes_limits:
  "steps (map fe_acarry32 [0..<10]) (replicate 10 (- 73900000, 73900000) @ [(0, 0)]) =
     Some [(0, 67108863), (0, 33554431), (0, 67108863), (0, 33554431), (0, 67108863), (0, 33554431), (0, 67108863),
       (0, 33554431), (0, 67108863), (0, 33554431), (- 3, 2)]"
  by code_simp

lemma fe_carries32_ok:
  assumes "length h = 10" "\<forall>x \<in> set h. \<bar>x\<bar> \<le> 73900000"
  obtains h' c where "steps (map fe_carry32 [0..<10]) (h @ [0]) = Some (h' @ [c])" "length h' = 10" "fe_limb_range h'"
    "fe_val h = fe_val h' + 2 ^ 255 * c"
proof -
  have "within (h @ [0]) (replicate 10 (- 73900000, 73900000) @ [(0, 0)])"
    using within_replicate [OF assms(2)] assms(1) by (simp add: within_def list_all2_appendI)
  then obtain s where s: "steps (map fe_carry32 [0..<10]) (h @ [0]) = Some s" and w: "within s
      [(0, 67108863), (0, 33554431), (0, 67108863), (0, 33554431), (0, 67108863), (0, 33554431), (0, 67108863),
       (0, 33554431), (0, 67108863), (0, 33554431), (- 3, 2)]"
    using soundD [OF sound_fe_carries32 fe_tobytes_limits] by blast
  have "congruent fe_weights11 0 (steps (map fe_carry32 [0..<10]))"
    by (rule congruent_steps) (auto intro: congruent_fe_carry32)
  from congruentD [OF this s] have v: "val fe_weights11 s = val fe_weights11 (h @ [0])" using assms(1) by (simp add: fe_weights11_def)
  have "length s = 11" using within_length [OF w] by simp
  then obtain h' c where hc: "s = h' @ [c]"
      "length h' = 10" by (metis length_append_singleton append_butlast_last_id list.size(3) nat.inject numeral_eq_Suc pred_numeral_simps zero_neq_numeral)
  have n: "val (ws @ [x]) (l @ [y]) = val ws l + x * y" if "length l = length ws" for ws l x y
    using that by (simp add: val_def)
  have "fe_val h = fe_val h' + 2 ^ 255 * c" using v assms(1) hc(2) by (simp add: hc(1) fe_weights11_def n)
  moreover have "fe_limb_range h'"
    using w unfolding hc(1) fe_limb_range_def all_less_10 fe_width_def
    by (cases rule: ten_limbs [OF hc(2)]) (simp add: within_def)
  ultimately show thesis using that s hc by blast
qed

lemma fe_radix_val: "length f = 10 \<Longrightarrow> radix_val (zip f (map fe_width [0..<10])) = fe_val f"
  by (erule ten_limbs) (simp add: upt_10 fe_width_def fe_weights_def algebra_simps)

lemma fe_bound_limb:
  assumes "fe_bound WIDE f" "i < 10"
  shows "\<bar>f ! i\<bar> \<le> WIDE"
proof -
  have "\<bar>f ! i\<bar> \<le> (if even i then WIDE else WIDE div 2)" using assms unfolding fe_bound_def by blast
  then show ?thesis by (simp split: if_splits)
qed

lemma fe_val_top:
  assumes "fe_bound WIDE f"
  obtains e where "fe_val f = 2 ^ 230 * f ! 9 + e" "\<bar>e\<bar> < 2 ^ 232"
proof -
  obtain f0 f1 f2 f3 f4 f5 f6 f7 f8 f9 where F: "f = [f0, f1, f2, f3, f4, f5, f6, f7, f8, f9]"
    using ten_limbs [OF fe_bound_length [OF assms]] by blast
  let ?e = "f0 + 2 ^ 26 * f1 + 2 ^ 51 * f2 + 2 ^ 77 * f3 + 2 ^ 102 * f4 + 2 ^ 128 * f5 + 2 ^ 153 * f6 + 2 ^ 179 * f7
      + 2 ^ 204 * f8"
  note b = fe_bound_limb [OF assms]
  have "\<bar>f0\<bar> \<le> WIDE" "\<bar>f1\<bar> \<le> WIDE" "\<bar>f2\<bar> \<le> WIDE" "\<bar>f3\<bar> \<le> WIDE"
      "\<bar>f4\<bar> \<le> WIDE" "\<bar>f5\<bar> \<le> WIDE" "\<bar>f6\<bar> \<le> WIDE"
    "\<bar>f7\<bar> \<le> WIDE" "\<bar>f8\<bar> \<le> WIDE"
    using b [of 0] b [of 1] b [of 2] b [of 3] b [of 4] b [of 5] b [of 6] b [of 7] b [of 8] unfolding F by simp_all
  then have "\<bar>?e\<bar> < 2 ^ 232" unfolding abs_le_iff abs_less_iff by simp
  moreover have "fe_val f = 2 ^ 230 * f ! 9 + ?e" by (simp add: F fe_weights_def)
  ultimately show thesis using that by blast
qed

lemma first_quotient:
  fixes t :: int
  assumes "\<bar>t\<bar> \<le> 2000000000"
  shows "\<bar>t div 2 ^ 25\<bar> \<le> 100"
proof -
  have "t div 33554432 \<le> 2000000000 div 33554432" "- 2000000000 div 33554432 \<le> t div 33554432"
    using assms by (intro zdiv_mono1; simp)+
  then show ?thesis by simp
qed

lemma fe_limb_range_val:
  assumes "length h = 10" "fe_limb_range h"
  shows "0 \<le> fe_val h" "fe_val h < 2 ^ 255"
proof -
  obtain h0 h1 h2 h3 h4 h5 h6 h7 h8 h9 where H: "h = [h0, h1, h2, h3, h4, h5, h6, h7, h8, h9]"
    using ten_limbs [OF assms(1)] by blast
  have r: "0 \<le> h0" "h0 < 2 ^ 26" "0 \<le> h1" "h1 < 2 ^ 25" "0 \<le> h2" "h2 < 2 ^ 26" "0 \<le> h3" "h3 < 2 ^ 25"
    "0 \<le> h4" "h4 < 2 ^ 26" "0 \<le> h5" "h5 < 2 ^ 25" "0 \<le> h6" "h6 < 2 ^ 26" "0 \<le> h7" "h7 < 2 ^ 25"
    "0 \<le> h8" "h8 < 2 ^ 26" "0 \<le> h9" "h9 < 2 ^ 25"
    using assms(2) unfolding fe_limb_range_def all_less_10 H fe_width_def by simp_all
  then show "0 \<le> fe_val h" "fe_val h < 2 ^ 255" by (simp_all add: H fe_weights_def)
qed

lemma fe_quotient_25519:
  assumes "fe_bound WIDE f"
  shows "\<exists>q. fe_quotient (zip f (map fe_width [0..<10])) ((19 * f ! 9 + 2 ^ 24) div 2 ^ 25) = Some q \<and> \<bar>q\<bar> \<le> 100 \<and>
    q = fe_val f div p25519"
proof -
  let ?hs = "zip f (map fe_width [0..<10])" and ?t = "19 * f ! 9 + 2 ^ 24"
  note l = fe_bound_length [OF assms]
  have sum: "sum_list (map snd ?hs) = 255" using l by (simp add: upt_10 fe_width_def)
  have hs: "\<forall>h \<in> set ?hs. \<bar>fst h\<bar> \<le> WIDE \<and> (snd h = 25 \<or> snd h = 26)"
    using fe_bound_limb [OF assms] l by (auto simp: in_set_zip fe_width_def)
  have "\<bar>f ! 9\<bar> \<le> WIDE" using fe_bound_limb [OF assms] by simp
  then have "\<bar>?t\<bar> \<le> 2000000000" unfolding abs_le_iff by simp
  note quotient = first_quotient [OF this]
  from fe_quotient_ok [OF hs quotient] obtain q where q: "fe_quotient ?hs (?t div 2 ^ 25) = Some q" "\<bar>q\<bar> \<le> 100"
    "q = (?t div 2 ^ 25 + fe_val f) div 2 ^ 255"
    unfolding fe_radix_val [OF l] sum by blast
  obtain e where e: "fe_val f = 2 ^ 230 * f ! 9 + e" "\<bar>e\<bar> < 2 ^ 232" using fe_val_top [OF assms] by blast
  have z: "X div (2 ^ 25 * 2 ^ 255) = X div 2 ^ 25 div 2 ^ 255" for X :: int by (rule zdiv_zmult2_eq) simp
  have "?t div 2 ^ 25 + fe_val f = (2 ^ 25 * fe_val f + ?t) div 2 ^ 25" by simp
  then have "q = (2 ^ 25 * fe_val f + ?t) div (2 ^ 25 * 2 ^ 255)" using q(3) by (simp only: z)
  then have "q = (2 ^ 25 * fe_val f + ?t) div 2 ^ 280" by simp
  from quotient_25519 [OF e q(2) this] q show ?thesis by blast
qed

lemma fe_tobytes_ok:
  assumes "fe_bound WIDE f"
  shows "\<exists>s. fe_tobytes f = Some s \<and> length s = 32 \<and> le_val s = fe_val f mod p25519"
proof -
  note l = fe_bound_length [OF assms]
  obtain q where q: "fe_quotient (zip f (map fe_width [0..<10])) ((19 * f ! 9 + 2 ^ 24) div 2 ^ 25) = Some q"
      "\<bar>q\<bar> \<le> 100"
    "q = fe_val f div p25519"
    using fe_quotient_25519 [OF assms] by blast
  have b: "\<bar>f ! i\<bar> \<le> WIDE" if "i < 10" for i using fe_bound_limb [OF assms that] .
  let ?h = "f [0 := f ! 0 + 19 * q]"
  have "\<bar>f ! 9\<bar> \<le> WIDE" "\<bar>f ! 0\<bar> \<le> WIDE" using b by simp_all
  then have c: "chk 32 (19 * f ! 9) = Some (19 * f ! 9)" "chk 32 (19 * f ! 9 + 2 ^ 24) = Some (19 * f ! 9 + 2 ^ 24)"
    "chk 32 (19 * q) = Some (19 * q)" "chk 32 (f ! 0 + 19 * q) = Some (f ! 0 + 19 * q)"
    using q(2) by (auto simp: chk_def fits_def abs_le_iff)
  have "\<bar>x\<bar> \<le> 73900000" if x: "x \<in> set ?h" for x
  proof -
    obtain i where i: "i < 10" "x = ?h ! i" using x l unfolding in_set_conv_nth length_list_update by metis
    then show ?thesis using b [OF i(1)] q(2) l by (cases "i = 0") (auto simp: abs_le_iff)
  qed
  then obtain h' d where h': "steps (map fe_carry32 [0..<10]) (?h @ [0]) = Some (h' @ [d])" "length h' = 10" "fe_limb_range h'"
    "fe_val ?h = fe_val h' + 2 ^ 255 * d"
    using fe_carries32_ok [of ?h] l by auto
  have s: "fe_store (h' @ [d]) = fe_store h'" using h'(2) by (simp add: fe_store_def nth_append)
  have "fe_val ?h = fe_val f + 19 * q" using l by (simp add: val_update fe_weights_def)
  also have "\<dots> = fe_val f mod p25519 + 2 ^ 255 * q"
    using minus_div_mult_eq_mod [of "fe_val f" p25519] by (simp add: q(3) p25519_def)
  finally have "fe_val h' = fe_val f mod p25519 + 2 ^ 255 * (q - d)" using h'(4) by simp
  moreover have "0 \<le> fe_val f mod p25519" "fe_val f mod p25519 < 2 ^ 255"
    using pos_mod_bound [of p25519 "fe_val f"] by (simp_all add: p25519_def)
  moreover note fe_limb_range_val [OF h'(2,3)]
  ultimately have "fe_val h' = fe_val f mod p25519" by (metis mod_mult_self2 mod_pos_pos_trivial)
  then have "le_val (fe_store h') = fe_val f mod p25519" using fe_store_val [OF h'(2,3)] by simp
  moreover have "fe_tobytes f = Some (fe_store h')" by (simp only: fe_tobytes_def c q(1) h'(1) s bind.bind_lunit)
  ultimately show ?thesis by simp
qed

section \<open>Bytes and numbers\<close>

lemma digit_cancel:
  fixes a b x y :: int
  assumes "a + 256 * x = b + 256 * y" "0 \<le> a" "a < 256" "0 \<le> b" "b < 256"
  shows "a = b" "x = y"
proof -
  show "a = b" using assms by (metis mod_mult_self2 mod_pos_pos_trivial)
  then show "x = y" using assms(1) by simp
qed

lemma le_val_inject: "length s = length t \<Longrightarrow> le_val s = le_val t \<Longrightarrow> s = t"
proof (induction s t rule: list_induct2)
  case (Cons a s b t)
  have "uint a < 256" "uint b < 256" using uint_lt2p [of a] uint_lt2p [of b] by simp_all
  moreover have "0 \<le> uint a" "0 \<le> uint b" by simp_all
  moreover have "uint a + 256 * le_val s = uint b + 256 * le_val t" using Cons.prems by simp
  ultimately have "uint a = uint b" "le_val s = le_val t" using digit_cancel by blast+
  then show ?case using Cons.IH by (simp add: word_uint_eq_iff)
qed simp

lemma le_val_eq_0: "le_val s = 0 \<longleftrightarrow> (\<forall>b \<in> set s. b = 0)"
proof (induction s)
  case (Cons b s)
  have "uint b + 256 * le_val s = 0 \<longleftrightarrow> uint b = 0 \<and> le_val s = 0"
    using le_val_nonneg [of s] unsigned_greater_eq [of b] by (simp add: add_nonneg_eq_0_iff)
  moreover have "uint b = 0 \<longleftrightarrow> b = 0" by (simp only: uint_0_iff)
  ultimately show ?case using Cons by simp
qed simp

lemma fold_or_eq_0: "fold (OR) s b = 0 \<longleftrightarrow> (b :: u8) = 0 \<and> (\<forall>x \<in> set s. x = 0)"
  by (induction s arbitrary: b) (auto simp: or_eq_0_iff)

lemma le_val_hd: "s \<noteq> [] \<Longrightarrow> uint (s ! 0) mod 2 = le_val s mod 2"
  by (cases s) (simp_all add: mod_add_right_eq [symmetric] mult.assoc)

lemma fe_isnonzero_ok:
  assumes "fe_bound WIDE f"
  shows "fe_isnonzero f = Some (fe_val f mod p25519 \<noteq> 0)"
proof -
  obtain s where s: "fe_tobytes f = Some s" "length s = 32"
      "le_val s = fe_val f mod p25519" using fe_tobytes_ok [OF assms] by blast
  then obtain b t where "s = b # t" by (cases s) auto
  then show ?thesis using s(1,3) le_val_eq_0 [of s] by (simp add: fe_isnonzero_def fold_or_eq_0)
qed

lemma fe_isnegative_ok:
  assumes "fe_bound WIDE f"
  shows "fe_isnegative f = Some (if odd (fe_val f mod p25519) then 1 else 0)"
proof -
  obtain s where s: "fe_tobytes f = Some s" "length s = 32"
      "le_val s = fe_val f mod p25519" using fe_tobytes_ok [OF assms] by blast
  have "s ! 0 AND 1 = (if odd (s ! 0) then 1 else 0)" by (simp add: and_one_eq mod_2_eq_odd)
  moreover have "odd (s ! 0) \<longleftrightarrow> odd (uint (s ! 0))" by (simp add: bit_uint_iff flip: bit_0)
  moreover have "odd (uint (s ! 0)) \<longleftrightarrow> odd (le_val s)" using le_val_hd [of s] s(2) by (fastforce simp: odd_iff_mod_2_eq_one)
  ultimately show ?thesis using s by (simp add: fe_isnegative_def)
qed

section \<open>Conditional moves\<close>

lemma fits_signed: "fits 32 x \<Longrightarrow> signed_take_bit 31 x = x"
  by (simp add: fits_def signed_take_bit_int_eq_self_iff)

lemma signed_take_bit_xor_int: "signed_take_bit n (x XOR y :: int) = signed_take_bit n x XOR signed_take_bit n y"
  by (rule bit_eqI) (simp add: bit_simps)

lemma fe_mask_0 [simp]: "fe_mask 0 x = 0"
  by (simp add: fe_mask_def)

lemma fe_mask_1: "fits 32 x \<Longrightarrow> fits 32 y \<Longrightarrow> fe_mask 1 (x XOR y) = x XOR y"
  by (simp add: fe_mask_def signed_of_int signed_take_bit_xor_int fits_signed)

lemma fe_cmov_ok:
  assumes "length f = length g" "list_all (fits 32) f" "list_all (fits 32) g" "b = 0 \<or> b = 1"
  shows "fe_cmov f g b = (if b = 1 then g else f)"
  using assms
  by (induction f g rule: list_induct2) (auto simp: fe_cmov_def fe_mask_1 simp flip: xor.assoc)

lemma fe_cswap_ok:
  assumes "length f = length g" "list_all (fits 32) f" "list_all (fits 32) g" "b = 0 \<or> b = 1"
  shows "fe_cswap f g b = (if b = 1 then (g, f) else (f, g))"
  using assms
  by (induction f g rule: list_induct2) (auto simp: fe_cswap_def fe_mask_1 xor.left_commute simp flip: xor.assoc)

section \<open>The field\<close>

text \<open>
  C38. For arguments in the bounds that the comments of \<open>fe.c\<close> ask for (1.65 * 2^26 and 1.65 * 2^25), \<open>fe_mul\<close> overflows nowhere,
  keeps the bounds it promises, and its result represents the product modulo 2^255 - 19; \<open>fe_sq\<close>, which sums fewer
  products, is \<open>fe_mul\<close> of the number with itself.
\<close>

theorem fe_mul_correct:
  assumes "fe_bound MUL_ARG f" "fe_bound MUL_ARG g"
  shows "(\<exists>h. fe_mul f g = Some h \<and> fe_bound PRODUCT h \<and> fe_val h mod p25519 = (fe_val f * fe_val g) mod p25519)
    \<and> fe_sq f = fe_mul f f"
  using fe_mul_ok [OF assms] by (simp add: fe_sq_def fe_mul_def fe_sq_sums_eq fe_mul_sums_eq assms)

theorem fe_mul_correct_witness:
  "let f = [110729625, - 55364812, 7, 0, 0, 0, 0, 0, - 110729625, 55364812]; g = replicate 10 (- 55364812) in
   fe_bound MUL_ARG f \<and> fe_bound MUL_ARG g \<and>
   (\<exists>h. fe_mul f g = Some h \<and> fe_bound PRODUCT h \<and> fe_val h mod p25519 = (fe_val f * fe_val g) mod p25519) \<and> fe_sq f = fe_mul f f"
proof -
  have f: "fe_bound MUL_ARG [110729625, - 55364812, 7, 0, 0, 0, 0, 0, - 110729625, 55364812]"
    and g: "fe_bound MUL_ARG (replicate 10 (- 55364812))"
    unfolding fe_bound_def all_less_10 by simp_all
  from fe_mul_correct [OF f g] f g show ?thesis unfolding Let_def by blast
qed

text \<open>
  \<open>fe_invert\<close> and \<open>fe_pow22523\<close>, whose chains square up to a hundred times in a row, return the powers 2^255 - 21 (the modulus
  less 2) and 2^252 - 3 of the number, and no step overflows.
\<close>

lemma fe_powers_correct:
  assumes "fe_bound MUL_ARG z"
  shows "(\<exists>r. fe_invert z = Some r \<and> fe_bound MUL_ARG r \<and> fe_val r mod p25519 = fe_val z ^ (2 ^ 255 - 21) mod p25519)
    \<and> (\<exists>r. fe_pow22523 z = Some r \<and> fe_bound MUL_ARG r \<and> fe_val r mod p25519 = fe_val z ^ (2 ^ 252 - 3) mod p25519)"
  using fe_invert_power [OF assms] fe_pow22523_power [OF assms] unfolding fe_power_def by blast

theorem fe_powers_correct_witness:
  "let z = [2, 0, 0, 0, 0, 0, 0, 0, 0, - 1] in fe_bound MUL_ARG z \<and>
   (\<exists>r. fe_invert z = Some r \<and> fe_bound MUL_ARG r \<and> fe_val r mod p25519 = fe_val z ^ (2 ^ 255 - 21) mod p25519) \<and>
   (\<exists>r. fe_pow22523 z = Some r \<and> fe_bound MUL_ARG r \<and> fe_val r mod p25519 = fe_val z ^ (2 ^ 252 - 3) mod p25519)"
proof -
  have z: "fe_bound MUL_ARG [2, 0, 0, 0, 0, 0, 0, 0, 0, - 1]" unfolding fe_bound_def all_less_10 by simp
  from fe_powers_correct [OF z] z show ?thesis unfolding Let_def by blast
qed

text \<open>
  \<open>fe_frombytes\<close> reads any 32 bytes (the top bit is ignored) within the bounds of a product, and \<open>fe_tobytes\<close> gives the bytes of
  the same number, reduced to below 2^255 - 19: the same 32 bytes, when they are a reduced number.
\<close>

lemma fe_bytes_roundtrip:
  assumes "length s = 32"
  shows "\<exists>h t. fe_frombytes s = Some h \<and> fe_bound PRODUCT h \<and> fe_tobytes h = Some t \<and> length t = 32 \<and>
    le_val t = (le_val s mod 2 ^ 255) mod p25519 \<and> (le_val s < p25519 \<longrightarrow> t = s)"
proof -
  obtain h where h: "fe_frombytes s = Some h" "fe_bound PRODUCT h" "fe_val h mod p25519 = (le_val s mod 2 ^ 255) mod p25519"
    using fe_frombytes_ok [OF assms] by blast
  obtain t where t: "fe_tobytes h = Some t" "length t = 32" "le_val t = fe_val h mod p25519"
    using fe_tobytes_ok [OF fe_bound_mono [OF h(2)]] by auto
  have "t = s" if "le_val s < p25519"
  proof -
    have "le_val s < 2 ^ 255" using that by (simp add: p25519_def)
    then have "le_val t = le_val s" using t(3) h(3) le_val_nonneg [of s] that by simp
    then show ?thesis using le_val_inject t(2) assms by simp
  qed
  then show ?thesis using h t by auto
qed

theorem fe_bytes_roundtrip_witness:
  "\<exists>h t. fe_frombytes (9 # replicate 31 0) = Some h \<and> fe_bound PRODUCT h \<and> fe_tobytes h = Some t \<and> length t = 32 \<and>
    le_val t = (le_val (9 # replicate 31 0) mod 2 ^ 255) mod p25519 \<and>
    (le_val (9 # replicate 31 0) < p25519 \<longrightarrow> t = 9 # replicate 31 0)"
  by (rule fe_bytes_roundtrip) simp

text \<open>
  C39. The bytes of a field element in the bounds of a sum are canonical: \<open>fe_tobytes\<close> does not overflow in its carries and stores
  the number modulo 2^255 - 19, so that two elements have the same bytes exactly when they are congruent;
  \<open>fe_isnonzero\<close> and \<open>fe_isnegative\<close> read from them whether the element is not zero, and whether it is odd.
\<close>

theorem fe_tobytes_canonical:
  assumes "fe_bound WIDE f" "fe_bound WIDE g"
  shows "(\<exists>s. fe_tobytes f = Some s \<and> length s = 32 \<and> le_val s = fe_val f mod p25519) \<and>
    (fe_tobytes f = fe_tobytes g \<longleftrightarrow> fe_val f mod p25519 = fe_val g mod p25519) \<and>
    fe_isnonzero f = Some (fe_val f mod p25519 \<noteq> 0) \<and>
    fe_isnegative f = Some (if odd (fe_val f mod p25519) then 1 else 0)"
proof -
  obtain s where s: "fe_tobytes f = Some s" "length s = 32"
      "le_val s = fe_val f mod p25519" using fe_tobytes_ok [OF assms(1)] by blast
  obtain t where t: "fe_tobytes g = Some t" "length t = 32"
      "le_val t = fe_val g mod p25519" using fe_tobytes_ok [OF assms(2)] by blast
  have "fe_tobytes f = fe_tobytes g \<longleftrightarrow> fe_val f mod p25519 = fe_val g mod p25519"
    using s t le_val_inject [of s t] by auto
  then show ?thesis using s fe_isnonzero_ok [OF assms(1)] fe_isnegative_ok [OF assms(1)] by simp
qed

theorem fe_tobytes_canonical_witness:
  "let f = replicate 10 (- 36909875); g = [- 19, 0, 0, 0, 0, 0, 0, 0, 0, 33554432] in
   fe_bound WIDE f \<and> fe_bound WIDE g \<and> (\<exists>s. fe_tobytes g = Some s \<and> length s = 32 \<and> le_val s = fe_val g mod p25519) \<and>
   (fe_tobytes g = fe_tobytes f \<longleftrightarrow> fe_val g mod p25519 = fe_val f mod p25519) \<and> fe_isnonzero g = Some False"
proof -
  have f: "fe_bound WIDE (replicate 10 (- 36909875))" and g: "fe_bound WIDE [- 19, 0, 0, 0, 0, 0, 0, 0, 0, 33554432]"
    unfolding fe_bound_def all_less_10 by simp_all
  have "fe_val [- 19, 0, 0, 0, 0, 0, 0, 0, 0, 33554432] mod p25519 = 0" by (simp add: fe_weights_def p25519_def)
  with fe_tobytes_canonical [OF g f] f g show ?thesis unfolding Let_def by simp
qed

end
