(* ===== verification/Scalar.thy ===== *)
theory Scalar
  imports FieldBytes
begin

text \<open>
  \<open>external/ed25519/sc.c\<close>: numbers modulo the order \<open>l\<close> of the base point, in limbs of 21 bits. As in \<open>FieldElement\<close>, \<open>None\<close> is
  signed overflow of 64 bits; here no hypothesis is needed to exclude it, and the result is the remainder itself.
\<close>

section \<open>The code\<close>

text \<open>Limb \<open>i\<close> begins at bit \<open>21 * i\<close>; three bytes are loaded where they hold it, otherwise four.\<close>

definition sc_limb :: "bytes \<Rightarrow> nat \<Rightarrow> u64" where
  "sc_limb s i =
     (let b = drop (21 * i div 8) s; n = 21 * i mod 8 in drop_bit n (if n \<le> 3 then load_3 b else load_4 b))"

text \<open>\<open>n + 1\<close> limbs; the last one is not masked.\<close>

definition sc_load :: "nat \<Rightarrow> bytes \<Rightarrow> limbs" where
  "sc_load n s = map (\<lambda>i. uint (2097151 AND sc_limb s i)) [0..<n] @ [uint (drop_bit (21 * n mod 8) (load_4 (drop (21 * n div 8) s)))]"

text \<open>\<open>carry_i = (s_i + (1 << 20)) >> 21; s_i+1 += carry_i; s_i -= carry_i << 21;\<close> and without the rounding.\<close>

definition sc_round :: "nat \<Rightarrow> limbs \<Rightarrow> limbs option" where
  "sc_round i = carry 64 (2 ^ 20) 21 i (i + 1) 1"

definition sc_floor :: "nat \<Rightarrow> limbs \<Rightarrow> limbs option" where
  "sc_floor i = carry 64 0 21 i (i + 1) 1"

text \<open>Limb \<open>k\<close> is folded into six lower ones.\<close>

definition sc_fold :: "nat \<Rightarrow> limbs \<Rightarrow> limbs option" where
  "sc_fold k = steps [addmul 64 k (k - 12) 666643, addmul 64 k (k - 11) 470296, addmul 64 k (k - 10) 654183,
     addmul 64 k (k - 9) (- 997805), addmul 64 k (k - 8) 136657, addmul 64 k (k - 7) (- 683901), zero_limb k]"

definition sc_reduce_limbs :: "limbs \<Rightarrow> limbs option" where
  "sc_reduce_limbs = steps
     (map sc_fold [23, 22, 21, 20, 19, 18] @ map sc_round [6, 8, 10, 12, 14, 16, 7, 9, 11, 13, 15] @
      map sc_fold [17, 16, 15, 14, 13, 12] @ map sc_round [0, 2, 4, 6, 8, 10, 1, 3, 5, 7, 9, 11] @
      [sc_fold 12] @ map sc_floor [0, 1, 2, 3, 4, 5, 6, 7, 8, 9, 10, 11] @
      [sc_fold 12] @ map sc_floor [0, 1, 2, 3, 4, 5, 6, 7, 8, 9, 10])"

definition sc_store :: "limbs \<Rightarrow> bytes" where
  "sc_store s = map word_of_int [
      s ! 0, s ! 0 div 2 ^ 8, (s ! 0 div 2 ^ 16) OR (s ! 1 * 2 ^ 5), s ! 1 div 2 ^ 3, s ! 1 div 2 ^ 11,
      (s ! 1 div 2 ^ 19) OR (s ! 2 * 2 ^ 2), s ! 2 div 2 ^ 6, (s ! 2 div 2 ^ 14) OR (s ! 3 * 2 ^ 7),
      s ! 3 div 2 ^ 1, s ! 3 div 2 ^ 9, (s ! 3 div 2 ^ 17) OR (s ! 4 * 2 ^ 4), s ! 4 div 2 ^ 4,
      s ! 4 div 2 ^ 12, (s ! 4 div 2 ^ 20) OR (s ! 5 * 2 ^ 1), s ! 5 div 2 ^ 7, (s ! 5 div 2 ^ 15) OR (s ! 6 * 2 ^ 6),
      s ! 6 div 2 ^ 2, s ! 6 div 2 ^ 10, (s ! 6 div 2 ^ 18) OR (s ! 7 * 2 ^ 3), s ! 7 div 2 ^ 5,
      s ! 7 div 2 ^ 13, s ! 8, s ! 8 div 2 ^ 8, (s ! 8 div 2 ^ 16) OR (s ! 9 * 2 ^ 5),
      s ! 9 div 2 ^ 3, s ! 9 div 2 ^ 11, (s ! 9 div 2 ^ 19) OR (s ! 10 * 2 ^ 2), s ! 10 div 2 ^ 6,
      (s ! 10 div 2 ^ 14) OR (s ! 11 * 2 ^ 7), s ! 11 div 2 ^ 1, s ! 11 div 2 ^ 9, s ! 11 div 2 ^ 17]"

definition sc_reduce :: "bytes \<Rightarrow> bytes option" where
  "sc_reduce s = map_option sc_store (sc_reduce_limbs (sc_load 23 s))"

text \<open>\<open>s_k = c_k + a_0 * b_k + a_1 * b_k-1 + \<dots>\<close>, with the limbs that there are.\<close>

definition sc_products :: "limbs \<Rightarrow> limbs \<Rightarrow> limbs \<Rightarrow> limbs option" where
  "sc_products a b c = those (map (\<lambda>k. dot_from 64 (if k < 12 then c ! k else 0)
     (map (\<lambda>i. (a ! i, b ! (k - i))) (filter (\<lambda>i. i \<le> k \<and> k - i < 12) [0..<12]))) [0..<23])"

definition sc_muladd :: "bytes \<Rightarrow> bytes \<Rightarrow> bytes \<Rightarrow> bytes option" where
  "sc_muladd a b c = do {
     s \<leftarrow> sc_products (sc_load 11 a) (sc_load 11 b) (sc_load 11 c);
     s' \<leftarrow> steps (map sc_round [0, 2, 4, 6, 8, 10, 12, 14, 16, 18, 20, 22, 1, 3, 5, 7, 9, 11, 13, 15, 17, 19, 21]) (s @ [0]);
     map_option sc_store (sc_reduce_limbs s')
   }"

section \<open>The reduction\<close>

definition sc_order :: int where
  "sc_order = 2 ^ 252 + 27742317777372353535851937790883648493"

definition sc_weights :: "nat \<Rightarrow> int list" where
  "sc_weights n = map (\<lambda>i. 2 ^ (21 * i)) [0..<n]"

lemma length_sc_weights [simp]: "length (sc_weights n) = n"
  by (simp add: sc_weights_def)

lemma nth_sc_weights: "i < n \<Longrightarrow> sc_weights n ! i = 2 ^ (21 * i)"
  by (simp add: sc_weights_def)

text \<open>The intervals of the limbs follow the code.\<close>

definition sc_around :: "nat \<Rightarrow> ivls \<Rightarrow> ivls option" where
  "sc_around i = acarry 64 (2 ^ 20) 21 i (i + 1) 1"

definition sc_afloor :: "nat \<Rightarrow> ivls \<Rightarrow> ivls option" where
  "sc_afloor i = acarry 64 0 21 i (i + 1) 1"

primrec asteps :: "(ivls \<Rightarrow> ivls option) list \<Rightarrow> ivls \<Rightarrow> ivls option" where
  "asteps [] B = Some B"
| "asteps (f # fs) B = (case f B of None \<Rightarrow> None | Some B' \<Rightarrow> asteps fs B')"

lemma asteps_eq: "asteps fs B = steps fs B"
  by (induction fs arbitrary: B) (simp_all split: option.split)

definition sc_afold :: "nat \<Rightarrow> ivls \<Rightarrow> ivls option" where
  "sc_afold k = asteps [aaddmul 64 k (k - 12) 666643, aaddmul 64 k (k - 11) 470296, aaddmul 64 k (k - 10) 654183,
     aaddmul 64 k (k - 9) (- 997805), aaddmul 64 k (k - 8) 136657, aaddmul 64 k (k - 7) (- 683901), azero_limb k]"

lemma sound_sc_steps: "sound (sc_round i) (sc_around i)" "sound (sc_floor i) (sc_afloor i)" "sound (sc_fold i) (sc_afold i)"
  by (auto simp: sc_round_def sc_around_def sc_floor_def sc_afloor_def sc_fold_def sc_afold_def asteps_eq [abs_def]
    simp del: steps.simps intro!: sound_carry sound_steps sound_addmul sound_zero_limb)

lemma sound_segment:
  "list_all2 sound fs gs \<Longrightarrow> (\<And>i. sound (F i) (G i)) \<Longrightarrow> list_all2 sound (map F is @ fs) (map G is @ gs)"
  by (induction "is") simp_all

text \<open>The first part ends with limb 12 as the quotient by \<open>2 ^ 252\<close>; the second takes it away.\<close>

definition sc_first :: "limbs \<Rightarrow> limbs option" where
  "sc_first = steps
     (map sc_fold [23, 22, 21, 20, 19, 18] @ map sc_round [6, 8, 10, 12, 14, 16, 7, 9, 11, 13, 15] @
      map sc_fold [17, 16, 15, 14, 13, 12] @ map sc_round [0, 2, 4, 6, 8, 10, 1, 3, 5, 7, 9, 11] @
      map sc_fold [12] @ map sc_floor [0, 1, 2, 3, 4, 5, 6, 7, 8, 9, 10, 11] @ [])"

lemma sc_reduce_limbs_parts:
  "sc_reduce_limbs s = Option.bind (sc_first s) (\<lambda>s. Option.bind (sc_fold 12 s) (steps (map sc_floor [0, 1, 2, 3, 4, 5, 6, 7, 8, 9, 10])))"
proof -
  have "steps (fs @ [f] @ gs) s = Option.bind (steps fs s) (\<lambda>s. Option.bind (f s) (steps gs))" for fs f gs
    by (cases "steps fs s") (simp_all add: steps_append)
  from this [of "map sc_fold [23, 22, 21, 20, 19, 18] @ map sc_round [6, 8, 10, 12, 14, 16, 7, 9, 11, 13, 15] @
      map sc_fold [17, 16, 15, 14, 13, 12] @ map sc_round [0, 2, 4, 6, 8, 10, 1, 3, 5, 7, 9, 11] @
      map sc_fold [12] @ map sc_floor [0, 1, 2, 3, 4, 5, 6, 7, 8, 9, 10, 11] @ []" "sc_fold 12"
      "map sc_floor [0, 1, 2, 3, 4, 5, 6, 7, 8, 9, 10]"]
  show ?thesis by (simp only: sc_reduce_limbs_def sc_first_def append_assoc append_Nil2 append_Nil list.map)
qed

definition sc_afirst :: "ivls \<Rightarrow> ivls option" where
  "sc_afirst = asteps
     (map sc_afold [23, 22, 21, 20, 19, 18] @ map sc_around [6, 8, 10, 12, 14, 16, 7, 9, 11, 13, 15] @
      map sc_afold [17, 16, 15, 14, 13, 12] @ map sc_around [0, 2, 4, 6, 8, 10, 1, 3, 5, 7, 9, 11] @
      map sc_afold [12] @ map sc_afloor [0, 1, 2, 3, 4, 5, 6, 7, 8, 9, 10, 11] @ [])"

lemma sound_first: "sound sc_first sc_afirst"
  unfolding sc_first_def sc_afirst_def asteps_eq [abs_def]
  by (intro sound_steps sound_segment sound_sc_steps list_all2_Nil [THEN iffD2] refl)

definition sc_quotient_ivls :: ivls where
  "sc_quotient_ivls = replicate 12 (0, 2097151) @ [(- 1, 0)] @ replicate 11 (0, 0)"

lemma sc_first_limits: "sc_afirst (replicate 24 (- 536870912, 536870912)) = Some sc_quotient_ivls"
  unfolding sc_quotient_ivls_def by code_simp

definition sc_mul_rounds :: "nat list" where
  "sc_mul_rounds = [0, 2, 4, 6, 8, 10, 12, 14, 16, 18, 20, 22, 1, 3, 5, 7, 9, 11, 13, 15, 17, 19, 21]"

lemma sc_mul_limits:
  "Option.bind (asteps (map sc_around sc_mul_rounds) (replicate 23 (- 18014398509481984, 18014398509481984) @ [(0, 0)])) sc_afirst =
    Some sc_quotient_ivls"
  unfolding sc_quotient_ivls_def by code_simp

text \<open>What a step does to the number: a carry keeps it, a fold takes away a multiple of the order.\<close>

lemma val_addmul:
  assumes "addmul n k j m s = Some s'" "j < length s" "j \<noteq> k" "length s \<le> length ws"
  shows "val ws s' = val ws s + ws ! j * m * s ! k" "s' ! k = s ! k" "length s' = length s"
  using assms addmul_Some [OF assms(1)] by (simp_all add: val_update algebra_simps)

lemma val_addmuls:
  assumes "steps (map (\<lambda>(j, m). addmul n k j m) jms) s = Some s'" "\<forall>(j, m) \<in> set jms. j < length s \<and> j \<noteq> k" "length s \<le> length ws"
  shows "val ws s' = val ws s + (\<Sum>(j, m) \<leftarrow> jms. ws ! j * m) * s ! k \<and> s' ! k = s ! k \<and> length s' = length s"
  using assms(1,2,3)
proof (induction jms arbitrary: s)
  case (Cons p jms)
  obtain j m where p: "p = (j, m)" by fastforce
  obtain s1 where 1: "addmul n k j m s = Some s1" "steps (map (\<lambda>(j, m). addmul n k j m) jms) s1 = Some s'"
    using Cons.prems(1) by (auto simp: p bind_eq_Some_conv)
  have j: "j < length s" "j \<noteq> k" using Cons.prems(2) by (simp_all add: p)
  note v = val_addmul [OF 1(1) j Cons.prems(3)]
  have "\<forall>(j, m) \<in> set jms. j < length s1 \<and> j \<noteq> k" "length s1 \<le> length ws" using Cons.prems v(3) by auto
  from Cons.IH [OF 1(2) this] show ?case by (simp add: v p algebra_simps)
qed simp

lemma steps_single: "steps [f] = f"
  by (rule ext) (simp split: bind_split)

definition sc_folds :: "nat \<Rightarrow> (nat \<times> int) list" where
  "sc_folds k = [(k - 12, 666643), (k - 11, 470296), (k - 10, 654183), (k - 9, - 997805), (k - 8, 136657), (k - 7, - 683901)]"

lemma sc_fold_table:
  "list_all (\<lambda>k. (\<Sum>(j, m) \<leftarrow> sc_folds k. sc_weights 24 ! j * m) - sc_weights 24 ! k = - (sc_order * 2 ^ (21 * (k - 12)))) [12..<24]"
  by code_simp

lemma sc_fold_val:
  assumes "sc_fold k s = Some s'" "12 \<le> k" "k < 24" "length s = 24"
  shows "val (sc_weights 24) s' = val (sc_weights 24) s - sc_order * (2 ^ (21 * (k - 12)) * s ! k)" "length s' = 24"
proof -
  let ?ws = "sc_weights 24"
  have f: "sc_fold k = (\<lambda>s. Option.bind (steps (map (\<lambda>(j, m). addmul 64 k j m) (sc_folds k)) s) (zero_limb k))"
  proof (rule ext)
    fix s
    have "sc_fold k = steps (map (\<lambda>(j, m). addmul 64 k j m) (sc_folds k) @ [zero_limb k])" by (simp add: sc_fold_def sc_folds_def)
    then show "sc_fold k s = Option.bind (steps (map (\<lambda>(j, m). addmul 64 k j m) (sc_folds k)) s) (zero_limb k)"
      by (simp only: steps_append steps_single)
  qed
  obtain s1 where 1: "steps (map (\<lambda>(j, m). addmul 64 k j m) (sc_folds k)) s = Some s1" "s' = s1[k := 0]"
    using assms(1) unfolding f bind_eq_Some_conv zero_limb_def by blast
  have "\<forall>(j, m) \<in> set (sc_folds k). j < length s \<and> j \<noteq> k" using assms by (auto simp: sc_folds_def)
  from val_addmuls [OF 1(1) this, of ?ws]
  have v: "val ?ws s1 = val ?ws s + (\<Sum>(j, m) \<leftarrow> sc_folds k. ?ws ! j * m) * s ! k" "s1 ! k = s ! k" "length s1 = 24"
    using assms(4) by simp_all
  have "k \<in> set [12..<24]" using assms by (simp only: set_upt atLeastLessThan_iff)
  then have t: "(\<Sum>(j, m) \<leftarrow> sc_folds k. ?ws ! j * m) - ?ws ! k = - (sc_order * 2 ^ (21 * (k - 12)))"
    using sc_fold_table unfolding list_all_iff by blast
  have "val ?ws s' = val ?ws s + ((\<Sum>(j, m) \<leftarrow> sc_folds k. ?ws ! j * m) - ?ws ! k) * s ! k"
    using v assms(3) by (simp add: 1(2) val_update left_diff_distrib)
  then show "val ?ws s' = val ?ws s - sc_order * (2 ^ (21 * (k - 12)) * s ! k)" unfolding t by simp
  show "length s' = 24" using v(3) 1(2) by simp
qed

lemma congruent_sc_fold: "12 \<le> k \<Longrightarrow> k < 24 \<Longrightarrow> congruent (sc_weights 24) sc_order (sc_fold k)"
  unfolding congruent_def using sc_fold_val by (simp add: mod_diff_eq [symmetric])

lemma sc_weight_next: "i < 23 \<Longrightarrow> sc_weights 24 ! (i + 1) = sc_weights 24 ! i * 2 ^ 21"
  by (simp add: nth_sc_weights power_add)

lemma congruent_sc_carry: "i < 23 \<Longrightarrow> congruent (sc_weights 24) q (sc_round i)" "i < 23 \<Longrightarrow> congruent (sc_weights 24) q (sc_floor i)"
  unfolding sc_round_def sc_floor_def by (rule congruent_carry; simp add: sc_weight_next [simplified])+

lemma congruent_sc_first: "congruent (sc_weights 24) sc_order sc_first"
  unfolding sc_first_def by (intro congruent_steps) (auto intro: congruent_sc_fold congruent_sc_carry)

lemma congruent_sc_mul_rounds: "congruent (sc_weights 24) q (steps (map sc_round sc_mul_rounds))"
  unfolding sc_mul_rounds_def by (intro congruent_steps) (auto intro: congruent_sc_carry)

lemma congruent_sc_last: "congruent (sc_weights 24) q (steps (map sc_floor [0, 1, 2, 3, 4, 5, 6, 7, 8, 9, 10]))"
  by (intro congruent_steps) (auto intro: congruent_sc_carry)

section \<open>Bytes and limbs\<close>

lemma uint_drop_bit: "uint (drop_bit n (w :: u64)) = drop_bit n (uint w)"
proof -
  have "take_bit 64 (uint w) = uint w" using uint_lt2p [of w] by (intro take_bit_int_eq_self) simp_all
  then show ?thesis by (simp add: unsigned_drop_bit_eq)
qed

lemma div_pow_less:
  fixes x :: int
  assumes "x < 2 ^ (a + k)"
  shows "x div 2 ^ a < 2 ^ k"
proof (rule ccontr)
  assume "\<not> x div 2 ^ a < 2 ^ k"
  then have "2 ^ a * 2 ^ k \<le> 2 ^ a * (x div 2 ^ a)" by simp
  moreover have "2 ^ a * (x div 2 ^ a) \<le> x" 
  proof -
    have "0 \<le> x mod 2 ^ a" by simp
    then show ?thesis using mult_div_mod_eq [of "2 ^ a" x] by linarith
  qed
  ultimately have "2 ^ a * 2 ^ k \<le> x" by (rule order_trans)
  then show False using assms by (simp add: power_add)
qed

lemma le_val_drop: "le_val (drop o' s) = le_val s div 256 ^ o'"
proof (cases "o' \<le> length s")
  case True
  have "le_val s = le_val (take o' s) + 256 ^ o' * le_val (drop o' s)"
    using le_val_append [of "take o' s" "drop o' s"] True by simp
  moreover have "le_val (take o' s) < 256 ^ o'" using le_val_less [of "take o' s"] True by simp
  ultimately show ?thesis using le_val_nonneg by simp
next
  case False
  have "le_val s < 256 ^ length s" by (rule le_val_less)
  also have "(256 :: int) ^ length s \<le> 256 ^ o'" using False by (intro power_increasing) simp_all
  finally show ?thesis using False le_val_nonneg [of s] by simp
qed

lemma le_val_take: "le_val (take n s) = le_val s mod 256 ^ n"
proof (cases "n \<le> length s")
  case True
  have "le_val s = le_val (take n s) + 256 ^ n * le_val (drop n s)"
    using le_val_append [of "take n s" "drop n s"] True by simp
  moreover have "le_val (take n s) < 256 ^ n" using le_val_less [of "take n s"] True by simp
  ultimately show ?thesis using le_val_nonneg [of "take n s"] by simp
next
  case False
  have "le_val s < 256 ^ length s" by (rule le_val_less)
  also have "(256 :: int) ^ length s \<le> 256 ^ n" using False by (intro power_increasing) simp_all
  finally show ?thesis using False le_val_nonneg [of s] by simp
qed

text \<open>The bits of a number that a word of \<open>m\<close> bytes holds.\<close>

lemma limb_of_bytes:
  fixes v :: int
  assumes "n + 21 \<le> 8 * m"
  shows "take_bit 21 (drop_bit n (take_bit (8 * m) (drop_bit (8 * k) v))) = take_bit 21 (drop_bit (8 * k + n) v)"
  using assms by (intro bit_eqI) (auto simp: bit_simps ac_simps)

lemma uint_sc_limb:
  assumes "21 * i div 8 + 4 \<le> length s"
  shows "uint (2097151 AND sc_limb s i) = take_bit 21 (drop_bit (21 * i) (le_val s))"
proof -
  define k n where "k = 21 * i div 8" and "n = 21 * i mod 8"
  have i: "21 * i = 8 * k + n" "n < 8" by (simp_all add: k_def n_def)
  have p: "(256 :: int) ^ j = 2 ^ (8 * j)" for j by (simp add: power_mult)
  have l: "uint (load_3 (drop k s)) = take_bit (8 * 3) (drop_bit (8 * k) (le_val s))"
    "uint (load_4 (drop k s)) = take_bit (8 * 4) (drop_bit (8 * k) (le_val s))"
    using assms unfolding k_def [symmetric]
    by (simp_all only: load_le_val length_drop le_val_take le_val_drop p take_bit_eq_mod drop_bit_eq_div)
  have m: "(2097151 :: u64) = mask 21" by (simp add: mask_eq_exp_minus_1)
  have "uint (2097151 AND drop_bit n w) = take_bit 21 (drop_bit n (uint w))" for w :: u64
    by (simp only: m and.commute [of "mask 21"] take_bit_eq_mask [symmetric] unsigned_take_bit_eq uint_drop_bit)
  then have "uint (2097151 AND sc_limb s i) = take_bit 21 (drop_bit n (if n \<le> 3 then uint (load_3 (drop k s)) else uint (load_4 (drop k s))))"
    by (simp add: sc_limb_def Let_def k_def n_def)
  also have "\<dots> = take_bit 21 (drop_bit (21 * i) (le_val s))"
    using i(2) limb_of_bytes [of n 3 k "le_val s"] limb_of_bytes [of n 4 k "le_val s"] unfolding l i(1) by auto
  finally show ?thesis .
qed

text \<open>Digits of 21 bits.\<close>

lemma digits_21:
  "(\<Sum>i < n. 2 ^ (21 * i) * take_bit 21 (drop_bit (21 * i) v)) + 2 ^ (21 * n) * (drop_bit (21 * n) v) = (v :: int)"
proof (induction n)
  case (Suc n)
  have "drop_bit (21 * n) v = take_bit 21 (drop_bit (21 * n) v) + 2 ^ 21 * drop_bit (21 * Suc n) v"
    using bits_ident [of 21 "drop_bit (21 * n) v"]
    by (simp only: drop_bit_drop_bit push_bit_eq_mult mult_Suc_right) (simp only: ac_simps)
  then have "2 ^ (21 * n) * drop_bit (21 * n) v =
      2 ^ (21 * n) * take_bit 21 (drop_bit (21 * n) v) + 2 ^ (21 * n) * (2 ^ 21 * drop_bit (21 * Suc n) v)"
    by (simp only: distrib_left [symmetric])
  also have "(2 :: int) ^ (21 * n) * (2 ^ 21 * drop_bit (21 * Suc n) v) = 2 ^ (21 * Suc n) * drop_bit (21 * Suc n) v"
    by (simp add: power_add)
  finally have "2 ^ (21 * n) * drop_bit (21 * n) v =
      2 ^ (21 * n) * take_bit 21 (drop_bit (21 * n) v) + 2 ^ (21 * Suc n) * drop_bit (21 * Suc n) v" .
  with Suc show ?case by simp
qed simp

lemma val_sc_weights: "length s = n \<Longrightarrow> val (sc_weights n) s = (\<Sum>i < n. 2 ^ (21 * i) * s ! i)"
  by (simp add: val_sum nth_sc_weights)

lemma length_sc_load [simp]: "length (sc_load n s) = n + 1"
  by (simp add: sc_load_def)

lemma sc_load_nth:
  assumes "21 * n div 8 + 4 = length s" "i \<le> n"
  shows "sc_load n s ! i = (if i = n then drop_bit (21 * n) (le_val s) else take_bit 21 (drop_bit (21 * i) (le_val s)))"
proof (cases "i = n")
  case True
  define k b where "k = 21 * n div 8" and "b = 21 * n mod 8"
  have p: "(256 :: int) ^ j = 2 ^ (8 * j)" for j by (simp add: power_mult)
  have "uint (drop_bit b (load_4 (drop k s))) = drop_bit b (le_val (drop k s))"
    using assms(1) load_le_val(2) [of "drop k s"] by (simp add: uint_drop_bit k_def)
  also have "\<dots> = drop_bit (b + 8 * k) (le_val s)"
    by (simp only: le_val_drop p drop_bit_eq_div [symmetric] drop_bit_drop_bit)
  also have "b + 8 * k = 21 * n" by (simp add: k_def b_def)
  finally show ?thesis using True by (simp add: sc_load_def nth_append k_def b_def)
next
  case False
  then have "i < n" using assms(2) by simp
  then have "21 * i div 8 + 4 \<le> length s" unfolding assms(1) [symmetric] by (intro add_right_mono div_le_mono) simp
  then show ?thesis using False \<open>i < n\<close> by (simp add: sc_load_def nth_append uint_sc_limb)
qed

lemma sc_load_val:
  assumes "21 * n div 8 + 4 = length s"
  shows "val (sc_weights (n + 1)) (sc_load n s) = le_val s"
  using digits_21 [where n = n and v = "le_val s"] by (simp add: val_sc_weights sc_load_nth [OF assms])

lemma sc_load_bounds:
  assumes "21 * n div 8 + 4 = length s" "i \<le> n"
  shows "0 \<le> sc_load n s ! i \<and> sc_load n s ! i < 2 ^ (if i = n then 8 * length s - 21 * n else 21)"
proof (cases "i = n")
  case True
  have "256 ^ length s = (2 :: int) ^ (8 * length s)" by (simp add: power_mult)
  then have "le_val s < 2 ^ (8 * length s)" using le_val_less [of s] by simp
  moreover have "21 * n \<le> 8 * length s" using assms(1) by linarith
  ultimately have "drop_bit (21 * n) (le_val s) < 2 ^ (8 * length s - 21 * n)"
    unfolding drop_bit_eq_div by (intro div_pow_less) simp
  then show ?thesis using True le_val_nonneg [of s] sc_load_nth [OF assms(1), of n] by simp
qed (use take_bit_int_less_exp [of 21 "drop_bit (21 * i) (le_val s)"] in \<open>simp add: sc_load_nth [OF assms]\<close>)

lemma sc_bytes_cancel:
  fixes h0 h1 h10 h11 h2 h3 h4 h5 h6 h7 h8 h9 q0_16 q0_8 q10_14 q10_6 q11_1 q11_17 q11_9 q1_11 q1_19 q1_3 q2_14 q2_6
    q3_1 q3_17 q3_9 q4_12 q4_20 q4_4 q5_15 q5_7 q6_10 q6_18 q6_2 q7_13 q7_5 q8_16 q8_8 q9_11 q9_19 q9_3 :: int
  shows "(h0 - 256 * q0_8) + 256 * ((q0_8 - 256 * q0_16) + 256 * ((q0_16 + 32 * (h1 - 8 * q1_3)) + 256 * ((q1_3 - 256 *
      q1_11) + 256 * ((q1_11 - 256 * q1_19) + 256 * ((q1_19 + 4 * (h2 - 64 * q2_6)) + 256 * ((q2_6 - 256 * q2_14) +
      256 * ((q2_14 + 128 * (h3 - 2 * q3_1)) + 256 * ((q3_1 - 256 * q3_9) + 256 * ((q3_9 - 256 * q3_17) + 256 *
      ((q3_17 + 16 * (h4 - 16 * q4_4)) + 256 * ((q4_4 - 256 * q4_12) + 256 * ((q4_12 - 256 * q4_20) + 256 * ((q4_20 +
      2 * (h5 - 128 * q5_7)) + 256 * ((q5_7 - 256 * q5_15) + 256 * ((q5_15 + 64 * (h6 - 4 * q6_2)) + 256 * ((q6_2 -
      256 * q6_10) + 256 * ((q6_10 - 256 * q6_18) + 256 * ((q6_18 + 8 * (h7 - 32 * q7_5)) + 256 * ((q7_5 - 256 *
      q7_13) + 256 * ((q7_13 - 256 * 0) + 256 * ((h8 - 256 * q8_8) + 256 * ((q8_8 - 256 * q8_16) + 256 * ((q8_16 + 32
      * (h9 - 8 * q9_3)) + 256 * ((q9_3 - 256 * q9_11) + 256 * ((q9_11 - 256 * q9_19) + 256 * ((q9_19 + 4 * (h10 - 64
      * q10_6)) + 256 * ((q10_6 - 256 * q10_14) + 256 * ((q10_14 + 128 * (h11 - 2 * q11_1)) + 256 * ((q11_1 - 256 *
      q11_9) + 256 * ((q11_9 - 256 * q11_17) + 256 * ((q11_17 - 256 * 0) + 256 * 0))))))))))))))))))))))))))))))) =
    h0 + 2097152 * h1 + 4398046511104 * h2 + 9223372036854775808 * h3 + 19342813113834066795298816 * h4 +
      40564819207303340847894502572032 * h5 + 85070591730234615865843651857942052864 * h6 +
      178405961588244985132285746181186892047843328 * h7 + 374144419156711147060143317175368453031918731001856 * h8 +
      784637716923335095479473677900958302012794430558004314112 * h9 +
      1645504557321206042154969182557350504982735865633579863348609024 * h10 +
      3450873173395281893717377931138512726225554486085193277581262111899648 * h11"
  by (simp add: algebra_simps)

lemma twelve_limbs:
  assumes "length h = 12"
  obtains h0 h1 h2 h3 h4 h5 h6 h7 h8 h9 h10 h11 where "h = [h0, h1, h2, h3, h4, h5, h6, h7, h8, h9, h10, h11]"
  using assms by (auto simp: length_Suc_conv eval_nat_numeral)

lemma length_sc_store [simp]: "length (sc_store h) = 32"
  by (simp add: sc_store_def)

lemma sc_store_val:
  assumes "length h = 12" "\<forall>i < 11. 0 \<le> h ! i \<and> h ! i < 2 ^ 21" "0 \<le> h ! 11" "h ! 11 < 2 ^ 22"
  shows "le_val (sc_store h) = val (sc_weights 12) h"
proof -
  obtain h0 h1 h2 h3 h4 h5 h6 h7 h8 h9 h10 h11 where H: "h = [h0, h1, h2, h3, h4, h5, h6, h7, h8, h9, h10, h11]"
    using twelve_limbs [OF assms(1)] by blast
  note b = assms(2) [rule_format, of 0] assms(2) [rule_format, of 1] assms(2) [rule_format, of 2] assms(2) [rule_format, of 3]
    assms(2) [rule_format, of 4] assms(2) [rule_format, of 5] assms(2) [rule_format, of 6] assms(2) [rule_format, of 7]
    assms(2) [rule_format, of 8] assms(2) [rule_format, of 9] assms(2) [rule_format, of 10]
  have r: "0 \<le> h0" "h0 < 2 ^ 21" "0 \<le> h1" "h1 < 2 ^ 21" "0 \<le> h2" "h2 < 2 ^ 21" "0 \<le> h3" "h3 < 2 ^ 21" "0 \<le> h4" "h4 < 2 ^ 21" "0 \<le> h5" "h5 < 2 ^ 21"
    "0 \<le> h6" "h6 < 2 ^ 21" "0 \<le> h7" "h7 < 2 ^ 21" "0 \<le> h8" "h8 < 2 ^ 21" "0 \<le> h9" "h9 < 2 ^ 21" "0 \<le> h10" "h10 < 2 ^ 21" "0 \<le> h11" "h11 < 2 ^ 22"
    using b assms(3,4) by (simp_all add: H)
  have j1: "(h0 div 65536 OR h1 * 32) mod 256 = h0 div 65536 + 32 * (h1 - 8 * (h1 div 8))"
    by (rule byte_joined [of _ 5]) (use r in simp_all)
  have j2: "(h1 div 524288 OR h2 * 4) mod 256 = h1 div 524288 + 4 * (h2 - 64 * (h2 div 64))"
    by (rule byte_joined [of _ 2]) (use r in simp_all)
  have j3: "(h2 div 16384 OR h3 * 128) mod 256 = h2 div 16384 + 128 * (h3 - 2 * (h3 div 2))"
    by (rule byte_joined [of _ 7]) (use r in simp_all)
  have j4: "(h3 div 131072 OR h4 * 16) mod 256 = h3 div 131072 + 16 * (h4 - 16 * (h4 div 16))"
    by (rule byte_joined [of _ 4]) (use r in simp_all)
  have j5: "(h4 div 1048576 OR h5 * 2) mod 256 = h4 div 1048576 + 2 * (h5 - 128 * (h5 div 128))"
    by (rule byte_joined [of _ 1]) (use r in simp_all)
  have j6: "(h5 div 32768 OR h6 * 64) mod 256 = h5 div 32768 + 64 * (h6 - 4 * (h6 div 4))"
    by (rule byte_joined [of _ 6]) (use r in simp_all)
  have j7: "(h6 div 262144 OR h7 * 8) mod 256 = h6 div 262144 + 8 * (h7 - 32 * (h7 div 32))"
    by (rule byte_joined [of _ 3]) (use r in simp_all)
  have j8: "(h8 div 65536 OR h9 * 32) mod 256 = h8 div 65536 + 32 * (h9 - 8 * (h9 div 8))"
    by (rule byte_joined [of _ 5]) (use r in simp_all)
  have j9: "(h9 div 524288 OR h10 * 4) mod 256 = h9 div 524288 + 4 * (h10 - 64 * (h10 div 64))"
    by (rule byte_joined [of _ 2]) (use r in simp_all)
  have j10: "(h10 div 16384 OR h11 * 128) mod 256 = h10 div 16384 + 128 * (h11 - 2 * (h11 div 2))"
    by (rule byte_joined [of _ 7]) (use r in simp_all)
  have m: "h0 mod 256 = h0 - 256 * (h0 div 256)" "h0 div 256 mod 256 = h0 div 256 - 256 * (h0 div 65536)"
    "h1 div 8 mod 256 = h1 div 8 - 256 * (h1 div 2048)" "h1 div 2048 mod 256 = h1 div 2048 - 256 * (h1 div 524288)"
    "h2 div 64 mod 256 = h2 div 64 - 256 * (h2 div 16384)" "h3 div 2 mod 256 = h3 div 2 - 256 * (h3 div 512)"
    "h3 div 512 mod 256 = h3 div 512 - 256 * (h3 div 131072)" "h4 div 16 mod 256 = h4 div 16 - 256 * (h4 div 4096)"
    "h4 div 4096 mod 256 = h4 div 4096 - 256 * (h4 div 1048576)" "h5 div 128 mod 256 = h5 div 128 - 256 * (h5 div 32768)"
    "h6 div 4 mod 256 = h6 div 4 - 256 * (h6 div 1024)" "h6 div 1024 mod 256 = h6 div 1024 - 256 * (h6 div 262144)"
    "h7 div 32 mod 256 = h7 div 32 - 256 * (h7 div 8192)" "h7 div 8192 mod 256 = h7 div 8192 - 256 * (h7 div 2097152)"
    "h8 mod 256 = h8 - 256 * (h8 div 256)" "h8 div 256 mod 256 = h8 div 256 - 256 * (h8 div 65536)"
    "h9 div 8 mod 256 = h9 div 8 - 256 * (h9 div 2048)" "h9 div 2048 mod 256 = h9 div 2048 - 256 * (h9 div 524288)"
    "h10 div 64 mod 256 = h10 div 64 - 256 * (h10 div 16384)" "h11 div 2 mod 256 = h11 div 2 - 256 * (h11 div 512)"
    "h11 div 512 mod 256 = h11 div 512 - 256 * (h11 div 131072)" "h11 div 131072 mod 256 = h11 div 131072 - 256 * (h11 div 33554432)"
    by (rule byte_at minus_mult_div_eq_mod [symmetric], simp?)+
  have t: "h7 div 2097152 = 0" "h11 div 33554432 = 0" using r by simp_all
  have v: "val (sc_weights 12) h = h0 + 2097152 * h1 + 4398046511104 * h2 + 9223372036854775808 * h3 + 19342813113834066795298816 * h4 +
      40564819207303340847894502572032 * h5 + 85070591730234615865843651857942052864 * h6 +
      178405961588244985132285746181186892047843328 * h7 + 374144419156711147060143317175368453031918731001856 * h8 +
      784637716923335095479473677900958302012794430558004314112 * h9 +
      1645504557321206042154969182557350504982735865633579863348609024 * h10 +
      3450873173395281893717377931138512726225554486085193277581262111899648 * h11"
    by (simp add: H sc_weights_def upt_rec)
  have s: "sc_store h = map word_of_int [h0, h0 div 256, h0 div 65536 OR h1 * 32, h1 div 8, h1 div 2048, h1 div 524288 OR h2 * 4, h2 div 64, h2 div 16384
      OR h3 * 128, h3 div 2, h3 div 512, h3 div 131072 OR h4 * 16, h4 div 16, h4 div 4096, h4 div 1048576 OR h5 * 2,
      h5 div 128, h5 div 32768 OR h6 * 64, h6 div 4, h6 div 1024, h6 div 262144 OR h7 * 8, h7 div 32, h7 div 8192, h8,
      h8 div 256, h8 div 65536 OR h9 * 32, h9 div 8, h9 div 2048, h9 div 524288 OR h10 * 4, h10 div 64, h10 div 16384
      OR h11 * 128, h11 div 2, h11 div 512, h11 div 131072]"
    by (simp add: sc_store_def H)
  show ?thesis
    unfolding v s list.map le_val.simps byte_of j1 j2 j3 j4 j5 j6 j7 j8 j9 j10 m t by (rule sc_bytes_cancel)
qed

lemma sc_val_range:
  assumes "\<forall>i < n. 0 \<le> h ! i \<and> h ! i < 2 ^ 21"
  shows "0 \<le> (\<Sum>i < n. 2 ^ (21 * i) * h ! i)" "(\<Sum>i < n. 2 ^ (21 * i) * h ! i) < (2 ^ (21 * n) :: int)"
proof -
  show "0 \<le> (\<Sum>i < n. 2 ^ (21 * i) * h ! i)" using assms by (intro sum_nonneg mult_nonneg_nonneg) auto
  show "(\<Sum>i < n. 2 ^ (21 * i) * h ! i) < (2 ^ (21 * n) :: int)"
    using assms
  proof (induction n)
    case (Suc n)
    have "h ! n \<le> 2 ^ 21 - 1" using Suc.prems(1) by auto
    then have "2 ^ (21 * n) * h ! n \<le> 2 ^ (21 * n) * (2 ^ 21 - 1)" by (intro mult_left_mono) simp_all
    moreover have "(\<Sum>i < n. 2 ^ (21 * i) * h ! i) < 2 ^ (21 * n)" using Suc by simp
    ultimately have "(\<Sum>i < Suc n. 2 ^ (21 * i) * h ! i) < 2 ^ (21 * n) + 2 ^ (21 * n) * (2 ^ 21 - 1)"
      unfolding sum.lessThan_Suc by (intro add_less_le_mono)
    also have "\<dots> = (2 ^ (21 * Suc n) :: int)" by (simp add: power_add)
    finally show ?case .
  qed simp
qed

lemma sc_val_split:
  assumes "length s = 24" "\<forall>i \<in> {13..<24}. s ! i = 0"
  shows "val (sc_weights 24) s = (\<Sum>i < 12. 2 ^ (21 * i) * s ! i) + 2 ^ 252 * s ! 12"
proof -
  have "val (sc_weights 24) s = (\<Sum>i < 24. 2 ^ (21 * i) * s ! i)" using assms(1) by (rule val_sc_weights)
  also have "\<dots> = (\<Sum>i < 13. 2 ^ (21 * i) * s ! i)"
    using assms(2) by (intro sum.mono_neutral_right) auto
  also have "\<dots> = (\<Sum>i < 12. 2 ^ (21 * i) * s ! i) + 2 ^ (21 * 12) * s ! 12"
    using sum.lessThan_Suc [of "\<lambda>i. 2 ^ (21 * i) * s ! i" 12] by simp
  finally show ?thesis by simp
qed

definition sc_last_ivls :: ivls where
  "sc_last_ivls = replicate 11 (0, 2097151) @ [(- 1, 2097152)] @ replicate 12 (0, 0)"

lemma sc_last_limits:
  "asteps (map sc_afold [12] @ map sc_afloor [0, 1, 2, 3, 4, 5, 6, 7, 8, 9, 10] @ []) sc_quotient_ivls = Some sc_last_ivls"
  unfolding sc_last_ivls_def sc_quotient_ivls_def by code_simp

lemma sound_last:
  "sound (steps (map sc_fold [12] @ map sc_floor [0, 1, 2, 3, 4, 5, 6, 7, 8, 9, 10] @ []))
    (asteps (map sc_afold [12] @ map sc_afloor [0, 1, 2, 3, 4, 5, 6, 7, 8, 9, 10] @ []))"
  unfolding asteps_eq [abs_def]
  by (intro sound_steps sound_segment sound_sc_steps list_all2_Nil [THEN iffD2] refl)

lemma less_24: "(i :: nat) < 24 \<Longrightarrow> i < 12 \<or> i = 12 \<or> i \<in> {13..<24}"
  by auto

lemma within_quotient:
  assumes "within s sc_quotient_ivls"
  shows "length s = 24" "\<forall>i < 12. 0 \<le> s ! i \<and> s ! i < 2 ^ 21" "s ! 12 = - 1 \<or> s ! 12 = 0" "\<forall>i \<in> {13..<24}. s ! i = 0"
proof -
  show l: "length s = 24" using within_length [OF assms] by (simp add: sc_quotient_ivls_def)
  have n: "case sc_quotient_ivls ! i of (l, h) \<Rightarrow> l \<le> s ! i \<and> s ! i \<le> h" if "i < 24" for i
    using within_nth [OF assms, of i] that by (auto simp: sc_quotient_ivls_def split: prod.split)
  show "\<forall>i < 12. 0 \<le> s ! i \<and> s ! i < 2 ^ 21"
  proof (intro allI impI)
    fix i assume "i < (12 :: nat)"
    then show "0 \<le> s ! i \<and> s ! i < 2 ^ 21" using n [of i] by (simp add: sc_quotient_ivls_def nth_append)
  qed
  show "s ! 12 = - 1 \<or> s ! 12 = 0" using n [of 12] by (auto simp: sc_quotient_ivls_def nth_append)
  show "\<forall>i \<in> {13..<24}. s ! i = 0"
  proof
    fix i assume "i \<in> {13..<24 :: nat}"
    then show "s ! i = 0" using n [of i] by (auto simp: sc_quotient_ivls_def nth_append nth_Cons split: nat.splits)
  qed
qed

lemma within_last:
  assumes "within s sc_last_ivls"
  shows "length s = 24" "\<forall>i < 11. 0 \<le> s ! i \<and> s ! i < 2 ^ 21" "s ! 11 < 2 ^ 22" "\<forall>i \<in> {12..<24}. s ! i = 0"
proof -
  show l: "length s = 24" using within_length [OF assms] by (simp add: sc_last_ivls_def)
  have n: "case sc_last_ivls ! i of (l, h) \<Rightarrow> l \<le> s ! i \<and> s ! i \<le> h" if "i < 24" for i
    using within_nth [OF assms, of i] that by (auto simp: sc_last_ivls_def split: prod.split)
  show "\<forall>i < 11. 0 \<le> s ! i \<and> s ! i < 2 ^ 21"
  proof (intro allI impI)
    fix i assume "i < (11 :: nat)"
    then show "0 \<le> s ! i \<and> s ! i < 2 ^ 21" using n [of i] by (simp add: sc_last_ivls_def nth_append)
  qed
  show "s ! 11 < 2 ^ 22" using n [of 11] by (auto simp: sc_last_ivls_def nth_append)
  show "\<forall>i \<in> {12..<24}. s ! i = 0"
  proof
    fix i assume "i \<in> {12..<24 :: nat}"
    then show "s ! i = 0" using n [of i] by (auto simp: sc_last_ivls_def nth_append nth_Cons split: nat.splits)
  qed
qed

text \<open>
  The first part leaves the number as a quotient by \<open>2 ^ 252\<close>, which is 0 or -1, and a remainder; taking the quotient times the order away
  gives a number between 0 and the order.
\<close>

lemma sc_reduce_limbs_ok:
  assumes "sc_afirst B = Some sc_quotient_ivls" "within s B" "length s = 24"
  shows "\<exists>r. sc_reduce_limbs s = Some r \<and> le_val (sc_store r) = val (sc_weights 24) s mod sc_order"
proof -
  let ?ws = "sc_weights 24"
  obtain s1 where s1: "sc_first s = Some s1" "within s1 sc_quotient_ivls" using soundD [OF sound_first assms(1,2)] by blast
  note w1 = within_quotient [OF s1(2)]
  have v1: "val ?ws s1 mod sc_order = val ?ws s mod sc_order" using congruentD [OF congruent_sc_first s1(1)] assms(3) by simp
  obtain s3 where s3: "steps (map sc_fold [12] @ map sc_floor [0, 1, 2, 3, 4, 5, 6, 7, 8, 9, 10] @ []) s1 = Some s3" "within s3 sc_last_ivls"
    using soundD [OF sound_last sc_last_limits s1(2)] by blast
  then obtain s2 where s2: "sc_fold 12 s1 = Some s2" "steps (map sc_floor [0, 1, 2, 3, 4, 5, 6, 7, 8, 9, 10]) s2 = Some s3"
    by (auto simp: bind_eq_Some_conv)
  note w3 = within_last [OF s3(2)]
  have r: "sc_reduce_limbs s = Some s3" using s1(1) s2 by (simp add: sc_reduce_limbs_parts)
  have v2: "val ?ws s2 = val ?ws s1 - sc_order * s1 ! 12" "length s2 = 24" using sc_fold_val [OF s2(1)] w1(1) by simp_all
  have v3: "val ?ws s3 = val ?ws s2" using congruentD [OF congruent_sc_last [of 0] s2(2)] v2(2) by simp
  define low where "low = (\<Sum>i < 12. 2 ^ (21 * i) * s1 ! i)"
  have low: "0 \<le> low" "low < 2 ^ 252" using sc_val_range [OF w1(2)] by (simp_all add: low_def)
  have "val ?ws s1 = low + 2 ^ 252 * s1 ! 12" using sc_val_split [OF w1(1) w1(4)] by (simp add: low_def)
  then have e: "val ?ws s3 = low + (2 ^ 252 - sc_order) * s1 ! 12" by (simp add: v3 v2 left_diff_distrib)
  have range: "0 \<le> val ?ws s3" "val ?ws s3 < sc_order"
    using w1(3) low unfolding e by (auto simp: sc_order_def)
  have "val ?ws s3 mod sc_order = val ?ws s mod sc_order"
    unfolding v3 v2(1) v1 [symmetric] by (simp add: mod_diff_eq [symmetric])
  then have v: "val ?ws s3 = val ?ws s mod sc_order" using range by simp
  define h where "h = take 12 s3"
  have h: "length h = 12" "\<And>i. i < 12 \<Longrightarrow> h ! i = s3 ! i" using w3(1) by (simp_all add: h_def)
  have hs: "\<forall>i < 11. 0 \<le> h ! i \<and> h ! i < 2 ^ 21" using w3(2) h(2) by simp
  have vh: "val ?ws s3 = val (sc_weights 12) h"
    using sc_val_split [OF w3(1)] w3(4) h by (simp add: val_sc_weights)
  also have "\<dots> = (\<Sum>i < 11. 2 ^ (21 * i) * h ! i) + 2 ^ 231 * h ! 11"
    using sum.lessThan_Suc [of "\<lambda>i. 2 ^ (21 * i) * h ! i" 11] h(1) by (simp add: val_sc_weights)
  finally have "- (2 ^ 231) < 2 ^ 231 * h ! 11" using sc_val_range(2) [OF hs] range(1) by simp
  then have "0 \<le> h ! 11" by simp
  then have "le_val (sc_store h) = val (sc_weights 12) h" using sc_store_val [OF h(1) hs] w3(3) h(2) by simp
  moreover have "sc_store s3 = sc_store h" by (simp add: sc_store_def h(2))
  ultimately show ?thesis using r v vh by simp
qed

lemma sc_reduce_ok:
  assumes "length s = 64"
  shows "\<exists>r. sc_reduce s = Some r \<and> length r = 32 \<and> le_val r = le_val s mod sc_order"
proof -
  let ?s = "sc_load 23 s"
  have b: "21 * 23 div 8 + 4 = length s" using assms by simp
  have "\<bar>x\<bar> \<le> 536870912" if x: "x \<in> set ?s" for x
  proof -
    obtain i where "i < length ?s" and i2: "x = ?s ! i" using x unfolding in_set_conv_nth by metis
    then have i1: "i \<le> 23" by simp
    show ?thesis using sc_load_bounds [OF b i1] assms unfolding i2 by (auto split: if_splits)
  qed
  then have "within ?s (replicate 24 (- 536870912, 536870912))" using within_replicate [of ?s 536870912] by simp
  from sc_reduce_limbs_ok [OF sc_first_limits this] obtain r where
    "sc_reduce_limbs ?s = Some r" "le_val (sc_store r) = val (sc_weights 24) ?s mod sc_order" by auto
  moreover have "val (sc_weights 24) ?s = le_val s" using sc_load_val [OF b] by simp
  ultimately show ?thesis by (simp add: sc_reduce_def)
qed

section \<open>Products\<close>

definition sc_term :: "limbs \<Rightarrow> limbs \<Rightarrow> nat \<Rightarrow> nat \<Rightarrow> int" where
  "sc_term a b k i = (if i \<le> k \<and> k - i < 12 then a ! i * b ! (k - i) else 0)"

lemma sum_list_filter_upt: "sum_list (map f (filter P [0..<n])) = (\<Sum>i < n. if P i then f i else (0 :: int))"
  by (induction n) simp_all

lemma sc_products_entry:
  assumes "\<forall>i < 12. \<bar>a ! i\<bar> \<le> 33554432" "\<forall>i < 12. \<bar>b ! i\<bar> \<le> 33554432" "\<bar>c\<bar> \<le> 33554432"
  shows "dot_from 64 c (map (\<lambda>i. (a ! i, b ! (k - i))) (filter (\<lambda>i. i \<le> k \<and> k - i < 12) [0..<12])) =
      Some (c + (\<Sum>i < 12. sc_term a b k i))"
    "\<bar>c + (\<Sum>i < 12. sc_term a b k i)\<bar> \<le> 18014398509481984"
proof -
  let ?is = "filter (\<lambda>i. i \<le> k \<and> k - i < 12) [0..<12]"
  let ?ps = "map (\<lambda>i. (a ! i, b ! (k - i))) ?is"
  have p: "products ?ps = (\<Sum>i < 12. sc_term a b k i)"
    by (simp add: products_def o_def sum_list_filter_upt sc_term_def)
  have ab: "\<forall>(x, y) \<in> set ?ps. \<bar>x\<bar> \<le> 33554432 \<and> \<bar>y\<bar> \<le> 33554432" using assms(1,2) by auto
  have l: "length ?ps \<le> 12" using length_filter_le [of _ "[0..<12]"] by simp
  then have n: "\<bar>c\<bar> + int (length ?ps) * (33554432 * 33554432) \<le> 33554432 + 12 * (33554432 * 33554432)"
    using assms(3) by (intro add_mono mult_right_mono) simp_all
  also have "\<dots> < 2 ^ (64 - 1)" by simp
  finally have m: "\<bar>c\<bar> + int (length ?ps) * (33554432 * 33554432) < 2 ^ (64 - 1)" .
  from dot_from_bounded [OF ab _ m] n p
  show "dot_from 64 c ?ps = Some (c + (\<Sum>i < 12. sc_term a b k i))" "\<bar>c + (\<Sum>i < 12. sc_term a b k i)\<bar> \<le> 18014398509481984"
    by simp_all
qed

text \<open>The sums are the product of the numbers, written as polynomials in \<open>2 ^ 21\<close>.\<close>

lemma sc_term_sum:
  assumes "i < 12"
  shows "(\<Sum>k < 23. 2 ^ (21 * k) * sc_term a b k i) = 2 ^ (21 * i) * a ! i * (\<Sum>j < 12. 2 ^ (21 * j) * b ! j)"
proof -
  have "(\<Sum>k < 23. 2 ^ (21 * k) * sc_term a b k i) = (\<Sum>k \<in> {i..<i + 12}. 2 ^ (21 * k) * sc_term a b k i)"
    using assms by (intro sum.mono_neutral_right) (auto simp: sc_term_def)
  also have "\<dots> = (\<Sum>k \<in> {0 + i..<12 + i}. 2 ^ (21 * k) * sc_term a b k i)" by (simp add: add.commute)
  also have "\<dots> = (\<Sum>j \<in> {0..<12}. 2 ^ (21 * (j + i)) * sc_term a b (j + i) i)" by (rule sum.shift_bounds_nat_ivl)
  also have "\<dots> = (\<Sum>j < 12. 2 ^ (21 * i) * a ! i * (2 ^ (21 * j) * b ! j))"
    by (intro sum.cong) (auto simp: sc_term_def power_add distrib_left ac_simps)
  finally show ?thesis by (simp add: sum_distrib_left)
qed

lemma sc_products_ok:
  assumes "length a = 12" "length b = 12" "length c = 12"
    "\<forall>i < 12. \<bar>a ! i\<bar> \<le> 33554432" "\<forall>i < 12. \<bar>b ! i\<bar> \<le> 33554432" "\<forall>i < 12. \<bar>c ! i\<bar> \<le> 33554432"
  obtains s where "sc_products a b c = Some s" "length s = 23" "\<forall>x \<in> set s. \<bar>x\<bar> \<le> 18014398509481984"
    "val (sc_weights 23) s = val (sc_weights 12) a * val (sc_weights 12) b + val (sc_weights 12) c"
proof -
  define d where "d k = (if k < 12 then c ! k else 0)" for k
  have d: "\<bar>d k\<bar> \<le> 33554432" for k using assms(6) by (simp add: d_def)
  note e = sc_products_entry [OF assms(4,5) d]
  let ?s = "map (\<lambda>k. d k + (\<Sum>i < 12. sc_term a b k i)) [0..<23]"
  have s: "sc_products a b c = Some ?s"
    unfolding sc_products_def d_def [symmetric] by (rule those_map_Some) (rule e(1))
  have "val (sc_weights 23) ?s = (\<Sum>k < 23. 2 ^ (21 * k) * d k) + (\<Sum>k < 23. \<Sum>i < 12. 2 ^ (21 * k) * sc_term a b k i)"
    by (simp add: val_sc_weights distrib_left sum.distrib sum_distrib_left)
  also have "(\<Sum>k < 23. \<Sum>i < 12. 2 ^ (21 * k) * sc_term a b k i) = (\<Sum>i < 12. \<Sum>k < 23. 2 ^ (21 * k) * sc_term a b k i)"
    by (rule sum.swap)
  also have "\<dots> = (\<Sum>i < 12. 2 ^ (21 * i) * a ! i * (\<Sum>j < 12. 2 ^ (21 * j) * b ! j))"
    by (intro sum.cong refl sc_term_sum) simp
  also have "\<dots> = val (sc_weights 12) a * val (sc_weights 12) b"
    by (simp add: val_sc_weights assms sum_distrib_right)
  also have "(\<Sum>k < 23. 2 ^ (21 * k) * d k) = (\<Sum>k < 12. 2 ^ (21 * k) * d k)"
    by (intro sum.mono_neutral_right) (auto simp: d_def)
  also have "\<dots> = val (sc_weights 12) c" by (simp add: val_sc_weights assms d_def)
  finally have "val (sc_weights 23) ?s = val (sc_weights 12) a * val (sc_weights 12) b + val (sc_weights 12) c" by simp
  then show thesis using that [OF s] e(2) by auto
qed

lemma sc_muladd_ok:
  assumes "length a = 32" "length b = 32" "length c = 32"
  shows "\<exists>r. sc_muladd a b c = Some r \<and> length r = 32 \<and> le_val r = (le_val a * le_val b + le_val c) mod sc_order"
proof -
  have l: "\<forall>i < 12. \<bar>sc_load 11 x ! i\<bar> \<le> 33554432" "val (sc_weights 12) (sc_load 11 x) = le_val x" if "length x = 32" for x
  proof -
    have b: "21 * 11 div 8 + 4 = length x" using that by simp
    show "\<forall>i < 12. \<bar>sc_load 11 x ! i\<bar> \<le> 33554432"
    proof (intro allI impI)
      fix i assume "i < (12 :: nat)"
      then have "i \<le> 11" by simp
      from sc_load_bounds [OF b this] show "\<bar>sc_load 11 x ! i\<bar> \<le> 33554432" using that by (auto split: if_splits)
    qed
    show "val (sc_weights 12) (sc_load 11 x) = le_val x" using sc_load_val [OF b] by simp
  qed
  obtain s where s: "sc_products (sc_load 11 a) (sc_load 11 b) (sc_load 11 c) = Some s" "length s = 23"
    "\<forall>x \<in> set s. \<bar>x\<bar> \<le> 18014398509481984" "val (sc_weights 23) s = le_val a * le_val b + le_val c"
    using sc_products_ok [of "sc_load 11 a" "sc_load 11 b" "sc_load 11 c"] l assms by (metis length_sc_load numeral_plus_one semiring_norm(5,8))
  let ?B = "replicate 23 (- 18014398509481984, 18014398509481984) @ [(0, 0)]"
  have w: "within (s @ [0]) ?B"
    using within_replicate [OF s(3)] s(2) by (simp add: within_def list_all2_appendI)
  obtain B' where B': "asteps (map sc_around sc_mul_rounds) ?B = Some B'" "sc_afirst B' = Some sc_quotient_ivls"
    using sc_mul_limits by (auto simp: bind_eq_Some_conv)
  have snd: "sound (steps (map sc_round sc_mul_rounds)) (asteps (map sc_around sc_mul_rounds))"
    unfolding asteps_eq [abs_def] by (rule sound_steps_map) (rule sound_sc_steps)
  obtain s' where s': "steps (map sc_round sc_mul_rounds) (s @ [0]) = Some s'" "within s' B'" using soundD [OF snd B'(1) w] by blast
  have c: "length s' = 24" "val (sc_weights 24) s' = val (sc_weights 24) (s @ [0])"
    using congruentD [OF congruent_sc_mul_rounds [of 0] s'(1)] s(2) by simp_all
  have "val (sc_weights 24) (s @ [0]) = val (sc_weights 23) s"
    using sum.lessThan_Suc [of "\<lambda>i. 2 ^ (21 * i) * (s @ [0]) ! i" 23] s(2) by (simp add: val_sc_weights nth_append)
  then have v: "val (sc_weights 24) s' = le_val a * le_val b + le_val c" using c(2) s(4) by simp
  from sc_reduce_limbs_ok [OF B'(2) s'(2) c(1)] obtain r where
    "sc_reduce_limbs s' = Some r" "le_val (sc_store r) = (le_val a * le_val b + le_val c) mod sc_order" unfolding v by blast
  moreover from this have "sc_muladd a b c = Some (sc_store r)"
    by (simp only: sc_muladd_def sc_mul_rounds_def [symmetric] s(1) s'(1) bind.bind_lunit option.map)
  ultimately show ?thesis by simp
qed

section \<open>Properties\<close>

text \<open>
  C40. On any 64 bytes \<open>sc_reduce\<close> overflows nowhere and leaves the remainder of the number by the order of the base point, fully reduced;
  \<open>sc_muladd\<close> does so for \<open>a * b + c\<close> of any three times 32 bytes.
\<close>

theorem scalars_reduced:
  assumes "length s = 64" "length a = 32" "length b = 32" "length c = 32"
  shows "(\<exists>r. sc_reduce s = Some r \<and> length r = 32 \<and> le_val r = le_val s mod sc_order) \<and>
    (\<exists>r. sc_muladd a b c = Some r \<and> length r = 32 \<and> le_val r = (le_val a * le_val b + le_val c) mod sc_order)"
  using sc_reduce_ok [OF assms(1)] sc_muladd_ok [OF assms(2-4)] by blast

theorem scalars_reduced_witness:
  "let s = replicate 64 255; a = replicate 32 255; b = 1 # replicate 31 7 in
   (\<exists>r. sc_reduce s = Some r \<and> length r = 32 \<and> le_val r = le_val s mod sc_order) \<and>
   (\<exists>r. sc_muladd a b a = Some r \<and> length r = 32 \<and> le_val r = (le_val a * le_val b + le_val a) mod sc_order)"
  unfolding Let_def by (rule scalars_reduced) simp_all

end
