(* ===== verification/Spec2Isabelle.thy ===== *)
theory Spec2Isabelle
  imports Miner Tools Logger Startup Sha256 Pufferfish2 Scalar
begin

text \<open>
  A model of the Pandanite node (\<open>src/\<close>): its ledger, the execution of blocks, the chain with
  its proof of work, the mempool, the peers, the HTTP server and the miner, with the theorems that
  make them correct or say where they are not.

  \<^bold>\<open>The program.\<close> A \<open>PandaniteServer\<close> passes HTTP requests to a \<open>RequestManager\<close>, which owns a
  \<open>BlockChain\<close>, a \<open>MemPool\<close>, a \<open>HostManager\<close> and a \<open>RateLimiter\<close>. \<open>BlockChain::addBlock\<close> checks a
  block (number, difficulty, proof of work, previous hash, time, Merkle root), lets \<open>Executor\<close> run its
  transactions on the \<open>Ledger\<close>, and stores it (\<open>BlockStore\<close>, \<open>TransactionStore\<close>); \<open>popBlock\<close>
  takes the last block back. The host manager keeps a \<open>HeaderChain\<close> for each peer, and
  \<open>startChainSync\<close> fetches blocks from the peer with the most work. The miner asks a node for its
  problem, builds a block, mines it and submits it.

  \<^bold>\<open>How code is modelled.\<close> A statement over a state \<open>'s\<close> is a function \<open>'s \<Rightarrow> (exn + 'a) \<times> 's\<close>
  (theory \<open>Prelude\<close>), so that what was written before a \<open>throw\<close> stays written; an operation of a
  member is lifted to its owner with \<open>zoom\<close>. Exceptions, undefined behaviour, a deadlock on a
  mutex the thread owns, and \<open>exit\<close> are values of \<open>exn\<close>. Machine integers are words or, where
  the code's \<open>int\<close> is meant to stay in range, integers with the overflow written out or excluded
  in the text of the theory. Memory that a constructor leaves uninitialised is an argument: no copy of a
  transaction copies its \<open>nonce\<close>, which the hash covers. Maps of the standard library are
  association lists in key order (locale \<open>ordered_map\<close>). The locales \<open>codec\<close> (fixed-size
  records and their readers) and \<open>account_book\<close> (operations on balances) are interpreted on the
  code's own operations, and the proofs above them rest on those interpretations.

  \<^bold>\<open>Theories and sources\<close>, bottom up:
  \<^item> \<open>Prelude\<close>, \<open>Buffers\<close>, \<open>Stores\<close>: statements and loops; \<open>core/helpers.cpp\<close> (network byte order);
    LevelDB as the parameter \<open>kv\<close>, with its documented laws \<open>kv_ok\<close>, and \<open>server/data_store.cpp\<close>.
  \<^item> \<open>Crypto\<close>, \<open>Pufferfish\<close>: \<open>core/crypto.cpp\<close>, \<open>server/pufferfish_cache.cpp\<close>; digests, signatures and
    the Pufferfish2 function are the parameter \<open>crypto\<close>.
  \<^item> \<open>Digest\<close>, \<open>Sha256\<close>: \<open>external/sha256/sha2.cpp\<close> and \<open>SHA256Fast\<close>, with the standard they implement; the locale
    \<open>block_hash\<close> is what digests that work block by block share. \<open>Pufferfish2\<close>: \<open>external/pufferfish/pufferfish.h\<close>.
  \<^item> \<open>Limbs\<close>, \<open>FieldElement\<close>, \<open>FieldBytes\<close>, \<open>Scalar\<close>: \<open>external/ed25519/fe.c\<close> and \<open>sc.c\<close>, with checked 32- and 64-bit arithmetic; intervals of
    the limbs are evaluated along the code (\<open>acarry\<close>, \<open>sound\<close>), and \<open>congruent\<close> says that carries keep the number.
  \<^item> \<open>Transaction\<close>, \<open>Block\<close>, \<open>MerkleTree\<close>: the files of those names under \<open>core\<close>.
  \<^item> \<open>Ledger\<close>, \<open>TxStore\<close>, \<open>BlockStore\<close>: \<open>server/ledger.cpp\<close>, \<open>server/tx_store.cpp\<close>,
    \<open>server/block_store.cpp\<close>.
  \<^item> \<open>Executor\<close> with \<open>Accounting\<close>, \<open>Execution\<close> and \<open>Undo\<close>: \<open>server/executor.cpp\<close>, a specification of
    payments on maps from wallets to amounts, and the proofs that the executor implements it.
  \<^item> \<open>Bigint\<close>, \<open>Emission\<close>, \<open>Difficulty\<close>: the total work (\<open>external/bigint\<close>), the mining fee with its
    floating-point arithmetic, and \<open>computeDifficulty\<close>.
  \<^item> \<open>Chain\<close>, \<open>ChainBlocks\<close>, \<open>ChainProperties\<close>, \<open>ChainSync\<close>: \<open>server/blockchain.cpp\<close>.
  \<^item> \<open>MemPool\<close>, \<open>Admission\<close>: \<open>server/mempool.cpp\<close>; the steps of a node are the relation \<open>node_step\<close>.
  \<^item> \<open>Json\<close>, \<open>Api\<close>, \<open>Config\<close>: JSON values and the conversions to and from them (also
    \<open>core/user.cpp\<close>), \<open>core/api.cpp\<close>, \<open>core/config.cpp\<close>.
  \<^item> \<open>HeaderChain\<close>, \<open>HostManager\<close>, \<open>RateLimiter\<close>: \<open>core/header_chain.cpp\<close>, \<open>core/host_manager.cpp\<close>
    (its life is the relation \<open>hm_reachable\<close>), \<open>server/rate_limiter.cpp\<close>.
  \<^item> \<open>RequestManager\<close>, \<open>Server\<close>: \<open>server/request_manager.cpp\<close> and every handler and the routes of
    \<open>server/server.cpp\<close>; what a handler sends is a list of actions.
  \<^item> \<open>Startup\<close>: the constructors of \<open>BlockChain\<close> and \<open>RequestManager\<close>, and \<open>PandaniteServer::run\<close> up
    to the event loop.
  \<^item> \<open>Logger\<close>: \<open>core/logger.hpp\<close>.
  \<^item> \<open>Miner\<close>, \<open>Tools\<close>: a round of \<open>tools/miner.cpp\<close>, and \<open>keygen\<close>, \<open>tx\<close>, \<open>cli\<close> and \<open>loader\<close>.
\<close>

text \<open>
  \<^bold>\<open>What is shown.\<close>
  \<^item> Blocks: what an accepted block satisfied and changed, that a refused block changes
    no balance and no store, that the supply grows by the mining fee and nothing else, that a valid block
    is accepted (where the difficulty is not set anew), that popping undoes adding, that a
    restart finds the chain again, that the first node of a network starts with the genesis block,
    and that the block a miner makes of a node's problem is accepted and paid.
  \<^item> Execution: deltas account for every change of a balance on every way out; a block is
    executed without exception under conditions that are spelled out; \<open>RollbackBlock\<close> is
    its inverse; \<open>Rollback\<close> restores the balances only when no wallet lost money.
  \<^item> Data: wire, storage and JSON forms read back; the blocks one node serves are those another
    reads; Merkle proofs; the signed bytes determine a transaction; the index of a wallet.
  \<^item> Numbers: adding and removing work, the schedule of the fee, the retargeting, the network time.
  \<^item> Cryptography: the SHA-256 of the library is that of the standard, in any pieces; the settings and hash
    \<open>pf_newhash\<close> prints are read back by \<open>pf_checkpass\<close>; the field of Ed25519 is computed without
    overflow, modulo 2^255 - 19, with canonical bytes, and the scalars modulo the order of the base point.
  \<^item> Peers and requests: invariants of the host manager in every reachable state; what a header
    chain vouches for; GET requests change nothing.
  \<^item> Where the code fails: the mempool admits nothing, verification debits the sender, the hash cache
    ignores the nonce, synchronisation deadlocks, requests that are never answered.

  \<^bold>\<open>Bounds and termination.\<close> Every loop is a total function but two: \<open>mineHash\<close> and the routines of
    \<open>Bigint\<close> that may run for ever are \<open>partial_function (option)\<close> or return \<open>None\<close>, and the
    theorems say when they return. No fuel is used.

  \<^bold>\<open>Concurrency.\<close> Operations run one after the other. The mutex of the chain is part of its
    state (\<open>c_locked\<close>), because the code locks it twice in one thread; the other mutexes are held for
    whole operations. Threads that only send messages are the list of what they send, and the round of
    a thread that changes state is an operation (\<open>chain_sync_round\<close>, \<open>mempool_sync_step\<close>, \<open>retry\<close>).
    Interleavings are sequences of steps of \<open>node_step\<close> and \<open>hm_reachable\<close>.

  \<^bold>\<open>Not modelled.\<close> JSON text, the HTTP client, RIPEMD-160, OpenSSL, LevelDB, the socket library, and of Ed25519
    the group and SHA-512 are parameters. Opening, closing and deleting
    databases, the start of threads, signal handlers and the
    \<open>main\<close> functions that only start a component are input and output. The genesis block
    (\<open>server/genesis.hpp\<close>) is data and an argument. The tests are not modelled.
\<close>

end
